(* ===== verification/Prelude.thy ===== *)
theory Prelude
  imports Main "HOL-Library.Word" "HOL-Library.Monad_Syntax"
begin

text \<open>
  Shared vocabulary of the development: bytes and machine words, big and little endian
  encodings (Rust's \<open>to_be_bytes\<close>, \<open>to_le_bytes\<close> and their inverses), checked slices,
  and generic facts on lists, sums and finite maps.

  Conventions.  A \<open>u8\<close>, \<open>u32\<close> or \<open>u64\<close> of the source is a word of that width, with the
  wrap-around of the release profile (the workspace sets no \<open>overflow-checks\<close>).  A fallible
  function returns \<open>option\<close> or \<open>error + 'a\<close>; a panic is an error value of its own.
\<close>

section \<open>Machine types\<close>

type_synonym u8 = "8 word"
type_synonym u32 = "32 word"
type_synonym u64 = "64 word"
type_synonym bytes = "u8 list"

text \<open>A 32 byte hash (\<open>FullHash\<close>, \<open>Txid\<close>, \<open>BlockHash\<close>, \<open>sha256d::Hash\<close>).\<close>

type_synonym hash32 = bytes

definition str_bytes :: "string \<Rightarrow> bytes" where
  "str_bytes s = map of_char s"

named_theorems codec_simps \<open>encoder and decoder facts\<close>
named_theorems map_simps \<open>tables as finite maps\<close>

section \<open>Endian encodings\<close>

fun le_bytes :: "nat \<Rightarrow> nat \<Rightarrow> bytes" where
  "le_bytes 0 n = []"
| "le_bytes (Suc k) n = word_of_nat (n mod 256) # le_bytes k (n div 256)"

fun le_nat :: "bytes \<Rightarrow> nat" where
  "le_nat [] = 0"
| "le_nat (b # bs) = unat b + 256 * le_nat bs"

definition be_bytes :: "nat \<Rightarrow> nat \<Rightarrow> bytes" where
  "be_bytes k n = rev (le_bytes k n)"

definition be_nat :: "bytes \<Rightarrow> nat" where
  "be_nat bs = le_nat (rev bs)"

lemma length_le_bytes [simp, codec_simps]: "length (le_bytes k n) = k"
  by (induction k arbitrary: n) auto

lemma length_be_bytes [simp, codec_simps]: "length (be_bytes k n) = k"
  by (simp add: be_bytes_def)

lemma le_nat_le_bytes: "le_nat (le_bytes k n) = n mod 256 ^ k"
proof (induction k arbitrary: n)
  case 0
  then show ?case by simp
next
  case (Suc k)
  have "unat (word_of_nat (n mod 256) :: u8) = n mod 256"
    by (simp add: unat_of_nat)
  moreover have "n mod 256 + 256 * (n div 256 mod 256 ^ k) = n mod 256 ^ Suc k"
    using mod_mult2_eq [of n 256 "256 ^ k"] by simp
  ultimately show ?case using Suc.IH by simp
qed

lemma be_nat_be_bytes: "be_nat (be_bytes k n) = n mod 256 ^ k"
  by (simp add: be_nat_def be_bytes_def le_nat_le_bytes)

lemma unat_u8_less: "unat (b :: u8) < 256"
  using unsigned_less [of b, where 'a = nat] by simp

lemma unat_u32_less: "unat (w :: u32) < 2 ^ 32"
  using unsigned_less [of w, where 'a = nat] by simp

lemma unat_u64_less: "unat (w :: u64) < 2 ^ 64"
  using unsigned_less [of w, where 'a = nat] by simp

lemma le_nat_less: "le_nat bs < 256 ^ length bs"
proof (induction bs)
  case Nil
  then show ?case by simp
next
  case (Cons b bs)
  have "unat b < 256" by (rule unat_u8_less)
  moreover have "256 * le_nat bs + 256 \<le> 256 * 256 ^ length bs"
    using Cons.IH by simp
  ultimately show ?case by simp
qed

lemma le_bytes_le_nat: "le_bytes (length bs) (le_nat bs) = bs"
proof (induction bs)
  case Nil
  then show ?case by simp
next
  case (Cons b bs)
  have "unat b < 256" by (rule unat_u8_less)
  then have "(unat b + 256 * le_nat bs) mod 256 = unat b"
    and "(unat b + 256 * le_nat bs) div 256 = le_nat bs"
    by simp_all
  with Cons.IH show ?case by simp
qed

lemma be_bytes_be_nat: "be_bytes (length bs) (be_nat bs) = bs"
  using le_bytes_le_nat [of "rev bs"] by (simp add: be_bytes_def be_nat_def)

lemma be_nat_less: "be_nat bs < 256 ^ length bs"
  using le_nat_less [of "rev bs"] by (simp add: be_nat_def)

section \<open>Fixed width integers as bytes\<close>

text \<open>\<open>u32::to_be_bytes\<close>, \<open>u32::from_be_bytes(v.try_into()?)\<close> and the 64 bit and
  little endian variants; a slice of the wrong length is the failed \<open>try_into\<close>.\<close>

definition u32_be :: "u32 \<Rightarrow> bytes" where
  "u32_be w = be_bytes 4 (unat w)"

definition u64_be :: "u64 \<Rightarrow> bytes" where
  "u64_be w = be_bytes 8 (unat w)"

definition u32_from_be :: "bytes \<Rightarrow> u32 option" where
  "u32_from_be bs = (if length bs = 4 then Some (word_of_nat (be_nat bs)) else None)"

definition u64_from_be :: "bytes \<Rightarrow> u64 option" where
  "u64_from_be bs = (if length bs = 8 then Some (word_of_nat (be_nat bs)) else None)"

lemma length_u32_be [simp, codec_simps]: "length (u32_be w) = 4"
  by (simp add: u32_be_def)

lemma length_u64_be [simp, codec_simps]: "length (u64_be w) = 8"
  by (simp add: u64_be_def)

lemma u32_from_be_u32_be [simp, codec_simps]: "u32_from_be (u32_be w) = Some w"
  using unat_u32_less [of w]
  by (simp add: u32_from_be_def u32_be_def be_nat_be_bytes)

lemma u64_from_be_u64_be [simp, codec_simps]: "u64_from_be (u64_be w) = Some w"
  using unat_u64_less [of w]
  by (simp add: u64_from_be_def u64_be_def be_nat_be_bytes)

lemma u64_be_u64_from_be: "u64_from_be bs = Some w \<Longrightarrow> u64_be w = bs"
  using be_nat_less [of bs] be_bytes_be_nat [of bs]
  by (auto simp: u64_from_be_def u64_be_def unat_of_nat split: if_splits)

lemma u32_be_u32_from_be: "u32_from_be bs = Some w \<Longrightarrow> u32_be w = bs"
  using be_nat_less [of bs] be_bytes_be_nat [of bs]
  by (auto simp: u32_from_be_def u32_be_def unat_of_nat split: if_splits)

lemma u64_be_inj: "u64_be a = u64_be b \<longleftrightarrow> a = b"
  by (metis option.inject u64_from_be_u64_be)

text \<open>A range of a slice; \<open>None\<close> is the out of range panic of the source.\<close>

definition slice :: "nat \<Rightarrow> nat \<Rightarrow> 'a list \<Rightarrow> 'a list option" where
  "slice i j xs = (if i \<le> j \<and> j \<le> length xs then Some (take (j - i) (drop i xs)) else None)"

lemma slice_append [simp, codec_simps]:
  "slice 0 (length xs) (xs @ ys) = Some xs"
  "n = length xs \<Longrightarrow> m = length xs + length ys \<Longrightarrow> slice n m (xs @ ys) = Some ys"
  by (auto simp: slice_def)

section \<open>Lists and finite maps\<close>

fun option_list :: "'a option list \<Rightarrow> 'a list option" where
  "option_list [] = Some []"
| "option_list (None # xs) = None"
| "option_list (Some x # xs) = map_option ((#) x) (option_list xs)"

lemma option_list_map_Some [simp]: "option_list (map Some xs) = Some xs"
  by (induction xs) auto

lemma option_list_map_total: "(\<And>x. x \<in> set xs \<Longrightarrow> f x = Some (g x)) \<Longrightarrow>
    option_list (map f xs) = Some (map g xs)"
  by (induction xs) auto

lemma sum_remove_upd:
  fixes f :: "'a \<Rightarrow> nat"
  assumes "finite A" "a \<in> A"
  shows "(\<Sum>x\<in>A. if x = a then v else f x) + f a = (\<Sum>x\<in>A. f x) + v"
proof -
  have "(\<Sum>x\<in>A. if x = a then v else f x) = v + (\<Sum>x\<in>A - {a}. if x = a then v else f x)"
    using assms by (simp add: sum.remove)
  also have "(\<Sum>x\<in>A - {a}. if x = a then v else f x) = (\<Sum>x\<in>A - {a}. f x)"
    by (rule sum.cong) auto
  finally show ?thesis
    using assms by (simp add: sum.remove [of A a f])
qed

section \<open>Sums over the entries of a finite map\<close>

definition map_sum :: "('k \<Rightarrow> 'v \<Rightarrow> nat) \<Rightarrow> ('k \<rightharpoonup> 'v) \<Rightarrow> nat" where
  "map_sum w m = (\<Sum>k\<in>dom m. w k (the (m k)))"

definition opt_weight :: "('k \<Rightarrow> 'v \<Rightarrow> nat) \<Rightarrow> ('k \<rightharpoonup> 'v) \<Rightarrow> 'k \<Rightarrow> nat" where
  "opt_weight w m k = (case m k of None \<Rightarrow> 0 | Some v \<Rightarrow> w k v)"

lemma opt_weight_simps [simp]:
  "m k = None \<Longrightarrow> opt_weight w m k = 0"
  "m k = Some v \<Longrightarrow> opt_weight w m k = w k v"
  by (simp_all add: opt_weight_def)

lemma map_sum_empty [simp]: "map_sum w Map.empty = 0"
  by (simp add: map_sum_def)

lemma map_sum_remove:
  assumes "finite (dom m)"
  shows "map_sum w (m(k := None)) + opt_weight w m k = map_sum w m"
proof (cases "m k")
  case None
  then have "m(k := None) = m" by auto
  with None show ?thesis by simp
next
  case (Some v)
  have "(\<Sum>x\<in>dom m - {k}. w x (the ((m(k := None)) x))) = (\<Sum>x\<in>dom m - {k}. w x (the (m x)))"
    by (rule sum.cong) auto
  with Some assms show ?thesis
    by (simp add: map_sum_def sum.remove [of "dom m" k] domI)
qed

lemma map_sum_update:
  assumes "finite (dom m)"
  shows "map_sum w (m(k \<mapsto> v)) + opt_weight w m k = map_sum w m + w k v"
proof -
  have "map_sum w ((m(k \<mapsto> v))(k := None)) + w k v = map_sum w (m(k \<mapsto> v))"
    using map_sum_remove [of "m(k \<mapsto> v)" w k] assms by simp
  moreover have "(m(k \<mapsto> v))(k := None) = m(k := None)" by auto
  ultimately show ?thesis using map_sum_remove [OF assms, of w k] by simp
qed

lemma opt_weight_le: "finite (dom m) \<Longrightarrow> opt_weight w m k \<le> map_sum w m"
  using map_sum_remove [of m w k] by simp

lemma map_sum_zero: "(\<And>k v. m k = Some v \<Longrightarrow> w k v = 0) \<Longrightarrow> map_sum w m = 0"
  unfolding map_sum_def by (rule sum.neutral) auto

lemma map_sum_mono:
  "(\<And>k v. m k = Some v \<Longrightarrow> w k v \<le> w' k v) \<Longrightarrow> map_sum w m \<le> map_sum w' m"
  unfolding map_sum_def by (rule sum_mono) auto

lemma map_sum_card: "map_sum (\<lambda>k v. 1) m = card (dom m)"
  by (simp add: map_sum_def)

section \<open>Running a list of operations\<close>

text \<open>Operations on a state that may fail and emit events; the run stops at the first error.\<close>

fun run :: "('a \<Rightarrow> 's \<Rightarrow> 'e + ('s \<times> 'o list)) \<Rightarrow> 'a list \<Rightarrow> 's \<Rightarrow> 'e + ('s \<times> 'o list)" where
  "run f [] s = Inr (s, [])"
| "run f (a # as) s =
     (case f a s of
        Inl e \<Rightarrow> Inl e
      | Inr (s1, o1) \<Rightarrow> (case run f as s1 of
            Inl e \<Rightarrow> Inl e
          | Inr (s2, o2) \<Rightarrow> Inr (s2, o1 @ o2)))"

lemma run_append:
  "run f (as @ bs) s =
     (case run f as s of
        Inl e \<Rightarrow> Inl e
      | Inr (s1, o1) \<Rightarrow> (case run f bs s1 of
            Inl e \<Rightarrow> Inl e
          | Inr (s2, o2) \<Rightarrow> Inr (s2, o1 @ o2)))"
  by (induction as arbitrary: s) (auto split: sum.splits prod.splits)

text \<open>The contract of an operation: with an invariant \<open>inv\<close> of the state and a condition \<open>ok\<close> on
  the operations still to come, one operation succeeds and keeps both.\<close>

locale safe_steps =
  fixes step :: "'a \<Rightarrow> 's \<Rightarrow> 'e + ('s \<times> 'o list)"
    and inv :: "'s \<Rightarrow> bool"
    and ok :: "'a list \<Rightarrow> 's \<Rightarrow> bool"
  assumes step_safe:
    "inv s \<Longrightarrow> ok (a # as) s \<Longrightarrow> \<exists>s' evs. step a s = Inr (s', evs) \<and> inv s' \<and> ok as s'"
begin

lemma run_safe:
  "inv s \<Longrightarrow> ok as s \<Longrightarrow> \<exists>s' evs. run step as s = Inr (s', evs) \<and> inv s' \<and> ok [] s'"
proof (induction as arbitrary: s)
  case Nil
  then show ?case by simp
next
  case (Cons a as)
  then obtain s1 o1 where "step a s = Inr (s1, o1)" "inv s1" "ok as s1"
    using step_safe by blast
  with Cons.IH [of s1] show ?case by auto
qed

end

text \<open>A quantity that every single admissible operation moves by what its events say, moves so
  over a run.\<close>

locale accounted_steps =
  fixes step :: "'a \<Rightarrow> 's \<Rightarrow> 'e + ('s \<times> 'o list)"
    and adm :: "'a \<Rightarrow> bool"
    and good :: "'s \<Rightarrow> bool"
    and stock :: "'s \<Rightarrow> nat"
    and gain loss :: "'o \<Rightarrow> nat"
  assumes step_good: "good s \<Longrightarrow> adm a \<Longrightarrow> step a s = Inr (s', evs) \<Longrightarrow> good s'"
    and step_account: "good s \<Longrightarrow> adm a \<Longrightarrow> step a s = Inr (s', evs) \<Longrightarrow>
      stock s' + sum_list (map loss evs) = stock s + sum_list (map gain evs)"
begin

lemma run_account:
  "good s \<Longrightarrow> list_all adm as \<Longrightarrow> run step as s = Inr (s', evs) \<Longrightarrow>
     good s' \<and> stock s' + sum_list (map loss evs) = stock s + sum_list (map gain evs)"
proof (induction as arbitrary: s evs)
  case Nil
  then show ?case by auto
next
  case (Cons a as)
  then obtain s1 o1 o2 where s1: "step a s = Inr (s1, o1)" "run step as s1 = Inr (s', o2)"
    and evs: "evs = o1 @ o2"
    by (auto split: sum.splits prod.splits)
  have adm: "adm a" "list_all adm as" using Cons.prems(2) by simp_all
  have "good s1" using s1(1) Cons.prems(1) adm(1) step_good by blast
  with Cons.IH s1(2) adm(2) have
    "good s' \<and> stock s' + sum_list (map loss o2) = stock s1 + sum_list (map gain o2)" by blast
  with step_account [OF Cons.prems(1) adm(1) s1(1)] evs show ?case by simp
qed

end

end
