(* ===== verification/Blockchain.thy ===== *)
theory Blockchain
  imports Prelude
begin

text \<open>
  Chain selection: the supported chains and their parsing (\<open>src/blockchain.rs\<close>), the activation
  heights of \<open>src/main.rs\<close>, the coin table of \<open>packages/new-blk-parser/src/blockchain/coins.rs\<close>
  and the choice of the coin in \<open>Server::new\<close> (\<open>src/server/mod.rs\<close>).

  \<open>Network\<close> is an enum of the third party crate \<open>bellscoin\<close>; the code matches on two of its
  variants and sends every other one to a wildcard arm, here \<open>NetOther\<close>.
\<close>

datatype blockchain = Dogecoin | Bellscoin | Pepecoin | Litecoin | Wojakcoin

datatype network = NetBellscoin | NetTestnet | NetOther

definition ascii_lower_char :: "char \<Rightarrow> char" where
  "ascii_lower_char c =
     (if 65 \<le> (of_char c :: nat) \<and> (of_char c :: nat) \<le> 90 then char_of (of_char c + 32 :: nat) else c)"

definition to_ascii_lowercase :: "string \<Rightarrow> string" where
  "to_ascii_lowercase s = map ascii_lower_char s"

text \<open>\<open>Blockchain::from_str\<close>; \<open>None\<close> is \<open>BlockchainParseError::UnknownBlockchain\<close>.\<close>

definition blockchain_from_str :: "string \<Rightarrow> blockchain option" where
  "blockchain_from_str s =
     (let l = to_ascii_lowercase s in
      if l = ''dogecoin'' \<or> l = ''doge'' then Some Dogecoin
      else if l = ''bellscoin'' \<or> l = ''bells'' then Some Bellscoin
      else if l = ''pepecoin'' \<or> l = ''pepe'' then Some Pepecoin
      else if l = ''litecoin'' then Some Litecoin
      else if l = ''wojakcoin'' \<or> l = ''wojak'' \<or> l = ''wjk'' then Some Wojakcoin
      else None)"

section \<open>Activation heights\<close>

text \<open>\<open>JUBILEE_HEIGHT\<close>: the height from which every input is scanned (a \<open>usize\<close>).\<close>

fun jubilee_height :: "network \<Rightarrow> blockchain \<Rightarrow> u64" where
  "jubilee_height NetBellscoin Bellscoin = 133000"
| "jubilee_height _ Dogecoin = - 1"
| "jubilee_height _ Wojakcoin = 0"
| "jubilee_height _ _ = 0"

text \<open>\<open>START_HEIGHT\<close>: the first block whose tokens are indexed.\<close>

fun start_height :: "network \<Rightarrow> blockchain \<Rightarrow> u32" where
  "start_height NetBellscoin Bellscoin = 26371"
| "start_height NetBellscoin Dogecoin = 4609001"
| "start_height NetTestnet Dogecoin = 4260001"
| "start_height NetBellscoin Litecoin = 2424429"
| "start_height NetTestnet Litecoin = 2669127"
| "start_height _ Wojakcoin = 1"
| "start_height _ _ = 0"

definition is_jubilee :: "network \<Rightarrow> blockchain \<Rightarrow> u32 \<Rightarrow> bool" where
  "is_jubilee n b height \<longleftrightarrow> jubilee_height n b \<le> ucast height"

section \<open>Coins\<close>

record encoder_config =
  ec_pubkey_address :: u8
  ec_script_address :: u8
  ec_bech32 :: string

record coin_type =
  ct_name :: string
  ct_pubkey_address :: u8
  ct_script_address :: u8
  ct_bech32 :: string

datatype coin =
    CBitcoin | CBitcoinTestnet | CLitecoin | CLitecoinTestnet | CDogecoin | CDogecoinTestnet
  | CBellscoin | CBellscoinTestnet | CPepecoin | CPepecoinTestnet | CWojakcoin | CWojakcoinTestnet

text \<open>The associated constants \<open>NAME\<close> and \<open>CONFIG\<close> of the implementations of \<open>Coin\<close>.\<close>

fun coin_config :: "coin \<Rightarrow> string \<times> u8 \<times> u8 \<times> string" where
  "coin_config CBitcoin = (''Bitcoin'', 0, 5, ''bc'')"
| "coin_config CBitcoinTestnet = (''Bitcoin Testnet'', 113, 196, ''tb'')"
| "coin_config CLitecoin = (''Litecoin'', 0, 5, ''lt'')"
| "coin_config CLitecoinTestnet = (''Litecoin Testnet'', 111, 196, ''tlt'')"
| "coin_config CDogecoin = (''Dogecoin'', 30, 22, ''dg'')"
| "coin_config CDogecoinTestnet = (''Dogecoin Testnet'', 113, 196, ''tdg'')"
| "coin_config CBellscoin = (''Bellscoin'', 25, 30, ''bel'')"
| "coin_config CBellscoinTestnet = (''Bellscoin Testnet'', 33, 22, ''tbel'')"
| "coin_config CPepecoin = (''Pepecoin'', 56, 22, ''pe'')"
| "coin_config CPepecoinTestnet = (''Pepecoin Testnet'', 113, 196, ''tpe'')"
| "coin_config CWojakcoin = (''Wojakcoin'', 73, 5, ''wjk'')"
| "coin_config CWojakcoinTestnet = (''Wojakcoin Testnet'', 113, 196, ''twjk'')"

text \<open>\<open>CoinType::from\<close> and \<open>CoinType::from_str\<close>.\<close>

definition coin_type_from :: "coin \<Rightarrow> coin_type" where
  "coin_type_from c = (case coin_config c of (n, pk, sc, hrp) \<Rightarrow>
     \<lparr> ct_name = n, ct_pubkey_address = pk, ct_script_address = sc, ct_bech32 = hrp \<rparr>)"

definition coin_from_str :: "string \<Rightarrow> coin_type option" where
  "coin_from_str s =
     map_option coin_type_from
      (if s = ''bitcoin'' then Some CBitcoin
       else if s = ''bitcoin-testnet'' then Some CBitcoinTestnet
       else if s = ''litecoin'' then Some CLitecoin
       else if s = ''litecoin-testnet'' then Some CLitecoinTestnet
       else if s = ''dogecoin'' then Some CDogecoin
       else if s = ''dogecoin-testnet'' then Some CDogecoinTestnet
       else if s = ''bellscoin'' then Some CBellscoin
       else if s = ''bellscoin-testnet'' then Some CBellscoinTestnet
       else if s = ''pepecoin'' then Some CPepecoin
       else if s = ''pepecoin-testnet'' then Some CPepecoinTestnet
       else if s = ''wojakcoin'' then Some CWojakcoin
       else if s = ''wojakcoin-testnet'' then Some CWojakcoinTestnet
       else None)"

text \<open>The match on \<open>(BLOCKCHAIN, NETWORK)\<close> in \<open>Server::new\<close>.\<close>

fun server_coin :: "blockchain \<Rightarrow> network \<Rightarrow> string" where
  "server_coin Bellscoin NetBellscoin = ''bellscoin''"
| "server_coin Bellscoin NetTestnet = ''bellscoin-testnet''"
| "server_coin Dogecoin NetBellscoin = ''dogecoin''"
| "server_coin Dogecoin NetTestnet = ''dogecoin-testnet''"
| "server_coin Pepecoin NetBellscoin = ''pepecoin''"
| "server_coin Pepecoin NetTestnet = ''pepecoin-testnet''"
| "server_coin Wojakcoin NetBellscoin = ''wojakcoin''"
| "server_coin Wojakcoin NetTestnet = ''wojakcoin-testnet''"
| "server_coin _ _ = ''bellscoin''"

text \<open>The chain a coin belongs to, as the configuration means it.\<close>

fun intended_coin :: "blockchain \<Rightarrow> network \<Rightarrow> coin option" where
  "intended_coin Bellscoin NetBellscoin = Some CBellscoin"
| "intended_coin Bellscoin NetTestnet = Some CBellscoinTestnet"
| "intended_coin Dogecoin NetBellscoin = Some CDogecoin"
| "intended_coin Dogecoin NetTestnet = Some CDogecoinTestnet"
| "intended_coin Pepecoin NetBellscoin = Some CPepecoin"
| "intended_coin Pepecoin NetTestnet = Some CPepecoinTestnet"
| "intended_coin Litecoin NetBellscoin = Some CLitecoin"
| "intended_coin Litecoin NetTestnet = Some CLitecoinTestnet"
| "intended_coin Wojakcoin NetBellscoin = Some CWojakcoin"
| "intended_coin Wojakcoin NetTestnet = Some CWojakcoinTestnet"
| "intended_coin _ NetOther = None"

lemma server_coin_known: "coin_from_str (server_coin b n) \<noteq> None"
  by (cases b; cases n) (simp_all add: coin_from_str_def)

lemma server_coin_intended:
  "b \<noteq> Litecoin \<Longrightarrow> intended_coin b n = Some c \<Longrightarrow>
     coin_from_str (server_coin b n) = Some (coin_type_from c)"
  by (cases b; cases n) (auto simp: coin_from_str_def)

lemma server_coin_litecoin:
  "coin_from_str (server_coin Litecoin n) = Some (coin_type_from CBellscoin)"
  by (cases n) (simp_all add: coin_from_str_def)

lemma never_jubilee_dogecoin: "\<not> is_jubilee n Dogecoin height"
proof -
  have "unat height < 2 ^ 32" by (rule unat_u32_less)
  moreover have "unat (- 1 :: u64) = 2 ^ 64 - 1"
    by (simp add: unsigned_minus_1_eq_mask mask_eq_exp_minus_1)
  ultimately have "ucast height < (- 1 :: u64)"
    by (simp add: word_less_nat_alt unsigned_ucast_eq take_bit_nat_eq_self)
  then show ?thesis by (cases n) (simp_all add: is_jubilee_def)
qed

end
