(* ===== verification/Fixed.thy ===== *)
theory Fixed
  imports Prelude
begin

text \<open>
  Token amounts and the panic monad.

  \<open>Fixed128\<close> is \<open>nintypes::utils::fixed::Fixed128<18>\<close>, a third party unsigned fixed point type.
  An amount is the number of its smallest units, a \<open>nat\<close>; everything of the type the source
  cannot show is a field of the parameter \<open>fixed_ops\<close>: the largest value it represents, its
  \<open>scale()\<close>, its parser and its conversion from \<open>u64\<close>.  A sum above the largest value or a
  difference below zero has no value, so both are panics of the model (\<open>FixedOverflow\<close>,
  \<open>FixedUnderflow\<close>), and the theorems show where neither can happen.
\<close>

type_synonym fixed128 = nat

record fixed_ops =
  fx_cap :: nat
  fx_scale :: "fixed128 \<Rightarrow> u8"
  fx_from_str :: "bytes \<Rightarrow> string + fixed128"
  fx_from_u64 :: "u64 \<Rightarrow> fixed128"

datatype panic =
    FixedOverflow
  | FixedUnderflow
  | TickMustExist                 \<comment> \<open>\<open>expect("Tick must exist")\<close>\<close>
  | SenderAccountMissing          \<comment> \<open>\<open>get_mut(&old_key).unwrap()\<close>\<close>
  | InvalidTransferSenderBalance  \<comment> \<open>\<open>panic!("Invalid transfer sender balance")\<close>\<close>

type_synonym 'a res = "panic + 'a"

definition rbind :: "'e + 'a \<Rightarrow> ('a \<Rightarrow> 'e + 'b) \<Rightarrow> 'e + 'b" where
  "rbind m f = (case m of Inl e \<Rightarrow> Inl e | Inr x \<Rightarrow> f x)"

lemma rbind_simps [simp]: "rbind (Inl e) f = Inl e" "rbind (Inr x) f = f x"
  by (simp_all add: rbind_def)

lemma rbind_Inr_iff [simp]: "rbind m f = Inr y \<longleftrightarrow> (\<exists>x. m = Inr x \<and> f x = Inr y)"
  by (cases m) auto

lemma rbind_Inl_iff: "rbind m f = Inl e \<longleftrightarrow> m = Inl e \<or> (\<exists>x. m = Inr x \<and> f x = Inl e)"
  by (cases m) auto

definition fx_add :: "fixed_ops \<Rightarrow> fixed128 \<Rightarrow> fixed128 \<Rightarrow> fixed128 res" where
  "fx_add F a b = (if a + b \<le> fx_cap F then Inr (a + b) else Inl FixedOverflow)"

definition fx_sub :: "fixed128 \<Rightarrow> fixed128 \<Rightarrow> fixed128 res" where
  "fx_sub a b = (if b \<le> a then Inr (a - b) else Inl FixedUnderflow)"

lemma fx_add_Inr [simp]: "fx_add F a b = Inr c \<longleftrightarrow> a + b \<le> fx_cap F \<and> c = a + b"
  by (auto simp: fx_add_def)

lemma fx_sub_Inr [simp]: "fx_sub a b = Inr c \<longleftrightarrow> b \<le> a \<and> c = a - b"
  by (auto simp: fx_sub_def)

lemma fx_add_ok: "a + b \<le> fx_cap F \<Longrightarrow> fx_add F a b = Inr (a + b)"
  by simp

lemma fx_sub_ok: "b \<le> a \<Longrightarrow> fx_sub a b = Inr (a - b)"
  by simp

end
