(* ===== verification/Ticks.thy ===== *)
theory Ticks
  imports Blockchain
begin

text \<open>
  Token ticks (\<open>src/tokens/structs.rs\<close>, \<open>src/tokens/proto.rs\<close>, \<open>src/db/structs.rs\<close>).

  \<open>OriginalTokenTick\<close> and \<open>OriginalTokenTickRest\<close> are arrays of eight bytes, padded with zeros;
  \<open>LowerCaseTokenTick\<close> is the byte string under which a token is stored.  The conversion
  \<open>String::from_utf8_lossy(..).to_lowercase()\<close> needs the Unicode tables and is a parameter
  \<open>lower\<close>; \<open>ascii_lower\<close> is what it does on ASCII bytes.
\<close>

type_synonym tick = bytes
type_synonym lower_tick = bytes

definition tick_storage_len :: nat where
  "tick_storage_len = 8"

definition wf_tick :: "tick \<Rightarrow> bool" where
  "wf_tick t \<longleftrightarrow> length t = tick_storage_len"

text \<open>\<open>Iterator::rposition\<close>: the last index whose element satisfies the predicate.\<close>

fun rposition :: "('a \<Rightarrow> bool) \<Rightarrow> 'a list \<Rightarrow> nat option" where
  "rposition p [] = None"
| "rposition p (x # xs) =
     (case rposition p xs of Some i \<Rightarrow> Some (Suc i) | None \<Rightarrow> if p x then Some 0 else None)"

definition trim_tick_bytes :: "tick \<Rightarrow> bytes" where
  "trim_tick_bytes t = take (case rposition (\<lambda>b. b \<noteq> 0) t of Some i \<Rightarrow> i + 1 | None \<Rightarrow> 0) t"

definition pad_tick :: "bytes \<Rightarrow> tick" where
  "pad_tick v = v @ replicate (tick_storage_len - length v) 0"

text \<open>\<open>OriginalTokenTick::try_from(Vec<u8>)\<close>, and the check of the REST deserialiser.\<close>

definition tick_try_from :: "bytes \<Rightarrow> tick option" where
  "tick_try_from v = (if v = [] \<or> tick_storage_len < length v then None else Some (pad_tick v))"

definition tick_byte_len :: "blockchain \<Rightarrow> nat" where
  "tick_byte_len b = (if b = Wojakcoin then 8 else 4)"

text \<open>\<open>pad_tick_bytes\<close>, the tick check of an inscription; \<open>None\<close> is \<open>invalid token tick\<close>.\<close>

definition pad_tick_bytes :: "blockchain \<Rightarrow> bytes \<Rightarrow> tick option" where
  "pad_tick_bytes b v = (if v = [] \<or> tick_byte_len b < length v then None else Some (pad_tick v))"

definition ascii_lower :: "bytes \<Rightarrow> bytes" where
  "ascii_lower bs = map (\<lambda>b. if 65 \<le> b \<and> b \<le> 90 then b + 32 else b) bs"

text \<open>\<open>From<OriginalTokenTick> for LowerCaseTokenTick\<close> trims the padding; the blanket
  \<open>From<T: AsRef<[u8]>>\<close>, the one that applies to \<open>OriginalTokenTickRest\<close>, does not.\<close>

definition lower_of_tick :: "(bytes \<Rightarrow> bytes) \<Rightarrow> tick \<Rightarrow> lower_tick" where
  "lower_of_tick lower t = lower (trim_tick_bytes t)"

definition lower_of_rest_tick :: "(bytes \<Rightarrow> bytes) \<Rightarrow> tick \<Rightarrow> lower_tick" where
  "lower_of_rest_tick lower t = lower t"

section \<open>Padding and trimming\<close>

lemma rposition_append_replicate:
  "\<not> p z \<Longrightarrow> rposition p (xs @ replicate n z) = rposition p xs"
proof (induction xs)
  case Nil
  then show ?case by (induction n) auto
next
  case (Cons x xs)
  then show ?case by (simp split: option.splits)
qed

lemma rposition_last: "xs \<noteq> [] \<Longrightarrow> p (last xs) \<Longrightarrow> rposition p xs = Some (length xs - 1)"
  by (induction xs) (auto split: option.splits if_splits)

lemma rposition_less: "rposition p xs = Some i \<Longrightarrow> i < length xs \<and> p (xs ! i)"
  by (induction xs arbitrary: i) (auto split: option.splits if_splits)

lemma rposition_after: "rposition p xs = Some i \<Longrightarrow> i < j \<Longrightarrow> j < length xs \<Longrightarrow> \<not> p (xs ! j)"
proof (induction xs arbitrary: i j)
  case Nil
  then show ?case by simp
next
  case (Cons x xs)
  have none: "rposition p ys = None \<Longrightarrow> k < length ys \<Longrightarrow> \<not> p (ys ! k)" for ys k
    by (induction ys arbitrary: k) (auto simp: nth_Cons split: option.splits if_splits nat.splits)
  show ?case
  proof (cases j)
    case 0
    with Cons.prems show ?thesis by simp
  next
    case (Suc k)
    with Cons show ?thesis
      by (cases "rposition p xs") (auto dest: none split: if_splits)
  qed
qed

lemma wf_pad_tick: "length v \<le> tick_storage_len \<Longrightarrow> wf_tick (pad_tick v)"
  by (simp add: wf_tick_def pad_tick_def)

lemma wf_tick_try_from: "tick_try_from v = Some t \<Longrightarrow> wf_tick t"
  by (auto simp: tick_try_from_def wf_pad_tick split: if_splits)

lemma wf_pad_tick_bytes: "pad_tick_bytes b v = Some t \<Longrightarrow> wf_tick t"
  by (auto simp: pad_tick_bytes_def tick_byte_len_def tick_storage_len_def
        intro!: wf_pad_tick split: if_splits)

lemma trim_pad_tick: "v \<noteq> [] \<Longrightarrow> last v \<noteq> 0 \<Longrightarrow> trim_tick_bytes (pad_tick v) = v"
  by (simp add: trim_tick_bytes_def pad_tick_def rposition_append_replicate rposition_last)

lemma pad_trim_tick: "wf_tick t \<Longrightarrow> pad_tick (trim_tick_bytes t) = t"
proof -
  assume t: "wf_tick t"
  show "pad_tick (trim_tick_bytes t) = t"
  proof (cases "rposition (\<lambda>b. b \<noteq> 0) t")
    case None
    have "rposition (\<lambda>b. b \<noteq> 0) xs = None \<Longrightarrow> xs = replicate (length xs) 0" for xs :: bytes
      by (induction xs) (auto split: option.splits if_splits)
    with None have "t = replicate (length t) 0" by blast
    with None t show ?thesis
      by (simp add: trim_tick_bytes_def pad_tick_def wf_tick_def)
  next
    case (Some i)
    then have i: "i < length t" by (auto dest: rposition_less)
    have "drop (Suc i) t = replicate (length t - Suc i) 0"
    proof (rule nth_equalityI)
      fix j
      assume "j < length (drop (Suc i) t)"
      with rposition_after [OF Some, of "Suc (i + j)"]
      show "drop (Suc i) t ! j = replicate (length t - Suc i) 0 ! j" by simp
    qed simp
    with Some i t have "pad_tick (trim_tick_bytes t) = take (Suc i) t @ drop (Suc i) t"
      by (simp only: trim_tick_bytes_def pad_tick_def wf_tick_def option.case Suc_eq_plus1
          length_take min_absorb2 Suc_leI)
    then show ?thesis by simp
  qed
qed

lemma length_ascii_lower [simp]: "length (ascii_lower v) = length v"
  by (simp add: ascii_lower_def)

lemma length_trim_tick: "t \<noteq> [] \<Longrightarrow> last t = 0 \<Longrightarrow> length (trim_tick_bytes t) < length t"
proof -
  assume t: "t \<noteq> []" "last t = 0"
  show ?thesis
  proof (cases "rposition (\<lambda>b. b \<noteq> 0) t")
    case None
    with t show ?thesis by (simp add: trim_tick_bytes_def)
  next
    case (Some i)
    then have "i < length t" "t ! i \<noteq> 0" by (auto dest: rposition_less)
    with t have "Suc i < length t"
      by (metis Suc_lessI diff_Suc_1 last_conv_nth)
    with Some show ?thesis by (simp add: trim_tick_bytes_def)
  qed
qed

end
