(* ===== verification/Proto.thy ===== *)
theory Proto
  imports Fixed Ticks
begin

text \<open>
  The token protocol messages (\<open>src/tokens/proto.rs\<close>, the error enums of
  \<open>src/tokens/structs.rs\<close>) and the content check \<open>TokenCache::try_parse\<close> of
  \<open>src/tokens/parser.rs\<close>.

  JSON parsing is third party code (\<open>serde_json\<close> and the deserialisers \<open>serde\<close> derives): the two
  calls of \<open>try_parse\<close> are the parameters \<open>js_normalize\<close> (text to \<open>Value\<close> and back to text) and
  \<open>js_brc4\<close> (text to \<open>Brc4\<close>, or the message of the error).
\<close>

section \<open>Messages\<close>

record mint_wrapper =
  mw_tick :: tick
  mw_amt :: fixed128

record deploy_wrapper =
  dw_tick :: tick
  dw_max :: fixed128
  dw_lim :: "fixed128 option"
  dw_dec :: u8

datatype mint_proto =
    MintBel20 mint_wrapper | MintDrc20 mint_wrapper | MintPrc20 mint_wrapper
  | MintLtc20 mint_wrapper | MintWjk20 mint_wrapper

datatype deploy_proto =
    DeployBel20 deploy_wrapper | DeployDrc20 deploy_wrapper | DeployPrc20 deploy_wrapper
  | DeployLtc20 deploy_wrapper | DeployWjk20 deploy_wrapper

datatype transfer_proto =
    TransferBel20 mint_wrapper | TransferDrc20 mint_wrapper | TransferPrc20 mint_wrapper
  | TransferLtc20 mint_wrapper | TransferWjk20 mint_wrapper

datatype brc4 = Brc4Mint mint_proto | Brc4Deploy deploy_proto | Brc4Transfer transfer_proto

text \<open>The \<open>value()\<close> methods: a message counts only on its own chain.\<close>

definition on_chain :: "blockchain \<Rightarrow> blockchain \<Rightarrow> 'a \<Rightarrow> 'a option" where
  "on_chain b c v = (if b = c then Some v else None)"

fun mint_value :: "blockchain \<Rightarrow> mint_proto \<Rightarrow> mint_wrapper option" where
  "mint_value b (MintBel20 v) = on_chain b Bellscoin v"
| "mint_value b (MintDrc20 v) = on_chain b Dogecoin v"
| "mint_value b (MintPrc20 v) = on_chain b Pepecoin v"
| "mint_value b (MintLtc20 v) = on_chain b Litecoin v"
| "mint_value b (MintWjk20 v) = on_chain b Wojakcoin v"

fun deploy_value :: "blockchain \<Rightarrow> deploy_proto \<Rightarrow> deploy_wrapper option" where
  "deploy_value b (DeployBel20 v) = on_chain b Bellscoin v"
| "deploy_value b (DeployDrc20 v) = on_chain b Dogecoin v"
| "deploy_value b (DeployPrc20 v) = on_chain b Pepecoin v"
| "deploy_value b (DeployLtc20 v) = on_chain b Litecoin v"
| "deploy_value b (DeployWjk20 v) = on_chain b Wojakcoin v"

fun transfer_value :: "blockchain \<Rightarrow> transfer_proto \<Rightarrow> mint_wrapper option" where
  "transfer_value b (TransferBel20 v) = on_chain b Bellscoin v"
| "transfer_value b (TransferDrc20 v) = on_chain b Dogecoin v"
| "transfer_value b (TransferPrc20 v) = on_chain b Pepecoin v"
| "transfer_value b (TransferLtc20 v) = on_chain b Litecoin v"
| "transfer_value b (TransferWjk20 v) = on_chain b Wojakcoin v"

definition default_dec :: u8 where
  "default_dec = 18"

definition max_dec :: u8 where
  "max_dec = 18"

datatype brc4_value =
    ValMint tick fixed128
  | ValTransfer tick fixed128
  | ValDeploy tick fixed128 fixed128 u8

text \<open>The three \<open>TryFrom<&..> for Brc4Value\<close>.\<close>

definition brc4_value_of_deploy :: "blockchain \<Rightarrow> deploy_proto \<Rightarrow> brc4_value option" where
  "brc4_value_of_deploy b p = (case deploy_value b p of None \<Rightarrow> None
     | Some v \<Rightarrow> Some (ValDeploy (dw_tick v) (dw_max v)
         (case dw_lim v of Some l \<Rightarrow> l | None \<Rightarrow> dw_max v) (dw_dec v)))"

definition brc4_value_of_mint :: "blockchain \<Rightarrow> mint_proto \<Rightarrow> brc4_value option" where
  "brc4_value_of_mint b p = (case mint_value b p of None \<Rightarrow> None
     | Some v \<Rightarrow> Some (ValMint (mw_tick v) (mw_amt v)))"

definition brc4_value_of_transfer :: "blockchain \<Rightarrow> transfer_proto \<Rightarrow> brc4_value option" where
  "brc4_value_of_transfer b p = (case transfer_value b p of None \<Rightarrow> None
     | Some v \<Rightarrow> Some (ValTransfer (mw_tick v) (mw_amt v)))"

section \<open>Decimal fields\<close>

definition starts_with_char :: "u8 \<Rightarrow> bytes \<Rightarrow> bool" where
  "starts_with_char c v \<longleftrightarrow> v \<noteq> [] \<and> hd v = c"

definition ends_with_char :: "u8 \<Rightarrow> bytes \<Rightarrow> bool" where
  "ends_with_char c v \<longleftrightarrow> v \<noteq> [] \<and> last v = c"

text \<open>\<open>bel_20_validate\<close>: 43, 45, 46 and 32 are \<open>+\<close>, \<open>-\<close>, \<open>.\<close> and the space.\<close>

definition bel_20_validate :: "fixed_ops \<Rightarrow> bytes \<Rightarrow> string + fixed128" where
  "bel_20_validate F v =
     (if starts_with_char 43 v \<or> starts_with_char 45 v
      then Inl ''value cannot start from + or -''
      else if starts_with_char 46 v \<or> ends_with_char 46 v
      then Inl ''value cannot start or end with .''
      else if starts_with_char 32 v \<or> ends_with_char 32 v
      then Inl ''value cannot contain spaces''
      else case fx_from_str F v of
        Inl e \<Rightarrow> Inl e
      | Inr x \<Rightarrow> if fx_from_u64 F (- 1) < x then Inl ''value is too large'' else Inr x)"

text \<open>\<open>bel_20_option_decimal\<close>: a missing value stays missing.\<close>

definition bel_20_option_decimal :: "fixed_ops \<Rightarrow> bytes option \<Rightarrow> string + fixed128 option" where
  "bel_20_option_decimal F v = (case v of None \<Rightarrow> Inr None
     | Some x \<Rightarrow> (case bel_20_validate F x of Inl e \<Rightarrow> Inl e | Inr y \<Rightarrow> Inr (Some y)))"

text \<open>\<open>bel_20_tick\<close>\<close>

definition bel_20_tick :: "blockchain \<Rightarrow> bytes \<Rightarrow> string + tick" where
  "bel_20_tick b v = (case pad_tick_bytes b v of None \<Rightarrow> Inl ''invalid token tick'' | Some t \<Rightarrow> Inr t)"

section \<open>Content of an inscription\<close>

datatype brc4_parse_err =
    WrongContentType | WrongProtocol | DecimalEmpty | DecimalOverflow | DecimalPlusMinus
  | DecimalDotStartEnd | DecimalSpaces | InvalidDigit | InvalidUtf8 | Unknown string

datatype brc4_action_err =
    NotDeployed | AlreadyDeployed | ReachDecBound | ReachLimBound | SupplyMinted
  | InsufficientBalance | Transferred_err

datatype brc4_error = ErrAction brc4_action_err | ErrParse brc4_parse_err

text \<open>UTF-8 validation of \<open>String::from_utf8\<close>, by the ranges of the Unicode standard.\<close>

definition utf8_cont :: "u8 \<Rightarrow> bool" where
  "utf8_cont b \<longleftrightarrow> 128 \<le> b \<and> b \<le> 191"

fun valid_utf8 :: "bytes \<Rightarrow> bool" where
  "valid_utf8 [] = True"
| "valid_utf8 [a] = (a \<le> 127)"
| "valid_utf8 [a, b] =
     (if a \<le> 127 then valid_utf8 [b] else 194 \<le> a \<and> a \<le> 223 \<and> utf8_cont b)"
| "valid_utf8 [a, b, c] =
     (if a \<le> 127 then valid_utf8 [b, c]
      else if 194 \<le> a \<and> a \<le> 223 then utf8_cont b \<and> valid_utf8 [c]
      else 224 \<le> a \<and> a \<le> 239 \<and> utf8_cont b \<and> utf8_cont c
           \<and> (a = 224 \<longrightarrow> 160 \<le> b) \<and> (a = 237 \<longrightarrow> b \<le> 159))"
| "valid_utf8 (a # b # c # d # r) =
     (if a \<le> 127 then valid_utf8 (b # c # d # r)
      else if 194 \<le> a \<and> a \<le> 223 then utf8_cont b \<and> valid_utf8 (c # d # r)
      else if 224 \<le> a \<and> a \<le> 239 then utf8_cont b \<and> utf8_cont c
           \<and> (a = 224 \<longrightarrow> 160 \<le> b) \<and> (a = 237 \<longrightarrow> b \<le> 159) \<and> valid_utf8 (d # r)
      else 240 \<le> a \<and> a \<le> 244 \<and> utf8_cont b \<and> utf8_cont c \<and> utf8_cont d
           \<and> (a = 240 \<longrightarrow> 144 \<le> b) \<and> (a = 244 \<longrightarrow> b \<le> 143) \<and> valid_utf8 r)"

record json_ops =
  js_normalize :: "bytes \<Rightarrow> bytes option"
  js_brc4 :: "bytes \<Rightarrow> string + brc4"

definition parse_err_of_message :: "string \<Rightarrow> brc4_parse_err" where
  "parse_err_of_message m =
     (if m = ''Invalid decimal: empty'' then DecimalEmpty
      else if m = ''Invalid decimal: overflow from too many digits'' then DecimalOverflow
      else if m = ''value cannot start from + or -'' then DecimalPlusMinus
      else if m = ''value cannot start or end with .'' then DecimalDotStartEnd
      else if m = ''value cannot contain spaces'' then DecimalSpaces
      else if m = ''invalid digit found in string'' then InvalidDigit
      else Unknown m)"

definition starts_with :: "bytes \<Rightarrow> bytes \<Rightarrow> bool" where
  "starts_with p v \<longleftrightarrow> take (length p) v = p"

text \<open>The content type test; 59 is the semicolon.\<close>

definition content_type_ok :: "blockchain \<Rightarrow> bytes \<Rightarrow> bool" where
  "content_type_ok b ct =
     (if b = Dogecoin
      then starts_with (str_bytes ''text/plain'') ct \<or> starts_with (str_bytes ''application/json'') ct
      else takeWhile (\<lambda>c. c \<noteq> 59) ct \<in> {str_bytes ''text/plain'', str_bytes ''application/json''})"

text \<open>The value checks at the end of \<open>try_parse\<close>.\<close>

definition brc4_acceptable :: "blockchain \<Rightarrow> brc4 \<Rightarrow> bool" where
  "brc4_acceptable b m =
     (case m of
        Brc4Mint p \<Rightarrow> (case mint_value b p of None \<Rightarrow> False | Some v \<Rightarrow> mw_amt v \<noteq> 0)
      | Brc4Transfer p \<Rightarrow> (case transfer_value b p of None \<Rightarrow> False | Some v \<Rightarrow> mw_amt v \<noteq> 0)
      | Brc4Deploy p \<Rightarrow> (case deploy_value b p of None \<Rightarrow> False
          | Some v \<Rightarrow> dw_dec v \<le> max_dec
              \<and> (case dw_lim v of Some l \<Rightarrow> l | None \<Rightarrow> dw_max v) \<noteq> 0 \<and> dw_max v \<noteq> 0))"

definition try_parse :: "blockchain \<Rightarrow> json_ops \<Rightarrow> bytes \<Rightarrow> bytes \<Rightarrow> brc4_parse_err + brc4" where
  "try_parse b J content_type content =
     (if \<not> content_type_ok b content_type then Inl WrongContentType
      else if \<not> valid_utf8 content then Inl InvalidUtf8
      else case js_normalize J content of
        None \<Rightarrow> Inl WrongProtocol
      | Some data \<Rightarrow> (case js_brc4 J data of
          Inl msg \<Rightarrow> Inl (parse_err_of_message msg)
        | Inr m \<Rightarrow> if brc4_acceptable b m then Inr m else Inl WrongProtocol))"

lemma try_parse_acceptable: "try_parse b J ct c = Inr m \<Longrightarrow> brc4_acceptable b m"
  by (auto simp: try_parse_def split: if_splits option.splits sum.splits)

lemma try_parse_content: "try_parse b J ct c = Inr m \<Longrightarrow> content_type_ok b ct \<and> valid_utf8 c"
  by (auto simp: try_parse_def split: if_splits)

lemma on_chain_Some [simp]: "on_chain b c v = Some w \<longleftrightarrow> b = c \<and> w = v"
  by (auto simp: on_chain_def)

lemma bel_20_validate_bound: "bel_20_validate F v = Inr x \<Longrightarrow> x \<le> fx_from_u64 F (- 1)"
  by (auto simp: bel_20_validate_def split: if_splits sum.splits)

end
