(* ===== verification/Storage.thy ===== *)
theory Storage
  imports Prelude
begin

text \<open>
  The storage wrapper (\<open>packages/rocksdb-wrapper/src/storage.rs\<close>, \<open>item.rs\<close>).

  A column family of RocksDB is a finite map from key bytes to value bytes (\<open>raw_table\<close>): the
  engine is third party code and is used through put, delete and point lookups only.
  \<open>RocksTable<K, V>\<close> puts the \<open>Pebble\<close> codecs of the key and value type around it
  (\<open>raw_get\<close>, \<open>raw_set\<close>, \<dots>).  The rest of the development works on typed tables
  \<open>'k \<rightharpoonup> 'v\<close> with the operations \<open>tbl_extend\<close>, \<open>tbl_remove_batch\<close>, \<open>tbl_multi_get_kv\<close>;
  the locale \<open>rocks_table\<close> shows that for codecs that round trip (locale \<open>pebble\<close>) the byte level
  operations implement the typed ones.
\<close>

section \<open>Byte level tables\<close>

type_synonym raw_table = "bytes \<rightharpoonup> bytes"

text \<open>\<open>RocksTable::get\<close>: the outer \<open>None\<close> is the panic on bytes that do not decode.\<close>

definition raw_get :: "('k \<Rightarrow> bytes) \<Rightarrow> (bytes \<Rightarrow> 'v option) \<Rightarrow> raw_table \<Rightarrow> 'k \<Rightarrow> 'v option option" where
  "raw_get kenc vdec t k =
     (case t (kenc k) of
        None \<Rightarrow> Some None
      | Some b \<Rightarrow> (case vdec b of None \<Rightarrow> None | Some v \<Rightarrow> Some (Some v)))"

definition raw_set :: "('k \<Rightarrow> bytes) \<Rightarrow> ('v \<Rightarrow> bytes) \<Rightarrow> raw_table \<Rightarrow> 'k \<Rightarrow> 'v \<Rightarrow> raw_table" where
  "raw_set kenc venc t k v = t(kenc k \<mapsto> venc v)"

definition raw_remove :: "('k \<Rightarrow> bytes) \<Rightarrow> raw_table \<Rightarrow> 'k \<Rightarrow> raw_table" where
  "raw_remove kenc t k = t(kenc k := None)"

definition raw_multi_get ::
  "('k \<Rightarrow> bytes) \<Rightarrow> (bytes \<Rightarrow> 'v option) \<Rightarrow> raw_table \<Rightarrow> 'k list \<Rightarrow> 'v option list option" where
  "raw_multi_get kenc vdec t ks = option_list (map (raw_get kenc vdec t) ks)"

definition raw_extend ::
  "('k \<Rightarrow> bytes) \<Rightarrow> ('v \<Rightarrow> bytes) \<Rightarrow> raw_table \<Rightarrow> ('k \<times> 'v) list \<Rightarrow> raw_table" where
  "raw_extend kenc venc t kvs = foldl (\<lambda>t (k, v). raw_set kenc venc t k v) t kvs"

definition raw_remove_batch :: "('k \<Rightarrow> bytes) \<Rightarrow> raw_table \<Rightarrow> 'k list \<Rightarrow> raw_table" where
  "raw_remove_batch kenc t ks = foldl (raw_remove kenc) t ks"

section \<open>Typed tables\<close>

definition tbl_extend :: "('k \<rightharpoonup> 'v) \<Rightarrow> ('k \<times> 'v) list \<Rightarrow> ('k \<rightharpoonup> 'v)" where
  "tbl_extend t kvs = foldl (\<lambda>t (k, v). t(k \<mapsto> v)) t kvs"

definition tbl_remove_batch :: "('k \<rightharpoonup> 'v) \<Rightarrow> 'k list \<Rightarrow> ('k \<rightharpoonup> 'v)" where
  "tbl_remove_batch t ks = foldl (\<lambda>t k. t(k := None)) t ks"

text \<open>\<open>multi_get_kv(keys, panic_if_not_exists)\<close>: \<open>None\<close> is the panic on a missing key.\<close>

fun tbl_multi_get_kv :: "('k \<rightharpoonup> 'v) \<Rightarrow> bool \<Rightarrow> 'k list \<Rightarrow> ('k \<times> 'v) list option" where
  "tbl_multi_get_kv t panic [] = Some []"
| "tbl_multi_get_kv t panic (k # ks) =
     (case t k of
        Some v \<Rightarrow> map_option ((#) (k, v)) (tbl_multi_get_kv t panic ks)
      | None \<Rightarrow> if panic then None else tbl_multi_get_kv t panic ks)"

definition tbl_multi_get :: "('k \<rightharpoonup> 'v) \<Rightarrow> 'k list \<Rightarrow> 'v option list" where
  "tbl_multi_get t ks = map t ks"

text \<open>The list \<open>multi_get_kv(keys, false)\<close> returns, which never panics.\<close>

definition tbl_found :: "('k \<rightharpoonup> 'v) \<Rightarrow> 'k list \<Rightarrow> ('k \<times> 'v) list" where
  "tbl_found t ks = concat (map (\<lambda>k. case t k of None \<Rightarrow> [] | Some v \<Rightarrow> [(k, v)]) ks)"

lemma tbl_multi_get_kv_found: "tbl_multi_get_kv t False ks = Some (tbl_found t ks)"
  by (induction ks) (auto simp: tbl_found_def split: option.splits)

lemma tbl_multi_get_kv_all:
  "set ks \<subseteq> dom t \<Longrightarrow> tbl_multi_get_kv t p ks = Some (map (\<lambda>k. (k, the (t k))) ks)"
  by (induction ks) auto

lemma tbl_multi_get_kv_panics:
  "tbl_multi_get_kv t True ks = None \<longleftrightarrow> \<not> set ks \<subseteq> dom t"
  by (induction ks) (auto split: option.splits)

lemma set_tbl_found [map_simps]: "set (tbl_found t ks) = {(k, v). k \<in> set ks \<and> t k = Some v}"
  by (auto simp: tbl_found_def split: option.splits)

lemma map_of_tbl_found [map_simps]:
  "map_of (tbl_found t ks) = (\<lambda>k. if k \<in> set ks then t k else None)"
  by (induction ks) (auto simp: tbl_found_def fun_eq_iff split: option.splits)

lemma tbl_extend_Nil [simp]: "tbl_extend t [] = t"
  by (simp add: tbl_extend_def)

lemma tbl_extend_Cons [simp]: "tbl_extend t (kv # kvs) = tbl_extend (t(fst kv \<mapsto> snd kv)) kvs"
  by (simp add: tbl_extend_def split: prod.splits)

lemma tbl_extend_map_add [map_simps]: "tbl_extend t kvs = t ++ map_of (rev kvs)"
proof (induction kvs arbitrary: t)
  case Nil
  then show ?case by simp
next
  case (Cons kv kvs)
  then show ?case
    by (auto simp: map_add_def fun_eq_iff split: option.splits)
qed

lemma tbl_extend_other: "k \<notin> fst ` set kvs \<Longrightarrow> tbl_extend t kvs k = t k"
  by (induction kvs arbitrary: t) auto

lemma tbl_extend_distinct:
  "distinct (map fst kvs) \<Longrightarrow> (k, v) \<in> set kvs \<Longrightarrow> tbl_extend t kvs k = Some v"
  by (induction kvs arbitrary: t) (auto simp: tbl_extend_other rev_image_eqI)

lemma tbl_remove_batch_Nil [simp]: "tbl_remove_batch t [] = t"
  by (simp add: tbl_remove_batch_def)

lemma tbl_remove_batch_Cons [simp]:
  "tbl_remove_batch t (k # ks) = tbl_remove_batch (t(k := None)) ks"
  by (simp add: tbl_remove_batch_def)

lemma tbl_remove_batch_apply [map_simps]:
  "tbl_remove_batch t ks k = (if k \<in> set ks then None else t k)"
  by (induction ks arbitrary: t) auto

section \<open>Codecs and the typed view\<close>

locale pebble =
  fixes enc :: "'a \<Rightarrow> bytes"
    and dec :: "bytes \<Rightarrow> 'a option"
    and wf :: "'a \<Rightarrow> bool"
  assumes dec_enc: "wf v \<Longrightarrow> dec (enc v) = Some v"
begin

lemma enc_inj: "wf a \<Longrightarrow> wf b \<Longrightarrow> enc a = enc b \<longleftrightarrow> a = b"
  by (metis dec_enc option.inject)

end

locale rocks_table =
  K: pebble kenc kdec kwf + V: pebble venc vdec vwf
  for kenc :: "'k \<Rightarrow> bytes" and kdec :: "bytes \<Rightarrow> 'k option" and kwf :: "'k \<Rightarrow> bool"
    and venc :: "'v \<Rightarrow> bytes" and vdec :: "bytes \<Rightarrow> 'v option" and vwf :: "'v \<Rightarrow> bool"
begin

text \<open>The typed table a byte level table stands for, and the tables the program can build.\<close>

definition view :: "raw_table \<Rightarrow> ('k \<rightharpoonup> 'v)" where
  "view t k = (if kwf k then Option.bind (t (kenc k)) vdec else None)"

definition typed :: "raw_table \<Rightarrow> bool" where
  "typed t \<longleftrightarrow> (\<forall>k b. kwf k \<longrightarrow> t (kenc k) = Some b \<longrightarrow> (\<exists>v. vwf v \<and> b = venc v))"

lemma typed_empty: "typed Map.empty"
  by (simp add: typed_def)

lemma typed_set: "typed t \<Longrightarrow> kwf k \<Longrightarrow> vwf v \<Longrightarrow> typed (raw_set kenc venc t k v)"
  by (auto simp: typed_def raw_set_def)

lemma typed_remove: "typed t \<Longrightarrow> typed (raw_remove kenc t k)"
  by (auto simp: typed_def raw_remove_def)

lemma view_set: "kwf k \<Longrightarrow> vwf v \<Longrightarrow> view (raw_set kenc venc t k v) = (view t)(k \<mapsto> v)"
  by (auto simp: view_def raw_set_def fun_eq_iff K.enc_inj V.dec_enc)

lemma view_remove: "kwf k \<Longrightarrow> view (raw_remove kenc t k) = (view t)(k := None)"
  by (auto simp: view_def raw_remove_def fun_eq_iff K.enc_inj)

lemma get_view: "typed t \<Longrightarrow> kwf k \<Longrightarrow> raw_get kenc vdec t k = Some (view t k)"
  by (cases "t (kenc k)") (fastforce simp: raw_get_def view_def typed_def V.dec_enc)+

lemma multi_get_view:
  "typed t \<Longrightarrow> list_all kwf ks \<Longrightarrow> raw_multi_get kenc vdec t ks = Some (tbl_multi_get (view t) ks)"
  unfolding raw_multi_get_def tbl_multi_get_def
  by (rule option_list_map_total) (auto simp: get_view list_all_iff)

lemma extend_view:
  "typed t \<Longrightarrow> list_all (\<lambda>(k, v). kwf k \<and> vwf v) kvs \<Longrightarrow>
     typed (raw_extend kenc venc t kvs)
     \<and> view (raw_extend kenc venc t kvs) = tbl_extend (view t) kvs"
  by (induction kvs arbitrary: t) (auto simp: raw_extend_def typed_set view_set)

lemma remove_batch_view:
  "typed t \<Longrightarrow> list_all kwf ks \<Longrightarrow>
     typed (raw_remove_batch kenc t ks)
     \<and> view (raw_remove_batch kenc t ks) = tbl_remove_batch (view t) ks"
  by (induction ks arbitrary: t) (auto simp: raw_remove_batch_def typed_remove view_remove)

end

end
