(* ===== verification/DbTypes.thy ===== *)
theory DbTypes
  imports Proto Storage
begin

text \<open>
  The records of the database (\<open>src/db/structs.rs\<close>, parts of \<open>src/tokens/structs.rs\<close> and
  \<open>src/inscriptions/structs.rs\<close>) and the conversions between them.  Their byte codecs are in
  \<open>Codec\<close>.
\<close>

section \<open>Positions and identifiers\<close>

record outpoint =
  op_txid :: hash32
  op_vout :: u32

record location =
  loc_outpoint :: outpoint
  loc_offset :: u64

record inscription_id =
  iid_txid :: hash32
  iid_index :: u32

text \<open>The \<open>From\<close> conversions between \<open>InscriptionId\<close> and \<open>OutPoint\<close>.\<close>

definition outpoint_of_iid :: "inscription_id \<Rightarrow> outpoint" where
  "outpoint_of_iid i = \<lparr> op_txid = iid_txid i, op_vout = iid_index i \<rparr>"

definition iid_of_outpoint :: "outpoint \<Rightarrow> inscription_id" where
  "iid_of_outpoint p = \<lparr> iid_txid = op_txid p, iid_index = op_vout p \<rparr>"

record address_outpoint =
  ao_address :: hash32
  ao_outpoint :: outpoint

record address_location =
  al_address :: hash32
  al_location :: location

record address_token =
  at_address :: hash32
  at_token :: tick

record address_token_id =
  ati_address :: hash32
  ati_token :: tick
  ati_id :: u64

record token_id =
  ti_token :: tick
  ti_id :: u64

definition address_token_of_id :: "address_token_id \<Rightarrow> address_token" where
  "address_token_of_id k = \<lparr> at_address = ati_address k, at_token = ati_token k \<rparr>"

section \<open>Values\<close>

record tx_prevout =
  pv_script_hash :: hash32
  pv_value :: u64

record part =
  pt_is_tapscript :: bool
  pt_script_buffer :: bytes

record partials =
  pa_inscription_index :: u32
  pa_genesis_txid :: hash32
  pa_parts :: "part list"

record block_info =
  bi_hash :: hash32
  bi_created :: u32

definition block_info_default :: block_info where
  "block_info_default = \<lparr> bi_hash = replicate 32 0, bi_created = 0 \<rparr>"

record transfer_proto_db =
  tp_tick :: tick
  tp_amt :: fixed128
  tp_height :: u32

record deploy_proto_db =
  dp_tick :: tick
  dp_max :: fixed128
  dp_lim :: fixed128
  dp_dec :: u8
  dp_supply :: fixed128
  dp_transfer_count :: u64
  dp_mint_count :: u64
  dp_height :: u32
  dp_created :: u32
  dp_deployer :: hash32
  dp_transactions :: u32

definition is_completed :: "deploy_proto_db \<Rightarrow> bool" where
  "is_completed p \<longleftrightarrow> dp_supply p = dp_max p"

record token_meta =
  tm_genesis :: inscription_id
  tm_proto :: deploy_proto_db

record token_balance =
  tb_balance :: fixed128
  tb_transferable_balance :: fixed128
  tb_transfers_count :: u64

definition token_balance_default :: token_balance where
  "token_balance_default =
     \<lparr> tb_balance = 0, tb_transferable_balance = 0, tb_transfers_count = 0 \<rparr>"

text \<open>What an account holds in all, transferable amounts included.\<close>

definition holding :: "token_balance \<Rightarrow> fixed128" where
  "holding b = tb_balance b + tb_transferable_balance b"

section \<open>Transfers and the protocol of the chain\<close>

text \<open>\<open>TransferProtoDB::from_proto\<close> and the conversion back, an \<open>if\<close> chain whose last arm
  is \<open>Prc20\<close>.\<close>

definition transfer_from_proto :: "blockchain \<Rightarrow> transfer_proto \<Rightarrow> u32 \<Rightarrow> transfer_proto_db option" where
  "transfer_from_proto b p height =
     (case transfer_value b p of None \<Rightarrow> None
      | Some v \<Rightarrow> Some \<lparr> tp_tick = mw_tick v, tp_amt = mw_amt v, tp_height = height \<rparr>)"

definition transfer_to_proto :: "blockchain \<Rightarrow> transfer_proto_db \<Rightarrow> transfer_proto" where
  "transfer_to_proto b t =
     (let w = \<lparr> mw_tick = tp_tick t, mw_amt = tp_amt t \<rparr> in
      if b = Bellscoin then TransferBel20 w
      else if b = Dogecoin then TransferDrc20 w
      else if b = Wojakcoin then TransferWjk20 w
      else TransferPrc20 w)"

lemma transfer_to_from_proto:
  "b \<noteq> Litecoin \<Longrightarrow> transfer_from_proto b (transfer_to_proto b t) (tp_height t) = Some t"
  by (cases b) (simp_all add: transfer_from_proto_def transfer_to_proto_def on_chain_def)

lemma transfer_to_from_proto_litecoin:
  "transfer_from_proto Litecoin (transfer_to_proto Litecoin t) h = None"
  by (simp add: transfer_from_proto_def transfer_to_proto_def on_chain_def)

section \<open>Token actions and history\<close>

datatype token_action =
    TaDeploy inscription_id deploy_proto_db hash32
  | TaMint hash32 mint_wrapper hash32 u32
  | TaTransfer location hash32 mint_wrapper hash32 u32
  | TaTransferred location hash32 hash32 u32

datatype history_token_action =
    HDeploy tick fixed128 fixed128 u8 hash32 hash32 u32
  | HMint tick fixed128 hash32 hash32 u32
  | HDeployTransfer tick fixed128 hash32 hash32 u32
  | HSend tick fixed128 hash32 hash32 hash32 u32  \<comment> \<open>tick, amount, recipient, sender, txid, vout\<close>

fun history_tick :: "history_token_action \<Rightarrow> tick" where
  "history_tick (HDeploy t _ _ _ _ _ _) = t"
| "history_tick (HMint t _ _ _ _) = t"
| "history_tick (HDeployTransfer t _ _ _ _) = t"
| "history_tick (HSend t _ _ _ _ _) = t"

fun history_recipient :: "history_token_action \<Rightarrow> hash32" where
  "history_recipient (HDeploy _ _ _ _ r _ _) = r"
| "history_recipient (HMint _ _ r _ _) = r"
| "history_recipient (HDeployTransfer _ _ r _ _) = r"
| "history_recipient (HSend _ _ r _ _ _) = r"

fun history_sender :: "history_token_action \<Rightarrow> hash32 option" where
  "history_sender (HSend _ _ _ s _ _) = Some s"
| "history_sender _ = None"

datatype token_history_db =
    ThDeploy fixed128 fixed128 u8 hash32 u32
  | ThMint fixed128 hash32 u32
  | ThDeployTransfer fixed128 hash32 u32
  | ThSend fixed128 hash32 hash32 u32      \<comment> \<open>amount, recipient, txid, vout\<close>
  | ThReceive fixed128 hash32 hash32 u32   \<comment> \<open>amount, sender, txid, vout\<close>
  | ThSendReceive fixed128 hash32 u32

record history_value =
  hv_height :: u32
  hv_action :: token_history_db

fun from_token_history :: "history_token_action \<Rightarrow> token_history_db" where
  "from_token_history (HDeploy _ mx lim dec _ txid vout) = ThDeploy mx lim dec txid vout"
| "from_token_history (HMint _ amt _ txid vout) = ThMint amt txid vout"
| "from_token_history (HDeployTransfer _ amt _ txid vout) = ThDeployTransfer amt txid vout"
| "from_token_history (HSend _ amt recipient sender txid vout) =
     (if sender = recipient then ThSendReceive amt txid vout else ThSend amt recipient txid vout)"

fun history_db_address :: "token_history_db \<Rightarrow> hash32 option" where
  "history_db_address (ThReceive _ sender _ _) = Some sender"
| "history_db_address (ThSend _ recipient _ _) = Some recipient"
| "history_db_address _ = None"

fun history_db_outpoint :: "token_history_db \<Rightarrow> outpoint" where
  "history_db_outpoint (ThDeploy _ _ _ txid vout) = \<lparr> op_txid = txid, op_vout = vout \<rparr>"
| "history_db_outpoint (ThMint _ txid vout) = \<lparr> op_txid = txid, op_vout = vout \<rparr>"
| "history_db_outpoint (ThDeployTransfer _ txid vout) = \<lparr> op_txid = txid, op_vout = vout \<rparr>"
| "history_db_outpoint (ThSend _ _ txid vout) = \<lparr> op_txid = txid, op_vout = vout \<rparr>"
| "history_db_outpoint (ThReceive _ _ txid vout) = \<lparr> op_txid = txid, op_vout = vout \<rparr>"
| "history_db_outpoint (ThSendReceive _ txid vout) = \<lparr> op_txid = txid, op_vout = vout \<rparr>"

end
