(* ===== verification/Codec.thy ===== *)
theory Codec
  imports DbTypes
begin

text \<open>
  Byte codecs of the database types: the \<open>Pebble\<close> implementations of \<open>src/db/structs.rs\<close> and of
  \<open>packages/rocksdb-wrapper/src/item.rs\<close>.  \<open>None\<close> is a failed \<open>from_bytes\<close>, or a slice out of
  range inside it; the table turns both into a panic.

  The consensus encoding of \<open>OutPoint\<close> and \<open>Txid\<close> is third party code, the parameter
  \<open>consensus\<close>; \<open>wire_consensus\<close> is the Bitcoin wire format, which the project itself writes in
  \<open>TxOutpoint::to_bytes\<close> and reads in \<open>read_tx_outpoint\<close>.
\<close>

section \<open>The consensus encoding\<close>

record consensus =
  cs_outpoint :: "outpoint \<Rightarrow> bytes"
  cs_outpoint_de :: "bytes \<Rightarrow> outpoint option"
  cs_txid :: "hash32 \<Rightarrow> bytes"
  cs_txid_de :: "bytes \<Rightarrow> hash32 option"

definition wf_hash :: "hash32 \<Rightarrow> bool" where
  "wf_hash h \<longleftrightarrow> length h = 32"

definition wf_outpoint :: "outpoint \<Rightarrow> bool" where
  "wf_outpoint p \<longleftrightarrow> wf_hash (op_txid p)"

definition u32_le :: "u32 \<Rightarrow> bytes" where
  "u32_le w = le_bytes 4 (unat w)"

definition u32_from_le :: "bytes \<Rightarrow> u32 option" where
  "u32_from_le bs = (if length bs = 4 then Some (word_of_nat (le_nat bs)) else None)"

definition outpoint_bytes :: "outpoint \<Rightarrow> bytes" where
  "outpoint_bytes p = op_txid p @ u32_le (op_vout p)"

definition outpoint_of_bytes :: "bytes \<Rightarrow> outpoint option" where
  "outpoint_of_bytes bs = (if length bs = 36
     then map_option (\<lambda>v. \<lparr> op_txid = take 32 bs, op_vout = v \<rparr>) (u32_from_le (drop 32 bs))
     else None)"

definition hash_of_bytes :: "bytes \<Rightarrow> hash32 option" where
  "hash_of_bytes bs = (if length bs = 32 then Some bs else None)"

definition wire_consensus :: consensus where
  "wire_consensus = \<lparr> cs_outpoint = outpoint_bytes, cs_outpoint_de = outpoint_of_bytes,
     cs_txid = (\<lambda>h. h), cs_txid_de = hash_of_bytes \<rparr>"

lemma length_u32_le [simp, codec_simps]: "length (u32_le w) = 4"
  by (simp add: u32_le_def)

lemma u32_from_le_u32_le [simp, codec_simps]: "u32_from_le (u32_le w) = Some w"
  using unat_u32_less [of w]
  by (simp add: u32_from_le_def u32_le_def le_nat_le_bytes)

section \<open>Codecs of the database records\<close>

definition address_location_enc :: "consensus \<Rightarrow> address_location \<Rightarrow> bytes" where
  "address_location_enc C v = al_address v @ cs_outpoint C (loc_outpoint (al_location v))
     @ u64_be (loc_offset (al_location v))"

definition address_location_dec :: "consensus \<Rightarrow> bytes \<Rightarrow> address_location option" where
  "address_location_dec C v = do {
     address \<leftarrow> Option.bind (slice 0 32 v) hash_of_bytes;
     outp \<leftarrow> Option.bind (slice 32 (32 + 36) v) (cs_outpoint_de C);
     offset \<leftarrow> Option.bind (slice (32 + 32 + 4) (length v) v) u64_from_be;
     Some \<lparr> al_address = address, al_location = \<lparr> loc_outpoint = outp, loc_offset = offset \<rparr> \<rparr>
   }"

definition wf_address_location :: "address_location \<Rightarrow> bool" where
  "wf_address_location v \<longleftrightarrow> wf_hash (al_address v) \<and> wf_outpoint (loc_outpoint (al_location v))"

definition tx_prevout_enc :: "tx_prevout \<Rightarrow> bytes" where
  "tx_prevout_enc v = pv_script_hash v @ u64_be (pv_value v)"

definition tx_prevout_dec :: "bytes \<Rightarrow> tx_prevout option" where
  "tx_prevout_dec v = do {
     script_hash \<leftarrow> Option.bind (slice 0 32 v) hash_of_bytes;
     value \<leftarrow> Option.bind (slice 32 (length v) v) u64_from_be;
     Some \<lparr> pv_script_hash = script_hash, pv_value = value \<rparr>
   }"

definition wf_tx_prevout :: "tx_prevout \<Rightarrow> bool" where
  "wf_tx_prevout v \<longleftrightarrow> wf_hash (pv_script_hash v)"

definition part_enc :: "part \<Rightarrow> bytes" where
  "part_enc p = [if pt_is_tapscript p then 1 else 0]
     @ u32_be (word_of_nat (length (pt_script_buffer p))) @ pt_script_buffer p"

definition partials_enc :: "consensus \<Rightarrow> partials \<Rightarrow> bytes" where
  "partials_enc C v = u32_be (pa_inscription_index v) @ cs_txid C (pa_genesis_txid v)
     @ concat (map part_enc (pa_parts v))"

text \<open>The \<open>while current_byte != v.len()\<close> loop, on the bytes from \<open>current_byte\<close> on.\<close>

function parts_dec :: "bytes \<Rightarrow> part list option" where
  "parts_dec [] = Some []"
| "parts_dec (b # r) =
     (if length r < 4 then None
      else let n = be_nat (take 4 r); s = drop 4 r in
        if length s < n then None
        else map_option ((#) \<lparr> pt_is_tapscript = (b = 1), pt_script_buffer = take n s \<rparr>)
               (parts_dec (drop n s)))"
  by pat_completeness auto
termination
  by (relation "measure length") auto

definition partials_dec :: "consensus \<Rightarrow> bytes \<Rightarrow> partials option" where
  "partials_dec C v = do {
     index \<leftarrow> Option.bind (slice 0 4 v) u32_from_be;
     genesis \<leftarrow> Option.bind (slice 4 (32 + 4) v) (cs_txid_de C);
     parts \<leftarrow> parts_dec (drop (32 + 4) v);
     Some \<lparr> pa_inscription_index = index, pa_genesis_txid = genesis, pa_parts = parts \<rparr>
   }"

definition wf_partials :: "partials \<Rightarrow> bool" where
  "wf_partials v \<longleftrightarrow> wf_hash (pa_genesis_txid v)
     \<and> list_all (\<lambda>p. length (pt_script_buffer p) < 2 ^ 32) (pa_parts v)"

definition block_info_enc :: "block_info \<Rightarrow> bytes" where
  "block_info_enc v = bi_hash v @ u32_be (bi_created v)"

definition block_info_dec :: "bytes \<Rightarrow> block_info option" where
  "block_info_dec v = do {
     hash \<leftarrow> Option.bind (slice 0 32 v) hash_of_bytes;
     created \<leftarrow> Option.bind (slice 32 (length v) v) u32_from_be;
     Some \<lparr> bi_hash = hash, bi_created = created \<rparr>
   }"

definition wf_block_info :: "block_info \<Rightarrow> bool" where
  "wf_block_info v \<longleftrightarrow> wf_hash (bi_hash v)"

text \<open>\<open>[u8; 8]\<close> from a slice: the conversion fails on any other length.\<close>

definition tick_of_slice :: "bytes \<Rightarrow> tick option" where
  "tick_of_slice bs = (if length bs = tick_storage_len then Some bs else None)"

definition address_token_id_enc :: "address_token_id \<Rightarrow> bytes" where
  "address_token_id_enc v = ati_address v @ ati_token v @ u64_be (ati_id v)"

definition address_token_id_dec :: "bytes \<Rightarrow> address_token_id option" where
  "address_token_id_dec v = do {
     address \<leftarrow> Option.bind (slice 0 32 v) hash_of_bytes;
     token \<leftarrow> Option.bind (slice 32 (length v - 8) v) tick_of_slice;
     id \<leftarrow> Option.bind (slice (length v - 8) (length v) v) u64_from_be;
     Some \<lparr> ati_address = address, ati_token = token, ati_id = id \<rparr>
   }"

definition wf_address_token_id :: "address_token_id \<Rightarrow> bool" where
  "wf_address_token_id v \<longleftrightarrow> wf_hash (ati_address v) \<and> wf_tick (ati_token v)"

definition address_token_id_fixed_size :: nat where
  "address_token_id_fixed_size = 32 + 4 + 8"

text \<open>\<open>TokenId\<close> still cuts the tick at four bytes when it decodes.\<close>

definition token_id_enc :: "token_id \<Rightarrow> bytes" where
  "token_id_enc v = ti_token v @ u64_be (ti_id v)"

definition token_id_dec :: "bytes \<Rightarrow> token_id option" where
  "token_id_dec v = do {
     token \<leftarrow> Option.bind (slice 0 4 v) tick_of_slice;
     id \<leftarrow> Option.bind (slice 4 (length v) v) u64_from_be;
     Some \<lparr> ti_token = token, ti_id = id \<rparr>
   }"

definition address_token_enc :: "address_token \<Rightarrow> bytes" where
  "address_token_enc v = at_address v @ at_token v"

definition address_token_dec :: "bytes \<Rightarrow> address_token option" where
  "address_token_dec v = do {
     address \<leftarrow> Option.bind (slice 0 32 v) hash_of_bytes;
     token \<leftarrow> Option.bind (slice 32 (length v) v) tick_of_slice;
     Some \<lparr> at_address = address, at_token = token \<rparr>
   }"

definition wf_address_token :: "address_token \<Rightarrow> bool" where
  "wf_address_token v \<longleftrightarrow> wf_hash (at_address v) \<and> wf_tick (at_token v)"

text \<open>\<open>LowerCaseTokenTick\<close> is stored as it is.\<close>

definition lower_tick_enc :: "lower_tick \<Rightarrow> bytes" where
  "lower_tick_enc v = v"

definition lower_tick_dec :: "bytes \<Rightarrow> lower_tick option" where
  "lower_tick_dec v = Some v"

section \<open>Codecs of collections\<close>

text \<open>\<open>slice::chunks\<close>; the last chunk may be shorter.\<close>

function chunks :: "nat \<Rightarrow> 'a list \<Rightarrow> 'a list list" where
  "chunks n xs = (if n = 0 \<or> xs = [] then [] else take n xs # chunks n (drop n xs))"
  by pat_completeness auto
termination
  by (relation "measure (\<lambda>(n, xs). length xs)") auto

declare chunks.simps [simp del]

definition vec_enc :: "('a \<Rightarrow> bytes) \<Rightarrow> 'a list \<Rightarrow> bytes" where
  "vec_enc enc xs = concat (map enc xs)"

definition vec_dec :: "nat \<Rightarrow> (bytes \<Rightarrow> 'a option) \<Rightarrow> bytes \<Rightarrow> 'a list option" where
  "vec_dec sz dec v = option_list (map dec (chunks sz v))"

text \<open>\<open>HashSet<u64>\<close>: the elements in some order, each in eight bytes.\<close>

definition offsets_dec :: "bytes \<Rightarrow> u64 set option" where
  "offsets_dec v = map_option set (vec_dec 8 u64_from_be v)"

text \<open>The key of \<open>()\<close> tables, and pairs \<open>(K0, K1)\<close> whose first key has a fixed size.\<close>

definition unit_enc :: "unit \<Rightarrow> bytes" where
  "unit_enc u = []"

definition unit_dec :: "bytes \<Rightarrow> unit option" where
  "unit_dec v = Some ()"

definition pair_enc :: "('a \<Rightarrow> bytes) \<Rightarrow> ('b \<Rightarrow> bytes) \<Rightarrow> 'a \<times> 'b \<Rightarrow> bytes" where
  "pair_enc e0 e1 p = e0 (fst p) @ e1 (snd p)"

definition pair_dec ::
  "nat \<Rightarrow> (bytes \<Rightarrow> 'a option) \<Rightarrow> (bytes \<Rightarrow> 'b option) \<Rightarrow> bytes \<Rightarrow> ('a \<times> 'b) option" where
  "pair_dec n d0 d1 v = do {
     k0 \<leftarrow> Option.bind (slice 0 n v) d0;
     k1 \<leftarrow> Option.bind (slice n (length v) v) d1;
     Some (k0, k1)
   }"

section \<open>Round trips\<close>

lemma slice_prefix [codec_simps]: "j = length xs \<Longrightarrow> slice 0 j (xs @ ys) = Some xs"
  by (simp add: slice_def)

lemma slice_whole [codec_simps]: "j = length xs \<Longrightarrow> slice 0 j xs = Some xs"
  by (simp add: slice_def)

lemma slice_skip [codec_simps]:
  "length xs \<le> i \<Longrightarrow> i \<le> j \<Longrightarrow> slice i j (xs @ ys) = slice (i - length xs) (j - length xs) ys"
  by (auto simp: slice_def)

lemma hash_of_bytes_wf [simp, codec_simps]: "wf_hash h \<Longrightarrow> hash_of_bytes h = Some h"
  by (simp add: hash_of_bytes_def wf_hash_def)

lemma wf_hash_length [simp]: "wf_hash h \<Longrightarrow> length h = 32"
  by (simp add: wf_hash_def)

lemma wf_tick_length [simp]: "wf_tick t \<Longrightarrow> length t = 8"
  by (simp add: wf_tick_def tick_storage_len_def)

lemma tick_of_slice_wf [simp, codec_simps]: "wf_tick t \<Longrightarrow> tick_of_slice t = Some t"
  by (simp add: tick_of_slice_def wf_tick_def)

locale consensus_codec =
  fixes C :: consensus
  assumes outpoint_length: "wf_outpoint p \<Longrightarrow> length (cs_outpoint C p) = 36"
    and outpoint_roundtrip: "wf_outpoint p \<Longrightarrow> cs_outpoint_de C (cs_outpoint C p) = Some p"
    and txid_length: "wf_hash h \<Longrightarrow> length (cs_txid C h) = 32"
    and txid_roundtrip: "wf_hash h \<Longrightarrow> cs_txid_de C (cs_txid C h) = Some h"
begin

lemma address_location_roundtrip:
  "wf_address_location v \<Longrightarrow> address_location_dec C (address_location_enc C v) = Some v"
  by (simp add: address_location_dec_def address_location_enc_def wf_address_location_def
      outpoint_length outpoint_roundtrip codec_simps)

lemma partials_roundtrip:
  assumes "wf_partials v"
  shows "partials_dec C (partials_enc C v) = Some v"
proof -
  have "parts_dec (concat (map part_enc ps)) = Some ps"
    if "list_all (\<lambda>p. length (pt_script_buffer p) < 2 ^ 32) ps" for ps
    using that
  proof (induction ps)
    case Nil
    then show ?case by simp
  next
    case (Cons p ps)
    then have "be_nat (u32_be (word_of_nat (length (pt_script_buffer p)))) = length (pt_script_buffer p)"
      by (simp add: u32_be_def be_nat_be_bytes unat_of_nat)
    with Cons show ?case
      by (simp add: part_enc_def Let_def)
  qed
  with assms show ?thesis
    by (simp add: partials_dec_def partials_enc_def wf_partials_def txid_length txid_roundtrip
        codec_simps)
qed

end

interpretation wire: consensus_codec wire_consensus
  by unfold_locales
    (auto simp: wire_consensus_def wf_outpoint_def outpoint_bytes_def outpoint_of_bytes_def)

lemma tx_prevout_roundtrip: "wf_tx_prevout v \<Longrightarrow> tx_prevout_dec (tx_prevout_enc v) = Some v"
  by (simp add: tx_prevout_dec_def tx_prevout_enc_def wf_tx_prevout_def codec_simps)

lemma block_info_roundtrip: "wf_block_info v \<Longrightarrow> block_info_dec (block_info_enc v) = Some v"
  by (simp add: block_info_dec_def block_info_enc_def wf_block_info_def codec_simps)

lemma address_token_id_roundtrip:
  "wf_address_token_id v \<Longrightarrow> address_token_id_dec (address_token_id_enc v) = Some v"
  by (simp add: address_token_id_dec_def address_token_id_enc_def wf_address_token_id_def codec_simps)

lemma address_token_roundtrip:
  "wf_address_token v \<Longrightarrow> address_token_dec (address_token_enc v) = Some v"
  by (simp add: address_token_dec_def address_token_enc_def wf_address_token_def codec_simps)

text \<open>No \<open>TokenId\<close> decodes: a slice of four bytes is never an array of eight.\<close>

lemma token_id_never_decodes: "token_id_dec bs = None"
  by (auto simp: token_id_dec_def tick_of_slice_def tick_storage_len_def slice_def bind_eq_None_conv)

lemma chunks_append:
  "0 < n \<Longrightarrow> length xs = n \<Longrightarrow> chunks n (xs @ ys) = xs # chunks n ys"
  by (subst chunks.simps) auto

lemma vec_roundtrip:
  assumes "0 < n" and "\<And>x. x \<in> set xs \<Longrightarrow> length (enc x) = n \<and> dec (enc x) = Some x"
  shows "vec_dec n dec (vec_enc enc xs) = Some xs"
  using assms(2)
proof (induction xs)
  case Nil
  then show ?case by (simp add: vec_dec_def vec_enc_def chunks.simps)
next
  case (Cons x xs)
  with assms(1) show ?case by (simp add: vec_dec_def vec_enc_def chunks_append)
qed

lemma offsets_roundtrip: "offsets_dec (vec_enc u64_be xs) = Some (set xs)"
  by (simp add: offsets_dec_def vec_roundtrip)

lemma pair_roundtrip:
  "length (e0 (fst p)) = n \<Longrightarrow> d0 (e0 (fst p)) = Some (fst p) \<Longrightarrow> d1 (e1 (snd p)) = Some (snd p) \<Longrightarrow>
     pair_dec n d0 d1 (pair_enc e0 e1 p) = Some p"
  by (simp add: pair_dec_def pair_enc_def codec_simps)

section \<open>The tables of the database\<close>

interpretation outpoint_codec: pebble outpoint_bytes outpoint_of_bytes wf_outpoint
  by unfold_locales (simp add: wf_outpoint_def outpoint_bytes_def outpoint_of_bytes_def)

interpretation prevouts_table:
  rocks_table outpoint_bytes outpoint_of_bytes wf_outpoint tx_prevout_enc tx_prevout_dec wf_tx_prevout
  by unfold_locales (simp add: tx_prevout_roundtrip)

interpretation partials_table:
  rocks_table outpoint_bytes outpoint_of_bytes wf_outpoint
    "partials_enc wire_consensus" "partials_dec wire_consensus" wf_partials
  by unfold_locales (rule wire.partials_roundtrip)

interpretation block_info_table:
  rocks_table u32_be u32_from_be "\<lambda>_. True" block_info_enc block_info_dec wf_block_info
  by unfold_locales (simp_all add: block_info_roundtrip)

interpretation token_event_table:
  rocks_table outpoint_bytes outpoint_of_bytes wf_outpoint
    address_token_id_enc address_token_id_dec wf_address_token_id
  by unfold_locales (rule address_token_id_roundtrip)

end
