(* ===== verification/DataProps.thy ===== *)
theory DataProps
  imports Codec
begin

text \<open>
  Properties of the data layer: the codecs and tables of the database (\<open>Codec\<close>, \<open>Storage\<close>), the
  padding of ticks (\<open>Ticks\<close>), the acceptance of inscription contents (\<open>Proto\<close>) and the choice of
  the chain (\<open>Blockchain\<close>).
\<close>

lemma option_list_None: "None \<in> set xs \<Longrightarrow> option_list xs = None"
proof (induction xs)
  case (Cons x xs)
  then show ?case by (cases x) auto
qed simp

lemma chunks_take: "0 < n \<Longrightarrow> xs \<noteq> [] \<Longrightarrow> take n xs \<in> set (chunks n xs)"
  by (subst chunks.simps) simp

definition example_address_token_id :: address_token_id where
  "example_address_token_id =
     \<lparr> ati_address = replicate 32 5, ati_token = [119, 106, 107, 0, 0, 0, 0, 0], ati_id = 9 \<rparr>"

lemma example_address_token_id_wf: "wf_address_token_id example_address_token_id"
  by (simp add: wf_address_token_id_def wf_hash_def wf_tick_def example_address_token_id_def tick_storage_len_def)

text \<open>The list of the events of a block is cut into pieces of 44 bytes where its elements have 48, so
  every list but the empty one fails to decode.\<close>

lemma event_list_unreadable:
  assumes wf: "list_all wf_address_token_id (e # es)"
  shows "vec_dec address_token_id_fixed_size address_token_id_dec (vec_enc address_token_id_enc (e # es)) = None"
proof -
  let ?bs = "vec_enc address_token_id_enc (e # es)"
  have len: "length ?bs = 48 + length (vec_enc address_token_id_enc es)"
    using wf by (simp add: vec_enc_def address_token_id_enc_def wf_address_token_id_def)
  then have first: "take 44 ?bs \<in> set (chunks 44 ?bs)"
    by (intro chunks_take) auto
  have "length (take 44 ?bs) = 44" using len by simp
  then have "address_token_id_dec (take 44 ?bs) = None"
    by (auto simp: address_token_id_dec_def slice_def tick_of_slice_def tick_storage_len_def
        bind_eq_None_conv)
  with first have "None \<in> set (map address_token_id_dec (chunks 44 ?bs))" by force
  then show ?thesis
    by (simp add: vec_dec_def address_token_id_fixed_size_def option_list_None)
qed

text \<open>C30.  Which records of the database survive being stored.  Previous outputs, block infos, history
  keys, balance keys, the keys of open transfers, partial inscriptions and sets of offsets, with
  hashes, outpoints and ticks of their length, decode from their bytes to themselves.  The other two
  codecs do not: no key of a token and an id decodes from any bytes, and the list of the events of a
  block decodes only when it is empty.\<close>

theorem codecs_roundtrip:
  "(wf_tx_prevout p \<longrightarrow> tx_prevout_dec (tx_prevout_enc p) = Some p)
   \<and> (wf_block_info b \<longrightarrow> block_info_dec (block_info_enc b) = Some b)
   \<and> (wf_address_token_id a \<longrightarrow> address_token_id_dec (address_token_id_enc a) = Some a)
   \<and> (wf_address_token t \<longrightarrow> address_token_dec (address_token_enc t) = Some t)
   \<and> (wf_address_location l \<longrightarrow>
        address_location_dec wire_consensus (address_location_enc wire_consensus l) = Some l)
   \<and> (wf_partials q \<longrightarrow> partials_dec wire_consensus (partials_enc wire_consensus q) = Some q)
   \<and> offsets_dec (vec_enc u64_be os) = Some (set os)
   \<and> token_id_dec bs = None
   \<and> (list_all wf_address_token_id es \<longrightarrow>
        vec_dec address_token_id_fixed_size address_token_id_dec (vec_enc address_token_id_enc es)
          = (if es = [] then Some [] else None))"
proof -
  have "vec_dec address_token_id_fixed_size address_token_id_dec (vec_enc address_token_id_enc es)
      = (if es = [] then Some [] else None)" if "list_all wf_address_token_id es"
    using event_list_unreadable [of "hd es" "tl es"] that
    by (cases es) (simp_all add: vec_dec_def vec_enc_def chunks.simps)
  then show ?thesis
    by (simp add: tx_prevout_roundtrip block_info_roundtrip address_token_id_roundtrip address_token_roundtrip
        wire.address_location_roundtrip wire.partials_roundtrip offsets_roundtrip token_id_never_decodes)
qed

theorem codecs_roundtrip_witness:
  "tx_prevout_dec (tx_prevout_enc \<lparr> pv_script_hash = replicate 32 1, pv_value = 50 \<rparr>)
     = Some \<lparr> pv_script_hash = replicate 32 1, pv_value = 50 \<rparr>
   \<and> address_token_id_dec (address_token_id_enc example_address_token_id) = Some example_address_token_id
   \<and> vec_dec address_token_id_fixed_size address_token_id_dec
       (vec_enc address_token_id_enc [example_address_token_id]) = None"
  using codecs_roundtrip [of "\<lparr> pv_script_hash = replicate 32 1, pv_value = 50 \<rparr>" _ example_address_token_id
      _ _ _ _ _ "[example_address_token_id]"] example_address_token_id_wf
  by (simp add: wf_tx_prevout_def wf_hash_def)

text \<open>A tick that passes the length check is stored in eight bytes and gives back the bytes of the
  inscription when its padding is trimmed, provided these do not end in a zero byte; trimming and
  padding a stored tick changes nothing, so two stored ticks with the same trimmed bytes are equal.\<close>

lemma tick_padding:
  assumes "pad_tick_bytes b v = Some t"
  shows "wf_tick t \<and> length v \<le> tick_byte_len b \<and> (last v \<noteq> 0 \<longrightarrow> trim_tick_bytes t = v)
    \<and> pad_tick (trim_tick_bytes t) = t
    \<and> (wf_tick u \<and> trim_tick_bytes u = trim_tick_bytes t \<longrightarrow> u = t)"
proof -
  from assms have wf: "wf_tick t" by (rule wf_pad_tick_bytes)
  from assms have t: "t = pad_tick v" "v \<noteq> []" "length v \<le> tick_byte_len b"
    by (auto simp: pad_tick_bytes_def split: if_splits)
  have "u = t" if "wf_tick u" "trim_tick_bytes u = trim_tick_bytes t"
    using pad_trim_tick [OF that(1)] pad_trim_tick [OF wf] that(2) by metis
  moreover have "trim_tick_bytes t = v" if "last v \<noteq> 0"
    unfolding t(1) by (rule trim_pad_tick [OF t(2) that])
  ultimately show ?thesis using wf t(3) pad_trim_tick [OF wf] by blast
qed

text \<open>A REST lookup finds the key under which a token is stored exactly when the tick fills all
  eight bytes: the conversion of the REST tick keeps the padding that the stored key does not have.\<close>

lemma rest_tick_key:
  assumes "wf_tick t"
  shows "lower_of_rest_tick ascii_lower t = lower_of_tick ascii_lower t \<longleftrightarrow> last t \<noteq> 0"
proof
  assume eq: "lower_of_rest_tick ascii_lower t = lower_of_tick ascii_lower t"
  have "length (ascii_lower t) = length (ascii_lower (trim_tick_bytes t))"
    using eq unfolding lower_of_rest_tick_def lower_of_tick_def by (rule arg_cong)
  then have "length (trim_tick_bytes t) = length t" by simp
  with assms show "last t \<noteq> 0"
    using length_trim_tick [of t] by (cases "t = []") (auto simp: wf_tick_def tick_storage_len_def)
next
  assume "last t \<noteq> 0"
  moreover from assms have "t \<noteq> []" by (auto simp: wf_tick_def tick_storage_len_def)
  ultimately have "rposition (\<lambda>b. b \<noteq> 0) t = Some (length t - 1)" "t \<noteq> []"
    by (simp_all only: rposition_last not_False_eq_True)
  then show "lower_of_rest_tick ascii_lower t = lower_of_tick ascii_lower t"
    by (simp add: lower_of_rest_tick_def lower_of_tick_def trim_tick_bytes_def)
qed

text \<open>A content is accepted only as a message of the running chain with positive amounts: a mint
  or a transfer has a value with a positive amount, and a deploy has a positive maximum and limit
  and at most 18 decimals, so the conversions to \<open>Brc4Value\<close> that follow cannot fail.\<close>

lemma accepted_message:
  assumes "try_parse b J ct c = Inr m"
  shows "content_type_ok b ct \<and> valid_utf8 c \<and>
    (case m of
       Brc4Mint p \<Rightarrow> (\<exists>t a. brc4_value_of_mint b p = Some (ValMint t a) \<and> 0 < a)
     | Brc4Transfer p \<Rightarrow> (\<exists>t a. brc4_value_of_transfer b p = Some (ValTransfer t a) \<and> 0 < a)
     | Brc4Deploy p \<Rightarrow> (\<exists>t mx lim d. brc4_value_of_deploy b p = Some (ValDeploy t mx lim d)
         \<and> 0 < mx \<and> 0 < lim \<and> d \<le> 18))"
  using try_parse_acceptable [OF assms] try_parse_content [OF assms]
  by (cases m) (auto simp: brc4_acceptable_def brc4_value_of_mint_def brc4_value_of_transfer_def
      brc4_value_of_deploy_def max_dec_def split: option.splits)

text \<open>The coin the server asks for always exists in the coin table, and it is the coin of the
  configured chain and network on every chain but Litecoin, where it is Bellscoin.\<close>

lemma server_coin_choice:
  "(intended_coin b n = Some c \<and> b \<noteq> Litecoin \<longrightarrow>
      coin_from_str (server_coin b n) = Some (coin_type_from c))
   \<and> coin_from_str (server_coin b n) \<noteq> None
   \<and> coin_from_str (server_coin Litecoin n) = Some (coin_type_from CBellscoin)"
  using server_coin_intended server_coin_known server_coin_litecoin by blast

text \<open>An open transfer turned into a protocol message and back is the same transfer on every
  chain but Litecoin; there the message is one of another chain and has no value.\<close>

lemma transfer_message_roundtrip:
  "transfer_from_proto b (transfer_to_proto b t) (tp_height t)
     = (if b = Litecoin then None else Some t)"
  by (cases b) (simp_all add: transfer_to_from_proto transfer_to_from_proto_litecoin)

end
