(* ===== verification/Holders.thy ===== *)
theory Holders
  imports DbTypes
begin

text \<open>
  The holder index kept in memory (\<open>src/tokens/holders.rs\<close>): for every tick the set of
  \<open>SortedByBalance(total, address)\<close> and the number of holders.  Its contract is \<open>holders_ok\<close>:
  the index is the one the balances of the database determine.

  The counter is a \<open>usize\<close>, a 64 bit word; the set of pairs stands for the \<open>BTreeSet\<close>, whose order
  only the REST handlers use.
\<close>

section \<open>State and operations\<close>

type_synonym sorted_by_balance = "fixed128 \<times> hash32"

record holders =
  ho_balances :: "tick \<rightharpoonup> sorted_by_balance set"
  ho_stats :: "tick \<rightharpoonup> u64"

datatype holder_action = Increase | Decrease

text \<open>\<open>Holders::init\<close> on the entries of the balance table.\<close>

definition holders_kept :: "(address_token \<times> token_balance) list \<Rightarrow> (address_token \<times> token_balance) list" where
  "holders_kept entries = filter (\<lambda>(k, v). tb_balance v \<noteq> 0 \<or> tb_transferable_balance v \<noteq> 0) entries"

definition holders_group ::
  "(address_token \<times> token_balance) list \<Rightarrow> tick \<Rightarrow> sorted_by_balance set option" where
  "holders_group kept t =
     (let group = filter (\<lambda>(k, v). at_token k = t) kept
      in if group = [] then None else Some (set (map (\<lambda>(k, v). (holding v, at_address k)) group)))"

definition holders_init :: "fixed_ops \<Rightarrow> (address_token \<times> token_balance) list \<Rightarrow> holders res" where
  "holders_init F entries =
     (if list_all (\<lambda>(k, v). holding v \<le> fx_cap F) (holders_kept entries)
      then Inr \<lparr> ho_balances = holders_group (holders_kept entries),
                 ho_stats = (\<lambda>t. map_option (\<lambda>s. word_of_nat (card s))
                   (holders_group (holders_kept entries) t)) \<rparr>
      else Inl FixedOverflow)"

definition get_holders :: "holders \<Rightarrow> tick \<Rightarrow> sorted_by_balance set option" where
  "get_holders h t = ho_balances h t"

definition holders_by_tick :: "holders \<Rightarrow> tick \<Rightarrow> u64 option" where
  "holders_by_tick h t = ho_stats h t"

text \<open>\<open>Holders::change\<close>\<close>

definition holders_change ::
  "fixed_ops \<Rightarrow> address_token \<Rightarrow> token_balance \<Rightarrow> fixed128 \<Rightarrow> holder_action \<Rightarrow> holders \<Rightarrow> holders res"
where
  "holders_change F key acc amt action h =
     rbind (fx_add F (tb_balance acc) (tb_transferable_balance acc)) (\<lambda>old_balance.
       let v = (case ho_balances h (at_token key) of Some s \<Rightarrow> s | None \<Rightarrow> {});
           existed = ((old_balance, at_address key) \<in> v);
           v = v - {(old_balance, at_address key)}
       in case action of
            Increase \<Rightarrow>
              rbind (fx_add F old_balance amt) (\<lambda>bal.
                Inr (h\<lparr> ho_balances := (ho_balances h)(at_token key \<mapsto> insert (bal, at_address key) v),
                        ho_stats := (if existed then ho_stats h
                          else (ho_stats h)(at_token key \<mapsto>
                            (case ho_stats h (at_token key) of Some n \<Rightarrow> n + 1 | None \<Rightarrow> 1))) \<rparr>))
          | Decrease \<Rightarrow>
              rbind (fx_sub old_balance amt) (\<lambda>bal.
                if bal \<noteq> 0
                then Inr (h\<lparr> ho_balances := (ho_balances h)(at_token key \<mapsto> insert (bal, at_address key) v) \<rparr>)
                else Inr (h\<lparr> ho_balances := (ho_balances h)(at_token key \<mapsto> v),
                             ho_stats := (case ho_stats h (at_token key) of
                               Some n \<Rightarrow> (ho_stats h)(at_token key \<mapsto> n - 1)
                             | None \<Rightarrow> ho_stats h) \<rparr>)))"

definition holders_increase ::
  "fixed_ops \<Rightarrow> address_token \<Rightarrow> token_balance \<Rightarrow> fixed128 \<Rightarrow> holders \<Rightarrow> holders res" where
  "holders_increase F key prev amt h = holders_change F key prev amt Increase h"

definition holders_decrease ::
  "fixed_ops \<Rightarrow> address_token \<Rightarrow> token_balance \<Rightarrow> fixed128 \<Rightarrow> holders \<Rightarrow> holders res" where
  "holders_decrease F key prev amt h = holders_change F key prev amt Decrease h"

section \<open>The contract\<close>

text \<open>The holders of a tick that a balance table determines.\<close>

definition holders_of :: "(address_token \<rightharpoonup> token_balance) \<Rightarrow> tick \<Rightarrow> sorted_by_balance set" where
  "holders_of acc t =
     {(holding b, a) | a b. acc \<lparr> at_address = a, at_token = t \<rparr> = Some b \<and> holding b \<noteq> 0}"

definition holders_ok :: "(address_token \<rightharpoonup> token_balance) \<Rightarrow> holders \<Rightarrow> bool" where
  "holders_ok acc h \<longleftrightarrow>
     (\<forall>t. (case ho_balances h t of Some s \<Rightarrow> s | None \<Rightarrow> {}) = holders_of acc t
        \<and> (case ho_stats h t of Some n \<Rightarrow> n = word_of_nat (card (holders_of acc t))
           | None \<Rightarrow> holders_of acc t = {}))"

lemma finite_holders_of: "finite (dom acc) \<Longrightarrow> finite (holders_of acc t)"
proof -
  assume "finite (dom acc)"
  moreover have "holders_of acc t \<subseteq> (\<lambda>k. (holding (the (acc k)), at_address k)) ` dom acc"
    by (force simp: holders_of_def image_iff)
  ultimately show ?thesis by (rule finite_surj)
qed

definition account_or_default :: "(address_token \<rightharpoonup> token_balance) \<Rightarrow> address_token \<Rightarrow> token_balance" where
  "account_or_default acc k = (case acc k of Some b \<Rightarrow> b | None \<Rightarrow> token_balance_default)"

lemma holding_default [simp]: "holding token_balance_default = 0"
  by (simp add: holding_def token_balance_default_def)

lemma address_token_eq:
  "\<lparr> at_address = a, at_token = t \<rparr> = k \<longleftrightarrow> a = at_address k \<and> t = at_token k"
  by (cases k) auto

lemma address_token_surj [simp]: "\<lparr> at_address = at_address k, at_token = at_token k \<rparr> = k"
  by (cases k) simp

lemma holders_of_other: "at_token k \<noteq> t \<Longrightarrow> holders_of (acc(k \<mapsto> b)) t = holders_of acc t"
  by (auto simp: holders_of_def address_token_eq)

text \<open>The entries of a tick, address by address.\<close>

lemma holders_of_iff:
  "(n, a) \<in> holders_of acc t \<longleftrightarrow>
     n = holding (account_or_default acc \<lparr> at_address = a, at_token = t \<rparr>) \<and> n \<noteq> 0"
  by (auto simp: holders_of_def account_or_default_def split: option.splits)

lemma account_or_default_update:
  "account_or_default (acc(k \<mapsto> b)) k' = (if k' = k then b else account_or_default acc k')"
  by (simp add: account_or_default_def)

text \<open>Writing one account replaces the entry of its address.\<close>

lemma holders_of_update:
  "holders_of (acc(k \<mapsto> b)) (at_token k) =
     (holders_of acc (at_token k) - {(holding (account_or_default acc k), at_address k)})
     \<union> (if holding b = 0 then {} else {(holding b, at_address k)})"
  (is "?L = ?R")
proof -
  have "(n, a) \<in> ?L \<longleftrightarrow> (n, a) \<in> ?R" for n a
    by (simp only: holders_of_iff account_or_default_update address_token_eq Un_iff Diff_iff)
      (cases "a = at_address k"; auto simp: holders_of_iff)
  then show ?thesis by (simp add: set_eq_iff)
qed

lemma holders_of_mem:
  "(holding (account_or_default acc k), at_address k) \<in> holders_of acc (at_token k) \<longleftrightarrow>
     holding (account_or_default acc k) \<noteq> 0"
  by (simp add: holders_of_iff)

lemma holders_of_fresh:
  "n \<noteq> holding (account_or_default acc k) \<Longrightarrow> (n, at_address k) \<notin> holders_of acc (at_token k)"
  by (simp add: holders_of_iff)

lemma card_holders_of_update:
  assumes "finite (dom acc)" and "holding b \<noteq> holding (account_or_default acc k)"
  shows "card (holders_of (acc(k \<mapsto> b)) (at_token k))
      + (if holding (account_or_default acc k) \<noteq> 0 then 1 else 0)
    = card (holders_of acc (at_token k)) + (if holding b = 0 then 0 else 1)"
proof -
  let ?S = "holders_of acc (at_token k)" and ?e = "(holding (account_or_default acc k), at_address k)"
  have fin: "finite ?S" using assms(1) by (rule finite_holders_of)
  have "card (?S - {?e}) + (if holding (account_or_default acc k) \<noteq> 0 then 1 else 0) = card ?S"
    using fin holders_of_mem [of acc k] card_Suc_Diff1 [of ?S ?e] by auto
  moreover have "(holding b, at_address k) \<notin> ?S"
    using assms(2) by (rule holders_of_fresh)
  ultimately show ?thesis
    using fin by (simp add: holders_of_update)
qed

lemma holders_okD:
  assumes "holders_ok acc h"
  shows "(case ho_balances h t of Some s \<Rightarrow> s | None \<Rightarrow> {}) = holders_of acc t"
    and "ho_stats h t = Some n \<Longrightarrow> n = word_of_nat (card (holders_of acc t))"
    and "ho_stats h t = None \<Longrightarrow> holders_of acc t = {}"
  using assms by (auto simp: holders_ok_def split: option.splits dest: spec [of _ t])

text \<open>The index after a write of one account, tick by tick.\<close>

lemma holders_okI:
  assumes "holders_ok acc h"
    and "\<And>t. t \<noteq> at_token k \<Longrightarrow> ho_balances h' t = ho_balances h t \<and> ho_stats h' t = ho_stats h t"
    and "ho_balances h' (at_token k) = Some (holders_of (acc(k \<mapsto> b)) (at_token k))"
    and "case ho_stats h' (at_token k) of
           Some n \<Rightarrow> n = word_of_nat (card (holders_of (acc(k \<mapsto> b)) (at_token k)))
         | None \<Rightarrow> holders_of (acc(k \<mapsto> b)) (at_token k) = {}"
  shows "holders_ok (acc(k \<mapsto> b)) h'"
  unfolding holders_ok_def
proof
  fix t
  show "(case ho_balances h' t of Some s \<Rightarrow> s | None \<Rightarrow> {}) = holders_of (acc(k \<mapsto> b)) t
    \<and> (case ho_stats h' t of Some n \<Rightarrow> n = word_of_nat (card (holders_of (acc(k \<mapsto> b)) t))
       | None \<Rightarrow> holders_of (acc(k \<mapsto> b)) t = {})"
  proof (cases "t = at_token k")
    case True
    show ?thesis unfolding True using assms(3,4) by simp
  next
    case False
    with assms(1,2) show ?thesis
      by (simp add: holders_of_other holders_ok_def cong: option.case_cong)
  qed
qed

lemma holders_increase_ok:
  assumes ok: "holders_ok acc h" and fin: "finite (dom acc)"
    and prev: "prev = account_or_default acc key"
    and cap: "holding prev + amt \<le> fx_cap F" and amt: "0 < amt"
    and b: "holding b = holding prev + amt"
  shows "\<exists>h'. holders_increase F key prev amt h = Inr h' \<and> holders_ok (acc(key \<mapsto> b)) h'"
proof -
  let ?t = "at_token key" and ?e = "(holding prev, at_address key)"
  let ?S' = "holders_of (acc(key \<mapsto> b)) ?t"
  have S': "?S' = insert (holding prev + amt, at_address key) (holders_of acc ?t - {?e})"
    using amt b prev by (auto simp: holders_of_update)
  have card: "card ?S' + (if holding prev \<noteq> 0 then 1 else 0) = card (holders_of acc ?t) + 1"
    using card_holders_of_update [OF fin, of b key] amt b prev by simp
  have mem: "?e \<in> holders_of acc ?t \<longleftrightarrow> holding prev \<noteq> 0"
    using holders_of_mem prev by blast
  let ?h' = "h\<lparr> ho_balances := (ho_balances h)(?t \<mapsto> ?S'),
                ho_stats := (if holding prev \<noteq> 0 then ho_stats h
                  else (ho_stats h)(?t \<mapsto> (case ho_stats h ?t of Some n \<Rightarrow> n + 1 | None \<Rightarrow> 1))) \<rparr>"
  have "holders_increase F key prev amt h = Inr ?h'"
    using cap mem holders_okD(1) [OF ok, of ?t]
    by (auto simp: holders_increase_def holders_change_def holding_def fx_add_def Let_def S')
  moreover have "holders_ok (acc(key \<mapsto> b)) ?h'"
  proof (rule holders_okI [OF ok])
    show "case ho_stats ?h' ?t of Some n \<Rightarrow> n = word_of_nat (card ?S') | None \<Rightarrow> ?S' = {}"
      using card holders_okD(2,3) [OF ok, of ?t] mem
      by (cases "ho_stats h ?t") (auto split: if_splits)
  qed auto
  ultimately show ?thesis by blast
qed

lemma holders_decrease_ok:
  assumes ok: "holders_ok acc h" and fin: "finite (dom acc)"
    and prev: "prev = account_or_default acc key"
    and cap: "holding prev \<le> fx_cap F" and amt: "0 < amt" "amt \<le> holding prev"
    and b: "holding b = holding prev - amt"
  shows "\<exists>h'. holders_decrease F key prev amt h = Inr h' \<and> holders_ok (acc(key \<mapsto> b)) h'"
proof -
  let ?t = "at_token key" and ?e = "(holding prev, at_address key)"
  let ?S = "holders_of acc ?t" and ?S' = "holders_of (acc(key \<mapsto> b)) ?t"
  have S': "?S' = (?S - {?e}) \<union> (if holding b = 0 then {} else {(holding b, at_address key)})"
    using prev by (simp add: holders_of_update)
  have card: "card ?S' + 1 = card ?S + (if holding b = 0 then 0 else 1)"
    using card_holders_of_update [OF fin, of b key] amt b prev by simp
  have "?e \<in> ?S" using holders_of_mem [of acc key] amt prev by simp
  then obtain n where n: "ho_stats h ?t = Some n" "n = word_of_nat (card ?S)"
    using holders_okD(2,3) [OF ok, of ?t] by (cases "ho_stats h ?t") auto
  let ?h' = "h\<lparr> ho_balances := (ho_balances h)(?t \<mapsto> ?S'),
                ho_stats := (if holding b = 0 then (ho_stats h)(?t \<mapsto> n - 1) else ho_stats h) \<rparr>"
  have "holders_decrease F key prev amt h = Inr ?h'"
    using cap amt b n(1) holders_okD(1) [OF ok, of ?t]
    by (auto simp: holders_decrease_def holders_change_def holding_def fx_add_def fx_sub_def
        Let_def S')
  moreover have "holders_ok (acc(key \<mapsto> b)) ?h'"
  proof (rule holders_okI [OF ok])
    have S: "holding b = 0 \<Longrightarrow> card ?S = Suc (card ?S')" "holding b \<noteq> 0 \<Longrightarrow> card ?S = card ?S'"
      using card by simp_all
    show "case ho_stats ?h' ?t of Some n \<Rightarrow> n = word_of_nat (card ?S') | None \<Rightarrow> ?S' = {}"
      by (cases "holding b = 0") (simp_all add: n S)
  qed auto
  ultimately show ?thesis by blast
qed

text \<open>Moving value between the two halves of one account leaves the index right.\<close>

lemma holders_ok_same_holding:
  assumes "holders_ok acc h" and "acc k = Some b" and "holding b' = holding b"
  shows "holders_ok (acc(k \<mapsto> b')) h"
proof -
  have "holders_of (acc(k \<mapsto> b')) t = holders_of acc t" for t
    using assms(2,3)
    by (auto simp: set_eq_iff holders_of_iff account_or_default_update account_or_default_def)
  with assms(1) show ?thesis by (simp add: holders_ok_def cong: option.case_cong)
qed

section \<open>Building the index from the table\<close>

lemma holders_group_of:
  assumes "distinct (map fst entries)"
  shows "holders_group (holders_kept entries) t =
    (if holders_of (map_of entries) t = {} then None else Some (holders_of (map_of entries) t))"
proof -
  let ?g = "filter (\<lambda>(k, v). at_token k = t) (holders_kept entries)"
  have mem: "map_of entries k = Some b \<longleftrightarrow> (k, b) \<in> set entries" for k b
    using assms by (auto dest: map_of_SomeD)
  have "(n, a) \<in> set (map (\<lambda>(k, v). (holding v, at_address k)) ?g)
      \<longleftrightarrow> (n, a) \<in> holders_of (map_of entries) t" for n a
  proof
    assume "(n, a) \<in> set (map (\<lambda>(k, v). (holding v, at_address k)) ?g)"
    then obtain k b where "(k, b) \<in> set entries" "at_token k = t" "at_address k = a" "holding b = n" "n \<noteq> 0"
      by (auto simp: holders_kept_def holding_def)
    then show "(n, a) \<in> holders_of (map_of entries) t"
      unfolding holders_of_def mem by (cases k) auto
  next
    assume "(n, a) \<in> holders_of (map_of entries) t"
    then obtain b where "(\<lparr> at_address = a, at_token = t \<rparr>, b) \<in> set entries" "holding b = n" "n \<noteq> 0"
      by (auto simp: holders_of_def mem)
    then have "(\<lparr> at_address = a, at_token = t \<rparr>, b) \<in> set ?g"
      by (auto simp: holders_kept_def holding_def)
    then show "(n, a) \<in> set (map (\<lambda>(k, v). (holding v, at_address k)) ?g)"
      using \<open>holding b = n\<close> by force
  qed
  then have "set (map (\<lambda>(k, v). (holding v, at_address k)) ?g) = holders_of (map_of entries) t"
    by (auto simp only: set_eq_iff split_paired_All)
  then show ?thesis
    unfolding holders_group_def Let_def by (metis (no_types, lifting) empty_set list.map_disc_iff set_empty)
qed

lemma holders_init_ok:
  assumes "distinct (map fst entries)" and "\<And>k b. (k, b) \<in> set entries \<Longrightarrow> holding b \<le> fx_cap F"
  shows "\<exists>h. holders_init F entries = Inr h \<and> holders_ok (map_of entries) h"
proof -
  have "list_all (\<lambda>(k, v). holding v \<le> fx_cap F) (holders_kept entries)"
    using assms(2) by (auto simp: holders_kept_def list_all_iff)
  then show ?thesis
    by (simp add: holders_init_def holders_ok_def holders_group_of [OF assms(1)])
qed

end
