(* ===== verification/TokenCache.thy ===== *)
theory TokenCache
  imports Holders
begin

text \<open>
  The token cache of a block (\<open>src/tokens/parser.rs\<close>): what a block's inscriptions ask of the
  tokens is first collected (\<open>parse_token_action\<close>, \<open>transferred\<close>, \<open>burned_transfer\<close>), then the
  balances these actions touch are loaded (\<open>load_tokens_data\<close>) and the actions are executed in
  order (\<open>process_token_actions\<close>).

  \<open>env\<close> holds what is fixed for a run: the chain, the constant \<open>OP_RETURN_HASH\<close>, the lower case
  conversion and the arithmetic of \<open>Fixed128\<close>.  The holder index is shared with the server and
  changed in place, so every step returns it beside the cache.
\<close>

section \<open>State\<close>

record env =
  e_chain :: blockchain
  e_op_return :: hash32
  e_lower :: "bytes \<Rightarrow> bytes"
  e_fx :: fixed_ops

record token_cache =
  tc_tokens :: "lower_tick \<rightharpoonup> token_meta"
  tc_accounts :: "address_token \<rightharpoonup> token_balance"
  tc_actions :: "token_action list"
  tc_all :: "location \<rightharpoonup> transfer_proto_db"
  tc_valid :: "location \<rightharpoonup> hash32 \<times> transfer_proto_db"

record inscription_template =
  it_genesis :: inscription_id
  it_location :: location
  it_content_type :: "bytes option"
  it_owner :: hash32
  it_value :: u64
  it_content :: "bytes option"
  it_leaked :: bool

definition token_cache_empty :: token_cache where
  "token_cache_empty = \<lparr> tc_tokens = Map.empty, tc_accounts = Map.empty, tc_actions = [],
     tc_all = Map.empty, tc_valid = Map.empty \<rparr>"

abbreviation tick_key :: "env \<Rightarrow> tick \<Rightarrow> lower_tick" where
  "tick_key E t \<equiv> lower_of_tick (e_lower E) t"

section \<open>Loading\<close>

text \<open>\<open>DB::load_transfers\<close> on the keys \<open>TokenCache::load\<close> makes of the spent outputs: the transfers
  stored under the owner and the outpoint of a spent output, at any offset.\<close>

definition load_transfers ::
  "(address_location \<rightharpoonup> transfer_proto_db) \<Rightarrow> (outpoint \<rightharpoonup> tx_prevout) \<Rightarrow>
     (location \<rightharpoonup> hash32 \<times> transfer_proto_db)"
where
  "load_transfers tbl prevouts = (\<lambda>loc.
     case prevouts (loc_outpoint loc) of
       None \<Rightarrow> None
     | Some p \<Rightarrow> map_option (Pair (pv_script_hash p))
         (tbl \<lparr> al_address = pv_script_hash p, al_location = loc \<rparr>))"

definition token_cache_load ::
  "(outpoint \<rightharpoonup> tx_prevout) \<Rightarrow> (address_location \<rightharpoonup> transfer_proto_db) \<Rightarrow> token_cache" where
  "token_cache_load prevouts tbl =
     (let valid = load_transfers tbl prevouts in
      token_cache_empty\<lparr> tc_valid := valid, tc_all := (\<lambda>loc. map_option snd (valid loc)) \<rparr>)"

section \<open>Collecting the actions of a block\<close>

definition push_action :: "token_action \<Rightarrow> token_cache \<Rightarrow> token_cache" where
  "push_action a c = c\<lparr> tc_actions := tc_actions c @ [a] \<rparr>"

text \<open>\<open>parse_token_action\<close>: an inscription becomes at most one action.\<close>

definition parse_token_action ::
  "env \<Rightarrow> json_ops \<Rightarrow> inscription_template \<Rightarrow> u32 \<Rightarrow> u32 \<Rightarrow> token_cache \<Rightarrow>
     token_cache \<times> transfer_proto option"
where
  "parse_token_action E J inc height created c =
     (let loc = it_location inc; txid = op_txid (loc_outpoint loc); vout = op_vout (loc_outpoint loc) in
      if it_owner inc = e_op_return E \<or> it_leaked inc then (c, None)
      else case (it_content_type inc, it_content inc) of
        (Some ct, Some content) \<Rightarrow>
          (case try_parse (e_chain E) J ct content of
             Inl _ \<Rightarrow> (c, None)
           | Inr (Brc4Deploy p) \<Rightarrow>
               (case deploy_value (e_chain E) p of
                  None \<Rightarrow> (c, None)
                | Some v \<Rightarrow>
                    (push_action (TaDeploy (it_genesis inc)
                       \<lparr> dp_tick = dw_tick v, dp_max = dw_max v,
                         dp_lim = (case dw_lim v of Some l \<Rightarrow> l | None \<Rightarrow> dw_max v),
                         dp_dec = dw_dec v, dp_supply = 0, dp_transfer_count = 0, dp_mint_count = 0,
                         dp_height = height, dp_created = created, dp_deployer = it_owner inc,
                         dp_transactions = 1 \<rparr> (it_owner inc)) c, None))
           | Inr (Brc4Mint p) \<Rightarrow>
               (case mint_value (e_chain E) p of
                  None \<Rightarrow> (c, None)
                | Some v \<Rightarrow> (push_action (TaMint (it_owner inc) v txid vout) c, None))
           | Inr (Brc4Transfer p) \<Rightarrow>
               (case transfer_value (e_chain E) p of
                  None \<Rightarrow> (c, None)
                | Some v \<Rightarrow>
                    (let c1 = push_action (TaTransfer loc (it_owner inc) v txid vout) c in
                     case transfer_from_proto (e_chain E) p height of
                       None \<Rightarrow> (c1, None)
                     | Some t \<Rightarrow> (c1\<lparr> tc_all := (tc_all c1)(loc \<mapsto> t) \<rparr>, Some p))))
      | _ \<Rightarrow> (c, None))"

definition transferred :: "location \<Rightarrow> hash32 \<Rightarrow> hash32 \<Rightarrow> u32 \<Rightarrow> token_cache \<Rightarrow> token_cache" where
  "transferred loc recipient txid vout c = push_action (TaTransferred loc recipient txid vout) c"

definition burned_transfer :: "env \<Rightarrow> location \<Rightarrow> hash32 \<Rightarrow> u32 \<Rightarrow> token_cache \<Rightarrow> token_cache" where
  "burned_transfer E loc txid vout c = push_action (TaTransferred loc (e_op_return E) txid vout) c"

section \<open>Loading what the actions touch\<close>

text \<open>\<open>fill_tickers_and_users\<close>, action by action; the two hash sets are lists here.\<close>

fun fill_action ::
  "env \<Rightarrow> token_cache \<Rightarrow> token_action \<Rightarrow> lower_tick list \<times> (hash32 \<times> tick) list" where
  "fill_action E c (TaDeploy g p owner) = ([tick_key E (dp_tick p)], [])"
| "fill_action E c (TaMint owner w txid vout) =
     ([tick_key E (mw_tick w)], [(owner, mw_tick w)])"
| "fill_action E c (TaTransfer loc owner w txid vout) =
     ([tick_key E (mw_tick w)], [(owner, mw_tick w)])"
| "fill_action E c (TaTransferred loc recipient txid vout) =
     (let valid_transfer = tc_valid c loc;
          proto = (case tc_all c loc of Some x \<Rightarrow> Some x | None \<Rightarrow> map_option snd valid_transfer)
      in case proto of
           None \<Rightarrow> ([], [])
         | Some t \<Rightarrow>
             ([tick_key E (tp_tick t)],
              (if recipient \<noteq> e_op_return E then [(recipient, tp_tick t)] else [])
              @ (case valid_transfer of Some (owner, _) \<Rightarrow> [(owner, tp_tick t)] | None \<Rightarrow> [])))"

definition fill_tickers_and_users ::
  "env \<Rightarrow> token_cache \<Rightarrow> lower_tick list \<times> (hash32 \<times> tick) list" where
  "fill_tickers_and_users E c =
     (concat (map (fst \<circ> fill_action E c) (tc_actions c)),
      concat (map (snd \<circ> fill_action E c) (tc_actions c)))"

text \<open>\<open>load_tokens_data\<close> from the tables \<open>token_to_meta\<close> and \<open>address_token_to_balance\<close>.\<close>

definition load_tokens_data ::
  "env \<Rightarrow> (lower_tick \<rightharpoonup> token_meta) \<Rightarrow> (address_token \<rightharpoonup> token_balance) \<Rightarrow> token_cache \<Rightarrow> token_cache"
where
  "load_tokens_data E metas balances c =
     (let (tickers, users) = fill_tickers_and_users E c;
          tokens = map_of (tbl_found metas tickers);
          keys = List.map_filter (\<lambda>(address, tick).
            map_option (\<lambda>m. \<lparr> at_address = address, at_token = dp_tick (tm_proto m) \<rparr>)
              (tokens (tick_key E tick))) users
      in c\<lparr> tc_tokens := tokens, tc_accounts := map_of (tbl_found balances keys) \<rparr>)"

section \<open>Executing the actions\<close>

type_synonym exec_state = "token_cache \<times> holders"
type_synonym exec_result = "(exec_state \<times> history_token_action list) res"

definition process_deploy ::
  "env \<Rightarrow> inscription_id \<Rightarrow> deploy_proto_db \<Rightarrow> hash32 \<Rightarrow> exec_state \<Rightarrow> exec_result" where
  "process_deploy E genesis p owner = (\<lambda>(c, h).
     case tc_tokens c (tick_key E (dp_tick p)) of
       Some _ \<Rightarrow> Inr ((c, h), [])
     | None \<Rightarrow> Inr ((c\<lparr> tc_tokens := (tc_tokens c)(tick_key E (dp_tick p) \<mapsto>
                            \<lparr> tm_genesis = genesis, tm_proto = p \<rparr>) \<rparr>, h),
            [HDeploy (dp_tick p) (dp_max p) (dp_lim p) (dp_dec p) owner
               (iid_txid genesis) (iid_index genesis)]))"

definition process_mint ::
  "env \<Rightarrow> hash32 \<Rightarrow> mint_wrapper \<Rightarrow> hash32 \<Rightarrow> u32 \<Rightarrow> exec_state \<Rightarrow> exec_result" where
  "process_mint E owner w txid vout = (\<lambda>(c, h).
     case tc_tokens c (tick_key E (mw_tick w)) of
       None \<Rightarrow> Inr ((c, h), [])
     | Some m \<Rightarrow>
         (let p = tm_proto m in
          if dp_dec p < fx_scale (e_fx E) (mw_amt w) then Inr ((c, h), [])
          else if dp_lim p < mw_amt w then Inr ((c, h), [])
          else if dp_supply p = dp_max p then Inr ((c, h), [])
          else
            rbind (fx_sub (dp_max p) (dp_supply p)) (\<lambda>left.
            let amt = min (mw_amt w) left;
                key = \<lparr> at_address = owner, at_token = dp_tick p \<rparr>;
                account = account_or_default (tc_accounts c) key in
            rbind (fx_add (e_fx E) (dp_supply p) amt) (\<lambda>supply.
            rbind (holders_increase (e_fx E) key account amt h) (\<lambda>h1.
            rbind (fx_add (e_fx E) (tb_balance account) amt) (\<lambda>balance.
              Inr ((c\<lparr> tc_tokens := (tc_tokens c)(tick_key E (mw_tick w) \<mapsto>
                          m\<lparr> tm_proto := p\<lparr> dp_supply := supply,
                                dp_transactions := dp_transactions p + 1,
                                dp_mint_count := dp_mint_count p + 1 \<rparr> \<rparr>),
                       tc_accounts := (tc_accounts c)(key \<mapsto> account\<lparr> tb_balance := balance \<rparr>) \<rparr>, h1),
                   [HMint (dp_tick p) amt owner txid vout])))))))"

definition process_transfer ::
  "env \<Rightarrow> location \<Rightarrow> hash32 \<Rightarrow> mint_wrapper \<Rightarrow> hash32 \<Rightarrow> u32 \<Rightarrow> exec_state \<Rightarrow> exec_result" where
  "process_transfer E loc owner w txid vout = (\<lambda>(c, h).
     case tc_all c loc of
       None \<Rightarrow> Inr ((c, h), [])
     | Some data \<Rightarrow>
         (let c = c\<lparr> tc_all := (tc_all c)(loc := None) \<rparr> in
          case tc_tokens c (tick_key E (mw_tick w)) of
            None \<Rightarrow> Inr ((c, h), [])
          | Some m \<Rightarrow>
              (let p = tm_proto m;
                   data = data\<lparr> tp_tick := dp_tick p \<rparr>;
                   key = \<lparr> at_address = owner, at_token = dp_tick p \<rparr> in
               if dp_dec p < fx_scale (e_fx E) (mw_amt w) then Inr ((c, h), [])
               else case tc_accounts c key of
                 None \<Rightarrow> Inr ((c, h), [])
               | Some account \<Rightarrow>
                   if tb_balance account < mw_amt w then Inr ((c, h), [])
                   else
                     rbind (fx_sub (tb_balance account) (mw_amt w)) (\<lambda>balance.
                     rbind (fx_add (e_fx E) (tb_transferable_balance account) (mw_amt w)) (\<lambda>transferable.
                       Inr ((c\<lparr> tc_tokens := (tc_tokens c)(tick_key E (mw_tick w) \<mapsto>
                                 m\<lparr> tm_proto := p\<lparr> dp_transfer_count := dp_transfer_count p + 1,
                                       dp_transactions := dp_transactions p + 1 \<rparr> \<rparr>),
                               tc_accounts := (tc_accounts c)(key \<mapsto> account\<lparr> tb_balance := balance,
                                 tb_transfers_count := tb_transfers_count account + 1,
                                 tb_transferable_balance := transferable \<rparr>),
                               tc_valid := (tc_valid c)(loc \<mapsto> (owner, data)) \<rparr>, h),
                           [HDeployTransfer (dp_tick p) (mw_amt w) owner txid vout]))))))"

definition process_transferred ::
  "env \<Rightarrow> location \<Rightarrow> hash32 \<Rightarrow> hash32 \<Rightarrow> u32 \<Rightarrow> exec_state \<Rightarrow> exec_result" where
  "process_transferred E loc recipient txid vout = (\<lambda>(c, h).
     case tc_valid c loc of
       None \<Rightarrow> Inr ((c, h), [])
     | Some (sender, t) \<Rightarrow>
         (let c = c\<lparr> tc_valid := (tc_valid c)(loc := None) \<rparr>; amt = tp_amt t in
          case tc_tokens c (tick_key E (tp_tick t)) of
            None \<Rightarrow> Inl TickMustExist
          | Some m \<Rightarrow>
              (let p = tm_proto m; old_key = \<lparr> at_address = sender, at_token = dp_tick p \<rparr> in
               case tc_accounts c old_key of
                 None \<Rightarrow> Inl SenderAccountMissing
               | Some old \<Rightarrow>
                   if tb_transfers_count old = 0 \<or> tb_transferable_balance old < amt
                   then Inl InvalidTransferSenderBalance
                   else
                     rbind (holders_decrease (e_fx E) old_key old amt h) (\<lambda>h1.
                     rbind (fx_sub (tb_transferable_balance old) amt) (\<lambda>transferable.
                     let accounts = (tc_accounts c)(old_key \<mapsto>
                           old\<lparr> tb_transfers_count := tb_transfers_count old - 1,
                                tb_transferable_balance := transferable \<rparr>);
                         tokens = (tc_tokens c)(tick_key E (tp_tick t) \<mapsto>
                           m\<lparr> tm_proto := p\<lparr> dp_transactions := dp_transactions p + 1 \<rparr> \<rparr>);
                         key = \<lparr> at_address = recipient, at_token = dp_tick p \<rparr>;
                         account = account_or_default accounts key;
                         sent = [HSend (dp_tick p) amt recipient sender txid vout] in
                     if recipient = e_op_return E
                     then Inr ((c\<lparr> tc_tokens := tokens, tc_accounts := accounts \<rparr>, h1), sent)
                     else
                       rbind (holders_increase (e_fx E) key account amt h1) (\<lambda>h2.
                       rbind (fx_add (e_fx E) (tb_balance account) amt) (\<lambda>balance.
                         Inr ((c\<lparr> tc_tokens := tokens,
                                 tc_accounts := accounts(key \<mapsto> account\<lparr> tb_balance := balance \<rparr>) \<rparr>, h2),
                             sent))))))))"

fun process_token_action :: "env \<Rightarrow> token_action \<Rightarrow> exec_state \<Rightarrow> exec_result" where
  "process_token_action E (TaDeploy genesis p owner) s = process_deploy E genesis p owner s"
| "process_token_action E (TaMint owner w txid vout) s = process_mint E owner w txid vout s"
| "process_token_action E (TaTransfer loc owner w txid vout) s =
     process_transfer E loc owner w txid vout s"
| "process_token_action E (TaTransferred loc recipient txid vout) s =
     process_transferred E loc recipient txid vout s"

text \<open>\<open>process_token_actions\<close> drains the pending actions and executes them in order.\<close>

definition process_token_actions :: "env \<Rightarrow> exec_state \<Rightarrow> exec_result" where
  "process_token_actions E = (\<lambda>(c, h).
     run (process_token_action E) (tc_actions c) (c\<lparr> tc_actions := [] \<rparr>, h))"

end
