(* ===== verification/TokenInv.thy ===== *)
theory TokenInv
  imports TokenCache
begin

text \<open>
  The invariant of the token ledger and the proof that executing a block's actions keeps it and
  never panics.  A ledger here is a cache whose maps hold the whole tables; \<open>TokenSim\<close> carries the
  results to the cache a block really loads.
\<close>

section \<open>Weights\<close>

definition acct_weight :: "tick \<Rightarrow> address_token \<Rightarrow> token_balance \<Rightarrow> nat" where
  "acct_weight t k b = (if at_token k = t then holding b else 0)"

definition owns_transfer :: "address_token \<Rightarrow> hash32 \<times> transfer_proto_db \<Rightarrow> bool" where
  "owns_transfer k v \<longleftrightarrow> fst v = at_address k \<and> tp_tick (snd v) = at_token k"

definition xfer_amt :: "address_token \<Rightarrow> location \<Rightarrow> hash32 \<times> transfer_proto_db \<Rightarrow> nat" where
  "xfer_amt k loc v = (if owns_transfer k v then tp_amt (snd v) else 0)"

definition xfer_cnt :: "address_token \<Rightarrow> location \<Rightarrow> hash32 \<times> transfer_proto_db \<Rightarrow> nat" where
  "xfer_cnt k loc v = (if owns_transfer k v then 1 else 0)"

text \<open>What the accounts of a tick hold in all.\<close>

definition held :: "tick \<Rightarrow> (address_token \<rightharpoonup> token_balance) \<Rightarrow> nat" where
  "held t acc = map_sum (acct_weight t) acc"

lemma held_update:
  assumes "finite (dom acc)"
  shows "held t (acc(k \<mapsto> b)) + (if at_token k = t then holding (account_or_default acc k) else 0)
    = held t acc + (if at_token k = t then holding b else 0)"
  using map_sum_update [OF assms, of "acct_weight t" k b]
  by (cases "acc k") (auto simp: held_def acct_weight_def account_or_default_def)

lemma holding_le_held:
  assumes "finite (dom acc)"
  shows "holding (account_or_default acc k) \<le> held (at_token k) acc"
  using opt_weight_le [OF assms, of "acct_weight (at_token k)" k]
  by (cases "acc k") (simp_all add: held_def acct_weight_def account_or_default_def)

section \<open>The invariant\<close>

definition deployed :: "env \<Rightarrow> (lower_tick \<rightharpoonup> token_meta) \<Rightarrow> tick \<Rightarrow> bool" where
  "deployed E T t \<longleftrightarrow> (case T (tick_key E t) of Some m \<Rightarrow> dp_tick (tm_proto m) = t | None \<Rightarrow> False)"

definition tokens_ok :: "env \<Rightarrow> (lower_tick \<rightharpoonup> token_meta) \<Rightarrow> bool" where
  "tokens_ok E T \<longleftrightarrow> (\<forall>k m. T k = Some m \<longrightarrow>
     k = tick_key E (dp_tick (tm_proto m)) \<and> dp_supply (tm_proto m) \<le> dp_max (tm_proto m)
     \<and> dp_max (tm_proto m) \<le> fx_cap (e_fx E))"

definition accounts_ok ::
  "env \<Rightarrow> (lower_tick \<rightharpoonup> token_meta) \<Rightarrow> (address_token \<rightharpoonup> token_balance) \<Rightarrow> bool" where
  "accounts_ok E T acc \<longleftrightarrow> (\<forall>k. acc k \<noteq> None \<longrightarrow> deployed E T (at_token k))"

definition valid_ok ::
  "env \<Rightarrow> (lower_tick \<rightharpoonup> token_meta) \<Rightarrow> (location \<rightharpoonup> hash32 \<times> transfer_proto_db) \<Rightarrow> bool" where
  "valid_ok E T V \<longleftrightarrow> (\<forall>loc a t. V loc = Some (a, t) \<longrightarrow> 0 < tp_amt t \<and> deployed E T (tp_tick t))"

text \<open>The transferable half of every account is covered by its unspent transfers.\<close>

definition escrow_ok ::
  "(address_token \<rightharpoonup> token_balance) \<Rightarrow> (location \<rightharpoonup> hash32 \<times> transfer_proto_db) \<Rightarrow> bool" where
  "escrow_ok acc V \<longleftrightarrow> (\<forall>k.
     tb_transferable_balance (account_or_default acc k) = map_sum (xfer_amt k) V
     \<and> tb_transfers_count (account_or_default acc k) = word_of_nat (map_sum (xfer_cnt k) V))"

definition supply_ok ::
  "(lower_tick \<rightharpoonup> token_meta) \<Rightarrow> (address_token \<rightharpoonup> token_balance) \<Rightarrow> bool" where
  "supply_ok T acc \<longleftrightarrow>
     (\<forall>k m. T k = Some m \<longrightarrow> held (dp_tick (tm_proto m)) acc \<le> dp_supply (tm_proto m))"

definition ledger_ok :: "env \<Rightarrow> exec_state \<Rightarrow> bool" where
  "ledger_ok E = (\<lambda>(c, h).
     finite (dom (tc_accounts c)) \<and> finite (dom (tc_valid c))
     \<and> tokens_ok E (tc_tokens c) \<and> accounts_ok E (tc_tokens c) (tc_accounts c)
     \<and> valid_ok E (tc_tokens c) (tc_valid c) \<and> escrow_ok (tc_accounts c) (tc_valid c)
     \<and> supply_ok (tc_tokens c) (tc_accounts c) \<and> holders_ok (tc_accounts c) h)"

lemma ledger_okD:
  assumes "ledger_ok E (c, h)"
  shows "finite (dom (tc_accounts c))" "finite (dom (tc_valid c))" "tokens_ok E (tc_tokens c)"
    "accounts_ok E (tc_tokens c) (tc_accounts c)" "valid_ok E (tc_tokens c) (tc_valid c)"
    "escrow_ok (tc_accounts c) (tc_valid c)" "supply_ok (tc_tokens c) (tc_accounts c)"
    "holders_ok (tc_accounts c) h"
  using assms by (simp_all add: ledger_ok_def)

section \<open>The actions still to come\<close>

fun transfer_locs :: "token_action list \<Rightarrow> location list" where
  "transfer_locs [] = []"
| "transfer_locs (TaTransfer loc _ _ _ _ # as) = loc # transfer_locs as"
| "transfer_locs (_ # as) = transfer_locs as"

fun action_ok :: "env \<Rightarrow> token_cache \<Rightarrow> token_action \<Rightarrow> bool" where
  "action_ok E c (TaDeploy g p owner) = (dp_supply p = 0 \<and> dp_max p \<le> fx_cap (e_fx E))"
| "action_ok E c (TaMint owner w txid vout) = (0 < mw_amt w)"
| "action_ok E c (TaTransfer loc owner w txid vout) =
     (0 < mw_amt w \<and> tc_valid c loc = None
      \<and> (case tc_all c loc of None \<Rightarrow> True
         | Some d \<Rightarrow> tp_amt d = mw_amt w \<and> tp_tick d = mw_tick w))"
| "action_ok E c (TaTransferred loc recipient txid vout) = True"

definition pending_ok :: "env \<Rightarrow> token_action list \<Rightarrow> exec_state \<Rightarrow> bool" where
  "pending_ok E as = (\<lambda>(c, h).
     distinct (transfer_locs as) \<and> (\<forall>a\<in>set as. action_ok E c a)
     \<and> card (dom (tc_valid c)) + length (transfer_locs as) < 2 ^ 64)"

lemma transfer_locs_append [simp]: "transfer_locs (as @ bs) = transfer_locs as @ transfer_locs bs"
  by (induction as rule: transfer_locs.induct) auto

lemma transfer_locs_mem:
  "TaTransfer loc owner w txid vout \<in> set as \<Longrightarrow> loc \<in> set (transfer_locs as)"
  by (induction as rule: transfer_locs.induct) auto

text \<open>Later actions do not care about a step that leaves their locations alone.\<close>

lemma pending_ok_step:
  assumes "pending_ok E (a # as) (c, h)"
    and "\<And>l. l \<in> set (transfer_locs as) \<Longrightarrow> tc_valid c' l = tc_valid c l \<and> tc_all c' l = tc_all c l"
    and "card (dom (tc_valid c')) + length (transfer_locs as)
      \<le> card (dom (tc_valid c)) + length (transfer_locs (a # as))"
  shows "pending_ok E as (c', h')"
proof -
  have "action_ok E c' b" if b: "b \<in> set as" for b
  proof -
    have "action_ok E c b" using assms(1) b by (simp add: pending_ok_def)
    with assms(2) b show ?thesis
      by (cases b) (auto dest: transfer_locs_mem)
  qed
  moreover have "distinct (transfer_locs as)"
    using assms(1) by (cases a) (auto simp: pending_ok_def)
  ultimately show ?thesis
    using assms(1,3) by (auto simp: pending_ok_def)
qed

section \<open>What a write keeps\<close>

lemma deployed_update:
  assumes "T k = Some m" and "dp_tick (tm_proto m') = dp_tick (tm_proto m)"
  shows "deployed E (T(k \<mapsto> m')) t \<longleftrightarrow> deployed E T t"
  using assms by (auto simp: deployed_def split: option.splits)

lemma deployed_new: "T k = None \<Longrightarrow> deployed E T t \<Longrightarrow> deployed E (T(k \<mapsto> m)) t"
  by (auto simp: deployed_def split: option.splits if_splits)

lemma accounts_ok_update:
  assumes "accounts_ok E T acc" and "deployed E T (at_token k)"
  shows "accounts_ok E T (acc(k \<mapsto> b))"
  using assms by (simp add: accounts_ok_def)

lemma deployedD:
  assumes "tokens_ok E T" and "T k = Some m"
  shows "deployed E T (dp_tick (tm_proto m))"
  using assms by (auto simp: deployed_def tokens_ok_def)

lemma tokens_okD:
  assumes "tokens_ok E T" and "T k = Some m"
  shows "k = tick_key E (dp_tick (tm_proto m))" "dp_supply (tm_proto m) \<le> dp_max (tm_proto m)"
    "dp_max (tm_proto m) \<le> fx_cap (e_fx E)"
  using assms by (auto simp: tokens_ok_def)

lemma tokens_same_tick:
  assumes "tokens_ok E T" and "T k = Some m" and "T k' = Some m'"
    and "dp_tick (tm_proto m) = dp_tick (tm_proto m')"
  shows "k = k'" and "m = m'"
proof -
  show "k = k'" using assms unfolding tokens_ok_def by metis
  with assms(2,3) show "m = m'" by simp
qed

lemma escrow_ok_balance:
  assumes "escrow_ok acc V" and "tb_transferable_balance b = tb_transferable_balance (account_or_default acc k)"
    and "tb_transfers_count b = tb_transfers_count (account_or_default acc k)"
  shows "escrow_ok (acc(k \<mapsto> b)) V"
  using assms by (simp add: escrow_ok_def account_or_default_update)

lemma escrow_okD:
  assumes "escrow_ok acc V"
  shows "tb_transferable_balance (account_or_default acc k) = map_sum (xfer_amt k) V"
    and "tb_transfers_count (account_or_default acc k) = word_of_nat (map_sum (xfer_cnt k) V)"
  using assms by (simp_all add: escrow_ok_def)

text \<open>The record of a token may change its counters freely.\<close>

lemma supply_ok_counters:
  assumes "supply_ok T acc" and "T k = Some m"
    and "dp_tick (tm_proto m') = dp_tick (tm_proto m)"
    and "dp_supply (tm_proto m) \<le> dp_supply (tm_proto m')"
  shows "supply_ok (T(k \<mapsto> m')) acc"
  using assms by (auto simp: supply_ok_def intro: order_trans)

lemma tokens_ok_update:
  assumes "tokens_ok E T" and "T k = Some m"
    and "dp_tick (tm_proto m') = dp_tick (tm_proto m)" and "dp_max (tm_proto m') = dp_max (tm_proto m)"
    and "dp_supply (tm_proto m') \<le> dp_max (tm_proto m')"
  shows "tokens_ok E (T(k \<mapsto> m'))"
  using assms by (auto simp: tokens_ok_def)


lemma supply_ok_account:
  assumes "finite (dom acc)" and "supply_ok T acc" and "tokens_ok E T" and "T k = Some m"
    and "at_token key = dp_tick (tm_proto m)" and "dp_tick (tm_proto m') = dp_tick (tm_proto m)"
    and le: "holding b + dp_supply (tm_proto m)
      \<le> holding (account_or_default acc key) + dp_supply (tm_proto m')"
  shows "supply_ok (T(k \<mapsto> m')) (acc(key \<mapsto> b))"
proof -
  have "held (dp_tick (tm_proto n)) (acc(key \<mapsto> b)) \<le> dp_supply (tm_proto n)"
    if n: "(T(k \<mapsto> m')) k' = Some n" for k' n
  proof (cases "k' = k")
    case True
    have "held (dp_tick (tm_proto m)) acc \<le> dp_supply (tm_proto m)"
      using assms(2,4) by (simp add: supply_ok_def)
    moreover have "held (dp_tick (tm_proto m)) (acc(key \<mapsto> b)) + holding (account_or_default acc key)
      = held (dp_tick (tm_proto m)) acc + holding b"
      using held_update [OF assms(1), of "dp_tick (tm_proto m)" key b] assms(5) by simp
    ultimately have "held (dp_tick (tm_proto m)) (acc(key \<mapsto> b)) \<le> dp_supply (tm_proto m')"
      using le by linarith
    moreover have "n = m'" using n True by simp
    ultimately show ?thesis by (simp only: assms(6))
  next
    case False
    then have n': "T k' = Some n" using n by simp
    have "dp_tick (tm_proto n) \<noteq> at_token key"
      using tokens_same_tick(1) [OF assms(3,4) n'] False assms(5) by metis
    then have "held (dp_tick (tm_proto n)) (acc(key \<mapsto> b)) = held (dp_tick (tm_proto n)) acc"
      using held_update [OF assms(1), of "dp_tick (tm_proto n)" key b] by simp
    moreover have "held (dp_tick (tm_proto n)) acc \<le> dp_supply (tm_proto n)"
      using assms(2) n' by (simp add: supply_ok_def)
    ultimately show ?thesis by simp
  qed
  then show ?thesis by (simp add: supply_ok_def)
qed

lemma supply_ok_le:
  assumes "supply_ok T acc" and "\<And>t. held t acc' \<le> held t acc"
  shows "supply_ok T acc'"
  using assms unfolding supply_ok_def by (meson order_trans)

lemma escrow_ok_insert:
  assumes "finite (dom V)" and "escrow_ok acc V" and "V loc = None"
    and "tb_transferable_balance b =
      tb_transferable_balance (account_or_default acc key) + tp_amt t"
    and "tb_transfers_count b = tb_transfers_count (account_or_default acc key) + 1"
    and "at_token key = tp_tick t"
  shows "escrow_ok (acc(key \<mapsto> b)) (V(loc \<mapsto> (at_address key, t)))"
proof -
  let ?V = "V(loc \<mapsto> (at_address key, t))"
  have own: "owns_transfer k (at_address key, t) \<longleftrightarrow> k = key" for k
    using assms(6) by (cases k; cases key) (auto simp: owns_transfer_def)
  have "map_sum (xfer_amt k) ?V = map_sum (xfer_amt k) V + (if k = key then tp_amt t else 0)"
    "map_sum (xfer_cnt k) ?V = map_sum (xfer_cnt k) V + (if k = key then 1 else 0)" for k
    using map_sum_update [OF assms(1), of "xfer_amt k" loc "(at_address key, t)"]
      map_sum_update [OF assms(1), of "xfer_cnt k" loc "(at_address key, t)"] assms(3)
    by (simp_all add: xfer_amt_def xfer_cnt_def own)
  with assms(2,4,5) show ?thesis
    by (simp add: escrow_ok_def account_or_default_update)
qed

lemma escrow_ok_remove:
  assumes "finite (dom V)" and "escrow_ok acc V" and "V loc = Some (at_address key, t)"
    and "tb_transferable_balance b + tp_amt t = tb_transferable_balance (account_or_default acc key)"
    and "tb_transfers_count b + 1 = tb_transfers_count (account_or_default acc key)"
    and "at_token key = tp_tick t"
  shows "escrow_ok (acc(key \<mapsto> b)) (V(loc := None))"
proof -
  let ?V = "V(loc := None)"
  have own: "owns_transfer k (at_address key, t) \<longleftrightarrow> k = key" for k
    using assms(6) by (cases k; cases key) (auto simp: owns_transfer_def)
  have amt: "map_sum (xfer_amt k) ?V + (if k = key then tp_amt t else 0) = map_sum (xfer_amt k) V"
    and cnt: "map_sum (xfer_cnt k) ?V + (if k = key then 1 else 0) = map_sum (xfer_cnt k) V" for k
    using map_sum_remove [OF assms(1), of "xfer_amt k" loc]
      map_sum_remove [OF assms(1), of "xfer_cnt k" loc] assms(3)
    by (auto simp: xfer_amt_def xfer_cnt_def own)
  have "tb_transfers_count b + 1 = word_of_nat (map_sum (xfer_cnt key) ?V) + 1"
    unfolding assms(5) escrow_okD(2) [OF assms(2)] by (simp flip: cnt [of key])
  then have "tb_transfers_count b = word_of_nat (map_sum (xfer_cnt key) ?V)" by simp
  moreover have "tb_transferable_balance b = map_sum (xfer_amt key) ?V"
    using assms(4) escrow_okD(1) [OF assms(2), of key] amt [of key] by simp
  moreover have "map_sum (xfer_amt k) ?V = map_sum (xfer_amt k) V"
    "map_sum (xfer_cnt k) ?V = map_sum (xfer_cnt k) V" if "k \<noteq> key" for k
    using amt [of k] cnt [of k] that by simp_all
  ultimately show ?thesis
    using assms(2) by (simp add: escrow_ok_def account_or_default_update)
qed

text \<open>An unspent transfer is covered by the account of its owner.\<close>

lemma escrow_covers:
  assumes "finite (dom V)" and "escrow_ok acc V" and "V loc = Some (at_address key, t)"
    and "at_token key = tp_tick t" and "card (dom V) < 2 ^ 64"
  shows "tp_amt t \<le> tb_transferable_balance (account_or_default acc key)"
    and "tb_transfers_count (account_or_default acc key) \<noteq> 0"
proof -
  have own: "owns_transfer key (at_address key, t)"
    using assms(4) by (simp add: owns_transfer_def)
  show "tp_amt t \<le> tb_transferable_balance (account_or_default acc key)"
    using opt_weight_le [OF assms(1), of "xfer_amt key" loc] assms(3) own
    by (simp add: escrow_okD(1) [OF assms(2)] xfer_amt_def)
  have "1 \<le> map_sum (xfer_cnt key) V"
    using opt_weight_le [OF assms(1), of "xfer_cnt key" loc] assms(3) own
    by (simp add: xfer_cnt_def)
  moreover have "map_sum (xfer_cnt key) V \<le> card (dom V)"
    unfolding map_sum_card [symmetric] by (rule map_sum_mono) (simp add: xfer_cnt_def)
  ultimately have "unat (word_of_nat (map_sum (xfer_cnt key) V) :: u64) \<noteq> 0"
    using assms(5) by (simp add: unat_of_nat)
  then show "tb_transfers_count (account_or_default acc key) \<noteq> 0"
    unfolding escrow_okD(2) [OF assms(2)] by auto
qed

end
