(* ===== verification/TokenSafe.thy ===== *)
theory TokenSafe
  imports TokenInv
begin

text \<open>
  Executing the actions of a block on a ledger that satisfies \<open>ledger_ok\<close>: no step panics and each
  keeps the invariant (the locale \<open>safe_steps\<close>, interpreted on \<open>process_token_action\<close>), and the
  amounts held and supplied move by what the emitted events say (the locale \<open>accounted_steps\<close>).
\<close>

section \<open>One step is safe\<close>

definition step_safe_at :: "env \<Rightarrow> token_action \<Rightarrow> token_action list \<Rightarrow> exec_state \<Rightarrow> bool" where
  "step_safe_at E a as s \<longleftrightarrow> (\<exists>s' evs. process_token_action E a s = Inr (s', evs)
     \<and> ledger_ok E s' \<and> pending_ok E as s')"

lemma step_safe_same:
  assumes "process_token_action E a (c, h) = Inr ((c\<lparr> tc_all := all' \<rparr>, h), evs)"
    and "ledger_ok E (c, h)" and "pending_ok E (a # as) (c, h)"
    and "\<And>l. l \<in> set (transfer_locs as) \<Longrightarrow> all' l = tc_all c l"
  shows "step_safe_at E a as (c, h)"
proof -
  have "ledger_ok E (c\<lparr> tc_all := all' \<rparr>, h)" using assms(2) by (simp add: ledger_ok_def)
  moreover have "pending_ok E as (c\<lparr> tc_all := all' \<rparr>, h)"
    using assms(3) by (rule pending_ok_step) (use assms(4) in \<open>auto intro!: add_mono\<close>, cases a, auto)
  ultimately show ?thesis using assms(1) unfolding step_safe_at_def by blast
qed

lemma step_safe_skip:
  assumes "process_token_action E a (c, h) = Inr ((c, h), evs)"
    and "ledger_ok E (c, h)" and "pending_ok E (a # as) (c, h)"
  shows "step_safe_at E a as (c, h)"
  using step_safe_same [of E a c h "tc_all c"] assms by simp

lemma deploy_safe:
  assumes inv: "ledger_ok E (c, h)" and ok: "pending_ok E (TaDeploy g p owner # as) (c, h)"
  shows "step_safe_at E (TaDeploy g p owner) as (c, h)"
proof (cases "tc_tokens c (tick_key E (dp_tick p))")
  case (Some m)
  then show ?thesis
    using inv ok by (intro step_safe_skip) (auto simp: process_deploy_def)
next
  case None
  let ?T = "tc_tokens c" and ?m = "\<lparr> tm_genesis = g, tm_proto = p \<rparr>"
  let ?T' = "?T(tick_key E (dp_tick p) \<mapsto> ?m)"
  note inv = ledger_okD [OF inv]
  have p: "dp_supply p = 0" "dp_max p \<le> fx_cap (e_fx E)"
    using ok by (auto simp: pending_ok_def)
  have "held (dp_tick p) (tc_accounts c) = 0"
    unfolding held_def
  proof (rule map_sum_zero)
    fix k b assume "tc_accounts c k = Some b"
    then have "deployed E ?T (at_token k)" using inv(4) by (simp add: accounts_ok_def)
    with None show "acct_weight (dp_tick p) k b = 0"
      by (auto simp: deployed_def acct_weight_def split: option.splits)
  qed
  then have "supply_ok ?T' (tc_accounts c)"
    using inv(7) by (simp add: supply_ok_def)
  moreover have "tokens_ok E ?T'" using inv(3) p by (simp add: tokens_ok_def)
  moreover have "accounts_ok E ?T' (tc_accounts c)" "valid_ok E ?T' (tc_valid c)"
    using inv(4,5) deployed_new [where T = "tc_tokens c", OF None] by (auto simp: accounts_ok_def valid_ok_def)
  ultimately have "ledger_ok E (c\<lparr> tc_tokens := ?T' \<rparr>, h)"
    using inv by (simp add: ledger_ok_def)
  moreover have "pending_ok E as (c\<lparr> tc_tokens := ?T' \<rparr>, h)"
    using ok by (rule pending_ok_step) auto
  ultimately show ?thesis
    using None by (simp add: step_safe_at_def process_deploy_def)
qed

lemma mint_safe:
  assumes inv: "ledger_ok E (c, h)" and ok: "pending_ok E (TaMint owner w txid vout # as) (c, h)"
  shows "step_safe_at E (TaMint owner w txid vout) as (c, h)"
proof (cases "tc_tokens c (tick_key E (mw_tick w))")
  case None
  then show ?thesis
    using inv ok by (intro step_safe_skip) (auto simp: process_mint_def)
next
  case (Some m)
  let ?p = "tm_proto m" and ?k = "tick_key E (mw_tick w)"
  show ?thesis
  proof (cases "dp_dec ?p < fx_scale (e_fx E) (mw_amt w) \<or> dp_lim ?p < mw_amt w \<or> dp_supply ?p = dp_max ?p")
    case True
    with Some show ?thesis
      using inv ok by (intro step_safe_skip) (auto simp: process_mint_def Let_def)
  next
    case False
    let ?acc = "tc_accounts c" and ?amt = "min (mw_amt w) (dp_max ?p - dp_supply ?p)"
    let ?key = "\<lparr> at_address = owner, at_token = dp_tick ?p \<rparr>"
    let ?a = "account_or_default ?acc ?key"
    let ?b = "?a\<lparr> tb_balance := tb_balance ?a + ?amt \<rparr>"
    let ?m = "m\<lparr> tm_proto := ?p\<lparr> dp_supply := dp_supply ?p + ?amt,
        dp_transactions := dp_transactions ?p + 1, dp_mint_count := dp_mint_count ?p + 1 \<rparr> \<rparr>"
    let ?c = "c\<lparr> tc_tokens := (tc_tokens c)(?k \<mapsto> ?m), tc_accounts := ?acc(?key \<mapsto> ?b) \<rparr>"
    note D = ledger_okD [OF inv]
    note tok = tokens_okD [OF D(3) Some]
    have amt: "0 < ?amt" using ok False tok(2) by (simp add: pending_ok_def)
    have sup: "dp_supply ?p + ?amt \<le> dp_max ?p" using tok(2) by simp
    have hold: "holding ?a \<le> dp_supply ?p"
      using holding_le_held [OF D(1), of ?key] D(7) Some by (fastforce simp: supply_ok_def)
    have cap: "holding ?a + ?amt \<le> fx_cap (e_fx E)" using hold sup tok(3) by linarith
    obtain h' where h': "holders_increase (e_fx E) ?key ?a ?amt h = Inr h'"
      "holders_ok (?acc(?key \<mapsto> ?b)) h'"
      using holders_increase_ok [OF D(8,1) refl cap amt, of ?b] by (auto simp: holding_def)
    have "process_token_action E (TaMint owner w txid vout) (c, h)
        = Inr ((?c, h'), [HMint (dp_tick ?p) ?amt owner txid vout])"
      using Some False tok(2,3) sup cap h'(1)
      by (simp add: process_mint_def Let_def fx_sub_def fx_add_def holding_def)
    moreover have "ledger_ok E (?c, h')"
      unfolding ledger_ok_def
      using D Some sup h'(2) tokens_ok_update [OF D(3) Some, of ?m]
        deployedD [OF D(3) Some] supply_ok_account [OF D(1,7,3) Some, of ?key ?m ?b]
        escrow_ok_balance [OF D(6), of ?b ?key]
      by (simp add: accounts_ok_def valid_ok_def deployed_update [where T = "tc_tokens c", OF Some] holding_def)
    moreover have "pending_ok E as (?c, h')"
      using ok by (rule pending_ok_step) auto
    ultimately show ?thesis unfolding step_safe_at_def by blast
  qed
qed

lemma transfer_safe:
  assumes inv: "ledger_ok E (c, h)" and ok: "pending_ok E (TaTransfer loc owner w txid vout # as) (c, h)"
  shows "step_safe_at E (TaTransfer loc owner w txid vout) as (c, h)"
proof (cases "tc_all c loc")
  case None
  then show ?thesis
    using inv ok by (intro step_safe_skip) (auto simp: process_transfer_def)
next
  case (Some data)
  let ?k = "tick_key E (mw_tick w)" and ?acc = "tc_accounts c"
  let ?all = "(tc_all c)(loc := None)"
  have fresh: "loc \<notin> set (transfer_locs as)" and w: "0 < mw_amt w" "tp_amt data = mw_amt w"
    and free: "tc_valid c loc = None"
    and room: "card (dom (tc_valid c)) + Suc (length (transfer_locs as)) < 2 ^ 64"
    using ok Some by (auto simp: pending_ok_def)
  have skip: "step_safe_at E (TaTransfer loc owner w txid vout) as (c, h)"
    if "process_transfer E loc owner w txid vout (c, h) = Inr ((c\<lparr> tc_all := ?all \<rparr>, h), [])"
    by (rule step_safe_same [where all' = ?all, OF _ inv ok]) (use that fresh in auto)
  show ?thesis
  proof (cases "tc_tokens c ?k")
    case None
    then show ?thesis using Some by (intro skip) (simp add: process_transfer_def Let_def)
  next
    case tok: (Some m)
    let ?p = "tm_proto m"
    let ?key = "\<lparr> at_address = owner, at_token = dp_tick ?p \<rparr>"
    show ?thesis
    proof (cases "dp_dec ?p < fx_scale (e_fx E) (mw_amt w) \<or> ?acc ?key = None
        \<or> (case ?acc ?key of Some a \<Rightarrow> tb_balance a < mw_amt w | None \<Rightarrow> False)")
      case True
      then show ?thesis using Some tok
        by (intro skip) (auto simp: process_transfer_def Let_def split: option.splits)
    next
      case False
      then obtain a where a: "?acc ?key = Some a" "mw_amt w \<le> tb_balance a"
        and dec: "\<not> dp_dec ?p < fx_scale (e_fx E) (mw_amt w)"
        by (auto split: option.splits)
      let ?data = "data\<lparr> tp_tick := dp_tick ?p \<rparr>"
      let ?b = "a\<lparr> tb_balance := tb_balance a - mw_amt w,
          tb_transfers_count := tb_transfers_count a + 1,
          tb_transferable_balance := tb_transferable_balance a + mw_amt w \<rparr>"
      let ?m = "m\<lparr> tm_proto := ?p\<lparr> dp_transfer_count := dp_transfer_count ?p + 1,
          dp_transactions := dp_transactions ?p + 1 \<rparr> \<rparr>"
      let ?c = "c\<lparr> tc_all := ?all, tc_tokens := (tc_tokens c)(?k \<mapsto> ?m),
          tc_accounts := ?acc(?key \<mapsto> ?b), tc_valid := (tc_valid c)(loc \<mapsto> (owner, ?data)) \<rparr>"
      note D = ledger_okD [OF inv]
      have aod: "account_or_default ?acc ?key = a" using a(1) by (simp add: account_or_default_def)
      have same: "holding ?b = holding a" using a(2) by (simp add: holding_def)
      have "holding a \<le> held (dp_tick ?p) ?acc"
        using holding_le_held [OF D(1), of ?key] aod by simp
      also have "\<dots> \<le> fx_cap (e_fx E)"
        using D(7) tok tokens_okD(2,3) [OF D(3) tok] by (fastforce simp: supply_ok_def)
      finally have cap: "tb_transferable_balance a + mw_amt w \<le> fx_cap (e_fx E)"
        using a(2) by (simp add: holding_def)
      have "process_token_action E (TaTransfer loc owner w txid vout) (c, h)
          = Inr ((?c, h), [HDeployTransfer (dp_tick ?p) (mw_amt w) owner txid vout])"
        using Some tok a dec cap by (simp add: process_transfer_def Let_def fx_add_def fx_sub_def)
      moreover have "ledger_ok E (?c, h)"
        unfolding ledger_ok_def
        using D tok w holders_ok_same_holding [OF D(8) a(1) same]
          tokens_ok_update [OF D(3) tok, of ?m] tokens_okD(2) [OF D(3) tok] deployedD [OF D(3) tok]
          supply_ok_account [OF D(1,7,3) tok, of ?key ?m ?b] same
          escrow_ok_insert [OF D(2,6) free, of ?b ?key ?data] aod
        by (simp add: accounts_ok_def valid_ok_def deployed_update [where T = "tc_tokens c", OF tok])
      moreover have "pending_ok E as (?c, h)"
        using ok by (rule pending_ok_step)
          (use fresh in \<open>auto simp: card_insert_if D(2) free domIff\<close>)
      ultimately show ?thesis unfolding step_safe_at_def by blast
    qed
  qed
qed

text \<open>Spending a transfer in two halves: the transfer and the sender's account, then the account of the
  recipient.\<close>

definition spend_sender :: "env \<Rightarrow> location \<Rightarrow> hash32 \<Rightarrow> transfer_proto_db \<Rightarrow> token_meta \<Rightarrow> token_cache \<Rightarrow> token_cache" where
  "spend_sender E loc sender t m c =
     (let old = \<lparr> at_address = sender, at_token = tp_tick t \<rparr>; a = account_or_default (tc_accounts c) old in
      c\<lparr> tc_valid := (tc_valid c)(loc := None),
         tc_tokens := (tc_tokens c)(tick_key E (tp_tick t) \<mapsto>
           m\<lparr> tm_proto := (tm_proto m)\<lparr> dp_transactions := dp_transactions (tm_proto m) + 1 \<rparr> \<rparr>),
         tc_accounts := (tc_accounts c)(old \<mapsto> a\<lparr> tb_transfers_count := tb_transfers_count a - 1,
           tb_transferable_balance := tb_transferable_balance a - tp_amt t \<rparr>) \<rparr>)"

lemma spend_sender_simps [simp]:
  "tc_valid (spend_sender E loc sender t m c) = (tc_valid c)(loc := None)"
  "tc_all (spend_sender E loc sender t m c) = tc_all c"
  by (simp_all add: spend_sender_def Let_def)

lemma sender_covers:
  assumes inv: "ledger_ok E (c, h)" and v: "tc_valid c loc = Some (sender, t)" and small: "card (dom (tc_valid c)) < 2 ^ 64"
  defines "a \<equiv> account_or_default (tc_accounts c) \<lparr> at_address = sender, at_token = tp_tick t \<rparr>"
  shows "tp_amt t \<le> tb_transferable_balance a" "tb_transfers_count a \<noteq> 0"
    "tc_accounts c \<lparr> at_address = sender, at_token = tp_tick t \<rparr> = Some a"
proof -
  note D = ledger_okD [OF inv]
  have "0 < tp_amt t" using D(5) v by (auto simp: valid_ok_def)
  moreover show cover: "tp_amt t \<le> tb_transferable_balance a" "tb_transfers_count a \<noteq> 0"
    using escrow_covers [OF D(2,6), of loc _ t] v small unfolding a_def by simp_all
  ultimately show "tc_accounts c \<lparr> at_address = sender, at_token = tp_tick t \<rparr> = Some a"
    unfolding a_def by (auto simp: account_or_default_def token_balance_default_def split: option.splits)
qed

lemma capped:
  assumes inv: "ledger_ok E (c, h)" and tok: "tc_tokens c (tick_key E t) = Some m" "dp_tick (tm_proto m) = t"
    and "holding b \<le> held t acc" and "held t acc \<le> held t (tc_accounts c)"
  shows "holding b \<le> fx_cap (e_fx E)"
  using ledger_okD(7) [OF inv] tok tokens_okD(2,3) [OF ledger_okD(3) [OF inv] tok(1)] assms(4, 5)
  by (fastforce simp: supply_ok_def)

lemma sender_safe:
  assumes inv: "ledger_ok E (c, h)" and v: "tc_valid c loc = Some (sender, t)" and small: "card (dom (tc_valid c)) < 2 ^ 64"
    and tok: "tc_tokens c (tick_key E (tp_tick t)) = Some m" "dp_tick (tm_proto m) = tp_tick t"
  defines "old \<equiv> \<lparr> at_address = sender, at_token = tp_tick t \<rparr>" and "c1 \<equiv> spend_sender E loc sender t m c"
  shows "\<exists>h1. holders_decrease (e_fx E) old (account_or_default (tc_accounts c) old) (tp_amt t) h = Inr h1
    \<and> ledger_ok E (c1, h1)"
    and "held u (tc_accounts c1) + (if u = tp_tick t then tp_amt t else 0) = held u (tc_accounts c)"
proof -
  note D = ledger_okD [OF inv]
  let ?a = "account_or_default (tc_accounts c) old"
  let ?b = "?a\<lparr> tb_transfers_count := tb_transfers_count ?a - 1,
      tb_transferable_balance := tb_transferable_balance ?a - tp_amt t \<rparr>"
  note cover = sender_covers [OF inv v small, folded old_def]
  have acc1: "tc_accounts c1 = (tc_accounts c)(old \<mapsto> ?b)" by (simp add: c1_def old_def spend_sender_def Let_def)
  have hb: "holding ?b = holding ?a - tp_amt t" "tp_amt t \<le> holding ?a" using cover(1) by (simp_all add: holding_def)
  show held1: "held u (tc_accounts c1) + (if u = tp_tick t then tp_amt t else 0) = held u (tc_accounts c)" for u
    unfolding acc1 using held_update [OF D(1), of u old ?b] hb by (cases "u = tp_tick t") (simp_all add: old_def)
  have "holding ?a \<le> fx_cap (e_fx E)"
    using holding_le_held [OF D(1), of old] by (intro capped [OF inv tok, of _ "tc_accounts c"]) (auto simp: old_def)
  moreover have "0 < tp_amt t" using D(5) v by (auto simp: valid_ok_def)
  ultimately obtain h1 where h1: "holders_decrease (e_fx E) old ?a (tp_amt t) h = Inr h1" "holders_ok (tc_accounts c1) h1"
    unfolding acc1 using holders_decrease_ok [OF D(8,1) refl _ _ hb(2,1)] by auto
  have "escrow_ok (tc_accounts c1) ((tc_valid c)(loc := None))"
    unfolding acc1 using escrow_ok_remove [OF D(2,6), of loc old t ?b] v cover by (simp add: old_def)
  moreover have "supply_ok (tc_tokens c1) (tc_accounts c1)"
    unfolding c1_def spend_sender_def Let_def
    by (simp, rule supply_ok_counters [OF supply_ok_le [OF D(7)] tok(1)])
      (use held1 in \<open>simp_all add: acc1 old_def le_iff_add\<close>, metis)
  ultimately have "ledger_ok E (c1, h1)"
    unfolding ledger_ok_def
    using D h1(2) tokens_ok_update [OF D(3) tok(1)] tokens_okD(2) [OF D(3) tok(1)] deployedD [OF D(3) tok(1)] tok
    by (simp add: c1_def spend_sender_def Let_def accounts_ok_def valid_ok_def
        deployed_update [where T = "tc_tokens c", OF tok(1)])
  with h1(1) show "\<exists>h1. holders_decrease (e_fx E) old ?a (tp_amt t) h = Inr h1 \<and> ledger_ok E (c1, h1)" by blast
qed

lemma recipient_safe:
  assumes inv: "ledger_ok E (c, h)" and tok: "tc_tokens c (tick_key E t) = Some m" "dp_tick (tm_proto m) = t"
    and room: "\<And>acc. (\<And>u. held u acc = held u (tc_accounts c) + (if u = t then amt else 0)) \<Longrightarrow> supply_ok (tc_tokens c) acc"
    and amt: "0 < amt" and key: "key = \<lparr> at_address = rcpt, at_token = t \<rparr>"
  defines "r \<equiv> account_or_default (tc_accounts c) key"
  shows "\<exists>h'. holders_increase (e_fx E) key r amt h = Inr h' \<and> holding r + amt \<le> fx_cap (e_fx E)
    \<and> ledger_ok E (c\<lparr> tc_accounts := (tc_accounts c)(key \<mapsto> r\<lparr> tb_balance := tb_balance r + amt \<rparr>) \<rparr>, h')"
proof -
  let ?rb = "r\<lparr> tb_balance := tb_balance r + amt \<rparr>"
  let ?acc = "(tc_accounts c)(key \<mapsto> ?rb)"
  note D = ledger_okD [OF inv]
  have hr: "holding ?rb = holding r + amt" by (simp add: holding_def)
  have held: "held u ?acc = held u (tc_accounts c) + (if u = t then amt else 0)" for u
    using held_update [OF D(1), of u key ?rb] hr by (cases "u = t") (simp_all add: key r_def)
  have sup: "supply_ok (tc_tokens c) ?acc" by (rule room) (rule held)
  have "holding ?rb \<le> held t ?acc"
    using holding_le_held [of ?acc key] D(1) by (simp add: account_or_default_update key)
  moreover have "held t ?acc \<le> fx_cap (e_fx E)"
    using sup tok tokens_okD(2,3) [OF D(3) tok(1)] by (fastforce simp: supply_ok_def)
  ultimately have cap: "holding r + amt \<le> fx_cap (e_fx E)" using hr by simp
  then obtain h' where h': "holders_increase (e_fx E) key r amt h = Inr h'" "holders_ok ?acc h'"
    using holders_increase_ok [OF D(8,1) _ cap amt hr] r_def by blast
  have "accounts_ok E (tc_tokens c) ?acc"
    using D(4) by (rule accounts_ok_update) (use deployedD [OF D(3) tok(1)] tok(2) in \<open>simp add: key\<close>)
  moreover have "escrow_ok ?acc (tc_valid c)"
    using D(6) by (rule escrow_ok_balance) (simp_all add: r_def)
  ultimately have "ledger_ok E (c\<lparr> tc_accounts := ?acc \<rparr>, h')"
    unfolding ledger_ok_def using D sup h'(2) by simp
  with h'(1) cap show ?thesis by blast
qed

lemma transferred_safe:
  assumes inv: "ledger_ok E (c, h)" and ok: "pending_ok E (TaTransferred loc rcpt txid vout # as) (c, h)"
  shows "step_safe_at E (TaTransferred loc rcpt txid vout) as (c, h)"
proof (cases "tc_valid c loc")
  case None
  then show ?thesis
    using inv ok by (intro step_safe_skip) (auto simp: process_transferred_def)
next
  case (Some v)
  obtain sender t where v: "tc_valid c loc = Some (sender, t)" using Some by (cases v) auto
  let ?k = "tick_key E (tp_tick t)" and ?old = "\<lparr> at_address = sender, at_token = tp_tick t \<rparr>"
  note D = ledger_okD [OF inv]
  have amt: "0 < tp_amt t" and "deployed E (tc_tokens c) (tp_tick t)"
    using D(5) v by (auto simp: valid_ok_def)
  then obtain m where tok: "tc_tokens c ?k = Some m" "dp_tick (tm_proto m) = tp_tick t"
    by (auto simp: deployed_def split: option.splits)
  have small: "card (dom (tc_valid c)) < 2 ^ 64" using ok by (simp add: pending_ok_def)
  let ?c1 = "spend_sender E loc sender t m c" and ?evs = "[HSend (tp_tick t) (tp_amt t) rcpt sender txid vout]"
  note cover = sender_covers [OF inv v small]
  obtain h1 where h1: "holders_decrease (e_fx E) ?old (account_or_default (tc_accounts c) ?old) (tp_amt t) h = Inr h1"
    "ledger_ok E (?c1, h1)"
    using sender_safe(1) [OF inv v small tok] by blast
  have pend: "pending_ok E as (?c1\<lparr> tc_accounts := A \<rparr>, h')" for A h'
  proof -
    have "l \<noteq> loc" if "l \<in> set (transfer_locs as)" for l
    proof
      assume "l = loc"
      with that obtain o' w' x' y' where "TaTransfer loc o' w' x' y' \<in> set as"
        by (induction as rule: transfer_locs.induct) auto
      with ok v show False by (force simp: pending_ok_def)
    qed
    with D(2) show ?thesis by (intro pending_ok_step [OF ok]) (auto simp: card_Diff_singleton_if)
  qed
  show ?thesis
  proof (cases "rcpt = e_op_return E")
    case True
    then have "process_token_action E (TaTransferred loc rcpt txid vout) (c, h) = Inr ((?c1, h1), ?evs)"
      using v tok cover h1(1) by (simp add: process_transferred_def spend_sender_def Let_def fx_sub_def)
    with h1(2) pend [of "tc_accounts ?c1"] show ?thesis unfolding step_safe_at_def by simp
  next
    case False
    let ?key = "\<lparr> at_address = rcpt, at_token = tp_tick t \<rparr>"
    let ?r = "account_or_default (tc_accounts ?c1) ?key"
    let ?c2 = "?c1\<lparr> tc_accounts := (tc_accounts ?c1)(?key \<mapsto> ?r\<lparr> tb_balance := tb_balance ?r + tp_amt t \<rparr>) \<rparr>"
    let ?m = "m\<lparr> tm_proto := (tm_proto m)\<lparr> dp_transactions := dp_transactions (tm_proto m) + 1 \<rparr> \<rparr>"
    have tok1: "tc_tokens ?c1 = (tc_tokens c)(?k \<mapsto> ?m)" by (simp add: spend_sender_def Let_def)
    have "supply_ok (tc_tokens ?c1) acc"
      if "\<And>u. held u acc = held u (tc_accounts ?c1) + (if u = tp_tick t then tp_amt t else 0)" for acc
      unfolding tok1 by (rule supply_ok_counters [OF supply_ok_le [OF D(7)] tok(1)])
        (use that sender_safe(2) [OF inv v small tok] in simp_all)
    then obtain h2 where h2: "holders_increase (e_fx E) ?key ?r (tp_amt t) h1 = Inr h2"
      "holding ?r + tp_amt t \<le> fx_cap (e_fx E)" "ledger_ok E (?c2, h2)"
      using recipient_safe [OF h1(2), of "tp_tick t" ?m "tp_amt t" ?key rcpt] tok(2) amt by (auto simp: tok1)
    have "process_token_action E (TaTransferred loc rcpt txid vout) (c, h) = Inr ((?c2, h2), ?evs)"
      using v tok cover h1(1) h2(1, 2) False
      by (simp add: process_transferred_def spend_sender_def Let_def fx_sub_def fx_add_def holding_def)
    with h2(3) pend show ?thesis unfolding step_safe_at_def by blast
  qed
qed

end
