(* ===== verification/TokenAccount.thy ===== *)
theory TokenAccount
  imports TokenSafe
begin

text \<open>
  Runs of \<open>process_token_actions\<close>: the locale \<open>safe_steps\<close> interpreted on the ledger, the cases of
  each step, and the books of a run (the locale \<open>accounted_steps\<close>): what the accounts of a tick hold
  moves by the mints and burns the history reports, and the supply of a token by its mints.
\<close>

section \<open>Safe runs\<close>

interpretation ledger: safe_steps "process_token_action E" "ledger_ok E" "pending_ok E" for E
proof
  fix s a as
  assume inv: "ledger_ok E s" and ok: "pending_ok E (a # as) s"
  obtain c h where s: "s = (c, h)" by (cases s)
  have "step_safe_at E a as (c, h)"
    using inv ok unfolding s
    by (cases a) (simp_all add: deploy_safe mint_safe transfer_safe transferred_safe)
  then show "\<exists>s' evs. process_token_action E a s = Inr (s', evs) \<and> ledger_ok E s' \<and> pending_ok E as s'"
    unfolding s step_safe_at_def .
qed

lemma ledger_ok_actions [simp]: "ledger_ok E (c\<lparr> tc_actions := as \<rparr>, h) \<longleftrightarrow> ledger_ok E (c, h)"
  by (simp add: ledger_ok_def)

lemma action_ok_actions [simp]: "action_ok E (c\<lparr> tc_actions := bs \<rparr>) a \<longleftrightarrow> action_ok E c a"
  by (cases a) auto

lemma pending_ok_actions [simp]:
  "pending_ok E as (c\<lparr> tc_actions := bs \<rparr>, h) \<longleftrightarrow> pending_ok E as (c, h)"
  by (simp add: pending_ok_def)

section \<open>The cases of a step\<close>

lemma deploy_cases:
  assumes "process_deploy E g p owner (c, h) = Inr (s', evs)"
  obtains (skip) "s' = (c, h)" "evs = []" "tc_tokens c (tick_key E (dp_tick p)) \<noteq> None"
  | (deploy) "tc_tokens c (tick_key E (dp_tick p)) = None"
      "s' = (c\<lparr> tc_tokens := (tc_tokens c)(tick_key E (dp_tick p) \<mapsto>
         \<lparr> tm_genesis = g, tm_proto = p \<rparr>) \<rparr>, h)"
      "evs = [HDeploy (dp_tick p) (dp_max p) (dp_lim p) (dp_dec p) owner (iid_txid g) (iid_index g)]"
  using assms by (auto simp: process_deploy_def split: option.splits)

lemma mint_cases:
  assumes "process_mint E owner w txid vout (c, h) = Inr (s', evs)"
  obtains (skip) "s' = (c, h)" "evs = []"
      "\<And>m. tc_tokens c (tick_key E (mw_tick w)) = Some m \<Longrightarrow>
        dp_dec (tm_proto m) < fx_scale (e_fx E) (mw_amt w) \<or> dp_lim (tm_proto m) < mw_amt w
        \<or> dp_supply (tm_proto m) = dp_max (tm_proto m)"
  | (mint) m p key a amt h1 where "tc_tokens c (tick_key E (mw_tick w)) = Some m" "p = tm_proto m"
      "key = \<lparr> at_address = owner, at_token = dp_tick p \<rparr>" "a = account_or_default (tc_accounts c) key"
      "amt = min (mw_amt w) (dp_max p - dp_supply p)" "dp_supply p \<le> dp_max p"
      "dp_supply p \<noteq> dp_max p" "mw_amt w \<le> dp_lim p" "fx_scale (e_fx E) (mw_amt w) \<le> dp_dec p"
      "holders_increase (e_fx E) key a amt h = Inr h1"
      "s' = (c\<lparr> tc_tokens := (tc_tokens c)(tick_key E (mw_tick w) \<mapsto>
                  m\<lparr> tm_proto := p\<lparr> dp_supply := dp_supply p + amt,
                     dp_transactions := dp_transactions p + 1, dp_mint_count := dp_mint_count p + 1 \<rparr> \<rparr>),
               tc_accounts := (tc_accounts c)(key \<mapsto> a\<lparr> tb_balance := tb_balance a + amt \<rparr>) \<rparr>, h1)"
      "evs = [HMint (dp_tick p) amt owner txid vout]"
  using assms
  by (auto simp: process_mint_def Let_def not_less split: option.splits if_splits)

lemma transfer_cases:
  assumes "process_transfer E loc owner w txid vout (c, h) = Inr (s', evs)"
  obtains (skip) all' where "s' = (c\<lparr> tc_all := all' \<rparr>, h)" "evs = []"
      "all' = (tc_all c)(loc := None)"
      "\<And>m a. tc_all c loc \<noteq> None \<Longrightarrow> tc_tokens c (tick_key E (mw_tick w)) = Some m \<Longrightarrow>
        tc_accounts c \<lparr> at_address = owner, at_token = dp_tick (tm_proto m) \<rparr> = Some a \<Longrightarrow>
        dp_dec (tm_proto m) < fx_scale (e_fx E) (mw_amt w) \<or> tb_balance a < mw_amt w"
  | (transfer) m p key a data where "tc_all c loc = Some data"
      "tc_tokens c (tick_key E (mw_tick w)) = Some m" "p = tm_proto m"
      "key = \<lparr> at_address = owner, at_token = dp_tick p \<rparr>" "tc_accounts c key = Some a"
      "fx_scale (e_fx E) (mw_amt w) \<le> dp_dec p" "mw_amt w \<le> tb_balance a"
      "s' = (c\<lparr> tc_all := (tc_all c)(loc := None),
               tc_tokens := (tc_tokens c)(tick_key E (mw_tick w) \<mapsto>
                 m\<lparr> tm_proto := p\<lparr> dp_transfer_count := dp_transfer_count p + 1,
                    dp_transactions := dp_transactions p + 1 \<rparr> \<rparr>),
               tc_accounts := (tc_accounts c)(key \<mapsto> a\<lparr> tb_balance := tb_balance a - mw_amt w,
                 tb_transfers_count := tb_transfers_count a + 1,
                 tb_transferable_balance := tb_transferable_balance a + mw_amt w \<rparr>),
               tc_valid := (tc_valid c)(loc \<mapsto> (owner, data\<lparr> tp_tick := dp_tick p \<rparr>)) \<rparr>, h)"
      "evs = [HDeployTransfer (dp_tick p) (mw_amt w) owner txid vout]"
proof (cases "tc_all c loc")
  case None
  then have "(tc_all c)(loc := None) = tc_all c" by auto
  with None assms show ?thesis
    by (intro skip [OF _ _ refl]) (auto simp: process_transfer_def)
next
  case (Some data)
  note step = assms [unfolded process_transfer_def Let_def]
  show ?thesis
  proof (cases "tc_tokens c (tick_key E (mw_tick w))")
    case None
    show ?thesis by (rule skip [OF _ _ refl]) (use step in \<open>auto simp: Some None\<close>)
  next
    case m: (Some m)
    let ?key = "\<lparr> at_address = owner, at_token = dp_tick (tm_proto m) \<rparr>"
    show ?thesis
    proof (cases "dp_dec (tm_proto m) < fx_scale (e_fx E) (mw_amt w) \<or> tc_accounts c ?key = None
        \<or> tb_balance (the (tc_accounts c ?key)) < mw_amt w")
      case True
      show ?thesis
        by (rule skip [OF _ _ refl])
          (use step True in \<open>auto simp: Some m split: if_splits option.splits\<close>)
    next
      case False
      then obtain a where a: "tc_accounts c ?key = Some a" "mw_amt w \<le> tb_balance a"
        and dec: "fx_scale (e_fx E) (mw_amt w) \<le> dp_dec (tm_proto m)"
        by (auto simp: not_less)
      show ?thesis
        by (rule transfer [OF Some m refl refl a(1) dec a(2)])
          (use step in \<open>auto simp: Some m a leD [OF a(2)] leD [OF dec]\<close>)
    qed
  qed
qed

lemma transferred_cases:
  assumes "process_transferred E loc rcpt txid vout (c, h) = Inr (s', evs)"
  obtains (skip) "s' = (c, h)" "evs = []" "tc_valid c loc = None"
  | (send) sender t m p key a b acc acc' h1 h2 where "tc_valid c loc = Some (sender, t)"
      "tc_tokens c (tick_key E (tp_tick t)) = Some m" "p = tm_proto m"
      "key = \<lparr> at_address = sender, at_token = dp_tick p \<rparr>" "tc_accounts c key = Some a"
      "tp_amt t \<le> tb_transferable_balance a" "tb_transfers_count a \<noteq> 0"
      "holders_decrease (e_fx E) key a (tp_amt t) h = Inr h1"
      "b = a\<lparr> tb_transfers_count := tb_transfers_count a - 1,
              tb_transferable_balance := tb_transferable_balance a - tp_amt t \<rparr>"
      "acc = (tc_accounts c)(key \<mapsto> b)"
      "rcpt = e_op_return E \<and> acc' = acc \<and> h2 = h1 \<or>
       rcpt \<noteq> e_op_return E
       \<and> holders_increase (e_fx E) \<lparr> at_address = rcpt, at_token = dp_tick p \<rparr>
           (account_or_default acc \<lparr> at_address = rcpt, at_token = dp_tick p \<rparr>) (tp_amt t) h1 = Inr h2
       \<and> acc' = acc(\<lparr> at_address = rcpt, at_token = dp_tick p \<rparr> \<mapsto>
           (account_or_default acc \<lparr> at_address = rcpt, at_token = dp_tick p \<rparr>)
           \<lparr> tb_balance := tb_balance (account_or_default acc
               \<lparr> at_address = rcpt, at_token = dp_tick p \<rparr>) + tp_amt t \<rparr>)"
      "s' = (c\<lparr> tc_valid := (tc_valid c)(loc := None),
               tc_tokens := (tc_tokens c)(tick_key E (tp_tick t) \<mapsto>
                 m\<lparr> tm_proto := p\<lparr> dp_transactions := dp_transactions p + 1 \<rparr> \<rparr>),
               tc_accounts := acc' \<rparr>, h2)"
      "evs = [HSend (dp_tick p) (tp_amt t) rcpt sender txid vout]"
proof (cases "tc_valid c loc")
  case None
  with assms show ?thesis by (intro skip) (auto simp: process_transferred_def)
next
  case (Some v)
  obtain sender t where v: "v = (sender, t)" by (cases v)
  from assms Some v obtain m a where
    m: "tc_tokens c (tick_key E (tp_tick t)) = Some m" and
    a: "tc_accounts c \<lparr> at_address = sender, at_token = dp_tick (tm_proto m) \<rparr> = Some a"
      "tb_transfers_count a \<noteq> 0" "tp_amt t \<le> tb_transferable_balance a"
    by (auto simp: process_transferred_def Let_def not_less split: option.splits if_splits)
  let ?p = "tm_proto m" and ?key = "\<lparr> at_address = sender, at_token = dp_tick (tm_proto m) \<rparr>"
  let ?acc = "(tc_accounts c)(?key \<mapsto> a\<lparr> tb_transfers_count := tb_transfers_count a - 1,
      tb_transferable_balance := tb_transferable_balance a - tp_amt t \<rparr>)"
  let ?rk = "\<lparr> at_address = rcpt, at_token = dp_tick ?p \<rparr>"
  let ?ra = "account_or_default ?acc ?rk"
  note Some = Some [unfolded v]
  note step = assms [unfolded process_transferred_def Let_def]
  obtain h1 where h1: "holders_decrease (e_fx E) ?key a (tp_amt t) h = Inr h1"
    using step by (auto simp: Some m a leD [OF a(3)])
  show ?thesis
  proof (cases "rcpt = e_op_return E")
    case True
    then show ?thesis
      by (intro send [OF Some m refl refl a(1,3,2) h1 refl refl disjI1])
        (use step True in \<open>auto simp: Some m a leD [OF a(3)] h1\<close>)
  next
    case False
    then obtain h2 where h2: "holders_increase (e_fx E) ?rk ?ra (tp_amt t) h1 = Inr h2"
      and s: "s' = (c\<lparr> tc_valid := (tc_valid c)(loc := None),
               tc_tokens := (tc_tokens c)(tick_key E (tp_tick t) \<mapsto>
                 m\<lparr> tm_proto := ?p\<lparr> dp_transactions := dp_transactions ?p + 1 \<rparr> \<rparr>),
               tc_accounts := ?acc(?rk \<mapsto> ?ra\<lparr> tb_balance := tb_balance ?ra + tp_amt t \<rparr>) \<rparr>, h2)"
      and evs: "evs = [HSend (dp_tick ?p) (tp_amt t) rcpt sender txid vout]"
      using step by (auto simp: Some m a leD [OF a(3)] h1)
    show ?thesis
      by (rule send [OF Some m refl refl a(1,3,2) h1 refl refl disjI2 s evs])
        (simp add: False h2)
  qed
qed

section \<open>The books of a run\<close>

text \<open>What an event adds to the accounts of a tick, takes from them, and adds to a token's supply.\<close>

fun minted :: "tick \<Rightarrow> history_token_action \<Rightarrow> nat" where
  "minted t (HMint u amt _ _ _) = (if u = t then amt else 0)"
| "minted t _ = 0"

fun burned :: "env \<Rightarrow> tick \<Rightarrow> history_token_action \<Rightarrow> nat" where
  "burned E t (HSend u amt rcpt _ _ _) = (if u = t \<and> rcpt = e_op_return E then amt else 0)"
| "burned E t _ = 0"

fun supplied :: "env \<Rightarrow> lower_tick \<Rightarrow> history_token_action \<Rightarrow> nat" where
  "supplied E k (HMint u amt _ _ _) = (if tick_key E u = k then amt else 0)"
| "supplied E k _ = 0"

definition supply_of :: "lower_tick \<Rightarrow> (lower_tick \<rightharpoonup> token_meta) \<Rightarrow> nat" where
  "supply_of k T = (case T k of None \<Rightarrow> 0 | Some m \<Rightarrow> dp_supply (tm_proto m))"

fun deploy_ok :: "env \<Rightarrow> token_action \<Rightarrow> bool" where
  "deploy_ok E (TaDeploy g p owner) = (dp_supply p = 0 \<and> dp_max p \<le> fx_cap (e_fx E))"
| "deploy_ok E _ = True"

lemma held_credit:
  assumes "finite (dom acc)"
  shows "held t (acc(k \<mapsto> (account_or_default acc k)
      \<lparr> tb_balance := tb_balance (account_or_default acc k) + amt \<rparr>))
    = held t acc + (if at_token k = t then amt else 0)"
  using held_update [OF assms, of t k "(account_or_default acc k)
      \<lparr> tb_balance := tb_balance (account_or_default acc k) + amt \<rparr>"]
  by (auto simp: holding_def split: if_splits)

lemma held_debit:
  assumes "finite (dom acc)" and "acc k = Some a" and "holding b + amt = holding a"
  shows "held t (acc(k \<mapsto> b)) + (if at_token k = t then amt else 0) = held t acc"
  using held_update [OF assms(1), of t k b] assms(2,3)
  by (auto simp: account_or_default_def split: if_splits)

lemma step_held:
  assumes fin: "finite (dom (tc_accounts c))"
    and step: "process_token_action E a (c, h) = Inr ((c', h'), evs)"
  shows "finite (dom (tc_accounts c'))"
    and "held t (tc_accounts c') + sum_list (map (burned E t) evs)
      = held t (tc_accounts c) + sum_list (map (minted t) evs)"
proof -
  have "finite (dom (tc_accounts c')) \<and> held t (tc_accounts c') + sum_list (map (burned E t) evs)
      = held t (tc_accounts c) + sum_list (map (minted t) evs)"
  proof (cases a)
    case (TaDeploy g p owner)
    with step fin show ?thesis by (auto elim!: deploy_cases)
  next
    case (TaMint owner w txid vout)
    with step have "process_mint E owner w txid vout (c, h) = Inr ((c', h'), evs)" by simp
    then show ?thesis
    proof (cases rule: mint_cases)
      case skip
      with fin show ?thesis by simp
    next
      case (mint m p key a amt h1)
      with fin show ?thesis by (simp add: held_credit)
    qed
  next
    case (TaTransfer loc owner w txid vout)
    with step have "process_transfer E loc owner w txid vout (c, h) = Inr ((c', h'), evs)" by simp
    then show ?thesis
    proof (cases rule: transfer_cases)
      case skip
      with fin show ?thesis by simp
    next
      case (transfer m p key a data)
      have "held t ((tc_accounts c)(key \<mapsto> a\<lparr> tb_balance := tb_balance a - mw_amt w,
                 tb_transfers_count := tb_transfers_count a + 1,
                 tb_transferable_balance := tb_transferable_balance a + mw_amt w \<rparr>)) = held t (tc_accounts c)"
        using held_debit [OF fin transfer(5), of _ 0 t] transfer(7) by (simp add: holding_def)
      with transfer fin show ?thesis by simp
    qed
  next
    case (TaTransferred loc rcpt txid vout)
    with step have "process_transferred E loc rcpt txid vout (c, h) = Inr ((c', h'), evs)" by simp
    then show ?thesis
    proof (cases rule: transferred_cases)
      case skip
      with fin show ?thesis by simp
    next
      case (send sender tr m p key a b acc acc' h1 h2)
      have acc: "held t acc + (if at_token key = t then tp_amt tr else 0) = held t (tc_accounts c)"
        "finite (dom acc)"
        using held_debit [OF fin send(5), of b "tp_amt tr" t] send(6,9,10) fin
        by (simp_all add: holding_def)
      from send(11) acc(2) have "finite (dom acc')" and
        "held t acc' = held t acc + (if rcpt \<noteq> e_op_return E \<and> dp_tick p = t then tp_amt tr else 0)"
        by (auto simp: held_credit)
      with acc(1) send(4,12,13) show ?thesis by auto
    qed
  qed
  then show "finite (dom (tc_accounts c'))"
    and "held t (tc_accounts c') + sum_list (map (burned E t) evs)
      = held t (tc_accounts c) + sum_list (map (minted t) evs)" by blast+
qed

interpretation books: accounted_steps "process_token_action E" "\<lambda>_. True"
    "\<lambda>(c, h). finite (dom (tc_accounts c))" "\<lambda>(c, h). held t (tc_accounts c)" "minted t" "burned E t"
  for E t
  by unfold_locales (auto dest: step_held)

lemma step_supply:
  assumes tok: "tokens_ok E (tc_tokens c)" and adm: "deploy_ok E a"
    and step: "process_token_action E a (c, h) = Inr ((c', h'), evs)"
  shows "tokens_ok E (tc_tokens c')"
    and "supply_of k (tc_tokens c') = supply_of k (tc_tokens c) + sum_list (map (supplied E k) evs)"
proof -
  have "tokens_ok E (tc_tokens c') \<and>
    supply_of k (tc_tokens c') = supply_of k (tc_tokens c) + sum_list (map (supplied E k) evs)"
  proof (cases a)
    case (TaDeploy g p owner)
    with step have "process_deploy E g p owner (c, h) = Inr ((c', h'), evs)" by simp
    then show ?thesis
      by (cases rule: deploy_cases) (use tok adm TaDeploy in \<open>auto simp: tokens_ok_def supply_of_def\<close>)
  next
    case (TaMint owner w txid vout)
    with step have "process_mint E owner w txid vout (c, h) = Inr ((c', h'), evs)" by simp
    then show ?thesis
    proof (cases rule: mint_cases)
      case skip
      with tok show ?thesis by simp
    next
      case (mint m p key a amt h1)
      note t = tokens_okD [OF tok mint(1)]
      have "tokens_ok E (tc_tokens c')"
        using mint tok by (auto intro!: tokens_ok_update [OF tok mint(1)])
      with mint t(1) show ?thesis by (auto simp: supply_of_def)
    qed
  next
    case (TaTransfer loc owner w txid vout)
    with step have "process_transfer E loc owner w txid vout (c, h) = Inr ((c', h'), evs)" by simp
    then show ?thesis
    proof (cases rule: transfer_cases)
      case skip
      with tok show ?thesis by simp
    next
      case (transfer m p key a data)
      have "tokens_ok E (tc_tokens c')"
        using transfer tok tokens_okD(2) [OF tok transfer(2)]
        by (auto intro!: tokens_ok_update [OF tok transfer(2)])
      with transfer show ?thesis by (simp add: supply_of_def)
    qed
  next
    case (TaTransferred loc rcpt txid vout)
    with step have "process_transferred E loc rcpt txid vout (c, h) = Inr ((c', h'), evs)" by simp
    then show ?thesis
    proof (cases rule: transferred_cases)
      case skip
      with tok show ?thesis by simp
    next
      case (send sender tr m p key a b acc acc' h1 h2)
      have "tokens_ok E (tc_tokens c')"
        using send tok tokens_okD(2) [OF tok send(2)]
        by (auto intro!: tokens_ok_update [OF tok send(2)])
      with send show ?thesis by (simp add: supply_of_def)
    qed
  qed
  then show "tokens_ok E (tc_tokens c')"
    and "supply_of k (tc_tokens c') = supply_of k (tc_tokens c) + sum_list (map (supplied E k) evs)"
    by blast+
qed

interpretation supplies: accounted_steps "process_token_action E" "deploy_ok E"
    "\<lambda>(c, h). tokens_ok E (tc_tokens c)" "\<lambda>(c, h). supply_of k (tc_tokens c)" "supplied E k" "\<lambda>_. 0"
  for E k
  by unfold_locales (auto dest: step_supply)

end
