(* ===== verification/TokenSim.thy ===== *)
theory TokenSim
  imports TokenAccount
begin

text \<open>
  Why loading part of the database is enough.  A block executes on a cache that holds only the
  tokens, accounts and transfers its actions name.  Here the rest of the database is put back
  beside the cache (\<open>beside\<close>), and execution is shown to commute with that: the events, the
  panics and the new values are those of execution on the whole ledger.
\<close>

section \<open>The rest of the ledger\<close>

record ledger_rest =
  lr_tokens :: "lower_tick \<rightharpoonup> token_meta"
  lr_accounts :: "address_token \<rightharpoonup> token_balance"
  lr_valid :: "location \<rightharpoonup> hash32 \<times> transfer_proto_db"

definition beside :: "ledger_rest \<Rightarrow> token_cache \<Rightarrow> token_cache" where
  "beside R c = c\<lparr> tc_tokens := lr_tokens R ++ tc_tokens c,
     tc_accounts := lr_accounts R ++ tc_accounts c, tc_valid := lr_valid R ++ tc_valid c \<rparr>"

definition lift_res :: "(token_cache \<Rightarrow> token_cache) \<Rightarrow> exec_result \<Rightarrow> exec_result" where
  "lift_res g r = (case r of Inl e \<Rightarrow> Inl e | Inr ((c, h), evs) \<Rightarrow> Inr ((g c, h), evs))"

lemma lift_res_simps [simp]:
  "lift_res g (Inl e) = Inl e" "lift_res g (Inr ((c, h), evs)) = Inr ((g c, h), evs)"
  by (simp_all add: lift_res_def)

lemma lift_res_rbind [simp]: "lift_res g (rbind m f) = rbind m (\<lambda>x. lift_res g (f x))"
  by (cases m) simp_all

text \<open>No account of an address and tick was left out.\<close>

definition apart :: "env \<Rightarrow> ledger_rest \<Rightarrow> hash32 \<Rightarrow> lower_tick \<Rightarrow> bool" where
  "apart E R a lt \<longleftrightarrow> (\<forall>k. at_address k = a \<and> tick_key E (at_token k) = lt \<longrightarrow> lr_accounts R k = None)"

fun action_apart :: "env \<Rightarrow> ledger_rest \<Rightarrow> token_cache \<Rightarrow> token_action \<Rightarrow> bool" where
  "action_apart E R c (TaDeploy g p owner) = (lr_tokens R (tick_key E (dp_tick p)) = None)"
| "action_apart E R c (TaMint owner w txid vout) =
     (lr_tokens R (tick_key E (mw_tick w)) = None \<and> apart E R owner (tick_key E (mw_tick w)))"
| "action_apart E R c (TaTransfer loc owner w txid vout) =
     (lr_tokens R (tick_key E (mw_tick w)) = None \<and> apart E R owner (tick_key E (mw_tick w))
      \<and> lr_valid R loc = None
      \<and> (\<forall>d. tc_all c loc = Some d \<longrightarrow> tick_key E (tp_tick d) = tick_key E (mw_tick w)))"
| "action_apart E R c (TaTransferred loc rcpt txid vout) =
     (lr_valid R loc = None
      \<and> (\<forall>s t. tc_valid c loc = Some (s, t) \<longrightarrow> lr_tokens R (tick_key E (tp_tick t)) = None
           \<and> apart E R s (tick_key E (tp_tick t))
           \<and> (rcpt \<noteq> e_op_return E \<longrightarrow> apart E R rcpt (tick_key E (tp_tick t))))
      \<and> (\<forall>d. tc_all c loc = Some d \<longrightarrow> rcpt \<noteq> e_op_return E
           \<longrightarrow> apart E R rcpt (tick_key E (tp_tick d))))"

definition apart_ok :: "env \<Rightarrow> ledger_rest \<Rightarrow> token_action list \<Rightarrow> token_cache \<Rightarrow> bool" where
  "apart_ok E R as c \<longleftrightarrow> (\<forall>a\<in>set as. action_apart E R c a \<and> deploy_ok E a) \<and> tokens_ok E (tc_tokens c)"

lemma map_add_delete: "m k = None \<Longrightarrow> (m ++ n)(k := None) = m ++ n(k := None)"
  by (auto simp: map_add_def fun_eq_iff)

lemma map_add_lookup: "m k = None \<Longrightarrow> (m ++ n) k = n k"
  by (simp add: map_add_def split: option.splits)

lemma apartD: "apart E R a lt \<Longrightarrow> tick_key E t = lt \<Longrightarrow>
    lr_accounts R \<lparr> at_address = a, at_token = t \<rparr> = None"
  by (simp add: apart_def)

lemma account_or_default_add:
  "m k = None \<Longrightarrow> account_or_default (m ++ n) k = account_or_default n k"
  by (simp add: account_or_default_def map_add_lookup)

lemmas beside_simps = beside_def map_add_lookup map_add_delete account_or_default_add

section \<open>Each step commutes\<close>

lemma deploy_beside:
  assumes "lr_tokens R (tick_key E (dp_tick p)) = None"
  shows "process_deploy E g p owner (beside R c, h)
    = lift_res (beside R) (process_deploy E g p owner (c, h))"
  using assms by (simp add: process_deploy_def beside_simps split: option.splits)

lemma mint_beside:
  assumes T: "lr_tokens R (tick_key E (mw_tick w)) = None"
    and U: "apart E R owner (tick_key E (mw_tick w))" and tok: "tokens_ok E (tc_tokens c)"
  shows "process_mint E owner w txid vout (beside R c, h)
    = lift_res (beside R) (process_mint E owner w txid vout (c, h))"
proof (cases "tc_tokens c (tick_key E (mw_tick w))")
  case None
  then show ?thesis using T by (simp add: process_mint_def beside_simps)
next
  case (Some m)
  then have "lr_accounts R \<lparr> at_address = owner, at_token = dp_tick (tm_proto m) \<rparr> = None"
    using tokens_okD(1) [OF tok Some] by (intro apartD [OF U]) simp
  with Some T show ?thesis
    by (cases c) (simp add: process_mint_def Let_def beside_simps)
qed

lemma transfer_beside:
  assumes T: "lr_tokens R (tick_key E (mw_tick w)) = None"
    and U: "apart E R owner (tick_key E (mw_tick w))" and tok: "tokens_ok E (tc_tokens c)"
  shows "process_transfer E loc owner w txid vout (beside R c, h)
    = lift_res (beside R) (process_transfer E loc owner w txid vout (c, h))"
proof (cases "tc_tokens c (tick_key E (mw_tick w))")
  case None
  then show ?thesis using T by (simp add: process_transfer_def beside_simps split: option.splits)
next
  case (Some m)
  then have "lr_accounts R \<lparr> at_address = owner, at_token = dp_tick (tm_proto m) \<rparr> = None"
    using tokens_okD(1) [OF tok Some] by (intro apartD [OF U]) simp
  with Some T show ?thesis
    by (cases c) (simp add: process_transfer_def Let_def beside_simps split: option.split)
qed

lemma transferred_beside:
  assumes V: "lr_valid R loc = None"
    and T: "\<And>s t. tc_valid c loc = Some (s, t) \<Longrightarrow> lr_tokens R (tick_key E (tp_tick t)) = None
      \<and> apart E R s (tick_key E (tp_tick t))
      \<and> (rcpt \<noteq> e_op_return E \<longrightarrow> apart E R rcpt (tick_key E (tp_tick t)))"
    and tok: "tokens_ok E (tc_tokens c)"
  shows "process_transferred E loc rcpt txid vout (beside R c, h)
    = lift_res (beside R) (process_transferred E loc rcpt txid vout (c, h))"
proof (cases "tc_valid c loc")
  case None
  then show ?thesis using V by (simp add: process_transferred_def beside_simps)
next
  case (Some v)
  obtain s t where v: "v = (s, t)" by (cases v)
  note T = T [OF Some [unfolded v]]
  show ?thesis
  proof (cases "tc_tokens c (tick_key E (tp_tick t))")
    case None
    then show ?thesis using Some v V T by (simp add: process_transferred_def Let_def beside_simps)
  next
    case m: (Some m)
    have S: "lr_accounts R \<lparr> at_address = s, at_token = dp_tick (tm_proto m) \<rparr> = None"
      and U: "rcpt \<noteq> e_op_return E \<Longrightarrow>
        lr_accounts R \<lparr> at_address = rcpt, at_token = dp_tick (tm_proto m) \<rparr> = None"
      using T tokens_okD(1) [OF tok m, symmetric]
      by (blast intro: apartD [of E R _ "tick_key E (tp_tick t)"])+
    show ?thesis
      using Some v V T m S U
      by (cases c; cases "rcpt = e_op_return E")
        (simp_all add: process_transferred_def Let_def beside_simps flip: map_add_upd split: option.split)
  qed
qed

lemma step_beside:
  assumes "apart_ok E R (a # as) c"
  shows "process_token_action E a (beside R c, h)
    = lift_res (beside R) (process_token_action E a (c, h))"
  using assms unfolding apart_ok_def
  by (cases a) (auto intro: deploy_beside mint_beside transfer_beside transferred_beside)

text \<open>What a step does to the two transfer maps.\<close>

lemma step_all:
  assumes "process_token_action E a (c, h) = Inr ((c', h'), evs)" and "tc_all c' l = Some d"
  shows "tc_all c l = Some d"
proof (cases a)
  case (TaDeploy g p owner)
  with assms show ?thesis by (auto elim!: deploy_cases)
next
  case (TaMint owner w txid vout)
  with assms show ?thesis by (auto elim!: mint_cases)
next
  case (TaTransfer loc owner w txid vout)
  with assms show ?thesis by (auto elim!: transfer_cases split: if_splits)
next
  case (TaTransferred loc rcpt txid vout)
  with assms show ?thesis by (auto elim!: transferred_cases)
qed

lemma step_valid:
  assumes "tokens_ok E (tc_tokens c)"
    and "process_token_action E a (c, h) = Inr ((c', h'), evs)" and "tc_valid c' l = Some (s, t)"
  shows "tc_valid c l = Some (s, t) \<or> (\<exists>w txid vout d. a = TaTransfer l s w txid vout
    \<and> tc_all c l = Some d \<and> tick_key E (tp_tick t) = tick_key E (mw_tick w))"
proof (cases a)
  case (TaDeploy g p owner)
  with assms show ?thesis by (auto elim!: deploy_cases)
next
  case (TaMint owner w txid vout)
  with assms show ?thesis by (auto elim!: mint_cases)
next
  case (TaTransfer loc owner w txid vout)
  with assms(2) have "process_transfer E loc owner w txid vout (c, h) = Inr ((c', h'), evs)" by simp
  then show ?thesis
  proof (cases rule: transfer_cases)
    case skip
    with assms(3) show ?thesis by auto
  next
    case (transfer m p key a' data)
    with assms(3) TaTransfer tokens_okD(1) [OF assms(1) transfer(2)] show ?thesis
      by (auto split: if_splits)
  qed
next
  case (TaTransferred loc rcpt txid vout)
  with assms(2) have "process_transferred E loc rcpt txid vout (c, h) = Inr ((c', h'), evs)" by simp
  then show ?thesis
    by (cases rule: transferred_cases) (use assms(3) in \<open>auto split: if_splits\<close>)
qed

lemma step_apart:
  assumes ok: "apart_ok E R (a # as) c"
    and step: "process_token_action E a (c, h) = Inr ((c', h'), evs)"
  shows "apart_ok E R as c'"
proof -
  have tok: "tokens_ok E (tc_tokens c)" and a: "action_apart E R c a" "deploy_ok E a"
    and all: "\<And>b. b \<in> set as \<Longrightarrow> action_apart E R c b \<and> deploy_ok E b"
    using ok by (auto simp: apart_ok_def)
  have "action_apart E R c' b" if b: "b \<in> set as" for b
  proof (cases b)
    case (TaTransferred l rcpt txid vout)
    note B = all [OF b, unfolded TaTransferred, simplified]
    have "lr_tokens R (tick_key E (tp_tick t)) = None \<and> apart E R s (tick_key E (tp_tick t))
        \<and> (rcpt \<noteq> e_op_return E \<longrightarrow> apart E R rcpt (tick_key E (tp_tick t)))"
      if v: "tc_valid c' l = Some (s, t)" for s t
      using step_valid [OF tok step v] B a(1) by auto
    with B step_all [OF step] show ?thesis unfolding TaTransferred by auto
  qed (use all [OF b] step_all [OF step] in auto)
  with all step_supply(1) [OF tok a(2) step] show ?thesis by (simp add: apart_ok_def)
qed

lemma run_beside:
  "apart_ok E R as c \<Longrightarrow> run (process_token_action E) as (beside R c, h)
    = lift_res (beside R) (run (process_token_action E) as (c, h))"
proof (induction as arbitrary: c h)
  case Nil
  then show ?case by simp
next
  case (Cons a as)
  show ?case
  proof (cases "process_token_action E a (c, h)")
    case (Inl e)
    then show ?thesis by (simp add: step_beside [OF Cons.prems])
  next
    case (Inr r)
    then obtain c1 h1 evs where r: "process_token_action E a (c, h) = Inr ((c1, h1), evs)"
      by (cases r) auto
    from Cons.IH [OF step_apart [OF Cons.prems r]] show ?thesis
      by (simp add: step_beside [OF Cons.prems] r split: sum.split prod.split)
  qed
qed

section \<open>The cache a block loads\<close>

text \<open>The transfer table and the transfers as a map from locations.\<close>

definition transfers_rel ::
  "(address_location \<rightharpoonup> transfer_proto_db) \<Rightarrow> (location \<rightharpoonup> hash32 \<times> transfer_proto_db) \<Rightarrow> bool" where
  "transfers_rel tbl V \<longleftrightarrow>
     (\<forall>a loc t. tbl \<lparr> al_address = a, al_location = loc \<rparr> = Some t \<longleftrightarrow> V loc = Some (a, t))"

text \<open>The owner of a transfer is the script hash of the output it sits on.\<close>

definition owners_ok ::
  "(location \<rightharpoonup> hash32 \<times> transfer_proto_db) \<Rightarrow> (outpoint \<rightharpoonup> tx_prevout) \<Rightarrow> bool" where
  "owners_ok V prevouts \<longleftrightarrow> (\<forall>loc a t p. V loc = Some (a, t) \<and> prevouts (loc_outpoint loc) = Some p
     \<longrightarrow> pv_script_hash p = a)"

lemma load_transfers_restrict:
  assumes "transfers_rel tbl V" and "owners_ok V prevouts"
  shows "load_transfers tbl prevouts = V |` {loc. prevouts (loc_outpoint loc) \<noteq> None}"
proof
  fix loc
  show "load_transfers tbl prevouts loc = (V |` {loc. prevouts (loc_outpoint loc) \<noteq> None}) loc"
  proof (cases "prevouts (loc_outpoint loc)")
    case None
    then show ?thesis by (simp add: load_transfers_def)
  next
    case (Some p)
    show ?thesis
    proof (cases "V loc")
      case None
      with assms(1) have "tbl \<lparr> al_address = pv_script_hash p, al_location = loc \<rparr> = None"
        unfolding transfers_rel_def by (metis not_Some_eq)
      with None Some show ?thesis by (simp add: load_transfers_def)
    next
      case v: (Some v)
      obtain a t where "v = (a, t)" by (cases v)
      with v assms Some have "pv_script_hash p = a"
        and "tbl \<lparr> al_address = a, al_location = loc \<rparr> = Some t"
        unfolding owners_ok_def transfers_rel_def by blast+
      with v Some \<open>v = (a, t)\<close> show ?thesis by (simp add: load_transfers_def)
    qed
  qed
qed

text \<open>What holds of a cache whose actions were collected from one block.\<close>

definition collected_ok :: "env \<Rightarrow> token_cache \<Rightarrow> bool" where
  "collected_ok E c \<longleftrightarrow> distinct (transfer_locs (tc_actions c))
     \<and> (\<forall>a\<in>set (tc_actions c). action_ok E c a)
     \<and> (\<forall>loc v. tc_valid c loc = Some v \<longrightarrow> tc_all c loc = Some (snd v))"

definition whole_ledger ::
  "(lower_tick \<rightharpoonup> token_meta) \<Rightarrow> (address_token \<rightharpoonup> token_balance) \<Rightarrow>
     (location \<rightharpoonup> hash32 \<times> transfer_proto_db) \<Rightarrow> token_cache \<Rightarrow> token_cache" where
  "whole_ledger metas balances V c =
     c\<lparr> tc_tokens := metas, tc_accounts := balances, tc_valid := V \<rparr>"

definition rest_of ::
  "(lower_tick \<rightharpoonup> token_meta) \<Rightarrow> (address_token \<rightharpoonup> token_balance) \<Rightarrow>
     (location \<rightharpoonup> hash32 \<times> transfer_proto_db) \<Rightarrow> token_cache \<Rightarrow> ledger_rest" where
  "rest_of metas balances V c = \<lparr> lr_tokens = metas |` (- dom (tc_tokens c)),
     lr_accounts = balances |` (- dom (tc_accounts c)), lr_valid = V |` (- dom (tc_valid c)) \<rparr>"

text \<open>Every transfer the block moves was loaded, and none it creates exists yet.\<close>

definition moves_loaded ::
  "(location \<rightharpoonup> hash32 \<times> transfer_proto_db) \<Rightarrow> token_cache \<Rightarrow> bool" where
  "moves_loaded V c \<longleftrightarrow>
     (\<forall>loc rcpt txid vout. TaTransferred loc rcpt txid vout \<in> set (tc_actions c)
        \<longrightarrow> tc_valid c loc = V loc \<or> V loc = None)
     \<and> (\<forall>loc \<in> set (transfer_locs (tc_actions c)). V loc = None)
     \<and> tc_valid c \<subseteq>\<^sub>m V"

lemma map_add_rest: "m \<subseteq>\<^sub>m n \<Longrightarrow> n |` (- dom m) ++ m = n"
  by (auto simp: map_le_def map_add_def restrict_map_def fun_eq_iff split: option.splits)

lemma map_add_grown: "dom m1 \<subseteq> dom m2 \<Longrightarrow> m |` (- dom m1) ++ m2 = m ++ m2"
  by (force simp: map_add_def restrict_map_def fun_eq_iff split: option.splits)

lemma load_tokens_data_maps:
  "tc_tokens (load_tokens_data E metas balances c) \<subseteq>\<^sub>m metas"
  "tc_accounts (load_tokens_data E metas balances c) \<subseteq>\<^sub>m balances"
  "tc_valid (load_tokens_data E metas balances c) = tc_valid c"
  "tc_all (load_tokens_data E metas balances c) = tc_all c"
  "tc_actions (load_tokens_data E metas balances c) = tc_actions c"
  by (auto simp: load_tokens_data_def Let_def map_of_tbl_found map_le_def split: prod.splits if_splits)

lemma beside_rest_of:
  assumes "tc_tokens c \<subseteq>\<^sub>m metas" "tc_accounts c \<subseteq>\<^sub>m balances" "tc_valid c \<subseteq>\<^sub>m V"
  shows "beside (rest_of metas balances V c) c = whole_ledger metas balances V c"
  using assms by (simp add: beside_def rest_of_def whole_ledger_def map_add_rest)

lemma loaded_tokens:
  assumes "lt \<in> set (fst (fill_tickers_and_users E c))"
  shows "tc_tokens (load_tokens_data E metas balances c) lt = metas lt"
  using assms
  by (cases "fill_tickers_and_users E c") (simp add: load_tokens_data_def Let_def map_of_tbl_found)

lemma loaded_accounts:
  assumes "(a, tick) \<in> set (snd (fill_tickers_and_users E c))"
    and "tick_key E tick \<in> set (fst (fill_tickers_and_users E c))"
    and "metas (tick_key E tick) = Some m"
  shows "tc_accounts (load_tokens_data E metas balances c)
      \<lparr> at_address = a, at_token = dp_tick (tm_proto m) \<rparr>
    = balances \<lparr> at_address = a, at_token = dp_tick (tm_proto m) \<rparr>"
proof -
  obtain tickers users where f: "fill_tickers_and_users E c = (tickers, users)" by fastforce
  let ?tokens = "map_of (tbl_found metas tickers)"
  let ?g = "\<lambda>(address, tick). map_option (\<lambda>m. \<lparr> at_address = address, at_token = dp_tick (tm_proto m) \<rparr>)
      (?tokens (tick_key E tick))"
  have "?g (a, tick) = Some \<lparr> at_address = a, at_token = dp_tick (tm_proto m) \<rparr>"
    using assms f by (simp add: map_of_tbl_found)
  then have "\<lparr> at_address = a, at_token = dp_tick (tm_proto m) \<rparr> \<in> set (List.map_filter ?g users)"
    using assms(1) f by (force simp: List.map_filter_def)
  then show ?thesis
    by (simp add: load_tokens_data_def f map_of_tbl_found)
qed

lemma fill_mem:
  assumes "b \<in> set (tc_actions c)"
  shows "set (fst (fill_action E c b)) \<subseteq> set (fst (fill_tickers_and_users E c))"
    and "set (snd (fill_action E c b)) \<subseteq> set (snd (fill_tickers_and_users E c))"
  using assms by (auto simp: fill_tickers_and_users_def)

lemma loaded_apart:
  assumes acc: "accounts_ok E metas balances"
    and user: "(a, tick) \<in> set (snd (fill_tickers_and_users E c))"
    and tick: "tick_key E tick \<in> set (fst (fill_tickers_and_users E c))"
  shows "apart E (rest_of metas balances V (load_tokens_data E metas balances c)) a (tick_key E tick)"
  unfolding apart_def
proof (intro allI impI)
  fix k :: address_token assume k: "at_address k = a \<and> tick_key E (at_token k) = tick_key E tick"
  show "lr_accounts (rest_of metas balances V (load_tokens_data E metas balances c)) k = None"
  proof (cases "balances k")
    case None
    then show ?thesis by (simp add: rest_of_def restrict_map_def)
  next
    case (Some b)
    then have "deployed E metas (at_token k)" using acc by (simp add: accounts_ok_def)
    then obtain m where m: "metas (tick_key E tick) = Some m" "dp_tick (tm_proto m) = at_token k"
      using k by (auto simp: deployed_def split: option.splits)
    have "k = \<lparr> at_address = a, at_token = dp_tick (tm_proto m) \<rparr>"
      using k m(2) by (cases k) simp
    then have "tc_accounts (load_tokens_data E metas balances c) k = balances k"
      using loaded_accounts [where metas = metas, OF user tick m(1), of balances] by simp
    with Some show ?thesis by (auto simp: rest_of_def restrict_map_def)
  qed
qed

theorem load_apart:
  assumes tok: "tokens_ok E metas" and acc: "accounts_ok E metas balances"
    and col: "collected_ok E c" and mov: "moves_loaded V c"
  shows "apart_ok E (rest_of metas balances V (load_tokens_data E metas balances c)) (tc_actions c)
    (load_tokens_data E metas balances c)"
proof -
  let ?c = "load_tokens_data E metas balances c"
  let ?R = "rest_of metas balances V ?c"
  have T: "lr_tokens ?R lt = None" if "lt \<in> set (fst (fill_action E c b))" "b \<in> set (tc_actions c)" for lt b
    using loaded_tokens [of lt E c metas balances] fill_mem(1) [OF that(2), of E] that(1)
    by (auto simp: rest_of_def restrict_map_def domIff)
  have U: "apart E ?R a (tick_key E tick)"
    if "(a, tick) \<in> set (snd (fill_action E c b))" "tick_key E tick \<in> set (fst (fill_action E c b))"
      "b \<in> set (tc_actions c)" for a tick b
    using loaded_apart [OF acc] fill_mem [OF that(3)] that(1,2) by blast
  have V: "lr_valid ?R loc = None" if "tc_valid c loc = V loc \<or> V loc = None" for loc
    using that by (cases "V loc") (auto simp: rest_of_def restrict_map_def load_tokens_data_maps)
  have "action_apart E ?R ?c b \<and> deploy_ok E b" if b: "b \<in> set (tc_actions c)" for b
  proof -
    have ok: "action_ok E c b" using col b by (simp add: collected_ok_def)
    show ?thesis
    proof (cases b)
      case (TaDeploy g p owner)
      with T [OF _ b] ok show ?thesis by simp
    next
      case (TaMint owner w txid vout)
      with T [OF _ b] U [OF _ _ b] show ?thesis by simp
    next
      case (TaTransfer loc owner w txid vout)
      have "V loc = None"
        using mov b TaTransfer transfer_locs_mem [of loc owner w txid vout "tc_actions c"]
        by (auto simp: moves_loaded_def)
      with T [OF _ b] U [OF _ _ b] ok V [of loc] TaTransfer show ?thesis
        by (auto simp: load_tokens_data_maps)
    next
      case (TaTransferred loc rcpt txid vout)
      have "lr_valid ?R loc = None" using mov b unfolding TaTransferred moves_loaded_def by (intro V) metis
      moreover have "tc_all c loc = Some t" if "tc_valid c loc = Some (s, t)" for s t
        using col that by (fastforce simp: collected_ok_def)
      ultimately show ?thesis
        using T [OF _ b] U [OF _ _ b] TaTransferred
        by (auto simp: load_tokens_data_maps split: if_splits)
    qed
  qed
  moreover have "tokens_ok E (tc_tokens ?c)"
    using tok load_tokens_data_maps(1) [of E metas balances c]
    unfolding tokens_ok_def map_le_def by (metis domI)
  ultimately show ?thesis by (simp add: apart_ok_def)
qed

text \<open>Execution on the loaded cache is execution on the whole ledger.\<close>

theorem process_loaded:
  assumes "tokens_ok E metas" and "accounts_ok E metas balances"
    and "collected_ok E c" and "moves_loaded V c"
  shows "process_token_actions E (whole_ledger metas balances V c, h)
    = lift_res (beside (rest_of metas balances V (load_tokens_data E metas balances c)))
        (process_token_actions E (load_tokens_data E metas balances c, h))"
proof -
  let ?c = "load_tokens_data E metas balances c"
  let ?R = "rest_of metas balances V ?c"
  have "beside ?R ?c = whole_ledger metas balances V ?c"
    using assms(4) by (intro beside_rest_of) (simp_all add: load_tokens_data_maps moves_loaded_def)
  moreover have "whole_ledger metas balances V ?c = whole_ledger metas balances V c"
    by (simp add: whole_ledger_def load_tokens_data_def Let_def split: prod.split)
  ultimately have w: "whole_ledger metas balances V c = beside ?R ?c" by simp
  have e: "(beside ?R ?c)\<lparr> tc_actions := [] \<rparr> = beside ?R (?c\<lparr> tc_actions := [] \<rparr>)"
    "tc_actions (beside ?R ?c) = tc_actions ?c"
    by (simp_all add: beside_def)
  have "apart_ok E ?R (tc_actions c) (?c\<lparr> tc_actions := [] \<rparr>)"
  proof -
    have "action_apart E ?R (?c\<lparr> tc_actions := [] \<rparr>) a \<longleftrightarrow> action_apart E ?R ?c a" for a
      by (cases a) auto
    with load_apart [OF assms] show ?thesis by (simp add: apart_ok_def)
  qed
  from run_beside [OF this, of h] show ?thesis
    by (simp add: process_token_actions_def w e load_tokens_data_maps)
qed

text \<open>Tokens and accounts are never dropped.\<close>

lemma step_grows:
  assumes "process_token_action E a (c, h) = Inr ((c', h'), evs)"
  shows "dom (tc_tokens c) \<subseteq> dom (tc_tokens c') \<and> dom (tc_accounts c) \<subseteq> dom (tc_accounts c')"
proof (cases a)
  case (TaDeploy g p owner)
  with assms show ?thesis by (auto elim!: deploy_cases)
next
  case (TaMint owner w txid vout)
  with assms show ?thesis by (auto elim!: mint_cases)
next
  case (TaTransfer loc owner w txid vout)
  with assms show ?thesis by (auto elim!: transfer_cases)
next
  case (TaTransferred loc rcpt txid vout)
  with assms have "process_transferred E loc rcpt txid vout (c, h) = Inr ((c', h'), evs)" by simp
  then show ?thesis by (cases rule: transferred_cases) auto
qed

lemma run_grows:
  "run (process_token_action E) as (c, h) = Inr ((c', h'), evs) \<Longrightarrow>
    dom (tc_tokens c) \<subseteq> dom (tc_tokens c') \<and> dom (tc_accounts c) \<subseteq> dom (tc_accounts c')"
proof (induction as arbitrary: c h evs)
  case Nil
  then show ?case by simp
next
  case (Cons a as)
  then obtain c1 h1 o1 o2 where "process_token_action E a (c, h) = Inr ((c1, h1), o1)"
    "run (process_token_action E) as (c1, h1) = Inr ((c', h'), o2)"
    by (auto split: sum.splits prod.splits)
  with Cons.IH step_grows show ?case by (meson order_trans)
qed

text \<open>Writing the cache back into the tables gives the ledger execution on the whole would give.\<close>

theorem process_written_back:
  assumes "tokens_ok E metas" and "accounts_ok E metas balances"
    and "collected_ok E c" and "moves_loaded V c"
  shows "process_token_actions E (whole_ledger metas balances V c, h)
    = (case process_token_actions E (load_tokens_data E metas balances c, h) of
         Inl e \<Rightarrow> Inl e
       | Inr ((c', h'), evs) \<Rightarrow>
           Inr ((whole_ledger (metas ++ tc_tokens c') (balances ++ tc_accounts c')
                  (V |` (- dom (tc_valid c)) ++ tc_valid c') c', h'), evs))"
proof (cases "process_token_actions E (load_tokens_data E metas balances c, h)")
  case (Inl e)
  then show ?thesis by (simp add: process_loaded [OF assms])
next
  case (Inr r)
  obtain c' h' evs where r: "r = ((c', h'), evs)" by (cases r) auto
  let ?l = "load_tokens_data E metas balances c"
  have grow: "dom (tc_tokens ?l) \<subseteq> dom (tc_tokens c')" "dom (tc_accounts ?l) \<subseteq> dom (tc_accounts c')"
    using run_grows [of E "tc_actions ?l" "?l\<lparr> tc_actions := [] \<rparr>" h c' h' evs] Inr r
    by (simp_all add: process_token_actions_def)
  then have "beside (rest_of metas balances V ?l) c' = whole_ledger (metas ++ tc_tokens c')
      (balances ++ tc_accounts c') (V |` (- dom (tc_valid c)) ++ tc_valid c') c'"
    by (simp add: beside_def rest_of_def whole_ledger_def load_tokens_data_maps
        map_add_grown [OF grow(1)] map_add_grown [OF grow(2)])
  with Inr r show ?thesis by (simp add: process_loaded [OF assms])
qed

end
