(* ===== verification/TokenCollect.thy ===== *)
theory TokenCollect
  imports TokenSim
begin

text \<open>
  Collecting the actions of a block: loading the transfers of the spent outputs gives a cache with
  \<open>collected_ok\<close>, and every call the parser makes keeps it, as long as a transfer inscription is
  created at a location of its own.  Where two are created at one location the books of the sender
  no longer cover the transfer, and spending it panics.
\<close>

section \<open>Collecting keeps the cache consistent\<close>

lemma collected_ok_load: "collected_ok E (token_cache_load prevouts tbl)"
  by (simp add: collected_ok_def token_cache_load_def token_cache_empty_def Let_def)

lemma collected_ok_push:
  assumes "collected_ok E c" and "transfer_locs [a] = []" and "action_ok E c a"
  shows "collected_ok E (push_action a c)"
proof -
  have "action_ok E (push_action a c) b \<longleftrightarrow> action_ok E c b" for b
    by (cases b) (simp_all add: push_action_def)
  with assms show ?thesis
    by (simp add: collected_ok_def push_action_def [of a c])
qed

lemma collected_ok_transferred: "collected_ok E c \<Longrightarrow> collected_ok E (transferred loc rcpt txid vout c)"
  by (simp add: transferred_def collected_ok_push)

lemma collected_ok_burned: "collected_ok E c \<Longrightarrow> collected_ok E (burned_transfer E loc txid vout c)"
  by (simp add: burned_transfer_def collected_ok_push)

lemma collected_ok_transfer:
  assumes c: "collected_ok E c" and w: "0 < mw_amt w" "tp_amt t = mw_amt w" "tp_tick t = mw_tick w"
    and new: "loc \<notin> set (transfer_locs (tc_actions c))" "tc_valid c loc = None"
    and c1: "c1 = push_action (TaTransfer loc owner w txid vout) c"
  shows "collected_ok E (c1\<lparr> tc_all := (tc_all c1)(loc \<mapsto> t) \<rparr>)"
proof -
  let ?c = "c1\<lparr> tc_all := (tc_all c1)(loc \<mapsto> t) \<rparr>"
  have "action_ok E ?c b" if b: "b \<in> set (tc_actions c)" for b
  proof -
    have ok: "action_ok E c b" using c b by (simp add: collected_ok_def)
    show ?thesis
    proof (cases b)
      case (TaTransfer l o' w' x y)
      then have "l \<noteq> loc" using b new(1) transfer_locs_mem by blast
      with ok TaTransfer c1 show ?thesis by (simp add: push_action_def)
    qed (use ok in simp_all)
  qed
  moreover have "action_ok E ?c (TaTransfer loc owner w txid vout)"
    using w new c1 by (simp add: push_action_def)
  ultimately show ?thesis
    using c new c1 by (auto simp: collected_ok_def push_action_def)
qed

text \<open>The amounts a message carries are values of \<open>Fixed128\<close>.\<close>

definition fixed_json :: "env \<Rightarrow> json_ops \<Rightarrow> bool" where
  "fixed_json E J \<longleftrightarrow> (\<forall>data p v. js_brc4 J data = Inr (Brc4Deploy p) \<and> deploy_value (e_chain E) p = Some v
     \<longrightarrow> dw_max v \<le> fx_cap (e_fx E))"

lemma transfer_from_value:
  "transfer_value b p = Some w \<Longrightarrow>
    transfer_from_proto b p h = Some \<lparr> tp_tick = mw_tick w, tp_amt = mw_amt w, tp_height = h \<rparr>"
  by (simp add: transfer_from_proto_def)

text \<open>What one inscription does to the cache: nothing, an action that concerns no location, or a
  transfer at its own location.\<close>

lemma parse_token_cases:
  assumes J: "fixed_json E J"
  obtains (same) "fst (parse_token_action E J inc height created c) = c"
  | (push) a where "fst (parse_token_action E J inc height created c) = push_action a c"
      "transfer_locs [a] = []" "action_ok E c a" "\<And>loc r x v. a \<noteq> TaTransferred loc r x v"
  | (transfer) w t where "fst (parse_token_action E J inc height created c)
      = (push_action (TaTransfer (it_location inc) (it_owner inc) w (op_txid (loc_outpoint (it_location inc)))
           (op_vout (loc_outpoint (it_location inc)))) c)\<lparr> tc_all := (tc_all c)(it_location inc \<mapsto> t) \<rparr>"
      "0 < mw_amt w" "tp_amt t = mw_amt w" "tp_tick t = mw_tick w" "it_owner inc \<noteq> e_op_return E"
proof -
  consider (skip) "fst (parse_token_action E J inc height created c) = c"
    | (parsed) ct content m where "it_content_type inc = Some ct" "it_content inc = Some content"
      "it_owner inc \<noteq> e_op_return E" "\<not> it_leaked inc" "try_parse (e_chain E) J ct content = Inr m"
    by (cases "it_owner inc = e_op_return E \<or> it_leaked inc"; cases "it_content_type inc";
        cases "it_content inc"; cases "try_parse (e_chain E) J (the (it_content_type inc)) (the (it_content inc))")
      (auto simp: parse_token_action_def Let_def)
  then show ?thesis
  proof cases
    case skip
    then show ?thesis by (rule same)
  next
    case parsed
    have acc: "brc4_acceptable (e_chain E) m" using parsed(5) by (rule try_parse_acceptable)
    obtain data where js: "js_brc4 J data = Inr m"
      using parsed(5) by (auto simp: try_parse_def split: if_splits option.splits sum.splits)
    show ?thesis
    proof (cases m)
      case (Brc4Mint p)
      with acc obtain v where v: "mint_value (e_chain E) p = Some v" "0 < mw_amt v"
        by (auto simp: brc4_acceptable_def split: option.splits)
      with parsed Brc4Mint show ?thesis
        by (intro push [of "TaMint (it_owner inc) v (op_txid (loc_outpoint (it_location inc)))
              (op_vout (loc_outpoint (it_location inc)))"]) (auto simp: parse_token_action_def Let_def)
    next
      case (Brc4Deploy p)
      then obtain v where v: "deploy_value (e_chain E) p = Some v"
        using acc by (auto simp: brc4_acceptable_def split: option.splits)
      then have "dw_max v \<le> fx_cap (e_fx E)" using J js Brc4Deploy unfolding fixed_json_def by blast
      with parsed Brc4Deploy v show ?thesis
        by (auto simp: parse_token_action_def Let_def intro!: push)
    next
      case (Brc4Transfer p)
      then obtain w where w: "transfer_value (e_chain E) p = Some w" "0 < mw_amt w"
        using acc by (auto simp: brc4_acceptable_def split: option.splits)
      with parsed Brc4Transfer show ?thesis
        by (intro transfer [where w = w and t = "\<lparr> tp_tick = mw_tick w, tp_amt = mw_amt w, tp_height = height \<rparr>"])
          (auto simp: parse_token_action_def Let_def transfer_from_value push_action_def)
    qed
  qed
qed

lemma collected_ok_parse:
  assumes c: "collected_ok E c" and J: "fixed_json E J"
    and new: "it_location inc \<notin> set (transfer_locs (tc_actions c))" "tc_valid c (it_location inc) = None"
  shows "collected_ok E (fst (parse_token_action E J inc height created c))"
  using J
proof (cases rule: parse_token_cases [where inc = inc and height = height and created = created
      and c = c, consumes 1, case_names same push transfer])
  case same
  with c show ?thesis by simp
next
  case (push a)
  with c show ?thesis by (simp add: collected_ok_push)
next
  case (transfer w t)
  show ?thesis
    unfolding transfer(1) using collected_ok_transfer [OF c transfer(2-4) new refl]
    by (simp add: push_action_def)
qed

section \<open>Executing what was collected\<close>

lemma collected_block_safe:
  assumes inv: "ledger_ok E (whole_ledger metas balances V c, h)"
    and col: "collected_ok E c" and mov: "moves_loaded V c"
    and room: "card (dom V) + length (transfer_locs (tc_actions c)) < 2 ^ 64"
  shows "\<exists>c' h' evs. process_token_actions E (load_tokens_data E metas balances c, h) = Inr ((c', h'), evs)
    \<and> ledger_ok E (whole_ledger (metas ++ tc_tokens c') (balances ++ tc_accounts c')
        (V |` (- dom (tc_valid c)) ++ tc_valid c') c', h')"
proof -
  let ?w = "whole_ledger metas balances V c" and ?l = "load_tokens_data E metas balances c"
  have "action_ok E ?w a" if "a \<in> set (tc_actions c)" for a
    using col mov that by (cases a) (auto simp: collected_ok_def moves_loaded_def whole_ledger_def
        dest: transfer_locs_mem split: option.splits)
  then have "pending_ok E (tc_actions ?w) (?w, h)"
    using col room by (simp add: pending_ok_def collected_ok_def whole_ledger_def)
  then obtain f h' evs where f: "process_token_actions E (?w, h) = Inr ((f, h'), evs)" "ledger_ok E (f, h')"
    using ledger.run_safe [of E "(?w\<lparr> tc_actions := [] \<rparr>, h)" "tc_actions ?w"] inv
    by (auto simp: process_token_actions_def)
  moreover have "tokens_ok E metas" "accounts_ok E metas balances"
    using ledger_okD(3,4) [OF inv] by (simp_all add: whole_ledger_def)
  ultimately show ?thesis
    using process_written_back [OF _ _ col mov, of metas balances h]
    by (auto split: sum.splits prod.splits)
qed

section \<open>Two transfers at one location\<close>

text \<open>The sender has ten units and inscribes transfers of one and of two at the same location, as
  two envelopes of one script do.  \<open>all_transfers\<close> keeps the second, the account sets one unit
  aside, and the spend finds less than two.\<close>

definition example_fx :: fixed_ops where
  "example_fx = \<lparr> fx_cap = 1000, fx_scale = (\<lambda>_. 0), fx_from_str = (\<lambda>_. Inl ''''),
     fx_from_u64 = unat \<rparr>"

definition example_env :: env where
  "example_env = \<lparr> e_chain = Wojakcoin, e_op_return = replicate 32 255, e_lower = ascii_lower,
     e_fx = example_fx \<rparr>"

definition example_tick :: tick where
  "example_tick = [119, 111, 106, 97, 107, 0, 0, 0]"

definition example_owner :: hash32 where
  "example_owner = replicate 32 7"

definition example_meta :: token_meta where
  "example_meta = \<lparr> tm_genesis = \<lparr> iid_txid = replicate 32 1, iid_index = 0 \<rparr>,
     tm_proto = \<lparr> dp_tick = example_tick, dp_max = 100, dp_lim = 10, dp_dec = 18, dp_supply = 10,
       dp_transfer_count = 0, dp_mint_count = 1, dp_height = 1, dp_created = 0,
       dp_deployer = example_owner, dp_transactions = 2 \<rparr> \<rparr>"

definition example_loc :: location where
  "example_loc = \<lparr> loc_outpoint = \<lparr> op_txid = replicate 32 2, op_vout = 0 \<rparr>, loc_offset = 0 \<rparr>"

definition example_key :: address_token where
  "example_key = \<lparr> at_address = example_owner, at_token = example_tick \<rparr>"

definition example_balance :: token_balance where
  "example_balance = \<lparr> tb_balance = 10, tb_transferable_balance = 0, tb_transfers_count = 0 \<rparr>"

definition example_transfer :: "fixed128 \<Rightarrow> token_action" where
  "example_transfer amt = TaTransfer example_loc example_owner
     \<lparr> mw_tick = example_tick, mw_amt = amt \<rparr> (replicate 32 2) 0"

definition example_holders :: holders where
  "example_holders = \<lparr> ho_balances = [example_tick \<mapsto> {(10, example_owner)}],
     ho_stats = [example_tick \<mapsto> 1] \<rparr>"

definition example_cache :: "token_action list \<Rightarrow> fixed128 \<Rightarrow> token_cache" where
  "example_cache as amt = \<lparr> tc_tokens = [ascii_lower (trim_tick_bytes example_tick) \<mapsto> example_meta],
     tc_accounts = [example_key \<mapsto> example_balance], tc_actions = as,
     tc_all = [example_loc \<mapsto> \<lparr> tp_tick = example_tick, tp_amt = amt, tp_height = 5 \<rparr>],
     tc_valid = Map.empty \<rparr>"

definition example_spend :: token_action where
  "example_spend = TaTransferred example_loc (replicate 32 9) (replicate 32 3) 0"

definition outcome :: "exec_result \<Rightarrow> history_token_action list res" where
  "outcome r = (case r of Inl e \<Rightarrow> Inl e | Inr (s, evs) \<Rightarrow> Inr evs)"

lemma outcome_Inl: "outcome r = Inl e \<longleftrightarrow> r = Inl e"
  by (auto simp: outcome_def split: sum.splits prod.splits)

lemma example_spend_once:
  "outcome (process_token_actions example_env
     (example_cache [example_transfer 2, example_spend] 2, example_holders))
   = Inr [HDeployTransfer example_tick 2 example_owner (replicate 32 2) 0,
          HSend example_tick 2 (replicate 32 9) example_owner (replicate 32 3) 0]"
  by code_simp

lemma example_spend_twice:
  "outcome (process_token_actions example_env
     (example_cache [example_transfer 1, example_transfer 2, example_spend] 2, example_holders))
   = Inl InvalidTransferSenderBalance"
  by code_simp

end
