(* ===== verification/TokenProps.thy ===== *)
theory TokenProps
  imports TokenCollect
begin

text \<open>
  The properties of the token ledger, and a small block on an empty ledger that witnesses their
  hypotheses: a deploy, a mint, a transfer inscription and its spend.
\<close>

section \<open>Witness data\<close>

definition example_deploy :: token_action where
  "example_deploy = TaDeploy \<lparr> iid_txid = replicate 32 1, iid_index = 0 \<rparr>
     ((tm_proto example_meta)\<lparr> dp_supply := 0, dp_mint_count := 0, dp_transactions := 1 \<rparr>) example_owner"

definition example_mint :: token_action where
  "example_mint = TaMint example_owner \<lparr> mw_tick = example_tick, mw_amt = 10 \<rparr> (replicate 32 4) 0"

definition example_block :: "token_action list" where
  "example_block = [example_deploy, example_mint, example_transfer 4, example_spend]"

definition example_collected :: token_cache where
  "example_collected = token_cache_empty\<lparr> tc_actions := example_block,
     tc_all := [example_loc \<mapsto> \<lparr> tp_tick = example_tick, tp_amt = 4, tp_height = 5 \<rparr>] \<rparr>"

definition holders_empty :: holders where
  "holders_empty = \<lparr> ho_balances = Map.empty, ho_stats = Map.empty \<rparr>"

lemmas example_defs = example_collected_def example_block_def example_deploy_def example_mint_def
  example_transfer_def example_spend_def example_meta_def example_env_def example_fx_def

lemma holders_ok_empty: "holders_ok Map.empty holders_empty"
  by (simp add: holders_ok_def holders_empty_def holders_of_def)

lemma ledger_ok_empty:
  "ledger_ok E (whole_ledger Map.empty Map.empty Map.empty c, holders_empty)"
  by (simp add: ledger_ok_def whole_ledger_def holders_ok_empty tokens_ok_def accounts_ok_def
      valid_ok_def supply_ok_def escrow_ok_def account_or_default_def token_balance_default_def)

lemma example_collected_ok: "collected_ok example_env example_collected"
  by (simp add: collected_ok_def example_defs token_cache_empty_def)

lemma example_moves: "moves_loaded Map.empty example_collected"
  by (simp add: moves_loaded_def example_defs token_cache_empty_def)

text \<open>A ledger with one token, one account of ten units and an unspent transfer of four.\<close>

definition example_spot :: location where
  "example_spot = \<lparr> loc_outpoint = \<lparr> op_txid = replicate 32 6, op_vout = 0 \<rparr>, loc_offset = 0 \<rparr>"

definition example_account :: token_balance where
  "example_account = \<lparr> tb_balance = 6, tb_transferable_balance = 4, tb_transfers_count = 1 \<rparr>"

definition example_open :: transfer_proto_db where
  "example_open = \<lparr> tp_tick = example_tick, tp_amt = 4, tp_height = 3 \<rparr>"

definition example_ledger :: token_cache where
  "example_ledger = token_cache_empty\<lparr>
     tc_tokens := [ascii_lower (trim_tick_bytes example_tick) \<mapsto> example_meta],
     tc_accounts := [example_key \<mapsto> example_account],
     tc_valid := [example_spot \<mapsto> (example_owner, example_open)],
     tc_all := [example_spot \<mapsto> example_open,
       example_loc \<mapsto> \<lparr> tp_tick = example_tick, tp_amt = 3, tp_height = 5 \<rparr>] \<rparr>"

definition example_index :: holders where
  "example_index = (case holders_init example_fx [(example_key, example_account)] of
     Inr h \<Rightarrow> h | Inl _ \<Rightarrow> holders_empty)"

lemma example_index_ok: "holders_ok [example_key \<mapsto> example_account] example_index"
  using holders_init_ok [of "[(example_key, example_account)]" example_fx]
  by (auto simp: example_index_def example_account_def holding_def example_fx_def)

lemma example_key_tick: "tick_key example_env example_tick = ascii_lower (trim_tick_bytes example_tick)"
  by (simp add: example_env_def lower_of_tick_def)

lemma example_ledger_ok: "ledger_ok example_env (example_ledger, example_index)"
proof -
  have held: "held t [example_key \<mapsto> example_account] = (if t = example_tick then 10 else 0)" for t
    using held_update [of Map.empty t example_key example_account]
    by (auto simp: held_def account_or_default_def example_account_def holding_def example_key_def
        token_balance_default_def split: if_splits)
  have xfer: "map_sum (xfer_amt k) [example_spot \<mapsto> (example_owner, example_open)] = (if k = example_key then 4 else 0)"
    "map_sum (xfer_cnt k) [example_spot \<mapsto> (example_owner, example_open)] = (if k = example_key then 1 else 0)" for k
    using map_sum_update [of Map.empty "xfer_amt k" example_spot "(example_owner, example_open)"]
      map_sum_update [of Map.empty "xfer_cnt k" example_spot "(example_owner, example_open)"]
    by (cases k; auto simp: xfer_amt_def xfer_cnt_def owns_transfer_def example_key_def example_open_def)+
  have meta: "dp_tick (tm_proto example_meta) = example_tick" "dp_supply (tm_proto example_meta) = 10"
    "dp_max (tm_proto example_meta) = 100" "fx_cap (e_fx example_env) = 1000"
    by (simp_all add: example_meta_def example_env_def example_fx_def)
  have c: "tc_tokens example_ledger = [ascii_lower (trim_tick_bytes example_tick) \<mapsto> example_meta]"
    "tc_accounts example_ledger = [example_key \<mapsto> example_account]"
    "tc_valid example_ledger = [example_spot \<mapsto> (example_owner, example_open)]"
    by (simp_all add: example_ledger_def)
  have "escrow_ok (tc_accounts example_ledger) (tc_valid example_ledger)"
    by (simp add: c escrow_ok_def xfer account_or_default_def token_balance_default_def)
      (simp add: example_account_def)
  moreover have "supply_ok (tc_tokens example_ledger) (tc_accounts example_ledger)"
    by (simp add: c supply_ok_def held meta)
  moreover have "tokens_ok example_env (tc_tokens example_ledger)"
    by (simp add: c tokens_ok_def meta example_key_tick)
  moreover have "accounts_ok example_env (tc_tokens example_ledger) (tc_accounts example_ledger)"
    by (simp add: c accounts_ok_def deployed_def example_key_def example_key_tick meta)
  moreover have "valid_ok example_env (tc_tokens example_ledger) (tc_valid example_ledger)"
    by (simp add: c valid_ok_def deployed_def example_open_def example_key_tick meta)
  moreover have "holders_ok (tc_accounts example_ledger) example_index"
    by (simp only: c example_index_ok)
  ultimately show ?thesis by (simp add: ledger_ok_def c)
qed

lemma example_lookup:
  "tc_tokens example_ledger (tick_key example_env (mw_tick \<lparr> mw_tick = example_tick, mw_amt = n \<rparr>)) = Some example_meta"
  by (simp add: example_ledger_def example_key_tick)

section \<open>Properties\<close>

text \<open>C2.  On a database whose ledger satisfies the invariant, executing the actions of a block on the part
  of it the block loads does not panic, provided that no two of its transfer inscriptions lie at one
  location or at that of an open transfer, that they are as the parser collects them - each transfer
  entered with its own amount, amounts above zero, a deployment without supply and within the range of
  \<open>Fixed128\<close> -, that an open transfer that is moved is among the loaded ones, and that the open
  transfers stay below \<open>2 ^ 64\<close>; writing the loaded part back gives a ledger that satisfies the
  invariant again: every token's accounts hold at most its supply, the supply is at most the maximum,
  every transferable balance is the sum of its unspent transfers, and the holder index is the one the
  balances determine.\<close>

theorem block_keeps_ledger:
  assumes inv: "ledger_ok E (whole_ledger metas balances V c, h)"
    and col: "collected_ok E c" and mov: "moves_loaded V c"
    and room: "card (dom V) + length (transfer_locs (tc_actions c)) < 2 ^ 64"
  shows "\<exists>c' h' evs. process_token_actions E (load_tokens_data E metas balances c, h) = Inr ((c', h'), evs)
    \<and> ledger_ok E (whole_ledger (metas ++ tc_tokens c') (balances ++ tc_accounts c')
        (V |` (- dom (tc_valid c)) ++ tc_valid c') c', h')"
  by (rule collected_block_safe [OF assms])

theorem block_keeps_ledger_witness:
  "\<exists>c' h' evs. process_token_actions example_env
      (load_tokens_data example_env Map.empty Map.empty example_collected, holders_empty)
      = Inr ((c', h'), evs)
    \<and> ledger_ok example_env (whole_ledger (Map.empty ++ tc_tokens c') (Map.empty ++ tc_accounts c')
        (Map.empty |` (- dom (tc_valid example_collected)) ++ tc_valid c') c', h')"
  by (rule block_keeps_ledger [OF ledger_ok_empty example_collected_ok example_moves])
    (simp add: example_defs token_cache_empty_def)



text \<open>C4.  The books of a block: over any run that returns, what the accounts of a tick hold,
  transferable amounts included, grows by the mints and shrinks by the sends to \<open>OP_RETURN\<close> that
  the history reports, and a token's supply grows by exactly its mints.\<close>

theorem block_books:
  assumes run: "process_token_actions E (c, h) = Inr ((c', h'), evs)"
    and fin: "finite (dom (tc_accounts c))" and tok: "tokens_ok E (tc_tokens c)"
    and deploys: "list_all (deploy_ok E) (tc_actions c)"
  shows "held t (tc_accounts c') + sum_list (map (burned E t) evs)
      = held t (tc_accounts c) + sum_list (map (minted t) evs)
    \<and> supply_of k (tc_tokens c') = supply_of k (tc_tokens c) + sum_list (map (supplied E k) evs)"
proof -
  have r: "run (process_token_action E) (tc_actions c) (c\<lparr> tc_actions := [] \<rparr>, h) = Inr ((c', h'), evs)"
    using run by (simp add: process_token_actions_def)
  show ?thesis
    using books.run_account [OF _ _ r, of t] supplies.run_account [OF _ deploys r, of k] fin tok
    by (simp add: list_all_iff)
qed

theorem block_books_witness:
  "\<exists>c' h' evs. process_token_actions example_env (example_collected, holders_empty) = Inr ((c', h'), evs)
    \<and> held example_tick (tc_accounts c') + sum_list (map (burned example_env example_tick) evs)
      = held example_tick (tc_accounts example_collected) + sum_list (map (minted example_tick) evs)
    \<and> supply_of [119, 111, 106, 97, 107] (tc_tokens c')
      = supply_of [119, 111, 106, 97, 107] (tc_tokens example_collected)
        + sum_list (map (supplied example_env [119, 111, 106, 97, 107]) evs)"
proof -
  have "outcome (process_token_actions example_env (example_collected, holders_empty)) =
      Inr [HDeploy example_tick 100 10 18 example_owner (replicate 32 1) 0,
           HMint example_tick 10 example_owner (replicate 32 4) 0,
           HDeployTransfer example_tick 4 example_owner (replicate 32 2) 0,
           HSend example_tick 4 (replicate 32 9) example_owner (replicate 32 3) 0]"
    by code_simp
  then obtain c' h' evs where r: "process_token_actions example_env (example_collected, holders_empty)
      = Inr ((c', h'), evs)"
    by (auto simp: outcome_def split: sum.splits prod.splits)
  with block_books [OF r, of example_tick "[119, 111, 106, 97, 107]"] show ?thesis
    by (auto simp: example_defs token_cache_empty_def tokens_ok_def)
qed

text \<open>C25.  A mint on a sound ledger: it is accepted exactly when its amount has at most the token's
  decimals, is at most the limit, and the supply is not complete; then it credits the minter with
  the amount or what is left of the supply, whichever is less, and changes no other account.\<close>

theorem mint_exact:
  assumes inv: "ledger_ok E (c, h)" and ok: "pending_ok E [TaMint owner w txid vout] (c, h)"
    and m: "tc_tokens c (tick_key E (mw_tick w)) = Some m"
  shows "\<exists>c' h' evs. process_mint E owner w txid vout (c, h) = Inr ((c', h'), evs)
    \<and> (let p = tm_proto m; key = \<lparr> at_address = owner, at_token = dp_tick p \<rparr>;
           a = account_or_default (tc_accounts c) key;
           amt = min (mw_amt w) (dp_max p - dp_supply p)
       in if fx_scale (e_fx E) (mw_amt w) \<le> dp_dec p \<and> mw_amt w \<le> dp_lim p \<and> dp_supply p \<noteq> dp_max p
          then 0 < amt \<and> evs = [HMint (dp_tick p) amt owner txid vout]
            \<and> supply_of (tick_key E (mw_tick w)) (tc_tokens c') = dp_supply p + amt
            \<and> tc_accounts c' = (tc_accounts c)(key \<mapsto> a\<lparr> tb_balance := tb_balance a + amt \<rparr>)
          else evs = [] \<and> c' = c \<and> h' = h)"
proof -
  obtain c' h' evs where r: "process_mint E owner w txid vout (c, h) = Inr ((c', h'), evs)"
    using mint_safe [OF inv ok] by (auto simp: step_safe_at_def)
  have "0 < mw_amt w" using ok by (simp add: pending_ok_def)
  with r m show ?thesis
    by (cases rule: mint_cases [OF r]) (auto simp: Let_def supply_of_def)
qed

theorem mint_exact_witness:
  "\<exists>c' h' evs. process_mint example_env example_owner \<lparr> mw_tick = example_tick, mw_amt = 10 \<rparr> [] 0
      (example_ledger, example_index) = Inr ((c', h'), evs)
    \<and> evs = [HMint example_tick 10 example_owner [] 0]"
  using mint_exact [OF example_ledger_ok _ example_lookup [of 10], of example_owner "[]" 0]
  by (auto simp: Let_def example_meta_def example_env_def example_fx_def pending_ok_def example_ledger_def)

text \<open>A transfer inscription on a sound ledger: it is accepted exactly when its amount has at
  most the token's decimals and is covered by the spendable balance; then the amount moves to the
  transferable half of the account and the transfer is recorded at its location for the sender.\<close>

lemma transfer_exact:
  assumes inv: "ledger_ok E (c, h)" and ok: "pending_ok E [TaTransfer loc owner w txid vout] (c, h)"
    and d: "tc_all c loc = Some d" and m: "tc_tokens c (tick_key E (mw_tick w)) = Some m"
    and a: "tc_accounts c \<lparr> at_address = owner, at_token = dp_tick (tm_proto m) \<rparr> = Some a"
  shows "\<exists>c' evs. process_transfer E loc owner w txid vout (c, h) = Inr ((c', h), evs)
    \<and> (let p = tm_proto m in
       if fx_scale (e_fx E) (mw_amt w) \<le> dp_dec p \<and> mw_amt w \<le> tb_balance a
       then evs = [HDeployTransfer (dp_tick p) (mw_amt w) owner txid vout]
         \<and> tc_valid c' = (tc_valid c)(loc \<mapsto> (owner, d\<lparr> tp_tick := dp_tick p \<rparr>))
         \<and> tc_accounts c' = (tc_accounts c)(\<lparr> at_address = owner, at_token = dp_tick p \<rparr> \<mapsto>
             a\<lparr> tb_balance := tb_balance a - mw_amt w,
                tb_transfers_count := tb_transfers_count a + 1,
                tb_transferable_balance := tb_transferable_balance a + mw_amt w \<rparr>)
       else evs = [] \<and> tc_valid c' = tc_valid c \<and> tc_accounts c' = tc_accounts c)"
proof -
  obtain s' evs where r: "process_transfer E loc owner w txid vout (c, h) = Inr (s', evs)"
    using transfer_safe [OF inv ok] by (auto simp: step_safe_at_def)
  with d m a show ?thesis
    by (cases rule: transfer_cases [OF r]) (auto simp: Let_def not_le)
qed

text \<open>C26.  Spending a recorded transfer on a sound ledger never panics: it takes the amount from the
  transferable half of the sender's account, credits the recipient's balance unless the recipient
  is \<open>OP_RETURN\<close>, touches no other account, and forgets the transfer, so that spending the same
  location again does nothing.\<close>

theorem send_exact:
  assumes inv: "ledger_ok E (c, h)" and few: "card (dom (tc_valid c)) < 2 ^ 64"
    and v: "tc_valid c loc = Some (sender, t)"
  shows "\<exists>c' h'. process_transferred E loc rcpt txid vout (c, h)
      = Inr ((c', h'), [HSend (tp_tick t) (tp_amt t) rcpt sender txid vout])
    \<and> (\<forall>k. tb_balance (account_or_default (tc_accounts c') k)
        = tb_balance (account_or_default (tc_accounts c) k)
          + (if k = \<lparr> at_address = rcpt, at_token = tp_tick t \<rparr> \<and> rcpt \<noteq> e_op_return E then tp_amt t else 0))
    \<and> (\<forall>k. tb_transferable_balance (account_or_default (tc_accounts c') k)
          + (if k = \<lparr> at_address = sender, at_token = tp_tick t \<rparr> then tp_amt t else 0)
        = tb_transferable_balance (account_or_default (tc_accounts c) k))
    \<and> (\<forall>rcpt' txid' vout'. process_transferred E loc rcpt' txid' vout' (c', h') = Inr ((c', h'), []))"
proof -
  have ok: "pending_ok E [TaTransferred loc rcpt txid vout] (c, h)"
    using few by (simp add: pending_ok_def)
  obtain c' h' evs where r: "process_transferred E loc rcpt txid vout (c, h) = Inr ((c', h'), evs)"
    using transferred_safe [OF inv ok] by (auto simp: step_safe_at_def)
  from r show ?thesis
  proof (cases rule: transferred_cases)
    case skip
    with v show ?thesis by simp
  next
    case (send sender' t' m p key a b acc acc' h1 h2)
    have t: "sender' = sender" "t' = t" using send(1) v by simp_all
    have "deployed E (tc_tokens c) (tp_tick t)" using ledger_okD(5) [OF inv] v by (simp add: valid_ok_def)
    then have tick: "dp_tick p = tp_tick t" using send(2,3) t by (simp add: deployed_def)
    have aod: "account_or_default (tc_accounts c) key = a"
      using send(5) by (simp add: account_or_default_def)
    have key: "key = \<lparr> at_address = sender, at_token = tp_tick t \<rparr>" using send(4) t tick by simp
    let ?rk = "\<lparr> at_address = rcpt, at_token = tp_tick t \<rparr>"
    have b: "tb_balance b = tb_balance a" "tb_transferable_balance b + tp_amt t = tb_transferable_balance a"
      using send(6,9) t by simp_all
    have acc: "account_or_default acc k = (if k = key then b else account_or_default (tc_accounts c) k)" for k
      using send(10) by (simp add: account_or_default_update)
    have acc': "account_or_default acc' k = (if k = ?rk \<and> rcpt \<noteq> e_op_return E
        then (account_or_default acc k)\<lparr> tb_balance := tb_balance (account_or_default acc k) + tp_amt t \<rparr>
        else account_or_default acc k)" for k
      using send(11) tick t by (auto simp: account_or_default_update)
    have c': "tc_accounts c' = acc'" "tc_valid c' loc = None"
      using send(12) by simp_all
    have "evs = [HSend (tp_tick t) (tp_amt t) rcpt sender txid vout]"
      using send(13) tick t by simp
    moreover have "tb_balance (account_or_default acc' k) = tb_balance (account_or_default (tc_accounts c) k)
          + (if k = ?rk \<and> rcpt \<noteq> e_op_return E then tp_amt t else 0)" for k
      unfolding acc' acc using b(1) aod by auto
    moreover have "tb_transferable_balance (account_or_default acc' k)
          + (if k = \<lparr> at_address = sender, at_token = tp_tick t \<rparr> then tp_amt t else 0)
        = tb_transferable_balance (account_or_default (tc_accounts c) k)" for k
      unfolding acc' acc key [symmetric] using b(2) aod by auto
    moreover have "process_transferred E loc rcpt' txid' vout' (c', h') = Inr ((c', h'), [])" for rcpt' txid' vout'
      using c'(2) by (simp add: process_transferred_def)
    ultimately show ?thesis using r c'(1) by blast
  qed
qed

theorem send_exact_witness:
  "\<exists>c' h'. process_transferred example_env example_spot [9] [] 0 (example_ledger, example_index)
      = Inr ((c', h'), [HSend example_tick 4 [9] example_owner [] 0])"
  using send_exact [OF example_ledger_ok, of example_spot example_owner example_open "[9]" "[]" 0]
  by (auto simp: example_ledger_def example_open_def)

text \<open>Collecting the actions of a block keeps the cache consistent: an inscription is parsed into
  an action with a positive amount on the right chain, and a transfer inscription is entered at its
  location with the amount and tick of its action, as long as that location is its own.\<close>

lemma parse_keeps_collected:
  assumes "collected_ok E c" and "fixed_json E J"
    and "it_location inc \<notin> set (transfer_locs (tc_actions c))" and "tc_valid c (it_location inc) = None"
  shows "collected_ok E (fst (parse_token_action E J inc height created c))
    \<and> collected_ok E (transferred loc rcpt txid vout c)
    \<and> collected_ok E (burned_transfer E loc txid vout c)"
  using assms by (simp add: collected_ok_parse collected_ok_transferred collected_ok_burned)

definition example_json :: json_ops where
  "example_json = \<lparr> js_normalize = Some, js_brc4 = (\<lambda>_. Inr (Brc4Transfer (TransferWjk20
     \<lparr> mw_tick = example_tick, mw_amt = 4 \<rparr>))) \<rparr>"

definition example_inscription :: inscription_template where
  "example_inscription = \<lparr> it_genesis = \<lparr> iid_txid = replicate 32 2, iid_index = 0 \<rparr>,
     it_location = example_loc, it_content_type = Some (str_bytes ''text/plain''),
     it_owner = example_owner, it_value = 1000, it_content = Some [], it_leaked = False \<rparr>"

text \<open>Built at start from the table of balances, the holder index is the one the balances
  determine: for every tick the holders with what they hold, and their number.\<close>

lemma holders_built:
  assumes "distinct (map fst entries)" and "\<And>k b. (k, b) \<in> set entries \<Longrightarrow> holding b \<le> fx_cap F"
  shows "\<exists>h. holders_init F entries = Inr h
    \<and> (\<forall>t. (case get_holders h t of Some s \<Rightarrow> s | None \<Rightarrow> {})
        = {(n, a). n = holding (account_or_default (map_of entries) \<lparr> at_address = a, at_token = t \<rparr>) \<and> n \<noteq> 0})
    \<and> (\<forall>t n. holders_by_tick h t = Some n
        \<longrightarrow> n = word_of_nat (card (case get_holders h t of Some s \<Rightarrow> s | None \<Rightarrow> {})))"
proof -
  obtain h where h: "holders_init F entries = Inr h" "holders_ok (map_of entries) h"
    using holders_init_ok [of entries F] assms by blast
  have "holders_of (map_of entries) t
      = {(n, a). n = holding (account_or_default (map_of entries) \<lparr> at_address = a, at_token = t \<rparr>) \<and> n \<noteq> 0}" for t
    by (auto simp: holders_of_iff)
  with h holders_okD(1,2) [OF h(2)] show ?thesis
    by (auto simp: get_holders_def holders_by_tick_def)
qed

text \<open>\<open>increase\<close> and \<open>decrease\<close> keep the index in step with the balances: called with an account
  as it was before and the amount by which its total changes, they succeed and give the index of
  the changed balances, an account that reaches zero leaving it.\<close>

lemma holders_follow_balances:
  assumes "holders_ok acc h" and "finite (dom acc)" and "0 < amt"
  shows "(holding (account_or_default acc key) + amt \<le> fx_cap F
      \<and> holding b = holding (account_or_default acc key) + amt
      \<longrightarrow> (\<exists>h'. holders_increase F key (account_or_default acc key) amt h = Inr h'
             \<and> holders_ok (acc(key \<mapsto> b)) h'))
    \<and> (holding (account_or_default acc key) \<le> fx_cap F
      \<and> holding b + amt = holding (account_or_default acc key)
      \<longrightarrow> (\<exists>h'. holders_decrease F key (account_or_default acc key) amt h = Inr h'
             \<and> holders_ok (acc(key \<mapsto> b)) h'
             \<and> (holding b = 0 \<longrightarrow> (\<forall>n. (n, at_address key) \<notin> holders_of (acc(key \<mapsto> b)) (at_token key)))))"
proof (intro conjI impI)
  assume "holding (account_or_default acc key) + amt \<le> fx_cap F
      \<and> holding b = holding (account_or_default acc key) + amt"
  then show "\<exists>h'. holders_increase F key (account_or_default acc key) amt h = Inr h'
             \<and> holders_ok (acc(key \<mapsto> b)) h'"
    using holders_increase_ok [OF assms(1,2) refl _ assms(3)] by blast
next
  assume a: "holding (account_or_default acc key) \<le> fx_cap F
      \<and> holding b + amt = holding (account_or_default acc key)"
  then have e: "amt \<le> holding (account_or_default acc key)" "holding b = holding (account_or_default acc key) - amt"
    by linarith+
  obtain h' where h': "holders_decrease F key (account_or_default acc key) amt h = Inr h'"
    "holders_ok (acc(key \<mapsto> b)) h'"
    using holders_decrease_ok [OF assms(1,2) refl conjunct1 [OF a] assms(3) e] by blast
  have z: "holding b = 0 \<longrightarrow> (\<forall>n. (n, at_address key) \<notin> holders_of (acc(key \<mapsto> b)) (at_token key))"
    by (auto simp: holders_of_iff account_or_default_update)
  show "\<exists>h'. holders_decrease F key (account_or_default acc key) amt h = Inr h'
             \<and> holders_ok (acc(key \<mapsto> b)) h'
             \<and> (holding b = 0 \<longrightarrow> (\<forall>n. (n, at_address key) \<notin> holders_of (acc(key \<mapsto> b)) (at_token key)))"
    using h' z by (intro exI conjI)
qed

end
