(* ===== verification/SharedProps.thy ===== *)
theory SharedProps
  imports TokenProps
begin

text \<open>
  Two transfer inscriptions at one location.  The parser enters the second one over the first, the
  execution records the amount of the second against the account the first has set aside from, and
  spending the location takes the second amount.
\<close>

section \<open>Collecting the two\<close>

definition is_transfer_of :: "env \<Rightarrow> json_ops \<Rightarrow> inscription_template \<Rightarrow> mint_wrapper \<Rightarrow> bool" where
  "is_transfer_of E J i w \<longleftrightarrow> it_owner i \<noteq> e_op_return E \<and> \<not> it_leaked i
     \<and> (case (it_content_type i, it_content i) of
          (Some ct, Some content) \<Rightarrow> (case try_parse (e_chain E) J ct content of
             Inr (Brc4Transfer p) \<Rightarrow> transfer_value (e_chain E) p = Some w | _ \<Rightarrow> False)
        | _ \<Rightarrow> False)"

lemma transfer_collected:
  assumes "is_transfer_of E J i w"
  shows "fst (parse_token_action E J i height created c)
      = (push_action (TaTransfer (it_location i) (it_owner i) w (op_txid (loc_outpoint (it_location i)))
           (op_vout (loc_outpoint (it_location i)))) c)
        \<lparr> tc_all := (tc_all c)(it_location i \<mapsto> \<lparr> tp_tick = mw_tick w, tp_amt = mw_amt w, tp_height = height \<rparr>) \<rparr>"
    and "0 < mw_amt w"
proof -
  from assms obtain ct content p where p: "it_content_type i = Some ct" "it_content i = Some content"
    "try_parse (e_chain E) J ct content = Inr (Brc4Transfer p)" "transfer_value (e_chain E) p = Some w"
    "it_owner i \<noteq> e_op_return E" "\<not> it_leaked i"
    by (auto simp: is_transfer_of_def split: option.splits sum.splits brc4.splits)
  then show "fst (parse_token_action E J i height created c)
      = (push_action (TaTransfer (it_location i) (it_owner i) w (op_txid (loc_outpoint (it_location i)))
           (op_vout (loc_outpoint (it_location i)))) c)
        \<lparr> tc_all := (tc_all c)(it_location i \<mapsto> \<lparr> tp_tick = mw_tick w, tp_amt = mw_amt w, tp_height = height \<rparr>) \<rparr>"
    by (simp add: parse_token_action_def Let_def transfer_from_value push_action_def)
  show "0 < mw_amt w" using try_parse_acceptable [OF p(3)] p(4) by (simp add: brc4_acceptable_def)
qed

section \<open>Spending more than was set aside for the transfer\<close>

text \<open>What spending a recorded transfer does when the sender's transferable balance need not cover it: the
  accounts \<open>tc_accounts c\<close> are the loaded part of \<open>acc\<close>.\<close>

lemma spend_recorded:
  assumes v: "tc_valid c loc = Some (sender, t)" and amt: "0 < tp_amt t"
    and tok: "tc_tokens c (tick_key E (tp_tick t)) = Some m" "dp_tick (tm_proto m) = tp_tick t"
    and a: "tc_accounts c \<lparr> at_address = sender, at_token = tp_tick t \<rparr> = Some a" "tb_transfers_count a \<noteq> 0"
    and acc: "acc \<lparr> at_address = sender, at_token = tp_tick t \<rparr> = Some a"
      "rcpt \<noteq> e_op_return E \<Longrightarrow> tc_accounts c \<lparr> at_address = rcpt, at_token = tp_tick t \<rparr> = acc \<lparr> at_address = rcpt, at_token = tp_tick t \<rparr>"
    and h: "holders_ok acc h" "finite (dom acc)" "held (tp_tick t) acc \<le> fx_cap (e_fx E)"
  shows "tb_transferable_balance a < tp_amt t \<Longrightarrow>
      process_transferred E loc rcpt txid vout (c, h) = Inl InvalidTransferSenderBalance"
    and "\<not> tb_transferable_balance a < tp_amt t \<Longrightarrow>
      \<exists>c' h'. process_transferred E loc rcpt txid vout (c, h) = Inr ((c', h'), [HSend (tp_tick t) (tp_amt t) rcpt sender txid vout])
      \<and> tb_transferable_balance (account_or_default (tc_accounts c') \<lparr> at_address = sender, at_token = tp_tick t \<rparr>)
        = tb_transferable_balance a - tp_amt t"
proof -
  let ?old = "\<lparr> at_address = sender, at_token = tp_tick t \<rparr>" and ?key = "\<lparr> at_address = rcpt, at_token = tp_tick t \<rparr>"
  show "tb_transferable_balance a < tp_amt t \<Longrightarrow>
      process_transferred E loc rcpt txid vout (c, h) = Inl InvalidTransferSenderBalance"
    using v tok a by (simp add: process_transferred_def Let_def)
  assume cov: "\<not> tb_transferable_balance a < tp_amt t"
  let ?b = "a\<lparr> tb_transfers_count := tb_transfers_count a - 1,
      tb_transferable_balance := tb_transferable_balance a - tp_amt t \<rparr>"
  let ?r = "account_or_default (acc(?old \<mapsto> ?b)) ?key"
  have aod: "account_or_default acc ?old = a" using acc(1) by (simp add: account_or_default_def)
  have hb: "tp_amt t \<le> holding a" "holding ?b = holding a - tp_amt t" using cov by (simp_all add: holding_def)
  have "holding a \<le> fx_cap (e_fx E)" using holding_le_held [OF h(2), of ?old] aod h(3) by simp
  then obtain h1 where h1: "holders_decrease (e_fx E) ?old a (tp_amt t) h = Inr h1" "holders_ok (acc(?old \<mapsto> ?b)) h1"
    using holders_decrease_ok [OF h(1, 2) aod [symmetric] _ amt hb] by auto
  have "held (tp_tick t) (acc(?old \<mapsto> ?b)) + tp_amt t = held (tp_tick t) acc"
    using held_update [OF h(2), of "tp_tick t" ?old ?b] aod hb by simp
  moreover have "holding ?r \<le> held (tp_tick t) (acc(?old \<mapsto> ?b))"
    using holding_le_held [of "acc(?old \<mapsto> ?b)" ?key] h(2) by simp
  ultimately have cap: "holding ?r + tp_amt t \<le> fx_cap (e_fx E)" using h(3) by simp
  then obtain h2 where h2: "holders_increase (e_fx E) ?key ?r (tp_amt t) h1 = Inr h2"
    using holders_increase_ok [OF h1(2) _ refl cap amt, of "?r\<lparr> tb_balance := tb_balance ?r + tp_amt t \<rparr>"] h(2)
    by (auto simp: holding_def)
  have same: "account_or_default ((tc_accounts c)(?old \<mapsto> ?b)) ?key = ?r" if "rcpt \<noteq> e_op_return E"
    using acc(2) [OF that] by (simp add: account_or_default_def)
  have "tb_balance ?r + tp_amt t \<le> fx_cap (e_fx E)" using cap by (simp add: holding_def)
  then show "\<exists>c' h'. process_transferred E loc rcpt txid vout (c, h) = Inr ((c', h'), [HSend (tp_tick t) (tp_amt t) rcpt sender txid vout])
      \<and> tb_transferable_balance (account_or_default (tc_accounts c') ?old) = tb_transferable_balance a - tp_amt t"
    using v tok a cov h1(1) h2 same
    by (cases "rcpt = e_op_return E")
      (auto simp: process_transferred_def Let_def account_or_default_update)
qed

text \<open>One more transfer does not overflow the count of an account.\<close>

lemma transfers_count_room:
  assumes "finite (dom V)" and "escrow_ok acc V" and "card (dom V) + 1 < 2 ^ 64"
  shows "tb_transfers_count (account_or_default acc key) + 1 \<noteq> 0"
proof -
  have "map_sum (xfer_cnt key) V \<le> card (dom V)"
    unfolding map_sum_card [symmetric] by (rule map_sum_mono) (simp add: xfer_cnt_def)
  then have "unat (word_of_nat (map_sum (xfer_cnt key) V + 1) :: u64) \<noteq> 0"
    using assms(3) by (subst unat_of_nat) simp
  then show ?thesis
    unfolding escrow_okD(2) [OF assms(2)] by (auto simp: add.commute)
qed

section \<open>The property\<close>

text \<open>C27.  Two transfer inscriptions of one owner at one location, of amounts \<open>a\<close> and then \<open>b\<close> of one token,
  the first of them covered by the spendable balance, and the spend of the location, on any sound
  ledger and with the part of it that the block loads: if what the owner has set aside before, with
  \<open>a\<close>, is less than \<open>b\<close>, then executing the block panics; otherwise the first is acknowledged with
  \<open>a\<close>, the recipient is sent \<open>b\<close>, and the transferable balance is off by the difference.\<close>

theorem shared_location_panics:
  fixes rcpt txid vout height created
  assumes inv: "ledger_ok E (whole_ledger metas balances V c, h)" and few: "card (dom V) + 1 < 2 ^ 64"
    and c: "tc_actions c = []" "tc_valid c (it_location i1) = None"
    and one: "is_transfer_of E J i1 w1" and two: "is_transfer_of E J i2 w2"
    and same: "it_location i2 = it_location i1" "it_owner i2 = it_owner i1" "tick_key E (mw_tick w2) = tick_key E (mw_tick w1)"
    and m: "metas (tick_key E (mw_tick w1)) = Some m" "fx_scale (e_fx E) (mw_amt w1) \<le> dp_dec (tm_proto m)"
    and a: "balances \<lparr> at_address = it_owner i1, at_token = dp_tick (tm_proto m) \<rparr> = Some a" "mw_amt w1 \<le> tb_balance a"
  defines "loc \<equiv> it_location i1"
  defines "c' \<equiv> transferred loc rcpt txid vout (fst (parse_token_action E J i2 height created
      (fst (parse_token_action E J i1 height created c))))"
  shows "if tb_transferable_balance a + mw_amt w1 < mw_amt w2
    then process_token_actions E (load_tokens_data E metas balances c', h) = Inl InvalidTransferSenderBalance
    else \<exists>c'' h''. process_token_actions E (load_tokens_data E metas balances c', h) = Inr ((c'', h''),
          [HDeployTransfer (dp_tick (tm_proto m)) (mw_amt w1) (it_owner i1) (op_txid (loc_outpoint loc)) (op_vout (loc_outpoint loc)),
           HSend (dp_tick (tm_proto m)) (mw_amt w2) rcpt (it_owner i1) txid vout])
      \<and> tb_transferable_balance (account_or_default (tc_accounts c'')
          \<lparr> at_address = it_owner i1, at_token = dp_tick (tm_proto m) \<rparr>)
        = tb_transferable_balance a + mw_amt w1 - mw_amt w2"
proof -
  let ?o = "it_owner i1" and ?t = "dp_tick (tm_proto m)" and ?L = "load_tokens_data E metas balances c'"
  let ?x = "op_txid (loc_outpoint loc)" and ?v = "op_vout (loc_outpoint loc)"
  let ?key = "\<lparr> at_address = ?o, at_token = ?t \<rparr>" and ?rk = "\<lparr> at_address = rcpt, at_token = ?t \<rparr>"
  note D = ledger_okD [OF inv, unfolded whole_ledger_def, simplified]
  have acts: "tc_actions c' = [TaTransfer loc ?o w1 ?x ?v, TaTransfer loc ?o w2 ?x ?v, TaTransferred loc rcpt txid vout]"
    and all: "tc_all c' loc = Some \<lparr> tp_tick = mw_tick w2, tp_amt = mw_amt w2, tp_height = height \<rparr>"
    and valid: "tc_valid c' = tc_valid c"
    using transfer_collected(1) [OF one, of height created] transfer_collected(1) [OF two, of height created] c(1) same
    by (simp_all add: c'_def loc_def transferred_def push_action_def)
  have tick: "tick_key E ?t = tick_key E (mw_tick w1)" using tokens_okD(1) [OF D(3) m(1)] by simp
  have fill: "fill_tickers_and_users E c' = ([tick_key E (mw_tick w1), tick_key E (mw_tick w2), tick_key E (mw_tick w2)],
      [(?o, mw_tick w1), (?o, mw_tick w2)] @ (if rcpt \<noteq> e_op_return E then [(rcpt, mw_tick w2)] else []))"
    using c(2) by (simp add: fill_tickers_and_users_def acts all [unfolded loc_def] valid loc_def)
  have tok: "tc_tokens ?L (tick_key E (mw_tick w1)) = Some m"
    using loaded_tokens [of "tick_key E (mw_tick w1)" E c' metas balances] m(1) by (simp add: fill)
  have acc: "tc_accounts ?L ?key = Some a"
    using loaded_accounts [of ?o "mw_tick w1" E c' metas m balances] m(1) a(1) by (simp add: fill)
  have racc: "tc_accounts ?L ?rk = balances ?rk" if "rcpt \<noteq> e_op_return E"
    using loaded_accounts [of rcpt "mw_tick w2" E c' metas m balances] m(1) that same(3) by (simp add: fill)
  let ?a1 = "a\<lparr> tb_balance := tb_balance a - mw_amt w1, tb_transfers_count := tb_transfers_count a + 1,
      tb_transferable_balance := tb_transferable_balance a + mw_amt w1 \<rparr>"
  let ?m1 = "m\<lparr> tm_proto := (tm_proto m)\<lparr> dp_transfer_count := dp_transfer_count (tm_proto m) + 1,
      dp_transactions := dp_transactions (tm_proto m) + 1 \<rparr> \<rparr>"
  let ?d = "\<lparr> tp_tick = ?t, tp_amt = mw_amt w2, tp_height = height \<rparr>"
  let ?c1 = "?L\<lparr> tc_actions := [], tc_all := (tc_all c')(loc := None), tc_tokens := (tc_tokens ?L)(tick_key E (mw_tick w1) \<mapsto> ?m1),
      tc_accounts := (tc_accounts ?L)(?key \<mapsto> ?a1), tc_valid := (tc_valid c)(loc \<mapsto> (?o, ?d)) \<rparr>"
  have aod: "account_or_default balances ?key = a" using a(1) by (simp add: account_or_default_def)
  have same_holding: "holding ?a1 = holding a" using a(2) by (simp add: holding_def)
  have held: "held ?t (balances(?key \<mapsto> ?a1)) = held ?t balances"
    using held_update [OF D(1), of ?t ?key ?a1] aod same_holding by simp
  have cap: "held ?t balances \<le> fx_cap (e_fx E)"
    using D(7) m(1) tokens_okD(2, 3) [OF D(3) m(1)] by (fastforce simp: supply_ok_def)
  have "holding a \<le> held ?t balances" using holding_le_held [OF D(1), of ?key] aod by simp
  with cap a(2) have "tb_transferable_balance a + mw_amt w1 \<le> fx_cap (e_fx E)" by (simp add: holding_def)
  then have first: "process_transfer E loc ?o w1 ?x ?v (?L\<lparr> tc_actions := [] \<rparr>, h)
      = Inr ((?c1, h), [HDeployTransfer ?t (mw_amt w1) ?o ?x ?v])"
    using tok acc m(2) a(2)
    by (simp add: process_transfer_def load_tokens_data_maps all valid Let_def fx_add_def fx_sub_def)
  have second: "process_transfer E loc ?o w2 ?x ?v (?c1, h) = Inr ((?c1, h), [])"
    by (simp add: process_transfer_def)
  have counted: "tb_transfers_count ?a1 \<noteq> 0"
    using transfers_count_room [OF D(2, 6) few, of ?key] aod by simp
  have spend: "if tb_transferable_balance a + mw_amt w1 < mw_amt w2
    then process_transferred E loc rcpt txid vout (?c1, h) = Inl InvalidTransferSenderBalance
    else \<exists>c'' h''. process_transferred E loc rcpt txid vout (?c1, h) = Inr ((c'', h''), [HSend ?t (mw_amt w2) rcpt ?o txid vout])
      \<and> tb_transferable_balance (account_or_default (tc_accounts c'') ?key) = tb_transferable_balance a + mw_amt w1 - mw_amt w2"
    using spend_recorded [of ?c1 loc ?o ?d E ?m1 ?a1 "balances(?key \<mapsto> ?a1)" rcpt h txid vout]
      transfer_collected(2) [OF two] tick racc counted cap held holders_ok_same_holding [OF D(8) a(1) same_holding] D(1)
    by simp
  have run: "process_token_actions E (?L, h) = (case process_transferred E loc rcpt txid vout (?c1, h) of
      Inl e \<Rightarrow> Inl e | Inr (s, evs) \<Rightarrow> Inr (s, HDeployTransfer ?t (mw_amt w1) ?o ?x ?v # evs))"
    using first second
    by (simp add: process_token_actions_def load_tokens_data_maps acts split: sum.splits prod.splits)
  show ?thesis using spend unfolding run by (auto split: if_splits)
qed

text \<open>An account with six units and four set aside before: inscriptions of one and six units panic, those
  of three and six send six.\<close>

definition shared_json :: json_ops where
  "shared_json = \<lparr> js_normalize = Some, js_brc4 = (\<lambda>data. Inr (Brc4Transfer (TransferWjk20
     \<lparr> mw_tick = example_tick, mw_amt = length data \<rparr>))) \<rparr>"

definition shared_inscription :: "nat \<Rightarrow> inscription_template" where
  "shared_inscription n = example_inscription\<lparr> it_content := Some (replicate n 120) \<rparr>"

abbreviation shared_actions :: "nat \<Rightarrow> nat \<Rightarrow> token_cache" where
  "shared_actions n k \<equiv> transferred example_loc (replicate 32 9) (replicate 32 3) 0
     (fst (parse_token_action example_env shared_json (shared_inscription k) 5 0
       (fst (parse_token_action example_env shared_json (shared_inscription n) 5 0 token_cache_empty))))"

lemma shared_transfers:
  "is_transfer_of example_env shared_json (shared_inscription 1) \<lparr> mw_tick = example_tick, mw_amt = 1 \<rparr>"
  "is_transfer_of example_env shared_json (shared_inscription 3) \<lparr> mw_tick = example_tick, mw_amt = 3 \<rparr>"
  "is_transfer_of example_env shared_json (shared_inscription 6) \<lparr> mw_tick = example_tick, mw_amt = 6 \<rparr>"
  by code_simp+

theorem shared_location_panics_witness:
  "process_token_actions example_env (load_tokens_data example_env (tc_tokens example_ledger) (tc_accounts example_ledger)
      (shared_actions 1 6), example_index) = Inl InvalidTransferSenderBalance
    \<and> outcome (process_token_actions example_env (load_tokens_data example_env (tc_tokens example_ledger)
        (tc_accounts example_ledger) (shared_actions 3 6), example_index))
      = Inr [HDeployTransfer example_tick 3 example_owner (replicate 32 2) 0,
          HSend example_tick 6 (replicate 32 9) example_owner (replicate 32 3) 0]"
proof -
  have inv: "ledger_ok example_env (whole_ledger (tc_tokens example_ledger) (tc_accounts example_ledger)
      (tc_valid example_ledger) token_cache_empty, example_index)"
    using example_ledger_ok by (simp add: ledger_ok_def whole_ledger_def)
  have few: "card (dom (tc_valid example_ledger)) + 1 < 2 ^ 64" by (simp add: example_ledger_def)
  have empty: "tc_actions token_cache_empty = []" "tc_valid token_cache_empty l = None" for l
    by (simp_all add: token_cache_empty_def)
  have data: "it_location (shared_inscription n) = example_loc" "it_owner (shared_inscription n) = example_owner"
    "op_txid (loc_outpoint example_loc) = replicate 32 2" "op_vout (loc_outpoint example_loc) = 0" for n
    by (simp_all add: shared_inscription_def example_inscription_def example_loc_def)
  have meta: "fx_scale (e_fx example_env) n \<le> dp_dec (tm_proto example_meta)" "dp_tick (tm_proto example_meta) = example_tick" for n
    by (simp_all add: example_env_def example_fx_def example_meta_def)
  have acc: "tc_accounts example_ledger \<lparr> at_address = example_owner, at_token = example_tick \<rparr> = Some example_account"
    "tb_balance example_account = 6" "tb_transferable_balance example_account = 4"
    by (simp_all add: example_ledger_def example_account_def example_key_def)
  note two = shared_location_panics [OF inv few empty(1), of "shared_inscription n" shared_json
      "\<lparr> mw_tick = example_tick, mw_amt = n \<rparr>" "shared_inscription 6" "\<lparr> mw_tick = example_tick, mw_amt = 6 \<rparr>"
      example_meta example_account "replicate 32 9" "replicate 32 3" 0 5 0 for n]
  show ?thesis
    using two [of 1] two [of 3] shared_transfers empty(2) data meta acc example_lookup
    by (auto simp: outcome_def)
qed

end
