(* ===== verification/Database.thy ===== *)
theory Database
  imports TokenCache Codec
begin

text \<open>
  The database (\<open>src/db/mod.rs\<close>), the write of a block's results (\<open>ProcessedData::write\<close> of
  \<open>src/inscriptions/process_data.rs\<close>) and the undo log it fills (\<open>ReorgCache\<close> of \<open>src/reorg.rs\<close>).

  A column family is the map its typed interface gives (\<open>Storage\<close> shows the refinement from bytes).
  A vector the source collects from a hash map, where only the keys matter, is that map; a vector
  whose order matters is a list.  \<open>None\<close> is a panic: a \<open>multi_get_kv\<close> told to panic on a missing
  key, the \<open>unwrap\<close> of a missing prevout, or a push to an empty undo log.
\<close>

section \<open>State\<close>

record db =
  db_token_to_meta :: "lower_tick \<rightharpoonup> token_meta"
  db_transfers :: "address_location \<rightharpoonup> transfer_proto_db"
  db_balances :: "address_token \<rightharpoonup> token_balance"
  db_history :: "address_token_id \<rightharpoonup> history_value"
  db_block_info :: "u32 \<rightharpoonup> block_info"
  db_prevouts :: "outpoint \<rightharpoonup> tx_prevout"
  db_partials :: "outpoint \<rightharpoonup> partials"
  db_offsets :: "outpoint \<rightharpoonup> u64 set"
  db_last_block :: "u32 option"
  db_last_history_id :: "u64 option"
  db_proof_of_history :: "u32 \<rightharpoonup> hash32"
  db_block_events :: "u32 \<rightharpoonup> address_token_id list"
  db_addresses :: "hash32 \<rightharpoonup> bytes"
  db_outpoint_to_event :: "outpoint \<rightharpoonup> address_token_id"
  db_token_id_to_event :: "token_id \<rightharpoonup> address_token_id"

datatype processed_data =
    PdInfo u32 block_info hash32
  | PdPrevouts "outpoint \<rightharpoonup> tx_prevout" "outpoint list"
  | PdFullHash "hash32 \<rightharpoonup> bytes"
  | PdHistory u32 u64 "(address_token_id \<times> history_value) list"
  | PdTokens "lower_tick \<rightharpoonup> token_meta" "address_token \<rightharpoonup> token_balance"
      "address_location \<rightharpoonup> transfer_proto_db" "address_location set"
  | PdPartials "outpoint \<rightharpoonup> partials" "outpoint \<rightharpoonup> partials"
  | PdOffsets "outpoint \<rightharpoonup> u64 set" "outpoint \<rightharpoonup> u64 set"

datatype token_history_entry =
    BalancesBefore "address_token \<rightharpoonup> token_balance"
  | BalancesToRemove "address_token set"
  | DeploysToRemove "lower_tick set"
  | DeploysToRestore "lower_tick \<rightharpoonup> token_meta"
  | RestoreTransfers "address_location \<rightharpoonup> transfer_proto_db"
  | RemoveTransfers "address_location set"
  | RemoveHistory "address_token_id list" u64 "outpoint list" u32 "token_id list"

datatype ordinals_entry =
    RestoreOffsets "outpoint \<rightharpoonup> u64 set"
  | RemoveOffsets "outpoint set"
  | RestorePrevouts "outpoint \<rightharpoonup> tx_prevout"
  | RestorePartial "outpoint \<rightharpoonup> partials"
  | RemovePartials "outpoint set"

record reorg_history_block =
  rb_token_history :: "token_history_entry list"
  rb_ordinals_history :: "ordinals_entry list"

definition reorg_history_block_new :: reorg_history_block where
  "reorg_history_block_new = \<lparr> rb_token_history = [], rb_ordinals_history = [] \<rparr>"

text \<open>The \<open>BTreeMap\<close> of the log: the blocks in increasing order of height.\<close>

type_synonym reorg_blocks = "(u32 \<times> reorg_history_block) list"

record reorg_cache =
  rc_blocks :: reorg_blocks
  rc_len :: nat

definition reorg_cache_max_len :: nat where
  "reorg_cache_max_len = 30"

definition reorg_cache_new :: reorg_cache where
  "reorg_cache_new = \<lparr> rc_blocks = [], rc_len = reorg_cache_max_len \<rparr>"

text \<open>\<open>last_history_id.get(()).unwrap_or_default()\<close>\<close>

definition history_id :: "db \<Rightarrow> u64" where
  "history_id d = (case db_last_history_id d of Some n \<Rightarrow> n | None \<Rightarrow> 0)"

section \<open>Undoing an entry\<close>

fun token_entry_proceed :: "token_history_entry \<Rightarrow> db \<Rightarrow> db" where
  "token_entry_proceed (DeploysToRemove ks) d =
     d\<lparr> db_token_to_meta := db_token_to_meta d |` (- ks) \<rparr>"
| "token_entry_proceed (DeploysToRestore items) d =
     d\<lparr> db_token_to_meta := db_token_to_meta d ++ items \<rparr>"
| "token_entry_proceed (BalancesBefore items) d = d\<lparr> db_balances := db_balances d ++ items \<rparr>"
| "token_entry_proceed (BalancesToRemove ks) d = d\<lparr> db_balances := db_balances d |` (- ks) \<rparr>"
| "token_entry_proceed (RestoreTransfers items) d = d\<lparr> db_transfers := db_transfers d ++ items \<rparr>"
| "token_entry_proceed (RemoveTransfers ks) d = d\<lparr> db_transfers := db_transfers d |` (- ks) \<rparr>"
| "token_entry_proceed (RemoveHistory keys last_history_id outpoints height ids) d =
     d\<lparr> db_last_history_id := Some last_history_id,
        db_block_events := (db_block_events d)(height := None),
        db_history := tbl_remove_batch (db_history d) keys,
        db_outpoint_to_event := tbl_remove_batch (db_outpoint_to_event d) outpoints,
        db_token_id_to_event := tbl_remove_batch (db_token_id_to_event d) ids \<rparr>"

fun ordinals_entry_proceed :: "ordinals_entry \<Rightarrow> db \<Rightarrow> db" where
  "ordinals_entry_proceed (RestoreOffsets items) d = d\<lparr> db_offsets := db_offsets d ++ items \<rparr>"
| "ordinals_entry_proceed (RemoveOffsets ks) d = d\<lparr> db_offsets := db_offsets d |` (- ks) \<rparr>"
| "ordinals_entry_proceed (RestorePrevouts items) d = d\<lparr> db_prevouts := db_prevouts d ++ items \<rparr>"
| "ordinals_entry_proceed (RestorePartial items) d = d\<lparr> db_partials := db_partials d ++ items \<rparr>"
| "ordinals_entry_proceed (RemovePartials ks) d = d\<lparr> db_partials := db_partials d |` (- ks) \<rparr>"

section \<open>The undo log\<close>

fun bt_insert :: "u32 \<Rightarrow> 'v \<Rightarrow> (u32 \<times> 'v) list \<Rightarrow> (u32 \<times> 'v) list" where
  "bt_insert k v [] = [(k, v)]"
| "bt_insert k v ((k', v') # r) =
     (if k < k' then (k, v) # (k', v') # r
      else if k = k' then (k, v) # r
      else (k', v') # bt_insert k v r)"

definition reorg_new_block :: "u32 \<Rightarrow> reorg_cache \<Rightarrow> reorg_cache" where
  "reorg_new_block height r =
     (let blocks = (if length (rc_blocks r) = rc_len r then tl (rc_blocks r) else rc_blocks r)
      in r\<lparr> rc_blocks := bt_insert height reorg_history_block_new blocks \<rparr>)"

text \<open>\<open>last_entry().unwrap().get_mut()\<close>\<close>

definition reorg_update_last ::
  "(reorg_history_block \<Rightarrow> reorg_history_block) \<Rightarrow> reorg_cache \<Rightarrow> reorg_cache option" where
  "reorg_update_last f r =
     (if rc_blocks r = [] then None
      else Some (r\<lparr> rc_blocks := butlast (rc_blocks r)
             @ [(fst (last (rc_blocks r)), f (snd (last (rc_blocks r))))] \<rparr>))"

definition push_ordinals_entry :: "ordinals_entry \<Rightarrow> reorg_cache \<Rightarrow> reorg_cache option" where
  "push_ordinals_entry e =
     reorg_update_last (\<lambda>b. b\<lparr> rb_ordinals_history := rb_ordinals_history b @ [e] \<rparr>)"

definition push_token_entry :: "token_history_entry \<Rightarrow> reorg_cache \<Rightarrow> reorg_cache option" where
  "push_token_entry e =
     reorg_update_last (\<lambda>b. b\<lparr> rb_token_history := rb_token_history b @ [e] \<rparr>)"

text \<open>One turn of the loop of \<open>restore\<close>.\<close>

definition undo_block :: "u32 \<Rightarrow> reorg_history_block \<Rightarrow> db \<Rightarrow> db" where
  "undo_block height b d =
     fold ordinals_entry_proceed (rev (rb_ordinals_history b))
       (fold token_entry_proceed (rev (rb_token_history b))
         (d\<lparr> db_last_block := Some (height - 1), db_block_info := (db_block_info d)(height := None) \<rparr>))"

function reorg_restore :: "u32 \<Rightarrow> reorg_cache \<times> db \<Rightarrow> reorg_cache \<times> db" where
  "reorg_restore block_height (r, d) =
     (if rc_blocks r \<noteq> [] \<and> block_height < fst (last (rc_blocks r))
      then reorg_restore block_height
        (r\<lparr> rc_blocks := butlast (rc_blocks r) \<rparr>,
         undo_block (fst (last (rc_blocks r))) (snd (last (rc_blocks r))) d)
      else (r, d))"
  by pat_completeness auto
termination
  by (relation "measure (\<lambda>(h, r, d). length (rc_blocks r))") auto

declare reorg_restore.simps [simp del]

definition reorg_restore_all :: "reorg_cache \<times> db \<Rightarrow> reorg_cache \<times> db" where
  "reorg_restore_all s = reorg_restore 0 s"

section \<open>Writing\<close>

text \<open>Pushing to the log, where there is one.\<close>

definition log_ordinals :: "ordinals_entry list \<Rightarrow> reorg_cache option \<Rightarrow> reorg_cache option option" where
  "log_ordinals es rc = (case rc of None \<Rightarrow> Some None
     | Some r \<Rightarrow> map_option Some (fold (\<lambda>e s. Option.bind s (push_ordinals_entry e)) es (Some r)))"

definition log_tokens :: "token_history_entry list \<Rightarrow> reorg_cache option \<Rightarrow> reorg_cache option option" where
  "log_tokens es rc = (case rc of None \<Rightarrow> Some None
     | Some r \<Rightarrow> map_option Some (fold (\<lambda>e s. Option.bind s (push_token_entry e)) es (Some r)))"

definition prevout_before ::
  "(outpoint \<rightharpoonup> tx_prevout) \<Rightarrow> (outpoint \<rightharpoonup> tx_prevout) \<Rightarrow> outpoint list \<Rightarrow> (outpoint \<rightharpoonup> tx_prevout) option" where
  "prevout_before tbl to_write ks =
     map_option map_of (option_list (map (\<lambda>k. map_option (Pair k)
       (case tbl k of Some v \<Rightarrow> Some v | None \<Rightarrow> to_write k)) ks))"

definition sort_events :: "address_token_id list \<Rightarrow> address_token_id list" where
  "sort_events = sort_key (\<lambda>e. unat (ati_id e))"

definition token_id_of :: "address_token_id \<Rightarrow> token_id" where
  "token_id_of e = \<lparr> ti_token = ati_token e, ti_id = ati_id e \<rparr>"

text \<open>The entries \<open>ProcessedData::write\<close> pushes for the tokens of a block.\<close>

definition token_undo_entries ::
  "(lower_tick \<rightharpoonup> token_meta) \<Rightarrow> (address_token \<rightharpoonup> token_balance) \<Rightarrow>
     (address_location \<rightharpoonup> transfer_proto_db) \<Rightarrow> address_location set \<Rightarrow> db \<Rightarrow> token_history_entry list"
where
  "token_undo_entries metas balances transfers_to_write transfers_to_remove d =
     (let deploys = db_token_to_meta d |` dom metas;
          balances_before = db_balances d |` dom balances
      in [DeploysToRemove (dom metas - dom deploys), DeploysToRestore deploys,
          BalancesBefore balances_before, BalancesToRemove (dom balances - dom balances_before),
          RestoreTransfers (db_transfers d |` transfers_to_remove),
          RemoveTransfers (dom transfers_to_write)])"

fun write_processed :: "processed_data \<Rightarrow> db \<times> reorg_cache option \<Rightarrow> (db \<times> reorg_cache option) option" where
  "write_processed (PdInfo height info pf) (d, rc) =
     Some (d\<lparr> db_last_block := Some height, db_block_info := (db_block_info d)(height \<mapsto> info),
              db_proof_of_history := (db_proof_of_history d)(height \<mapsto> pf) \<rparr>, rc)"
| "write_processed (PdPrevouts to_write to_remove) (d, rc) =
     Option.bind
       (if rc = None then Some rc
        else Option.bind (prevout_before (db_prevouts d) to_write to_remove)
          (\<lambda>before. log_ordinals [RestorePrevouts before] rc))
       (\<lambda>rc. Some (d\<lparr> db_prevouts := tbl_remove_batch (db_prevouts d ++ to_write) to_remove \<rparr>, rc))"
| "write_processed (PdFullHash addresses) (d, rc) =
     Some (d\<lparr> db_addresses := db_addresses d ++ addresses \<rparr>, rc)"
| "write_processed (PdHistory height last_history_id history) (d, rc) =
     (let block_events = sort_events (map fst history);
          outpoint_to_event = map (\<lambda>(k, v). (history_db_outpoint (hv_action v), k)) history;
          token_id_to_event = map (\<lambda>(k, v). (token_id_of k, k)) history
      in Option.bind
           (log_tokens [RemoveHistory (map fst history)
              (history_id d) (map fst outpoint_to_event) height (map fst token_id_to_event)] rc)
           (\<lambda>rc. Some (d\<lparr> db_token_id_to_event := tbl_extend (db_token_id_to_event d) token_id_to_event,
                db_block_events := (db_block_events d)(height \<mapsto> block_events),
                db_last_history_id := Some last_history_id,
                db_outpoint_to_event := tbl_extend (db_outpoint_to_event d) outpoint_to_event,
                db_history := tbl_extend (db_history d) history \<rparr>, rc)))"
| "write_processed (PdTokens metas balances transfers_to_write transfers_to_remove) (d, rc) =
     Option.bind
       (if rc \<noteq> None \<and> \<not> transfers_to_remove \<subseteq> dom (db_transfers d) then None
        else log_tokens (token_undo_entries metas balances transfers_to_write transfers_to_remove d) rc)
       (\<lambda>rc. Some (d\<lparr> db_token_to_meta := db_token_to_meta d ++ metas,
                db_balances := db_balances d ++ balances,
                db_transfers := db_transfers d |` (- transfers_to_remove) ++ transfers_to_write \<rparr>, rc))"
| "write_processed (PdPartials to_remove to_write) (d, rc) =
     Option.bind (log_ordinals [RestorePartial to_remove, RemovePartials (dom to_write)] rc)
       (\<lambda>rc. Some (d\<lparr> db_partials := db_partials d |` (- dom to_remove) ++ to_write \<rparr>, rc))"
| "write_processed (PdOffsets to_remove to_write) (d, rc) =
     Option.bind (log_ordinals [RestoreOffsets to_remove, RemoveOffsets (dom to_write)] rc)
       (\<lambda>rc. Some (d\<lparr> db_offsets := db_offsets d |` (- dom to_remove) ++ to_write \<rparr>, rc))"

text \<open>The write loop of \<open>InscriptionIndexer::handle\<close>.\<close>

fun write_all :: "processed_data list \<Rightarrow> db \<times> reorg_cache option \<Rightarrow> (db \<times> reorg_cache option) option" where
  "write_all [] s = Some s"
| "write_all (p # ps) s = Option.bind (write_processed p s) (write_all ps)"

end
