(* ===== verification/Reorg.thy ===== *)
theory Reorg
  imports Database
begin

text \<open>
  Undoing a block: the writes of a block and the entries they push to the log are inverse to each
  other on the tables of the tokens and the inscriptions.  The prevouts, addresses and proofs of an
  orphaned block stay behind; \<open>core\<close> is what does not.
\<close>

section \<open>The part of the database an undo restores\<close>

definition core :: "db \<Rightarrow> db" where
  "core d = d\<lparr> db_prevouts := Map.empty, db_addresses := Map.empty, db_proof_of_history := Map.empty,
     db_last_block := None, db_block_info := Map.empty,
     db_last_history_id := Some (history_id d) \<rparr>"

lemma core_eq_iff:
  "core d = core d' \<longleftrightarrow> db_token_to_meta d = db_token_to_meta d' \<and> db_transfers d = db_transfers d'
     \<and> db_balances d = db_balances d' \<and> db_history d = db_history d' \<and> db_partials d = db_partials d'
     \<and> db_offsets d = db_offsets d' \<and> db_block_events d = db_block_events d'
     \<and> db_outpoint_to_event d = db_outpoint_to_event d'
     \<and> db_token_id_to_event d = db_token_id_to_event d'
     \<and> history_id d = history_id d'"
  by (cases d; cases d') (simp add: core_def; blast)

lemma core_token_entry_core: "core (token_entry_proceed e (core d)) = core (token_entry_proceed e d)"
  by (cases e) (simp_all add: core_def history_id_def)

lemma core_ordinals_entry_core: "core (ordinals_entry_proceed e (core d)) = core (ordinals_entry_proceed e d)"
  by (cases e) (simp_all add: core_def history_id_def)

lemma core_token_entry: "core d = core d' \<Longrightarrow> core (token_entry_proceed e d) = core (token_entry_proceed e d')"
  using core_token_entry_core [of e d] core_token_entry_core [of e d'] by simp

lemma core_ordinals_entry:
  "core d = core d' \<Longrightarrow> core (ordinals_entry_proceed e d) = core (ordinals_entry_proceed e d')"
  using core_ordinals_entry_core [of e d] core_ordinals_entry_core [of e d'] by simp

lemma core_fold_token:
  "core d = core d' \<Longrightarrow> core (fold token_entry_proceed es d) = core (fold token_entry_proceed es d')"
proof (induction es arbitrary: d d')
  case Nil
  then show ?case by simp
next
  case (Cons e es)
  from Cons.IH [OF core_token_entry [OF Cons.prems]] show ?case by simp
qed

lemma core_fold_ordinals:
  "core d = core d' \<Longrightarrow> core (fold ordinals_entry_proceed es d) = core (fold ordinals_entry_proceed es d')"
proof (induction es arbitrary: d d')
  case Nil
  then show ?case by simp
next
  case (Cons e es)
  from Cons.IH [OF core_ordinals_entry [OF Cons.prems]] show ?case by simp
qed

lemma core_undo_block: "core d = core d' \<Longrightarrow> core (undo_block h b d) = core (undo_block h b d')"
  unfolding undo_block_def
  by (intro core_fold_ordinals core_fold_token) (simp add: core_eq_iff history_id_def)

section \<open>Inverse writes\<close>

lemma undo_replace:
  assumes "rem \<subseteq>\<^sub>m t" and "dom w \<inter> dom t \<subseteq> dom rem"
  shows "(t |` (- dom rem) ++ w) |` (- dom w) ++ rem = t"
proof
  fix k
  show "((t |` (- dom rem) ++ w) |` (- dom w) ++ rem) k = t k"
  proof (cases "rem k")
    case (Some v)
    then have "t k = Some v" using assms(1) by (metis domI map_le_def)
    with Some show ?thesis by simp
  next
    case None
    show ?thesis
    proof (cases "w k")
      case (Some v)
      with None assms(2) have "t k = None" by blast
      with None Some show ?thesis by (simp add: map_add_def restrict_map_def domIff)
    qed (use None in \<open>auto simp: map_add_def restrict_map_def domIff split: option.split\<close>)
  qed
qed

lemma undo_remove_first:
  assumes "dom w \<inter> dom t \<subseteq> rem"
  shows "(t |` (- rem) ++ w) |` (- dom w) ++ (t |` rem) = t"
proof
  fix k
  show "((t |` (- rem) ++ w) |` (- dom w) ++ (t |` rem)) k = t k"
    using assms
    by (cases "k \<in> rem"; cases "w k"; cases "t k") (auto simp: map_add_def restrict_map_def domIff)
qed

lemma undo_overwrite:
  "(t ++ w) |` (- (dom w - dom (t |` dom w))) ++ (t |` dom w) = t"
  "(t ++ w ++ (t |` dom w)) |` (- (dom w - dom (t |` dom w))) = t"
proof -
  have "((t ++ w) |` (- (dom w - dom (t |` dom w))) ++ (t |` dom w)) k = t k"
    "((t ++ w ++ (t |` dom w)) |` (- (dom w - dom (t |` dom w)))) k = t k" for k
    by (cases "w k"; cases "t k"; simp add: map_add_def restrict_map_def domIff)+
  then show "(t ++ w) |` (- (dom w - dom (t |` dom w))) ++ (t |` dom w) = t"
    "(t ++ w ++ (t |` dom w)) |` (- (dom w - dom (t |` dom w))) = t" by (blast intro: ext)+
qed

lemma undo_extend:
  assumes "\<And>k. k \<in> set (map fst kvs) \<Longrightarrow> t k = None" and "set ks = set (map fst kvs)"
  shows "tbl_remove_batch (tbl_extend t kvs) ks = t"
proof
  fix k
  have "map_of (rev kvs) k = None" if "k \<notin> set ks"
    using assms(2) that by (simp add: map_of_eq_None_iff)
  then show "tbl_remove_batch (tbl_extend t kvs) ks k = t k"
    using assms
    by (cases "k \<in> set ks") (simp_all add: tbl_remove_batch_apply tbl_extend_map_add map_add_def)
qed

lemma prevout_beforeD:
  assumes "prevout_before t w ks = Some before"
  shows "k \<in> set ks \<Longrightarrow> before k = (case t k of Some v \<Rightarrow> Some v | None \<Rightarrow> w k)"
    and "k \<notin> set ks \<Longrightarrow> before k = None"
proof -
  let ?f = "\<lambda>k. case t k of Some v \<Rightarrow> Some v | None \<Rightarrow> w k"
  have "option_list (map (\<lambda>k. map_option (Pair k) (?f k)) ks) = Some kvs
      \<Longrightarrow> map_of kvs k = (if k \<in> set ks then ?f k else None)" for kvs k
  proof (induction ks arbitrary: kvs)
    case Nil
    then show ?case by simp
  next
    case (Cons a ks)
    then show ?case by (cases "?f a") (auto split: option.splits)
  qed
  with assms show "k \<in> set ks \<Longrightarrow> before k = ?f k" and "k \<notin> set ks \<Longrightarrow> before k = None"
    by (auto simp: prevout_before_def)
qed

text \<open>The restored prevouts: nothing of before the block is lost, its own outputs stay.\<close>

lemma undo_prevouts:
  assumes "prevout_before t w ks = Some before" and "dom w \<inter> dom t = {}"
  shows "tbl_remove_batch (t ++ w) ks ++ before = t ++ w"
proof
  fix k
  show "(tbl_remove_batch (t ++ w) ks ++ before) k = (t ++ w) k"
    using prevout_beforeD [OF assms(1), of k] assms(2)
    by (cases "k \<in> set ks"; cases "t k"; cases "w k")
      (auto simp: tbl_remove_batch_apply map_add_def)
qed

section \<open>The log while a block is written\<close>

lemma push_token_snoc:
  "push_token_entry e (r\<lparr> rc_blocks := bs @ [(h, b)] \<rparr>)
    = Some (r\<lparr> rc_blocks := bs @ [(h, b\<lparr> rb_token_history := rb_token_history b @ [e] \<rparr>)] \<rparr>)"
  by (simp add: push_token_entry_def reorg_update_last_def)

lemma push_ordinals_snoc:
  "push_ordinals_entry e (r\<lparr> rc_blocks := bs @ [(h, b)] \<rparr>)
    = Some (r\<lparr> rc_blocks := bs @ [(h, b\<lparr> rb_ordinals_history := rb_ordinals_history b @ [e] \<rparr>)] \<rparr>)"
  by (simp add: push_ordinals_entry_def reorg_update_last_def)

lemma log_tokens_snoc:
  "log_tokens es (Some (r\<lparr> rc_blocks := bs @ [(h, b)] \<rparr>))
    = Some (Some (r\<lparr> rc_blocks := bs @ [(h, b\<lparr> rb_token_history := rb_token_history b @ es \<rparr>)] \<rparr>))"
proof -
  have "fold (\<lambda>e s. Option.bind s (push_token_entry e)) es (Some (r\<lparr> rc_blocks := bs @ [(h, b)] \<rparr>))
    = Some (r\<lparr> rc_blocks := bs @ [(h, b\<lparr> rb_token_history := rb_token_history b @ es \<rparr>)] \<rparr>)"
    by (induction es arbitrary: b) (simp_all add: push_token_snoc)
  then show ?thesis by (simp add: log_tokens_def)
qed

lemma log_ordinals_snoc:
  "log_ordinals es (Some (r\<lparr> rc_blocks := bs @ [(h, b)] \<rparr>))
    = Some (Some (r\<lparr> rc_blocks := bs @ [(h, b\<lparr> rb_ordinals_history := rb_ordinals_history b @ es \<rparr>)] \<rparr>))"
proof -
  have "fold (\<lambda>e s. Option.bind s (push_ordinals_entry e)) es (Some (r\<lparr> rc_blocks := bs @ [(h, b)] \<rparr>))
    = Some (r\<lparr> rc_blocks := bs @ [(h, b\<lparr> rb_ordinals_history := rb_ordinals_history b @ es \<rparr>)] \<rparr>)"
    by (induction es arbitrary: b) (simp_all add: push_ordinals_snoc)
  then show ?thesis by (simp add: log_ordinals_def)
qed

lemma log_None [simp]: "log_tokens es None = Some None" "log_ordinals es' None = Some None"
  by (simp_all add: log_tokens_def log_ordinals_def)

lemma bt_insert_last:
  "(\<And>k v. (k, v) \<in> set bs \<Longrightarrow> k < h) \<Longrightarrow> bt_insert h b bs = bs @ [(h, b)]"
proof (induction bs)
  case Nil
  then show ?case by simp
next
  case (Cons kv bs)
  obtain k v where kv: "kv = (k, v)" by (cases kv)
  have "k < h" using Cons.prems kv by auto
  then have "\<not> h < k" "h \<noteq> k" by auto
  with Cons kv show ?case by auto
qed

section \<open>One write\<close>

text \<open>The database after a write; the log does not influence it.\<close>

definition written :: "processed_data \<Rightarrow> db \<Rightarrow> db" where
  "written p d = fst (the (write_processed p (d, None)))"

text \<open>What a write must find so that undoing it loses nothing: the records it creates are new.\<close>

fun fresh :: "processed_data \<Rightarrow> db \<Rightarrow> bool" where
  "fresh (PdHistory h lid history) d \<longleftrightarrow>
     (\<forall>(k, v)\<in>set history. db_history d k = None
        \<and> db_outpoint_to_event d (history_db_outpoint (hv_action v)) = None
        \<and> db_token_id_to_event d (token_id_of k) = None)
     \<and> db_block_events d h = None"
| "fresh (PdTokens metas balances tw tr) d \<longleftrightarrow> dom tw \<inter> dom (db_transfers d) \<subseteq> tr"
| "fresh (PdPartials rem w) d \<longleftrightarrow> rem \<subseteq>\<^sub>m db_partials d \<and> dom w \<inter> dom (db_partials d) \<subseteq> dom rem"
| "fresh (PdOffsets rem w) d \<longleftrightarrow> rem \<subseteq>\<^sub>m db_offsets d \<and> dom w \<inter> dom (db_offsets d) \<subseteq> dom rem"
| "fresh (PdPrevouts w ks) d \<longleftrightarrow> dom w \<inter> dom (db_prevouts d) = {}"
| "fresh _ d \<longleftrightarrow> True"

definition undo_entries :: "token_history_entry list \<Rightarrow> ordinals_entry list \<Rightarrow> db \<Rightarrow> db" where
  "undo_entries ts os x = fold ordinals_entry_proceed (rev os) (fold token_entry_proceed (rev ts) x)"

text \<open>The log of a write: what it appends and how to take the write back.\<close>

definition logs ::
  "processed_data \<Rightarrow> db \<Rightarrow> token_history_entry list \<Rightarrow> ordinals_entry list \<Rightarrow> bool" where
  "logs p d ts os \<longleftrightarrow> (\<forall>r bs h b. write_processed p (d, Some (r\<lparr> rc_blocks := bs @ [(h, b)] \<rparr>))
     = Some (written p d, Some (r\<lparr> rc_blocks := bs @ [(h, b
         \<lparr> rb_token_history := rb_token_history b @ ts,
           rb_ordinals_history := rb_ordinals_history b @ os \<rparr>)] \<rparr>)))"

lemma logs_PdTokens:
  assumes "tr \<subseteq> dom (db_transfers d)"
  shows "logs (PdTokens metas balances tw tr) d (token_undo_entries metas balances tw tr d) []"
  using assms by (simp add: logs_def log_tokens_snoc written_def)

lemma logs_PdHistory:
  "logs (PdHistory h lid history) d
     [RemoveHistory (map fst history) (history_id d)
        (map (fst \<circ> (\<lambda>(k, v). (history_db_outpoint (hv_action v), k))) history) h
        (map (fst \<circ> (\<lambda>(k, v). (token_id_of k, k))) history)] []"
  by (simp add: logs_def log_tokens_snoc written_def Let_def)

lemma logs_ordinals:
  "logs (PdPartials rem pw) d [] [RestorePartial rem, RemovePartials (dom pw)]"
  "logs (PdOffsets orem ow) d [] [RestoreOffsets orem, RemoveOffsets (dom ow)]"
  "logs (PdInfo h info pf) d [] []" "logs (PdFullHash as) d [] []"
  by (simp_all add: logs_def log_ordinals_snoc written_def)

lemma logs_PdPrevouts:
  "prevout_before (db_prevouts d) w ks = Some before \<Longrightarrow>
    logs (PdPrevouts w ks) d [] [RestorePrevouts before]"
  by (simp add: logs_def log_ordinals_snoc written_def)

text \<open>A write that goes through with a log appends the entries above.\<close>

lemma write_logs:
  assumes "write_processed p (d, Some (r\<lparr> rc_blocks := bs @ [(h, b)] \<rparr>)) \<noteq> None"
  shows "\<exists>ts os. logs p d ts os \<and>
    (case p of
       PdTokens metas balances tw tr \<Rightarrow>
         tr \<subseteq> dom (db_transfers d) \<and> ts = token_undo_entries metas balances tw tr d \<and> os = []
     | PdHistory h lid history \<Rightarrow>
         ts = [RemoveHistory (map fst history) (history_id d)
           (map (fst \<circ> (\<lambda>(k, v). (history_db_outpoint (hv_action v), k))) history) h
           (map (fst \<circ> (\<lambda>(k, v). (token_id_of k, k))) history)] \<and> os = []
     | PdPartials rem w \<Rightarrow> ts = [] \<and> os = [RestorePartial rem, RemovePartials (dom w)]
     | PdOffsets rem w \<Rightarrow> ts = [] \<and> os = [RestoreOffsets rem, RemoveOffsets (dom w)]
     | PdPrevouts w ks \<Rightarrow> ts = [] \<and> (\<exists>before. prevout_before (db_prevouts d) w ks = Some before
         \<and> os = [RestorePrevouts before])
     | _ \<Rightarrow> ts = [] \<and> os = [])"
proof (cases p)
  case (PdPrevouts w ks)
  then obtain before where "prevout_before (db_prevouts d) w ks = Some before"
    using assms by (cases "prevout_before (db_prevouts d) w ks") auto
  with PdPrevouts logs_PdPrevouts show ?thesis by fastforce
next
  case (PdTokens metas balances tw tr)
  then have "tr \<subseteq> dom (db_transfers d)" using assms by (auto split: if_splits)
  with PdTokens logs_PdTokens show ?thesis by fastforce
next
  case (PdHistory h lid history)
  with logs_PdHistory show ?thesis by fastforce
next
  case (PdPartials rem w)
  with logs_ordinals show ?thesis by fastforce
next
  case (PdOffsets rem w)
  with logs_ordinals show ?thesis by fastforce
next
  case (PdInfo h info pf)
  with logs_ordinals show ?thesis by fastforce
next
  case (PdFullHash addrs)
  with logs_ordinals show ?thesis by fastforce
qed

section \<open>Taking writes back\<close>

lemma commute_entries:
  "ordinals_entry_proceed o' (token_entry_proceed t x) = token_entry_proceed t (ordinals_entry_proceed o' x)"
  by (cases o'; cases t) simp_all

lemma commute_folds:
  "fold ordinals_entry_proceed os (fold token_entry_proceed ts x)
    = fold token_entry_proceed ts (fold ordinals_entry_proceed os x)"
proof -
  have one: "ordinals_entry_proceed o' (fold token_entry_proceed ts x)
      = fold token_entry_proceed ts (ordinals_entry_proceed o' x)" for o' x
    by (induction ts arbitrary: x) (simp_all add: commute_entries)
  show ?thesis by (induction os arbitrary: x) (simp_all add: one)
qed

lemma undo_entries_append:
  "undo_entries (ts @ ts') (os @ os') x = undo_entries ts os (undo_entries ts' os' x)"
  by (simp add: undo_entries_def commute_folds)

lemma core_undo_entries: "core x = core y \<Longrightarrow> core (undo_entries ts os x) = core (undo_entries ts os y)"
  unfolding undo_entries_def by (intro core_fold_ordinals core_fold_token)

lemma undo_written_tokens:
  assumes "dom tw \<inter> dom (db_transfers d) \<subseteq> tr"
  shows "core (undo_entries (token_undo_entries metas balances tw tr d) [] (written (PdTokens metas balances tw tr) d))
    = core d"
  using undo_remove_first [OF assms] undo_overwrite [of "db_token_to_meta d" metas]
    undo_overwrite [of "db_balances d" balances]
  by (simp add: undo_entries_def token_undo_entries_def written_def core_eq_iff history_id_def Let_def)

lemma undo_written_history:
  assumes "fresh (PdHistory h lid history) d"
  shows "core (undo_entries [RemoveHistory (map fst history) (history_id d)
      (map (fst \<circ> (\<lambda>(k, v). (history_db_outpoint (hv_action v), k))) history) h
      (map (fst \<circ> (\<lambda>(k, v). (token_id_of k, k))) history)] [] (written (PdHistory h lid history) d)) = core d"
proof -
  have "tbl_remove_batch (tbl_extend (db_history d) history) (map fst history) = db_history d"
    using assms by (intro undo_extend) auto
  moreover have "tbl_remove_batch (tbl_extend (db_outpoint_to_event d)
      (map (\<lambda>(k, v). (history_db_outpoint (hv_action v), k)) history))
      (map (fst \<circ> (\<lambda>(k, v). (history_db_outpoint (hv_action v), k))) history) = db_outpoint_to_event d"
    using assms by (intro undo_extend) auto
  moreover have "tbl_remove_batch (tbl_extend (db_token_id_to_event d)
      (map (\<lambda>(k, v). (token_id_of k, k)) history))
      (map (fst \<circ> (\<lambda>(k, v). (token_id_of k, k))) history) = db_token_id_to_event d"
    using assms by (intro undo_extend) auto
  moreover have "(db_block_events d)(h := None) = db_block_events d"
    using assms by auto
  ultimately show ?thesis
    by (simp add: undo_entries_def written_def core_eq_iff history_id_def Let_def)
qed

lemma undo_written:
  assumes "write_processed p (d, Some (r\<lparr> rc_blocks := bs @ [(h, b)] \<rparr>)) \<noteq> None" and "fresh p d"
  shows "\<exists>ts os. logs p d ts os \<and> core (undo_entries ts os (written p d)) = core d"
proof -
  obtain ts os where l: "logs p d ts os" and c: "case p of
       PdTokens metas balances tw tr \<Rightarrow>
         tr \<subseteq> dom (db_transfers d) \<and> ts = token_undo_entries metas balances tw tr d \<and> os = []
     | PdHistory h lid history \<Rightarrow>
         ts = [RemoveHistory (map fst history) (history_id d)
           (map (fst \<circ> (\<lambda>(k, v). (history_db_outpoint (hv_action v), k))) history) h
           (map (fst \<circ> (\<lambda>(k, v). (token_id_of k, k))) history)] \<and> os = []
     | PdPartials rem w \<Rightarrow> ts = [] \<and> os = [RestorePartial rem, RemovePartials (dom w)]
     | PdOffsets rem w \<Rightarrow> ts = [] \<and> os = [RestoreOffsets rem, RemoveOffsets (dom w)]
     | PdPrevouts w ks \<Rightarrow> ts = [] \<and> (\<exists>before. prevout_before (db_prevouts d) w ks = Some before
         \<and> os = [RestorePrevouts before])
     | _ \<Rightarrow> ts = [] \<and> os = []"
    using write_logs [OF assms(1)] by blast
  have "core (undo_entries ts os (written p d)) = core d"
  proof (cases p)
    case (PdTokens metas balances tw tr)
    with c assms(2) show ?thesis by (simp add: undo_written_tokens)
  next
    case (PdHistory h lid history)
    with c assms(2) undo_written_history [of h lid history d] show ?thesis by simp
  next
    case (PdPartials rem w)
    with c assms(2) undo_replace [of rem "db_partials d" w] show ?thesis
      by (simp add: undo_entries_def written_def core_eq_iff history_id_def)
  next
    case (PdOffsets rem w)
    with c assms(2) undo_replace [of rem "db_offsets d" w] show ?thesis
      by (simp add: undo_entries_def written_def core_eq_iff history_id_def)
  next
    case (PdPrevouts w ks)
    with c show ?thesis
      by (auto simp: undo_entries_def written_def core_eq_iff history_id_def)
  qed (use c in \<open>auto simp: undo_entries_def written_def core_eq_iff history_id_def\<close>)
  with l show ?thesis by blast
qed

fun fresh_all :: "processed_data list \<Rightarrow> db \<Rightarrow> bool" where
  "fresh_all [] d \<longleftrightarrow> True"
| "fresh_all (p # ps) d \<longleftrightarrow> fresh p d \<and> fresh_all ps (written p d)"

text \<open>All the writes of a block, with the entries they leave in the last block of the log.\<close>

lemma undo_write_all:
  assumes "write_all ps (d, Some (r\<lparr> rc_blocks := bs @ [(h, b)] \<rparr>)) = Some (d', rc')" and "fresh_all ps d"
  shows "\<exists>ts os. rc' = Some (r\<lparr> rc_blocks := bs @ [(h, b\<lparr> rb_token_history := rb_token_history b @ ts,
      rb_ordinals_history := rb_ordinals_history b @ os \<rparr>)] \<rparr>)
    \<and> core (undo_entries ts os d') = core d"
  using assms
proof (induction ps arbitrary: d b)
  case Nil
  then show ?case
    by (intro exI [of _ "[]"]) (simp add: undo_entries_def)
next
  case (Cons p ps)
  let ?rc = "Some (r\<lparr> rc_blocks := bs @ [(h, b)] \<rparr>)"
  have "write_processed p (d, ?rc) \<noteq> None"
    using Cons.prems(1) by (cases "write_processed p (d, ?rc)") auto
  then obtain ts os where l: "logs p d ts os" and u: "core (undo_entries ts os (written p d)) = core d"
    using undo_written Cons.prems(2) by (metis fresh_all.simps(2))
  let ?b = "b\<lparr> rb_token_history := rb_token_history b @ ts, rb_ordinals_history := rb_ordinals_history b @ os \<rparr>"
  have "write_all ps (written p d, Some (r\<lparr> rc_blocks := bs @ [(h, ?b)] \<rparr>)) = Some (d', rc')"
    using l Cons.prems(1) by (simp add: logs_def)
  then obtain ts' os' where rc': "rc' = Some (r\<lparr> rc_blocks := bs @ [(h, ?b
        \<lparr> rb_token_history := rb_token_history ?b @ ts', rb_ordinals_history := rb_ordinals_history ?b @ os' \<rparr>)] \<rparr>)"
    and u': "core (undo_entries ts' os' d') = core (written p d)"
    using Cons.IH Cons.prems(2) by fastforce
  have "core (undo_entries (ts @ ts') (os @ os') d') = core d"
    using core_undo_entries [OF u', of ts os] u by (simp add: undo_entries_append)
  with rc' show ?case by (intro exI [of _ "ts @ ts'"] exI [of _ "os @ os'"]) simp
qed

section \<open>Restoring several blocks\<close>

text \<open>A log over a database: each block's entries lead back to the database before it.\<close>

inductive logged :: "db \<Rightarrow> reorg_blocks \<Rightarrow> db \<Rightarrow> bool" where
  logged_Nil: "core d = core d' \<Longrightarrow> logged d [] d'"
| logged_snoc: "logged d bs d1 \<Longrightarrow> core (undo_block h b d2) = core d1 \<Longrightarrow> logged d (bs @ [(h, b)]) d2"

inductive_cases logged_NilE: "logged d [] d2"
inductive_cases logged_snocE: "logged d (bs @ [(h, b)]) d2"

lemma logged_core: "logged d bs d1 \<Longrightarrow> core d1 = core d2 \<Longrightarrow> logged d bs d2"
proof (induction rule: logged.induct)
  case (logged_Nil d d')
  then show ?case by (auto intro: logged.logged_Nil)
next
  case (logged_snoc d bs d1 h b d3)
  then have "core (undo_block h b d2) = core d1"
    using core_undo_block [of d3 d2 h b] by simp
  with logged_snoc show ?case by (auto intro: logged.logged_snoc)
qed

lemma restore_logged:
  assumes "logged d high d'" and "\<And>k v. (k, v) \<in> set high \<Longrightarrow> target < k"
    and "\<And>k v. (k, v) \<in> set low \<Longrightarrow> k \<le> target" and "rc_blocks r = low @ high"
  shows "\<exists>d''. reorg_restore target (r, d') = (r\<lparr> rc_blocks := low \<rparr>, d'') \<and> core d'' = core d"
  using assms
proof (induction high arbitrary: d' r rule: rev_induct)
  case Nil
  have "core d = core d'" using Nil.prems(1) by (rule logged_NilE) auto
  moreover have "\<not> (rc_blocks r \<noteq> [] \<and> target < fst (last (rc_blocks r)))"
  proof (cases "low = []")
    case False
    then have "last low \<in> set low" by simp
    with Nil.prems(3) [of "fst (last low)" "snd (last low)"] Nil.prems(4) show ?thesis by auto
  qed (use Nil.prems in simp)
  moreover have "r\<lparr> rc_blocks := low \<rparr> = r" using Nil.prems(4) by simp
  ultimately show ?case by (subst reorg_restore.simps) auto
next
  case (snoc hb high)
  obtain h b where hb: "hb = (h, b)" by (cases hb)
  from snoc.prems(1) obtain d1 where d1: "logged d high d1" "core (undo_block h b d') = core d1"
    unfolding hb by (rule logged_snocE) auto
  let ?r = "r\<lparr> rc_blocks := low @ high \<rparr>"
  have l: "logged d high (undo_block h b d')"
    using d1 by (intro logged_core [OF d1(1)]) simp
  have "\<exists>d''. reorg_restore target (?r, undo_block h b d') = (?r\<lparr> rc_blocks := low \<rparr>, d'') \<and> core d'' = core d"
    by (rule snoc.IH [OF l]) (use snoc.prems in auto)
  moreover have "target < h" using snoc.prems(2) hb by auto
  ultimately show ?case
    using snoc.prems(4) hb by (simp add: reorg_restore.simps [of target r] butlast_append)
qed

section \<open>Indexing blocks with the log on\<close>

text \<open>The part of \<open>InscriptionIndexer::handle\<close> after a block was parsed, block after block.\<close>

fun index_blocks ::
  "(u32 \<times> processed_data list) list \<Rightarrow> db \<times> reorg_cache \<Rightarrow> (db \<times> reorg_cache) option" where
  "index_blocks [] s = Some s"
| "index_blocks ((h, ps) # blocks) (d, r) =
     (case write_all ps (d, Some (reorg_new_block h r)) of
        Some (d1, Some r1) \<Rightarrow> index_blocks blocks (d1, r1)
      | _ \<Rightarrow> None)"

fun fresh_blocks :: "(u32 \<times> processed_data list) list \<Rightarrow> db \<Rightarrow> bool" where
  "fresh_blocks [] d \<longleftrightarrow> True"
| "fresh_blocks ((h, ps) # blocks) d \<longleftrightarrow> fresh_all ps d \<and> fresh_blocks blocks (fold written ps d)"

lemma write_all_written:
  assumes "write_all ps (d, Some (r\<lparr> rc_blocks := bs @ [(h, b)] \<rparr>)) = Some (d', rc')"
  shows "d' = fold written ps d"
  using assms
proof (induction ps arbitrary: d b)
  case Nil
  then show ?case by simp
next
  case (Cons p ps)
  let ?rc = "Some (r\<lparr> rc_blocks := bs @ [(h, b)] \<rparr>)"
  have "write_processed p (d, ?rc) \<noteq> None"
    using Cons.prems(1) by (cases "write_processed p (d, ?rc)") auto
  then obtain ts os where "logs p d ts os" using write_logs by blast
  with Cons.prems Cons.IH show ?case by (auto simp: logs_def)
qed

lemma new_block_split:
  assumes "rc_blocks r = lo @ hi" and "length (rc_blocks r) \<le> rc_len r" and "length hi < rc_len r"
    and "\<And>k v. (k, v) \<in> set (lo @ hi) \<Longrightarrow> k < h"
  shows "\<exists>lo'. set lo' \<subseteq> set lo
    \<and> reorg_new_block h r = r\<lparr> rc_blocks := (lo' @ hi) @ [(h, reorg_history_block_new)] \<rparr>
    \<and> length ((lo' @ hi) @ [(h, reorg_history_block_new)]) \<le> rc_len r"
proof (cases "length (rc_blocks r) = rc_len r")
  case True
  with assms(1,3) obtain x lo' where lo: "lo = x # lo'" by (cases lo) auto
  have "bt_insert h reorg_history_block_new (lo' @ hi) = (lo' @ hi) @ [(h, reorg_history_block_new)]"
    by (rule bt_insert_last) (use assms(4) lo in auto)
  with True lo assms(1) show ?thesis
    by (intro exI [of _ lo']) (auto simp: reorg_new_block_def)
next
  case False
  have "bt_insert h reorg_history_block_new (lo @ hi) = (lo @ hi) @ [(h, reorg_history_block_new)]"
    by (rule bt_insert_last) (use assms(4) in auto)
  with False assms(1,2) show ?thesis
    by (intro exI [of _ lo]) (auto simp: reorg_new_block_def)
qed

lemma index_blocks_logged:
  assumes "index_blocks blocks (d, r) = Some (d', r')" and "fresh_blocks blocks d"
    and "sorted_wrt (<) (map fst blocks)" and "\<And>h. h \<in> set (map fst blocks) \<Longrightarrow> target < h"
    and "rc_blocks r = lo @ hi" and "logged dl hi d"
    and "\<And>k v. (k, v) \<in> set lo \<Longrightarrow> k \<le> target" and "\<And>k v. (k, v) \<in> set hi \<Longrightarrow> target < k"
    and "\<And>k v h. (k, v) \<in> set hi \<Longrightarrow> h \<in> set (map fst blocks) \<Longrightarrow> k < h"
    and "length (rc_blocks r) \<le> rc_len r" and "length hi + length blocks \<le> rc_len r"
  shows "\<exists>lo' hi'. rc_blocks r' = lo' @ hi' \<and> logged dl hi' d' \<and> (\<forall>(k, v)\<in>set lo'. k \<le> target)
    \<and> (\<forall>(k, v)\<in>set hi'. target < k)"
  using assms
proof (induction blocks arbitrary: d r lo hi)
  case Nil
  then show ?case by (intro exI [of _ lo] exI [of _ hi]) auto
next
  case (Cons hp blocks)
  obtain h ps where hp: "hp = (h, ps)" by (cases hp)
  have below: "k < h" if "(k, v) \<in> set (lo @ hi)" for k v
    using that Cons.prems(4) [of h] Cons.prems(7,9) hp by (auto intro: le_less_trans)
  have hl: "length hi < rc_len r" using Cons.prems(11) by simp
  obtain lo' where lo': "set lo' \<subseteq> set lo" and
    new: "reorg_new_block h r = r\<lparr> rc_blocks := (lo' @ hi) @ [(h, reorg_history_block_new)] \<rparr>" and
    len: "length ((lo' @ hi) @ [(h, reorg_history_block_new)]) \<le> rc_len r"
    using new_block_split [OF Cons.prems(5,10) hl, of h] below by blast
  obtain d1 r1 where w: "write_all ps (d, Some (reorg_new_block h r)) = Some (d1, Some r1)"
    and rest: "index_blocks blocks (d1, r1) = Some (d', r')"
    using Cons.prems(1) hp by (auto split: option.splits prod.splits)
  obtain ts os where r1: "r1 = r\<lparr> rc_blocks := (lo' @ hi) @ [(h, \<lparr> rb_token_history = ts, rb_ordinals_history = os \<rparr>)] \<rparr>"
    and undo: "core (undo_entries ts os d1) = core d"
    using undo_write_all [OF w [unfolded new]] Cons.prems(2) hp
    by (auto simp: reorg_history_block_new_def)
  let ?b = "\<lparr> rb_token_history = ts, rb_ordinals_history = os \<rparr>"
  have "core (undo_block h ?b d1) = core (undo_entries ts os d1)"
    unfolding undo_block_def undo_entries_def
    by (simp, intro core_fold_ordinals core_fold_token) (simp add: core_eq_iff history_id_def)
  with undo have "logged dl (hi @ [(h, ?b)]) d1"
    using Cons.prems(6) by (auto intro: logged.logged_snoc)
  moreover have "d1 = fold written ps d" using write_all_written [OF w [unfolded new]] .
  ultimately have L: "logged dl (hi @ [(h, ?b)]) (fold written ps d)" and d1: "d1 = fold written ps d"
    by simp_all
  show ?case
  proof (rule Cons.IH [OF rest _ _ _ _ L [folded d1]])
    show "fresh_blocks blocks d1" "sorted_wrt (<) (map fst blocks)"
      using Cons.prems(2,3) hp d1 by simp_all
    show "rc_blocks r1 = lo' @ hi @ [(h, ?b)]" using r1 by simp
    show "\<And>k v. (k, v) \<in> set lo' \<Longrightarrow> k \<le> target" using lo' Cons.prems(7) by blast
    show "\<And>k v. (k, v) \<in> set (hi @ [(h, ?b)]) \<Longrightarrow> target < k"
      using Cons.prems(4,8) hp by auto
    show "\<And>k v h'. (k, v) \<in> set (hi @ [(h, ?b)]) \<Longrightarrow> h' \<in> set (map fst blocks) \<Longrightarrow> k < h'"
      using Cons.prems(3,9) hp by fastforce
    show "\<And>h. h \<in> set (map fst blocks) \<Longrightarrow> target < h" using Cons.prems(4) by simp
    show "length (rc_blocks r1) \<le> rc_len r1" using len r1 by simp
    show "length (hi @ [(h, ?b)]) + length blocks \<le> rc_len r1" using Cons.prems(11) r1 by simp
  qed
qed

text \<open>Restoring to a height below the indexed blocks takes exactly them out of the log.\<close>

lemma restore_indexed:
  assumes "index_blocks blocks (d, r) = Some (d', r')" and "fresh_blocks blocks d"
    and "sorted_wrt (<) (map fst blocks)" and "\<And>h. h \<in> set (map fst blocks) \<Longrightarrow> target < h"
    and "\<And>k v. (k, v) \<in> set (rc_blocks r) \<Longrightarrow> k \<le> target"
    and "length (rc_blocks r) \<le> rc_len r" and "length blocks \<le> rc_len r"
  shows "\<exists>lo hi d''. rc_blocks r' = lo @ hi
    \<and> (\<forall>(k, v)\<in>set lo. k \<le> target) \<and> (\<forall>(k, v)\<in>set hi. target < k)
    \<and> reorg_restore target (r', d') = (r'\<lparr> rc_blocks := lo \<rparr>, d'') \<and> core d'' = core d"
proof -
  have "logged d [] d" by (rule logged_Nil) simp
  then obtain lo hi where r': "rc_blocks r' = lo @ hi" and l: "logged d hi d'"
    and lo: "\<forall>(k, v)\<in>set lo. k \<le> target" and hi: "\<forall>(k, v)\<in>set hi. target < k"
    using index_blocks_logged [of blocks d r d' r' target "rc_blocks r" "[]" d] assms by auto
  obtain d'' where "reorg_restore target (r', d') = (r'\<lparr> rc_blocks := lo \<rparr>, d'')" "core d'' = core d"
    using restore_logged [OF l _ _ r', of target] lo hi by blast
  with r' lo hi show ?thesis by blast
qed

end
