(* ===== verification/ReorgProps.thy ===== *)
theory ReorgProps
  imports Reorg TokenProps
begin

text \<open>
  The properties of writing and undoing blocks, with a block of one token write as witness.
\<close>

section \<open>The outputs a log brings back\<close>

fun created :: "processed_data \<Rightarrow> outpoint set" where
  "created (PdPrevouts w ks) = dom w"
| "created _ = {}"

fun outputs_in :: "(outpoint \<rightharpoonup> tx_prevout) \<Rightarrow> processed_data \<Rightarrow> bool" where
  "outputs_in W (PdPrevouts w ks) \<longleftrightarrow> w \<subseteq>\<^sub>m W"
| "outputs_in W _ \<longleftrightarrow> True"

fun undo_prevout :: "ordinals_entry \<Rightarrow> (outpoint \<rightharpoonup> tx_prevout) \<Rightarrow> (outpoint \<rightharpoonup> tx_prevout)" where
  "undo_prevout (RestorePrevouts items) m = m ++ items"
| "undo_prevout _ m = m"

lemma restrict_add: "b \<subseteq>\<^sub>m W \<Longrightarrow> W |` S ++ b = W |` (S \<union> dom b)"
  by (force simp: map_le_def map_add_def restrict_map_def fun_eq_iff split: option.splits)

lemma map_le_restrict: "m \<subseteq>\<^sub>m W \<Longrightarrow> m = W |` dom m"
  by (force simp: map_le_def restrict_map_def fun_eq_iff)

lemma option_list_all: "option_list xs = Some ys \<Longrightarrow> x \<in> set xs \<Longrightarrow> x \<noteq> None"
proof (induction xs arbitrary: ys)
  case (Cons y xs)
  then show ?case by (cases y) auto
qed simp

lemma prevout_before_dom:
  assumes "prevout_before t w ks = Some before"
  shows "set ks \<subseteq> dom t \<union> dom w" "dom before = set ks"
proof -
  let ?f = "\<lambda>k. case t k of Some v \<Rightarrow> Some v | None \<Rightarrow> w k"
  have known: "?f k \<noteq> None" if "k \<in> set ks" for k
  proof -
    obtain ys where "option_list (map (\<lambda>k. map_option (Pair k) (?f k)) ks) = Some ys"
      using assms by (auto simp: prevout_before_def)
    from option_list_all [OF this, of "map_option (Pair k) (?f k)"] that show ?thesis by auto
  qed
  then show "set ks \<subseteq> dom t \<union> dom w" by (force split: option.splits)
  show "dom before = set ks"
  proof (rule set_eqI)
    fix k
    show "k \<in> dom before \<longleftrightarrow> k \<in> set ks"
      using known [of k] prevout_beforeD [OF assms, of k] by (cases "k \<in> set ks") auto
  qed
qed

lemma prevouts_logged:
  assumes "write_processed p (d, Some (r\<lparr> rc_blocks := bs @ [(h, b)] \<rparr>)) \<noteq> None"
    and "outputs_in W p" and "db_prevouts d \<subseteq>\<^sub>m W"
  shows "\<exists>ts os. logs p d ts os \<and> db_prevouts (written p d) \<subseteq>\<^sub>m W
    \<and> (\<forall>X. fold undo_prevout (rev os) (W |` (dom (db_prevouts (written p d)) \<union> X))
        = W |` (dom (db_prevouts d) \<union> created p \<union> X))"
proof -
  obtain ts os where L: "logs p d ts os" and os: "case p of
       PdTokens metas balances tw tr \<Rightarrow> os = []
     | PdHistory h lid history \<Rightarrow> os = []
     | PdPartials rem w \<Rightarrow> os = [RestorePartial rem, RemovePartials (dom w)]
     | PdOffsets rem w \<Rightarrow> os = [RestoreOffsets rem, RemoveOffsets (dom w)]
     | PdPrevouts w ks \<Rightarrow> (\<exists>before. prevout_before (db_prevouts d) w ks = Some before \<and> os = [RestorePrevouts before])
     | _ \<Rightarrow> os = []"
    using write_logs [OF assms(1)] by (cases p) auto
  show ?thesis
  proof (cases "\<exists>w ks. p = PdPrevouts w ks")
    case False
    then have "db_prevouts (written p d) = db_prevouts d" "created p = {}" "fold undo_prevout (rev os) m = m" for m
      using os by (cases p; auto simp: written_def Let_def)+
    with L assms(3) show ?thesis by auto
  next
    case True
    then obtain w ks before where p: "p = PdPrevouts w ks" and b: "prevout_before (db_prevouts d) w ks = Some before"
      "os = [RestorePrevouts before]" using os by auto
    have w: "w \<subseteq>\<^sub>m W" using assms(2) p by simp
    have tbl: "db_prevouts (written p d) = tbl_remove_batch (db_prevouts d ++ w) ks"
      by (simp add: p written_def)
    have le: "db_prevouts d ++ w \<subseteq>\<^sub>m W" using w assms(3) by (force simp: map_le_def map_add_def dom_def split: option.splits)
    have ks: "dom before = set ks" "before \<subseteq>\<^sub>m W" "set ks \<subseteq> dom (db_prevouts d) \<union> dom w"
    proof -
      show "dom before = set ks" "set ks \<subseteq> dom (db_prevouts d) \<union> dom w" using prevout_before_dom [OF b(1)] by auto
      show "before \<subseteq>\<^sub>m W"
        unfolding map_le_def
      proof
        fix k assume "k \<in> dom before"
        then have "k \<in> set ks" using prevout_before_dom [OF b(1)] by simp
        then show "before k = W k"
          using prevout_beforeD(1) [OF b(1)] prevout_before_dom(1) [OF b(1)] w assms(3)
          by (auto simp: map_le_def dom_def split: option.splits)
      qed
    qed
    have wr: "db_prevouts (written p d) \<subseteq>\<^sub>m W" "dom (db_prevouts (written p d)) = dom (db_prevouts d) \<union> dom w - set ks"
    proof -
      have "tbl_remove_batch (db_prevouts d ++ w) ks \<subseteq>\<^sub>m db_prevouts d ++ w"
        by (auto simp: map_le_def tbl_remove_batch_apply split: if_splits)
      with le show "db_prevouts (written p d) \<subseteq>\<^sub>m W" unfolding tbl by (rule map_le_trans [rotated])
      have "dom (tbl_remove_batch m ks) = dom m - set ks" for m :: "outpoint \<rightharpoonup> tx_prevout"
        by (auto simp: tbl_remove_batch_apply split: if_splits)
      then show "dom (db_prevouts (written p d)) = dom (db_prevouts d) \<union> dom w - set ks" unfolding tbl by auto
    qed
    have "W |` (dom (db_prevouts (written p d)) \<union> X) ++ before = W |` (dom (db_prevouts d) \<union> dom w \<union> X)" for X
      unfolding restrict_add [OF ks(2)] wr(2) using ks(1, 3) by (auto intro: arg_cong [where f = "restrict_map W"])
    with L wr(1) show ?thesis by (intro exI [of _ ts] exI [of _ os]) (simp add: b(2) p)
  qed
qed

text \<open>All the writes of a block: what they append to the last entry of the log, and what undoing that does to
  the outputs.\<close>

lemma write_all_prevouts:
  assumes "write_all ps (d, Some (r\<lparr> rc_blocks := bs @ [(h, b)] \<rparr>)) = Some (d', rc')"
  shows "\<exists>ts os. rc' = Some (r\<lparr> rc_blocks := bs @ [(h, b\<lparr> rb_token_history := rb_token_history b @ ts,
      rb_ordinals_history := rb_ordinals_history b @ os \<rparr>)] \<rparr>)
    \<and> ((\<forall>p \<in> set ps. outputs_in W p) \<and> db_prevouts d \<subseteq>\<^sub>m W \<longrightarrow> db_prevouts d' \<subseteq>\<^sub>m W
      \<and> (\<forall>X. fold undo_prevout (rev os) (W |` (dom (db_prevouts d') \<union> X))
          = W |` (dom (db_prevouts d) \<union> \<Union> (created ` set ps) \<union> X)))"
  using assms
proof (induction ps arbitrary: d b)
  case Nil
  then show ?case by (intro exI [of _ "[]"]) simp
next
  case (Cons p ps)
  let ?rc = "Some (r\<lparr> rc_blocks := bs @ [(h, b)] \<rparr>)"
  have np: "write_processed p (d, ?rc) \<noteq> None"
    using Cons.prems by (cases "write_processed p (d, ?rc)") auto
  have "\<exists>ts os. logs p d ts os \<and> (outputs_in W p \<and> db_prevouts d \<subseteq>\<^sub>m W \<longrightarrow> db_prevouts (written p d) \<subseteq>\<^sub>m W
    \<and> (\<forall>X. fold undo_prevout (rev os) (W |` (dom (db_prevouts (written p d)) \<union> X))
        = W |` (dom (db_prevouts d) \<union> created p \<union> X)))"
    using prevouts_logged [OF np] write_logs [OF np] by meson
  then obtain ts os where l: "logs p d ts os" and u: "outputs_in W p \<and> db_prevouts d \<subseteq>\<^sub>m W \<longrightarrow>
      db_prevouts (written p d) \<subseteq>\<^sub>m W \<and> (\<forall>X. fold undo_prevout (rev os) (W |` (dom (db_prevouts (written p d)) \<union> X))
        = W |` (dom (db_prevouts d) \<union> created p \<union> X))" by blast
  let ?b = "b\<lparr> rb_token_history := rb_token_history b @ ts, rb_ordinals_history := rb_ordinals_history b @ os \<rparr>"
  have "write_all ps (written p d, Some (r\<lparr> rc_blocks := bs @ [(h, ?b)] \<rparr>)) = Some (d', rc')"
    using l Cons.prems by (simp add: logs_def)
  from Cons.IH [OF this] obtain ts' os' where rc': "rc' = Some (r\<lparr> rc_blocks := bs @ [(h, ?b
        \<lparr> rb_token_history := rb_token_history ?b @ ts', rb_ordinals_history := rb_ordinals_history ?b @ os' \<rparr>)] \<rparr>)"
    and u': "(\<forall>p \<in> set ps. outputs_in W p) \<and> db_prevouts (written p d) \<subseteq>\<^sub>m W \<longrightarrow> db_prevouts d' \<subseteq>\<^sub>m W
      \<and> (\<forall>X. fold undo_prevout (rev os') (W |` (dom (db_prevouts d') \<union> X))
          = W |` (dom (db_prevouts (written p d)) \<union> \<Union> (created ` set ps) \<union> X))" by blast
  have "db_prevouts d' \<subseteq>\<^sub>m W \<and> (\<forall>X. fold undo_prevout (rev (os @ os')) (W |` (dom (db_prevouts d') \<union> X))
          = W |` (dom (db_prevouts d) \<union> \<Union> (created ` set (p # ps)) \<union> X))"
    if c: "\<forall>q \<in> set (p # ps). outputs_in W q" "db_prevouts d \<subseteq>\<^sub>m W"
    using u u' c by (auto simp: Un_assoc)
  with rc' show ?case by (intro exI [of _ "ts @ ts'"] exI [of _ "os @ os'"]) auto
qed

section \<open>The log after any number of blocks\<close>

definition undone_prevouts :: "reorg_blocks \<Rightarrow> (outpoint \<rightharpoonup> tx_prevout) \<Rightarrow> (outpoint \<rightharpoonup> tx_prevout)" where
  "undone_prevouts bs m = foldr (\<lambda>(h, b). fold undo_prevout (rev (rb_ordinals_history b))) bs m"

definition created_by :: "(u32 \<times> processed_data list) list \<Rightarrow> outpoint set" where
  "created_by blocks = (\<Union>(h, ps) \<in> set blocks. \<Union> (created ` set ps))"

lemma undo_block_prevouts:
  "db_prevouts (undo_block h b d) = fold undo_prevout (rev (rb_ordinals_history b)) (db_prevouts d)"
proof -
  have o: "db_prevouts (fold ordinals_entry_proceed es x) = fold undo_prevout es (db_prevouts x)" for es x
  proof (induction es arbitrary: x)
    case (Cons e es)
    have "db_prevouts (ordinals_entry_proceed e x) = undo_prevout e (db_prevouts x)" by (cases e) simp_all
    with Cons show ?case by simp
  qed simp
  have t: "db_prevouts (fold token_entry_proceed es x) = db_prevouts x" for es x
  proof (induction es arbitrary: x)
    case (Cons e es)
    have "db_prevouts (token_entry_proceed e x) = db_prevouts x" by (cases e) simp_all
    with Cons show ?case by simp
  qed simp
  show ?thesis by (simp add: undo_block_def o t)
qed

lemma restore_prevouts:
  assumes "\<And>k v. (k, v) \<in> set high \<Longrightarrow> target < k" and "\<And>k v. (k, v) \<in> set low \<Longrightarrow> k \<le> target"
    and "rc_blocks r = low @ high"
  shows "db_prevouts (snd (reorg_restore target (r, d))) = undone_prevouts high (db_prevouts d)"
  using assms
proof (induction high arbitrary: d r rule: rev_induct)
  case Nil
  have "\<not> (rc_blocks r \<noteq> [] \<and> target < fst (last (rc_blocks r)))"
  proof (cases "low = []")
    case False
    then have "last low \<in> set low" by simp
    with Nil.prems(2) [of "fst (last low)" "snd (last low)"] Nil.prems(3) show ?thesis by auto
  qed (use Nil.prems in simp)
  then show ?case by (subst reorg_restore.simps) (auto simp: undone_prevouts_def)
next
  case (snoc hb high)
  obtain h b where hb: "hb = (h, b)" by (cases hb)
  let ?r = "r\<lparr> rc_blocks := low @ high \<rparr>"
  have "db_prevouts (snd (reorg_restore target (?r, undo_block h b d))) = undone_prevouts high (db_prevouts (undo_block h b d))"
    by (rule snoc.IH) (use snoc.prems in auto)
  moreover have "target < h" using snoc.prems(1) hb by auto
  ultimately show ?case
    using snoc.prems(3) hb
    by (simp add: reorg_restore.simps [of target r] butlast_append undo_block_prevouts undone_prevouts_def)
qed

lemma new_block_heights:
  assumes "\<And>k. k \<in> fst ` set (rc_blocks r) \<Longrightarrow> k < h" and "length (rc_blocks r) \<le> rc_len r" and "0 < rc_len r"
  shows "\<exists>j. reorg_new_block h r = r\<lparr> rc_blocks := drop j (rc_blocks r) @ [(h, reorg_history_block_new)] \<rparr>
    \<and> j \<le> length (rc_blocks r) \<and> length (rc_blocks r) - j < rc_len r
    \<and> (j = 0 \<or> length (rc_blocks r) - j + 1 = rc_len r)"
proof (cases "length (rc_blocks r) = rc_len r")
  case True
  with assms(3) obtain x bs where bs: "rc_blocks r = x # bs" by (cases "rc_blocks r") auto
  have "bt_insert h reorg_history_block_new bs = bs @ [(h, reorg_history_block_new)]"
    by (rule bt_insert_last) (simp add: assms(1) bs rev_image_eqI)
  with True bs show ?thesis by (intro exI [of _ 1]) (simp add: reorg_new_block_def)
next
  case False
  have "bt_insert h reorg_history_block_new (rc_blocks r) = rc_blocks r @ [(h, reorg_history_block_new)]"
    by (rule bt_insert_last) (simp add: assms(1) rev_image_eqI)
  with False assms(2) show ?thesis by (intro exI [of _ 0]) (simp add: reorg_new_block_def)
qed

lemma index_blocks_entries:
  assumes "index_blocks blocks (d, r) = Some (d', r')" and "sorted_wrt (<) (map fst (rc_blocks r) @ map fst blocks)"
    and "length (rc_blocks r) \<le> rc_len r" and "0 < rc_len r"
  shows "\<exists>j hi. rc_blocks r' = drop j (rc_blocks r @ hi) \<and> map fst hi = map fst blocks \<and> rc_len r' = rc_len r
    \<and> length (rc_blocks r') \<le> rc_len r \<and> (j = 0 \<or> length (rc_blocks r') = rc_len r)
    \<and> ((\<forall>(h, ps) \<in> set blocks. \<forall>p \<in> set ps. outputs_in W p) \<and> db_prevouts d \<subseteq>\<^sub>m W \<longrightarrow>
        undone_prevouts hi (db_prevouts d') = W |` (dom (db_prevouts d) \<union> created_by blocks))"
  using assms
proof (induction blocks arbitrary: d r)
  case Nil
  then show ?case
    by (intro exI [of _ 0] exI [of _ "[]"]) (auto simp: undone_prevouts_def created_by_def map_le_restrict)
next
  case (Cons hp blocks)
  obtain h ps where hp: "hp = (h, ps)" by (cases hp)
  obtain d1 r1 where w: "write_all ps (d, Some (reorg_new_block h r)) = Some (d1, Some r1)"
    and rest: "index_blocks blocks (d1, r1) = Some (d', r')"
    using Cons.prems(1) hp by (auto split: option.splits prod.splits)
  obtain j where new: "reorg_new_block h r = r\<lparr> rc_blocks := drop j (rc_blocks r) @ [(h, reorg_history_block_new)] \<rparr>"
    "j \<le> length (rc_blocks r)" "length (rc_blocks r) - j < rc_len r" "j = 0 \<or> length (rc_blocks r) - j + 1 = rc_len r"
    using new_block_heights [of r h] Cons.prems(2, 3, 4) hp by (auto simp: sorted_wrt_append)
  obtain ts os where r1: "r1 = r\<lparr> rc_blocks := drop j (rc_blocks r) @ [(h, \<lparr> rb_token_history = ts, rb_ordinals_history = os \<rparr>)] \<rparr>"
    and u: "(\<forall>p \<in> set ps. outputs_in W p) \<and> db_prevouts d \<subseteq>\<^sub>m W \<longrightarrow> db_prevouts d1 \<subseteq>\<^sub>m W
      \<and> (\<forall>X. fold undo_prevout (rev os) (W |` (dom (db_prevouts d1) \<union> X))
          = W |` (dom (db_prevouts d) \<union> \<Union> (created ` set ps) \<union> X))"
    using write_all_prevouts [OF w [unfolded new(1)], of W] by (auto simp: reorg_history_block_new_def)
  let ?e = "(h, \<lparr> rb_token_history = ts, rb_ordinals_history = os \<rparr>)"
  have s1: "sorted_wrt (<) (map fst (rc_blocks r1) @ map fst blocks)"
    using sorted_wrt_drop [OF Cons.prems(2), of j] new(2) hp by (simp add: r1 drop_map)
  have lens: "length (rc_blocks r1) \<le> rc_len r1" "0 < rc_len r1" using new(2, 3) by (simp_all add: r1)
  obtain j1 hi where IH: "rc_blocks r' = drop j1 (rc_blocks r1 @ hi)" "map fst hi = map fst blocks" "rc_len r' = rc_len r1"
    "length (rc_blocks r') \<le> rc_len r1" "j1 = 0 \<or> length (rc_blocks r') = rc_len r1"
    "(\<forall>(h, ps) \<in> set blocks. \<forall>p \<in> set ps. outputs_in W p) \<and> db_prevouts d1 \<subseteq>\<^sub>m W \<longrightarrow>
        undone_prevouts hi (db_prevouts d') = W |` (dom (db_prevouts d1) \<union> created_by blocks)"
    using Cons.IH [OF rest s1 lens] by (elim exE conjE) (rule that)
  have "rc_blocks r1 @ hi = drop j (rc_blocks r @ ?e # hi)" using new(2) by (simp add: r1)
  moreover have "j1 + j = 0 \<or> length (rc_blocks r') = rc_len r"
    using IH(1, 4, 5) new(2, 4) by (auto simp: r1)
  moreover have "undone_prevouts (?e # hi) (db_prevouts d') = W |` (dom (db_prevouts d) \<union> created_by (hp # blocks))"
    if "\<forall>(h, ps) \<in> set (hp # blocks). \<forall>p \<in> set ps. outputs_in W p" "db_prevouts d \<subseteq>\<^sub>m W"
    using that u IH(6) by (simp add: hp undone_prevouts_def created_by_def Un_assoc)
  moreover have "rc_blocks r' = drop (j1 + j) (rc_blocks r @ ?e # hi)"
    unfolding IH(1) calculation(1) by (simp only: drop_drop)
  moreover have "map fst (?e # hi) = map fst (hp # blocks)" "rc_len r' = rc_len r" "length (rc_blocks r') \<le> rc_len r"
    using IH(2 - 4) by (simp_all add: r1 hp)
  ultimately show ?case by (intro exI [of _ "j1 + j"] exI [of _ "?e # hi"] conjI impI) blast+
qed

section \<open>Splitting at the blocks a restore takes back\<close>

lemma sorted_wrt_drop_append: "sorted_wrt P (xs @ ys) \<Longrightarrow> sorted_wrt P (drop j xs @ ys)"
  using sorted_wrt_drop [of P "xs @ ys" j] by (cases "j \<le> length xs") (simp_all add: sorted_wrt_append)

lemma sorted_wrt_take_append: "sorted_wrt P (xs @ ys) \<Longrightarrow> sorted_wrt P (xs @ take j ys)"
  using sorted_wrt_take [of P "xs @ ys" "length xs + j"] by simp

lemma taken_sorted:
  "sorted_wrt (<) (map fst rs @ map fst blocks) \<Longrightarrow> sorted_wrt (<) (map fst rs @ map fst (take m blocks))"
  unfolding take_map [symmetric] by (rule sorted_wrt_take_append)

lemma index_blocks_append:
  "index_blocks (xs @ ys) s = Option.bind (index_blocks xs s) (index_blocks ys)"
  by (induction xs s rule: index_blocks.induct) (auto split: option.split prod.split)

lemma fresh_blocks_append:
  "fresh_blocks (xs @ ys) d \<longleftrightarrow> fresh_blocks xs d \<and> fresh_blocks ys (fold (\<lambda>(h, ps). fold written ps) xs d)"
  by (induction xs d rule: fresh_blocks.induct) auto

lemma index_blocks_written:
  assumes "index_blocks blocks (d, r) = Some (d', r')" and "sorted_wrt (<) (map fst (rc_blocks r) @ map fst blocks)"
    and "length (rc_blocks r) \<le> rc_len r" and "0 < rc_len r"
  shows "d' = fold (\<lambda>(h, ps). fold written ps) blocks d"
  using assms
proof (induction blocks arbitrary: d r)
  case (Cons hp blocks)
  obtain h ps where hp: "hp = (h, ps)" by (cases hp)
  obtain d1 r1 where w: "write_all ps (d, Some (reorg_new_block h r)) = Some (d1, Some r1)"
    and rest: "index_blocks blocks (d1, r1) = Some (d', r')"
    using Cons.prems(1) hp by (auto split: option.splits prod.splits)
  have one: "index_blocks [hp] (d, r) = Some (d1, r1)" using w by (simp add: hp)
  have "sorted_wrt (<) (map fst (rc_blocks r) @ map fst [hp])" using Cons.prems(2) by (simp add: sorted_wrt_append)
  from index_blocks_entries [OF one this Cons.prems(3, 4)] obtain j hi where e: "rc_blocks r1 = drop j (rc_blocks r @ hi)"
    "map fst hi = map fst [hp]" "rc_len r1 = rc_len r" "length (rc_blocks r1) \<le> rc_len r" by blast
  have "map fst (rc_blocks r1) @ map fst blocks = drop j (map fst (rc_blocks r) @ map fst [hp]) @ map fst blocks"
    unfolding e(1) by (simp only: drop_map [symmetric] map_append e(2))
  also have "sorted_wrt (<) \<dots>"
    by (rule sorted_wrt_drop_append) (use Cons.prems(2) in simp)
  finally have "d' = fold (\<lambda>(h, ps). fold written ps) blocks d1"
    using Cons.prems(4) e(3, 4) by (intro Cons.IH [OF rest]) simp_all
  moreover have "d1 = fold written ps d"
  proof -
    obtain j where "reorg_new_block h r = r\<lparr> rc_blocks := drop j (rc_blocks r) @ [(h, reorg_history_block_new)] \<rparr>"
      using new_block_heights [of r h] Cons.prems(2, 3, 4) hp by (auto simp: sorted_wrt_append)
    from write_all_written [OF w [unfolded this]] show ?thesis .
  qed
  ultimately show ?case by (simp add: hp)
qed simp

lemma sorted_split:
  fixes t :: "'a::linorder"
  shows "sorted_wrt (<) (map fst xs) \<Longrightarrow> xs = filter (\<lambda>(h, v). h \<le> t) xs @ filter (\<lambda>(h, v). t < h) xs"
proof (induction xs)
  case (Cons x xs)
  show ?case
  proof (cases "fst x \<le> t")
    case True
    with Cons show ?thesis by (auto simp: split_def)
  next
    case False
    then have "filter (\<lambda>(h, v). h \<le> t) xs = []" using Cons.prems by (fastforce simp: filter_empty_conv)
    with False Cons show ?thesis by (auto simp: split_def)
  qed
qed simp

lemma sorted_above:
  fixes t :: "'a::linorder"
  assumes "sorted_wrt (<) (map fst xs)"
  defines "n \<equiv> length xs - length (filter (\<lambda>(h, v). t < h) xs)"
  shows "(k, v) \<in> set (drop n xs) \<Longrightarrow> t < k" and "(k, v) \<in> set (take n xs) \<Longrightarrow> k \<le> t"
proof -
  let ?lo = "filter (\<lambda>(h, v). h \<le> t) xs" and ?hi = "filter (\<lambda>(h, v). t < h) xs"
  note s = sorted_split [OF assms(1), of t]
  have "n = length ?lo" unfolding n_def by (subst s) simp
  then have "drop n xs = ?hi" "take n xs = ?lo" by (subst s, simp)+
  then show "(k, v) \<in> set (drop n xs) \<Longrightarrow> t < k" "(k, v) \<in> set (take n xs) \<Longrightarrow> k \<le> t" by auto
qed

text \<open>What a restore takes back: the blocks above its target, of those the last ones for which the log has
  room.\<close>

definition undone_count :: "(u32 \<times> processed_data list) list \<Rightarrow> u32 \<Rightarrow> reorg_cache \<Rightarrow> nat" where
  "undone_count blocks target r = min (length (filter (\<lambda>(h, ps). target < h) blocks)) (rc_len r)"

lemma restore_split:
  assumes i: "index_blocks blocks (d, r) = Some (d', r')" and s: "sorted_wrt (<) (map fst (rc_blocks r) @ map fst blocks)"
    and old: "\<And>k v. (k, v) \<in> set (rc_blocks r) \<Longrightarrow> k \<le> target"
    and len: "length (rc_blocks r) \<le> rc_len r" "0 < rc_len r"
  defines "m \<equiv> length blocks - undone_count blocks target r"
  shows "\<exists>dm rm low high. index_blocks (take m blocks) (d, r) = Some (dm, rm)
    \<and> index_blocks (drop m blocks) (dm, rm) = Some (d', r') \<and> rc_len rm = rc_len r
    \<and> length (rc_blocks rm) \<le> rc_len r \<and> sorted_wrt (<) (map fst (rc_blocks rm) @ map fst (drop m blocks))
    \<and> rc_blocks r' = low @ high \<and> set low \<subseteq> set (rc_blocks rm) \<and> map fst high = map fst (drop m blocks)
    \<and> (\<forall>(k, v) \<in> set low. k \<le> target) \<and> (\<forall>(k, v) \<in> set high. target < k)
    \<and> ((\<forall>(h, ps) \<in> set (drop m blocks). \<forall>p \<in> set ps. outputs_in W p) \<and> db_prevouts dm \<subseteq>\<^sub>m W \<longrightarrow>
        undone_prevouts high (db_prevouts d') = W |` (dom (db_prevouts dm) \<union> created_by (drop m blocks)))"
proof -
  have split: "Option.bind (index_blocks (take m blocks) (d, r)) (index_blocks (drop m blocks)) = Some (d', r')"
    using i by (simp flip: index_blocks_append)
  then obtain dm rm where a: "index_blocks (take m blocks) (d, r) = Some (dm, rm)"
    and b: "index_blocks (drop m blocks) (dm, rm) = Some (d', r')" by (auto simp: bind_eq_Some_conv)
  have s1: "sorted_wrt (<) (map fst (rc_blocks r) @ map fst (take m blocks))"
    by (rule taken_sorted [OF s])
  obtain j1 hi1 where e1: "rc_blocks rm = drop j1 (rc_blocks r @ hi1)" "map fst hi1 = map fst (take m blocks)"
    "rc_len rm = rc_len r" "length (rc_blocks rm) \<le> rc_len r"
    using index_blocks_entries [OF a s1 len] by blast
  have "map fst (rc_blocks rm) @ map fst (drop m blocks) = drop j1 (map fst (rc_blocks r) @ map fst (take m blocks)) @ map fst (drop m blocks)"
    unfolding e1(1) by (simp only: drop_map [symmetric] map_append e1(2))
  also have "sorted_wrt (<) \<dots>"
    by (rule sorted_wrt_drop_append) (use s in \<open>simp flip: map_append\<close>)
  finally have s2: "sorted_wrt (<) (map fst (rc_blocks rm) @ map fst (drop m blocks))" .
  have len2: "length (rc_blocks rm) \<le> rc_len rm" "0 < rc_len rm" using e1 len by simp_all
  obtain j2 hi2 where e2: "rc_blocks r' = drop j2 (rc_blocks rm @ hi2)" "map fst hi2 = map fst (drop m blocks)"
    "length (rc_blocks r') \<le> rc_len rm" "j2 = 0 \<or> length (rc_blocks r') = rc_len rm"
    "(\<forall>(h, ps) \<in> set (drop m blocks). \<forall>p \<in> set ps. outputs_in W p) \<and> db_prevouts dm \<subseteq>\<^sub>m W \<longrightarrow>
        undone_prevouts hi2 (db_prevouts d') = W |` (dom (db_prevouts dm) \<union> created_by (drop m blocks))"
    using index_blocks_entries [OF b s2 len2, of W] by blast
  let ?n = "length (filter (\<lambda>(h, ps). target < h) blocks)"
  have k: "undone_count blocks target r \<le> ?n" "?n \<le> length blocks" "undone_count blocks target r \<le> rc_len r"
    by (simp_all add: undone_count_def)
  have l2: "length hi2 = undone_count blocks target r"
    using arg_cong [OF e2(2), of length] k unfolding m_def by simp
  have j2: "j2 \<le> length (rc_blocks rm)"
  proof (rule ccontr)
    assume nj: "\<not> j2 \<le> length (rc_blocks rm)"
    with e2(4) have "length (rc_blocks r') = rc_len r" using e1(3) by auto
    moreover have "length (rc_blocks r') = length (rc_blocks rm) + length hi2 - j2" unfolding e2(1) by simp
    ultimately show False using nj l2 k(3) len(2) by linarith
  qed
  have sb: "sorted_wrt (<) (map fst blocks)" using s by (simp add: sorted_wrt_append)
  have high: "target < h" if "(h, v) \<in> set hi2" for h v
  proof -
    from that have "h \<in> fst ` set (drop m blocks)" using arg_cong [OF e2(2), of set] by force
    then obtain ps where "(h, ps) \<in> set (drop m blocks)" by force
    moreover have "set (drop m blocks) \<subseteq> set (drop (length blocks - ?n) blocks)"
      by (rule set_drop_subset_set_drop) (use k in \<open>simp add: m_def\<close>)
    ultimately show ?thesis using sorted_above(1) [OF sb] by blast
  qed
  have low: "h \<le> target" if "(h, v) \<in> set (drop j2 (rc_blocks rm))" for h v
  proof (cases "?n \<le> rc_len r")
    case True
    then have m: "m = length blocks - ?n" by (simp add: m_def undone_count_def)
    from that have "(h, v) \<in> set (rc_blocks r) \<union> set hi1"
      unfolding e1(1) by (auto dest: in_set_dropD simp: drop_append)
    then show ?thesis
    proof
      assume "(h, v) \<in> set hi1"
      then have "h \<in> fst ` set (take m blocks)" using arg_cong [OF e1(2), of set] by force
      then obtain ps where "(h, ps) \<in> set (take m blocks)" by force
      then show ?thesis unfolding m using sorted_above(2) [OF sb] by blast
    qed (use old in blast)
  next
    case False
    then have "length hi2 = rc_len rm" using l2 e1(3) by (simp add: undone_count_def)
    with e2(1, 3) j2 have "drop j2 (rc_blocks rm) = []" by simp
    with that show ?thesis by simp
  qed
  have "rc_blocks r' = drop j2 (rc_blocks rm) @ hi2" using e2(1) j2 by simp
  with a b e1(3, 4) s2 e2(2, 5) high low set_drop_subset [of j2 "rc_blocks rm"] show ?thesis
    by (intro exI [of _ dm] exI [of _ rm] exI [of _ "drop j2 (rc_blocks rm)"] exI [of _ hi2] conjI) auto
qed

lemma split_unique:
  assumes "xs @ ys = us @ vs" and "\<forall>x \<in> set xs. P x" and "\<forall>y \<in> set ys. \<not> P y"
    and "\<forall>x \<in> set us. P x" and "\<forall>y \<in> set vs. \<not> P y"
  shows "ys = vs"
proof -
  have d: "dropWhile P (as @ bs) = bs" if "\<forall>x \<in> set as. P x" "\<forall>y \<in> set bs. \<not> P y" for as bs
    using that by (cases bs) (simp_all add: dropWhile_append2)
  show ?thesis using d [OF assms(2, 3)] d [OF assms(4, 5)] assms(1) by simp
qed

lemma restore_core:
  assumes i: "index_blocks blocks (d, r) = Some (d', r')" and f: "fresh_blocks blocks d"
    and s: "sorted_wrt (<) (map fst (rc_blocks r) @ map fst blocks)" and len: "length (rc_blocks r) \<le> rc_len r" "length blocks \<le> rc_len r"
    and r': "rc_blocks r' = low @ high" "set low \<subseteq> set (rc_blocks r)" "map fst high = map fst blocks"
    and t: "\<forall>(k, v) \<in> set low. k \<le> target" "\<forall>(k, v) \<in> set high. target < k"
  shows "\<exists>d''. reorg_restore target (r', d') = (r'\<lparr> rc_blocks := low \<rparr>, d'') \<and> core d'' = core d"
proof (cases blocks)
  case Nil
  then have "d' = d" "high = []" using i r'(3) by simp_all
  then have "logged d high d'" by (simp add: logged_Nil)
  from restore_logged [OF this _ _ r'(1), of target] t show ?thesis by blast
next
  case (Cons hp bs)
  let ?h = "fst hp"
  have "hp \<in> set blocks" using Cons by simp
  then have "?h \<in> set (map fst high)" unfolding r'(3) by simp
  then have th: "target < ?h" using t(2) by auto
  let ?t = "?h - 1"
  have pred: "k \<le> ?t \<longleftrightarrow> k < ?h" for k
  proof -
    have "?h \<noteq> 0" using th by auto
    then have "unat (?h - 1) = unat ?h - 1" "0 < unat ?h" by (simp_all add: unat_minus_one unat_gt_0)
    then show ?thesis by (simp add: word_le_nat_alt word_less_nat_alt) linarith
  qed
  have lo: "k \<le> ?t" if "(k, v) \<in> set (rc_blocks r)" for k v
    using s that Cons unfolding pred by (fastforce simp: sorted_wrt_append)
  have hi: "?t < h" if "h \<in> set (map fst blocks)" for h
    using s that Cons pred [of h] by (auto simp: sorted_wrt_append not_le [symmetric])
  obtain lo' hi' where e: "rc_blocks r' = lo' @ hi'" "logged d hi' d'" "\<forall>(k, v)\<in>set lo'. k \<le> ?t" "\<forall>(k, v)\<in>set hi'. ?t < k"
    using index_blocks_logged [OF i f _ hi, of "rc_blocks r" "[]" d] s len lo logged_Nil [of d d]
    by (auto simp: sorted_wrt_append)
  have high: "?t < k" if "(k, v) \<in> set high" for k v
    using hi [of k] arg_cong [OF r'(3), of set] that by force
  have "\<forall>x \<in> set low. fst x \<le> ?t" "\<forall>x \<in> set high. \<not> fst x \<le> ?t" "\<forall>x \<in> set lo'. fst x \<le> ?t" "\<forall>x \<in> set hi'. \<not> fst x \<le> ?t"
    using e(3, 4) high lo r'(2) by (auto simp: not_le)
  with e(1) r'(1) have "hi' = high" by (intro split_unique [of lo' hi' low high "\<lambda>x. fst x \<le> ?t"]) simp_all
  with e(2) have "logged d high d'" by simp
  from restore_logged [OF this _ _ r'(1), of target] t show ?thesis by blast
qed

lemma written_blocks_prevouts:
  assumes "db_prevouts d \<subseteq>\<^sub>m W" and "\<And>h ps p. (h, ps) \<in> set blocks \<Longrightarrow> p \<in> set ps \<Longrightarrow> outputs_in W p"
  shows "db_prevouts (fold (\<lambda>(h, ps). fold written ps) blocks d) \<subseteq>\<^sub>m W"
proof -
  have one: "db_prevouts (written p d) \<subseteq>\<^sub>m W" if "db_prevouts d \<subseteq>\<^sub>m W" "outputs_in W p" for p d
  proof (cases "\<exists>w ks. p = PdPrevouts w ks")
    case True
    then obtain w ks where "p = PdPrevouts w ks" by blast
    moreover have "tbl_remove_batch m ks \<subseteq>\<^sub>m m" for m :: "outpoint \<rightharpoonup> tx_prevout"
      by (auto simp: map_le_def tbl_remove_batch_apply split: if_splits)
    moreover have "db_prevouts d ++ w \<subseteq>\<^sub>m W" if "w \<subseteq>\<^sub>m W"
      using that \<open>db_prevouts d \<subseteq>\<^sub>m W\<close> by (force simp: map_le_def map_add_def dom_def split: option.splits)
    ultimately show ?thesis using that(2) by (auto simp: written_def intro: map_le_trans)
  next
    case False
    then have "db_prevouts (written p d) = db_prevouts d" by (cases p; auto simp: written_def Let_def)
    with that show ?thesis by simp
  qed
  have all: "db_prevouts (fold written ps d) \<subseteq>\<^sub>m W" if "db_prevouts d \<subseteq>\<^sub>m W" "\<forall>p \<in> set ps. outputs_in W p" for ps d
    using that one by (induction ps arbitrary: d) auto
  show ?thesis using assms
  proof (induction blocks arbitrary: d)
    case (Cons hp blocks)
    obtain h ps where hp: "hp = (h, ps)" by (cases hp)
    have "db_prevouts (fold written ps d) \<subseteq>\<^sub>m W" using Cons.prems hp by (intro all) auto
    moreover have "outputs_in W p" if "(h', ps') \<in> set blocks" "p \<in> set ps'" for h' ps' p
      using Cons.prems(2) [of h' ps' p] that by simp
    ultimately have "db_prevouts (fold (\<lambda>(h, ps). fold written ps) blocks (fold written ps d)) \<subseteq>\<^sub>m W"
      by (rule Cons.IH)
    then show ?case by (simp add: hp)
  qed simp
qed

section \<open>Properties\<close>

text \<open>C5.  Indexing any number of blocks with the undo log on, over a log with entries up to the target only,
  and then restoring to the target: the blocks above the target are taken back, of those the last
  ones that the log has room for, and the tokens, balances, transfers, history, events, partial
  inscriptions and offsets are those of the database after the blocks before these, provided that
  every block writes fresh keys only: new outputs, new history ids, events at outpoints and a height
  without events, and transfers, partial inscriptions and offsets only at places that were empty or
  that it had loaded.\<close>

theorem restore_undoes_blocks:
  assumes "index_blocks blocks (d, r) = Some (d', r')" and "fresh_blocks blocks d"
    and "sorted_wrt (<) (map fst (rc_blocks r) @ map fst blocks)" and "\<And>k v. (k, v) \<in> set (rc_blocks r) \<Longrightarrow> k \<le> target"
    and "length (rc_blocks r) \<le> rc_len r" and "0 < rc_len r"
  defines "m \<equiv> length blocks - min (length (filter (\<lambda>(h, ps). target < h) blocks)) (rc_len r)"
  shows "\<exists>dm rm r'' d''. index_blocks (take m blocks) (d, r) = Some (dm, rm)
    \<and> reorg_restore target (r', d') = (r'', d'') \<and> core d'' = core dm
    \<and> (\<forall>(k, v) \<in> set (rc_blocks r''). k \<le> target)"
proof -
  have m: "m = length blocks - undone_count blocks target r" by (simp add: m_def undone_count_def)
  obtain dm rm low high where s: "index_blocks (take m blocks) (d, r) = Some (dm, rm)"
    "index_blocks (drop m blocks) (dm, rm) = Some (d', r')" "rc_len rm = rc_len r" "length (rc_blocks rm) \<le> rc_len r"
    "sorted_wrt (<) (map fst (rc_blocks rm) @ map fst (drop m blocks))"
    "rc_blocks r' = low @ high" "set low \<subseteq> set (rc_blocks rm)" "map fst high = map fst (drop m blocks)"
    "\<forall>(k, v) \<in> set low. k \<le> target" "\<forall>(k, v) \<in> set high. target < k"
    using restore_split [OF assms(1, 3) _ assms(5, 6), of target] assms(4) unfolding m by blast
  have "dm = fold (\<lambda>(h, ps). fold written ps) (take m blocks) d"
    by (rule index_blocks_written [OF s(1) taken_sorted [OF assms(3)] assms(5, 6)])
  then have "fresh_blocks (drop m blocks) dm"
    using assms(2) fresh_blocks_append [of "take m blocks" "drop m blocks" d] by simp
  moreover have "length (drop m blocks) \<le> rc_len rm" using s(3) by (simp add: m_def)
  ultimately obtain d'' where "reorg_restore target (r', d') = (r'\<lparr> rc_blocks := low \<rparr>, d'')" "core d'' = core dm"
    using restore_core [OF s(2) _ s(5) _ _ s(6 - 10)] s(3, 4) by auto
  with s(1, 9) show ?thesis by (intro exI [of _ dm] exI [of _ rm] exI [of _ "r'\<lparr> rc_blocks := low \<rparr>"] exI [of _ d'']) simp
qed

definition db_empty :: db where
  "db_empty = \<lparr> db_token_to_meta = Map.empty, db_transfers = Map.empty, db_balances = Map.empty,
     db_history = Map.empty, db_block_info = Map.empty, db_prevouts = Map.empty,
     db_partials = Map.empty, db_offsets = Map.empty, db_last_block = None, db_last_history_id = None,
     db_proof_of_history = Map.empty, db_block_events = Map.empty, db_addresses = Map.empty,
     db_outpoint_to_event = Map.empty, db_token_id_to_event = Map.empty \<rparr>"

definition example_outpoint :: outpoint where
  "example_outpoint = \<lparr> op_txid = replicate 32 8, op_vout = 0 \<rparr>"

definition example_writes :: "(u32 \<times> processed_data list) list" where
  "example_writes = [(5, [PdTokens [[119] \<mapsto> example_meta] [example_key \<mapsto> example_account] Map.empty {},
     PdInfo 5 block_info_default []])]"

definition short_log :: reorg_cache where
  "short_log = reorg_cache_new\<lparr> rc_len := 1 \<rparr>"

definition example_log :: "u32 \<Rightarrow> token_history_entry list \<Rightarrow> ordinals_entry list \<Rightarrow> reorg_cache" where
  "example_log h ts os = short_log\<lparr> rc_blocks := [(h, \<lparr> rb_token_history = ts, rb_ordinals_history = os \<rparr>)] \<rparr>"

lemma example_log_new: "reorg_new_block h (example_log k ts os) = example_log h [] []" "reorg_new_block h short_log = example_log h [] []"
  by (simp_all add: example_log_def short_log_def reorg_new_block_def reorg_cache_new_def reorg_history_block_new_def)

lemma example_log_write:
  assumes "logs p d ts' os'"
  shows "write_processed p (d, Some (example_log h ts os)) = Some (written p d, Some (example_log h (ts @ ts') (os @ os')))"
  using assms [unfolded logs_def, THEN spec [of _ short_log], THEN spec [of _ "[]"]]
  by (simp add: example_log_def)

abbreviation example_second :: "(u32 \<times> processed_data list) list" where
  "example_second \<equiv> [(6, [PdInfo 6 block_info_default []])]"

lemma example_writes_index:
  "\<exists>dm rm. index_blocks example_writes (db_empty, short_log) = Some (dm, rm) \<and> db_balances dm example_key = Some example_account"
  "\<exists>d' r'. index_blocks (example_writes @ example_second) (db_empty, short_log) = Some (d', r')"
proof -
  note tokens = logs_PdTokens [of "{}" _ "[[119] \<mapsto> example_meta]" "[example_key \<mapsto> example_account]" Map.empty, simplified]
  note writes = example_log_write [OF tokens] example_log_write [OF logs_ordinals(3)]
  show "\<exists>dm rm. index_blocks example_writes (db_empty, short_log) = Some (dm, rm) \<and> db_balances dm example_key = Some example_account"
    by (simp add: example_writes_def example_log_new writes del: write_processed.simps) (simp add: written_def)
  show "\<exists>d' r'. index_blocks (example_writes @ example_second) (db_empty, short_log) = Some (d', r')"
    by (simp add: example_writes_def example_log_new writes del: write_processed.simps)
qed

theorem restore_undoes_blocks_witness:
  "\<exists>dm rm d' r' r'' d''. index_blocks example_writes (db_empty, short_log) = Some (dm, rm)
    \<and> db_balances dm example_key = Some example_account
    \<and> index_blocks (example_writes @ example_second) (db_empty, short_log) = Some (d', r')
    \<and> reorg_restore 4 (r', d') = (r'', d'') \<and> core d'' = core dm"
proof -
  let ?B = "example_writes @ example_second"
  have m: "length ?B - min (length (filter (\<lambda>(h, ps). 4 < h) ?B)) (rc_len short_log) = 1" "take 1 ?B = example_writes"
    by (simp_all add: example_writes_def short_log_def)
  have log: "rc_blocks short_log = []" "0 < rc_len short_log" "sorted_wrt (<) (map fst ?B)" "fresh_blocks ?B db_empty"
    by (simp_all add: example_writes_def short_log_def reorg_cache_new_def)
  obtain d' r' where i: "index_blocks ?B (db_empty, short_log) = Some (d', r')" using example_writes_index(2) by blast
  have "\<exists>dm rm r'' d''. index_blocks example_writes (db_empty, short_log) = Some (dm, rm)
      \<and> reorg_restore 4 (r', d') = (r'', d'') \<and> core d'' = core dm"
    using restore_undoes_blocks [OF i log(4), of 4, unfolded m] log(1 - 3) by auto
  then show ?thesis using i example_writes_index(1) by fastforce
qed

text \<open>C28.  What \<open>restore\<close> makes of the outputs table: every output that the blocks taken back had spent is back, with its
  owner and value, and the outputs that these blocks created stay, which the log does not remove; so
  the table has exactly the outputs it had before these blocks and all they created.  An outpoint
  stands for one output throughout: \<open>W\<close> gives it.\<close>

theorem undo_prevouts_exact:
  assumes "index_blocks blocks (d, r) = Some (d', r')"
    and "sorted_wrt (<) (map fst (rc_blocks r) @ map fst blocks)" and "\<And>k v. (k, v) \<in> set (rc_blocks r) \<Longrightarrow> k \<le> target"
    and "length (rc_blocks r) \<le> rc_len r" and "0 < rc_len r"
    and "db_prevouts d \<subseteq>\<^sub>m W" and "\<And>h ps w ks. (h, ps) \<in> set blocks \<Longrightarrow> PdPrevouts w ks \<in> set ps \<Longrightarrow> w \<subseteq>\<^sub>m W"
  defines "m \<equiv> length blocks - min (length (filter (\<lambda>(h, ps). target < h) blocks)) (rc_len r)"
  shows "\<exists>dm rm r'' d''. index_blocks (take m blocks) (d, r) = Some (dm, rm)
    \<and> reorg_restore target (r', d') = (r'', d'')
    \<and> db_prevouts d'' = W |` (dom (db_prevouts dm) \<union> {k. \<exists>(h, ps) \<in> set (drop m blocks). \<exists>w ks. PdPrevouts w ks \<in> set ps \<and> k \<in> dom w})"
proof -
  have m: "m = length blocks - undone_count blocks target r" by (simp add: m_def undone_count_def)
  have out: "outputs_in W p" if "(h, ps) \<in> set blocks" "p \<in> set ps" for h ps p
    using assms(7) [OF that(1)] that(2) by (cases p) auto
  obtain dm rm low high where s: "index_blocks (take m blocks) (d, r) = Some (dm, rm)"
    "rc_blocks r' = low @ high" "\<forall>(k, v) \<in> set low. k \<le> target" "\<forall>(k, v) \<in> set high. target < k"
    "(\<forall>(h, ps) \<in> set (drop m blocks). \<forall>p \<in> set ps. outputs_in W p) \<and> db_prevouts dm \<subseteq>\<^sub>m W \<longrightarrow>
        undone_prevouts high (db_prevouts d') = W |` (dom (db_prevouts dm) \<union> created_by (drop m blocks))"
    using restore_split [OF assms(1, 2) _ assms(4, 5), of target W] assms(3) unfolding m by blast
  have dm: "dm = fold (\<lambda>(h, ps). fold written ps) (take m blocks) d"
    by (rule index_blocks_written [OF s(1) taken_sorted [OF assms(2)] assms(4, 5)])
  have "db_prevouts dm \<subseteq>\<^sub>m W"
    unfolding dm by (rule written_blocks_prevouts [OF assms(6)]) (use out in \<open>auto dest: in_set_takeD\<close>)
  moreover have "\<forall>(h, ps) \<in> set (drop m blocks). \<forall>p \<in> set ps. outputs_in W p" using out by (auto dest: in_set_dropD)
  ultimately have "undone_prevouts high (db_prevouts d') = W |` (dom (db_prevouts dm) \<union> created_by (drop m blocks))"
    using s(5) by blast
  moreover have "db_prevouts (snd (reorg_restore target (r', d'))) = undone_prevouts high (db_prevouts d')"
    by (rule restore_prevouts [OF _ _ s(2)]) (use s(3, 4) in auto)
  moreover have "created_by bs = {k. \<exists>(h, ps) \<in> set bs. \<exists>w ks. PdPrevouts w ks \<in> set ps \<and> k \<in> dom w}" for bs
  proof -
    have "k \<in> created p \<longleftrightarrow> (\<exists>w ks. p = PdPrevouts w ks \<and> k \<in> dom w)" for k p by (cases p) auto
    then show ?thesis unfolding created_by_def by fastforce
  qed
  ultimately show ?thesis using s(1) by (metis prod.collapse)
qed

text \<open>A block that spends the only output of the table and creates another.\<close>

abbreviation spent_output :: outpoint where
  "spent_output \<equiv> example_outpoint\<lparr> op_vout := 1 \<rparr>"

theorem undo_prevouts_exact_witness:
  "\<exists>d' r' r'' d''. index_blocks [(5, [PdPrevouts [example_outpoint \<mapsto> \<lparr> pv_script_hash = [], pv_value = 1 \<rparr>] [spent_output]])]
      (db_empty\<lparr> db_prevouts := [spent_output \<mapsto> \<lparr> pv_script_hash = [], pv_value = 2 \<rparr>] \<rparr>, short_log) = Some (d', r')
    \<and> db_prevouts d' spent_output = None \<and> reorg_restore 4 (r', d') = (r'', d'')
    \<and> db_prevouts d'' = [spent_output \<mapsto> \<lparr> pv_script_hash = [], pv_value = 2 \<rparr>,
        example_outpoint \<mapsto> \<lparr> pv_script_hash = [], pv_value = 1 \<rparr>]"
proof -
  let ?w = "[example_outpoint \<mapsto> \<lparr> pv_script_hash = [], pv_value = 1 \<rparr>] :: outpoint \<rightharpoonup> tx_prevout"
  let ?t = "[spent_output \<mapsto> \<lparr> pv_script_hash = [], pv_value = 2 \<rparr>] :: outpoint \<rightharpoonup> tx_prevout"
  let ?d = "db_empty\<lparr> db_prevouts := ?t \<rparr>" and ?b = "[(5, [PdPrevouts ?w [spent_output]])] :: (u32 \<times> processed_data list) list"
  have ne: "spent_output \<noteq> example_outpoint" by (simp add: example_outpoint_def)
  have "prevout_before (db_prevouts ?d) ?w [spent_output] = Some ?t" by (simp add: prevout_before_def)
  note w = example_log_write [OF logs_PdPrevouts [OF this]]
  obtain d' r' where i: "index_blocks ?b (?d, short_log) = Some (d', r')" "db_prevouts d' spent_output = None"
    by (simp add: example_log_new w del: write_processed.simps) (simp add: written_def tbl_remove_batch_apply)
  have "?t \<subseteq>\<^sub>m ?t ++ ?w" "?w \<subseteq>\<^sub>m ?t ++ ?w" using ne by (auto simp: map_le_def)
  from undo_prevouts_exact [OF i(1), of 4 "?t ++ ?w"] this obtain r'' d'' where "reorg_restore 4 (r', d') = (r'', d'')"
    "db_prevouts d'' = (?t ++ ?w) |` (dom ?t \<union> dom ?w)"
    by (auto simp: short_log_def reorg_cache_new_def)
  moreover have "(?t ++ ?w) |` (dom ?t \<union> dom ?w) = ?t ++ ?w" by (auto simp: restrict_map_def fun_eq_iff)
  ultimately show ?thesis using i by auto
qed

text \<open>\<open>restore\<close> changes the database only.  After a block with a mint is indexed on an empty
  database and undone, the balances are empty again, but the holder index in memory still has the
  holders of the undone block.\<close>

lemma restore_leaves_holders:
  "\<exists>c' h' evs. process_token_actions example_env (example_collected, holders_empty) = Inr ((c', h'), evs)
    \<and> holders_ok Map.empty holders_empty \<and> \<not> holders_ok Map.empty h'"
proof -
  let ?run = "process_token_actions example_env (example_collected, holders_empty)"
  have "(case ?run of Inl e \<Rightarrow> None | Inr ((c, h), evs) \<Rightarrow> get_holders h example_tick)
      = Some {(6, example_owner), (4, replicate 32 9)}"
    by code_simp
  then obtain c' h' evs where "?run = Inr ((c', h'), evs)"
    "get_holders h' example_tick = Some {(6, example_owner), (4, replicate 32 9)}"
    by (auto split: sum.splits prod.splits)
  moreover from this(2) have "\<not> holders_ok Map.empty h'"
    by (auto simp: get_holders_def holders_of_def dest: holders_okD(1) [of _ _ example_tick])
  ultimately show ?thesis using holders_ok_empty by blast
qed

end
