(* ===== verification/Wire.thy ===== *)
theory Wire
  imports DbTypes
begin

text \<open>
  Blocks and transactions as the node writes them
  (\<open>packages/new-blk-parser/src/blockchain/proto\<close>, \<open>parser/reader.rs\<close>, \<open>utils/mod.rs\<close>).

  A reader is a function from the bytes that are left to the value and the bytes after it; \<open>None\<close>
  is an I/O error.  The hash \<open>sha256d\<close>, the witness decoder of the \<open>bellscoin\<close> library and the
  evaluation of an output script to an address are parameters.
\<close>

section \<open>Types\<close>

record var_uint =
  vu_value :: u64
  vu_buf :: bytes

record tx_input =
  tin_outpoint :: outpoint
  tin_script_len :: var_uint
  tin_script_sig :: bytes
  tin_seq_no :: u32
  tin_witness :: "bytes list"

record tx_output =
  tout_value :: u64
  tout_script_len :: var_uint
  tout_script_pubkey :: bytes

record raw_tx =
  rtx_version :: u32
  rtx_in_count :: var_uint
  rtx_inputs :: "tx_input list"
  rtx_out_count :: var_uint
  rtx_outputs :: "tx_output list"
  rtx_locktime :: u32

record evaluated_tx_out =
  eo_address :: "bytes option"
  eo_out :: tx_output

record evaluated_tx =
  etx_version :: u32
  etx_in_count :: var_uint
  etx_inputs :: "tx_input list"
  etx_out_count :: var_uint
  etx_outputs :: "evaluated_tx_out list"
  etx_locktime :: u32

record 'a hashed =
  hd_hash :: hash32
  hd_value :: 'a

record block_header =
  bh_version :: u32
  bh_prev_hash :: hash32
  bh_merkle_root :: hash32
  bh_timestamp :: u32
  bh_bits :: u32
  bh_nonce :: u32

record merkle_branch =
  mb_hashes :: "hash32 list"
  mb_side_mask :: u32

record aux_pow_extension =
  ax_coinbase_tx :: raw_tx
  ax_block_hash :: hash32
  ax_coinbase_branch :: merkle_branch
  ax_blockchain_branch :: merkle_branch
  ax_parent_block :: block_header

record block =
  blk_size :: u32
  blk_header :: "block_header hashed"
  blk_aux_pow :: "aux_pow_extension option"
  blk_tx_count :: var_uint
  blk_txs :: "evaluated_tx hashed list"

record wire_ops =
  wo_sha256d :: "bytes \<Rightarrow> hash32"
  wo_address :: "bytes \<Rightarrow> bytes option"
  wo_witness :: "bytes \<Rightarrow> (bytes list \<times> bytes) option"

section \<open>Variable length integers\<close>

definition u16_le :: "16 word \<Rightarrow> bytes" where "u16_le w = le_bytes 2 (unat w)"
definition u32_le_bytes :: "u32 \<Rightarrow> bytes" where "u32_le_bytes w = le_bytes 4 (unat w)"
definition u64_le_bytes :: "u64 \<Rightarrow> bytes" where "u64_le_bytes w = le_bytes 8 (unat w)"

definition var_uint_u8 :: "u8 \<Rightarrow> var_uint" where
  "var_uint_u8 v = \<lparr> vu_value = ucast v, vu_buf = [v] \<rparr>"

definition var_uint_u16 :: "16 word \<Rightarrow> var_uint" where
  "var_uint_u16 v = \<lparr> vu_value = ucast v, vu_buf = 253 # u16_le v \<rparr>"

definition var_uint_u32 :: "u32 \<Rightarrow> var_uint" where
  "var_uint_u32 v = \<lparr> vu_value = ucast v, vu_buf = 254 # u32_le_bytes v \<rparr>"

definition var_uint_u64 :: "u64 \<Rightarrow> var_uint" where
  "var_uint_u64 v = \<lparr> vu_value = v, vu_buf = 255 # u64_le_bytes v \<rparr>"

type_synonym 'a reader = "bytes \<Rightarrow> ('a \<times> bytes) option"

definition read_exact :: "nat \<Rightarrow> bytes reader" where
  "read_exact n bs = (if length bs < n then None else Some (take n bs, drop n bs))"

definition read_le :: "nat \<Rightarrow> 'a::len word reader" where
  "read_le k bs = (case read_exact k bs of None \<Rightarrow> None
     | Some (v, r) \<Rightarrow> Some (word_of_nat (le_nat v), r))"

definition rthen :: "'a reader \<Rightarrow> ('a \<Rightarrow> 'b reader) \<Rightarrow> 'b reader" where
  "rthen p f bs = (case p bs of None \<Rightarrow> None | Some (x, r) \<Rightarrow> f x r)"

definition rreturn :: "'a \<Rightarrow> 'a reader" where
  "rreturn x bs = Some (x, bs)"

fun rrepeat :: "nat \<Rightarrow> 'a reader \<Rightarrow> 'a list reader" where
  "rrepeat 0 p = rreturn []"
| "rrepeat (Suc n) p = rthen p (\<lambda>x. rthen (rrepeat n p) (\<lambda>xs. rreturn (x # xs)))"

definition read_var_uint :: "var_uint reader" where
  "read_var_uint =
     rthen (read_le 1) (\<lambda>first :: u8.
       if first \<le> 252 then rreturn (var_uint_u8 first)
       else if first = 253 then rthen (read_le 2) (\<lambda>v. rreturn (var_uint_u16 v))
       else if first = 254 then rthen (read_le 4) (\<lambda>v. rreturn (var_uint_u32 v))
       else rthen (read_le 8) (\<lambda>v. rreturn (var_uint_u64 v)))"

section \<open>Writing\<close>

definition tx_input_bytes :: "tx_input \<Rightarrow> bytes" where
  "tx_input_bytes i = op_txid (tin_outpoint i) @ u32_le_bytes (op_vout (tin_outpoint i))
     @ vu_buf (tin_script_len i) @ tin_script_sig i @ u32_le_bytes (tin_seq_no i)"

definition tx_output_bytes :: "tx_output \<Rightarrow> bytes" where
  "tx_output_bytes o' = u64_le_bytes (tout_value o') @ vu_buf (tout_script_len o') @ tout_script_pubkey o'"

definition evaluated_tx_bytes :: "evaluated_tx \<Rightarrow> bytes" where
  "evaluated_tx_bytes t = u32_le_bytes (etx_version t)
     @ vu_buf (etx_in_count t) @ concat (map tx_input_bytes (etx_inputs t))
     @ vu_buf (etx_out_count t) @ concat (map (tx_output_bytes \<circ> eo_out) (etx_outputs t))
     @ u32_le_bytes (etx_locktime t)"

definition block_header_bytes :: "block_header \<Rightarrow> bytes" where
  "block_header_bytes h = u32_le_bytes (bh_version h) @ bh_prev_hash h @ bh_merkle_root h
     @ u32_le_bytes (bh_timestamp h) @ u32_le_bytes (bh_bits h) @ u32_le_bytes (bh_nonce h)"

definition eval_script :: "wire_ops \<Rightarrow> tx_output \<Rightarrow> evaluated_tx_out" where
  "eval_script W o' = \<lparr> eo_address = wo_address W (tout_script_pubkey o'), eo_out = o' \<rparr>"

definition evaluated_tx_new :: "wire_ops \<Rightarrow> raw_tx \<Rightarrow> evaluated_tx" where
  "evaluated_tx_new W t = \<lparr> etx_version = rtx_version t, etx_in_count = rtx_in_count t,
     etx_inputs = rtx_inputs t, etx_out_count = rtx_out_count t,
     etx_outputs = map (eval_script W) (rtx_outputs t), etx_locktime = rtx_locktime t \<rparr>"

definition hashed_tx :: "wire_ops \<Rightarrow> evaluated_tx \<Rightarrow> evaluated_tx hashed" where
  "hashed_tx W t = \<lparr> hd_hash = wo_sha256d W (evaluated_tx_bytes t), hd_value = t \<rparr>"

text \<open>\<open>is_coinbase\<close>; \<open>None\<close> is the \<open>unwrap\<close> of a missing first input.\<close>

definition is_coinbase :: "evaluated_tx \<Rightarrow> bool option" where
  "is_coinbase t =
     (if vu_value (etx_in_count t) = 1
      then (case etx_inputs t of
              [] \<Rightarrow> None
            | i # _ \<Rightarrow> Some (op_txid (tin_outpoint i) = replicate 32 0 \<and> op_vout (tin_outpoint i) = - 1))
      else Some False)"

section \<open>Reading\<close>

definition read_outpoint :: "outpoint reader" where
  "read_outpoint = rthen (read_exact 32) (\<lambda>txid. rthen (read_le 4) (\<lambda>index.
     rreturn \<lparr> op_txid = txid, op_vout = index \<rparr>))"

text \<open>The length is cut to 32 bits, as the source does.\<close>

definition read_u8_vec :: "u64 \<Rightarrow> bytes reader" where
  "read_u8_vec count = read_exact (unat (ucast count :: u32))"

definition read_tx_input :: "tx_input reader" where
  "read_tx_input = rthen read_outpoint (\<lambda>outpoint. rthen read_var_uint (\<lambda>script_len.
     rthen (read_u8_vec (vu_value script_len)) (\<lambda>script_sig. rthen (read_le 4) (\<lambda>seq_no.
       rreturn \<lparr> tin_outpoint = outpoint, tin_script_len = script_len, tin_script_sig = script_sig,
         tin_seq_no = seq_no, tin_witness = [] \<rparr>))))"

definition read_tx_output :: "tx_output reader" where
  "read_tx_output = rthen (read_le 8) (\<lambda>value. rthen read_var_uint (\<lambda>script_len.
     rthen (read_u8_vec (vu_value script_len)) (\<lambda>script_pubkey.
       rreturn \<lparr> tout_value = value, tout_script_len = script_len, tout_script_pubkey = script_pubkey \<rparr>)))"

fun read_witnesses :: "wire_ops \<Rightarrow> tx_input list \<Rightarrow> tx_input list reader" where
  "read_witnesses W [] = rreturn []"
| "read_witnesses W (i # is) = rthen (wo_witness W) (\<lambda>w. rthen (read_witnesses W is) (\<lambda>is.
     rreturn (i\<lparr> tin_witness := w \<rparr> # is)))"

definition read_tx :: "wire_ops \<Rightarrow> raw_tx reader" where
  "read_tx W = rthen (read_le 4) (\<lambda>version. rthen read_var_uint (\<lambda>in_count.
     rthen (if vu_value in_count = 0
            then rthen (read_le 1) (\<lambda>flags. rthen read_var_uint (\<lambda>in_count. rreturn (flags, in_count)))
            else rreturn (0, in_count)) (\<lambda>(flags :: u8, in_count).
     rthen (rrepeat (unat (vu_value in_count)) read_tx_input) (\<lambda>inputs.
     rthen read_var_uint (\<lambda>out_count.
     rthen (rrepeat (unat (vu_value out_count)) read_tx_output) (\<lambda>outputs.
     rthen (if 0 < and flags 1 then read_witnesses W inputs else rreturn inputs) (\<lambda>inputs.
     rthen (read_le 4) (\<lambda>locktime.
       rreturn \<lparr> rtx_version = version, rtx_in_count = in_count, rtx_inputs = inputs,
         rtx_out_count = out_count, rtx_outputs = outputs, rtx_locktime = locktime \<rparr>))))))))"

definition read_block_header :: "block_header reader" where
  "read_block_header = rthen (read_le 4) (\<lambda>version. rthen (read_exact 32) (\<lambda>prev_hash.
     rthen (read_exact 32) (\<lambda>merkle_root. rthen (read_le 4) (\<lambda>timestamp.
     rthen (read_le 4) (\<lambda>bits. rthen (read_le 4) (\<lambda>nonce.
       rreturn \<lparr> bh_version = version, bh_prev_hash = prev_hash, bh_merkle_root = merkle_root,
         bh_timestamp = timestamp, bh_bits = bits, bh_nonce = nonce \<rparr>))))))"

definition read_merkle_branch :: "merkle_branch reader" where
  "read_merkle_branch = rthen read_var_uint (\<lambda>n. rthen (rrepeat (unat (vu_value n)) (read_exact 32)) (\<lambda>hashes.
     rthen (read_le 4) (\<lambda>side_mask. rreturn \<lparr> mb_hashes = hashes, mb_side_mask = side_mask \<rparr>)))"

definition read_aux_pow :: "wire_ops \<Rightarrow> aux_pow_extension reader" where
  "read_aux_pow W = rthen (read_tx W) (\<lambda>coinbase_tx. rthen (read_exact 32) (\<lambda>block_hash.
     rthen read_merkle_branch (\<lambda>coinbase_branch. rthen read_merkle_branch (\<lambda>blockchain_branch.
     rthen read_block_header (\<lambda>parent_block.
       rreturn \<lparr> ax_coinbase_tx = coinbase_tx, ax_block_hash = block_hash,
         ax_coinbase_branch = coinbase_branch, ax_blockchain_branch = blockchain_branch,
         ax_parent_block = parent_block \<rparr>)))))"

definition block_new ::
  "wire_ops \<Rightarrow> u32 \<Rightarrow> block_header \<Rightarrow> aux_pow_extension option \<Rightarrow> var_uint \<Rightarrow> raw_tx list \<Rightarrow> block" where
  "block_new W size' header aux tx_count txs =
     \<lparr> blk_size = size', blk_header = \<lparr> hd_hash = wo_sha256d W (block_header_bytes header), hd_value = header \<rparr>,
       blk_aux_pow = aux, blk_tx_count = tx_count,
       blk_txs = map (hashed_tx W \<circ> evaluated_tx_new W) txs \<rparr>"

definition read_block :: "wire_ops \<Rightarrow> u32 \<Rightarrow> block reader" where
  "read_block W size' = rthen read_block_header (\<lambda>header.
     rthen (if and (bh_version header) 256 \<noteq> 0
            then rthen (read_aux_pow W) (\<lambda>a. rreturn (Some a)) else rreturn None) (\<lambda>aux.
     rthen read_var_uint (\<lambda>tx_count.
     rthen (rrepeat (unat (vu_value tx_count)) (read_tx W)) (\<lambda>txs.
       rreturn (block_new W size' header aux tx_count txs)))))"

section \<open>Merkle root\<close>

text \<open>One level: every pair is hashed, an odd last hash with itself.\<close>

fun merkle_level :: "(bytes \<Rightarrow> hash32) \<Rightarrow> hash32 list \<Rightarrow> hash32 list" where
  "merkle_level H (a # b # r) = H (a @ b) # merkle_level H r"
| "merkle_level H [a] = [H (a @ a)]"
| "merkle_level H [] = []"

lemma length_merkle_level: "length (merkle_level H hs) = (length hs + 1) div 2"
  by (induction H hs rule: merkle_level.induct) auto

function merkle_root :: "(bytes \<Rightarrow> hash32) \<Rightarrow> hash32 list \<Rightarrow> hash32 option" where
  "merkle_root H hs =
     (if 1 < length hs then merkle_root H (merkle_level H hs)
      else (case hs of [] \<Rightarrow> None | h # _ \<Rightarrow> Some h))"
  by pat_completeness auto
termination
  by (relation "measure (\<lambda>(H, hs). length hs)") (auto simp: length_merkle_level)

declare merkle_root.simps [simp del]

definition verify_merkle_root :: "wire_ops \<Rightarrow> block \<Rightarrow> bool option" where
  "verify_merkle_root W b = map_option (\<lambda>r. r = bh_merkle_root (hd_value (blk_header b)))
     (merkle_root (wo_sha256d W) (map hd_hash (blk_txs b)))"

section \<open>The XOR reader\<close>

text \<open>What a read of the bytes \<open>buf\<close> at the position \<open>pos\<close> gives, and the position after it; an
  empty key is the remainder by zero of the source, a panic.\<close>

definition xor_read :: "bytes option \<Rightarrow> u64 \<Rightarrow> bytes \<Rightarrow> (bytes \<times> u64) option" where
  "xor_read key pos buf =
     (case key of
        None \<Rightarrow> Some (buf, pos + word_of_nat (length buf))
      | Some k \<Rightarrow>
          if k = [] \<and> buf \<noteq> [] then None
          else Some (map (\<lambda>i. xor (buf ! i) (k ! unat ((word_of_nat i + pos) mod word_of_nat (length k))))
                  [0..<length buf], pos + word_of_nat (length buf)))"

section \<open>Integers of the block index\<close>

text \<open>\<open>read_varint\<close> of \<open>parser/index.rs\<close>; \<open>None\<close> is the end of the data or a value too large.\<close>

fun read_varint_from :: "u64 \<Rightarrow> u64 reader" where
  "read_varint_from n [] = None"
| "read_varint_from n (ch # bs) =
     (if drop_bit 7 (- 1) < n then None
      else let n = or (push_bit 7 n) (ucast (and ch 127)) in
        if 0 < and ch 128 then (if n = - 1 then None else read_varint_from (n + 1) bs)
        else Some (n, bs))"

definition read_varint :: "u64 reader" where
  "read_varint = read_varint_from 0"

end
