(* ===== verification/Searcher.thy ===== *)
theory Searcher
  imports Wire
begin

text \<open>
  The position of inscriptions in a transaction (\<open>src/inscriptions/searcher.rs\<close>) and the
  inscriptions a transaction leaves to the miner (\<open>src/inscriptions/leaked.rs\<close>).

  A satoshi of an input has a position among all the satoshis a transaction spends; the outputs
  take them in order and what is left is the fee, which the coinbase transaction of the block
  receives after the block reward, transaction by transaction.  Sums are of 64 bits and wrap, as
  they do in a release build; \<open>None\<close> is an \<open>unwrap\<close> of a missing previous output.
\<close>

section \<open>Positions in a transaction\<close>

definition out_values :: "evaluated_tx_out list \<Rightarrow> u64 list" where
  "out_values outs = map (tout_value \<circ> eo_out) outs"

definition input_values :: "(outpoint \<rightharpoonup> tx_prevout) \<Rightarrow> tx_input list \<Rightarrow> u64 list option" where
  "input_values prevouts ins = option_list (map (\<lambda>i. map_option pv_value (prevouts (tin_outpoint i))) ins)"

text \<open>The \<open>while let\<close> loop on the reversed list of values: the fee is taken off the last inputs.\<close>

fun pay_fee :: "u64 \<Rightarrow> u64 list \<Rightarrow> u64 list" where
  "pay_fee fee [] = []"
| "pay_fee fee (v # vs) = (if fee < v then (v - fee) # vs else pay_fee (fee - v) vs)"

text \<open>The fold that turns values into the offsets at which they start.\<close>

definition start_offsets :: "u64 list \<Rightarrow> u64 list" where
  "start_offsets vs = butlast (foldl (\<lambda>acc x. acc @ [last acc + x]) [0] vs)"

definition calc_offsets :: "evaluated_tx \<Rightarrow> (outpoint \<rightharpoonup> tx_prevout) \<Rightarrow> u64 list option" where
  "calc_offsets tx prevouts =
     (case input_values prevouts (etx_inputs tx) of
        None \<Rightarrow> None
      | Some vs \<Rightarrow>
          (let fee = sum_list vs - sum_list (out_values (etx_outputs tx))
           in Some (start_offsets (rev (pay_fee fee (rev vs))))))"

datatype search_error = OffsetMissing | OffsetTooLarge | OffsetExhausted

fun find_output :: "nat \<Rightarrow> u64 \<Rightarrow> u64 list \<Rightarrow> (u32 \<times> u64) option" where
  "find_output idx offset [] = None"
| "find_output idx offset (v # vs) =
     (if offset < v then Some (word_of_nat idx, offset) else find_output (Suc idx) (offset - v) vs)"

definition get_output_index_by_input ::
  "u64 option \<Rightarrow> evaluated_tx_out list \<Rightarrow> search_error + u32 \<times> u64" where
  "get_output_index_by_input offset outs =
     (case offset of
        None \<Rightarrow> Inl OffsetMissing
      | Some offset \<Rightarrow>
          if sum_list (out_values outs) \<le> offset then Inl OffsetTooLarge
          else (case find_output 0 offset (out_values outs) of
                  Some r \<Rightarrow> Inr r
                | None \<Rightarrow> Inl OffsetExhausted))"

section \<open>Inscriptions left to the miner\<close>

datatype leaked_inscription = LeakedCreation | LeakedMove

text \<open>The hash map from positions in the fees to inscriptions is an association list.\<close>

record leaked =
  lk_inscriptions :: "(u64 \<times> leaked_inscription list) list"
  lk_total_amount :: u64
  lk_coinbase_tx :: "evaluated_tx hashed"
  lk_coinbase_reward :: "u64 option"

definition leaked_new :: "evaluated_tx hashed \<Rightarrow> leaked" where
  "leaked_new coinbase = \<lparr> lk_inscriptions = [], lk_total_amount = 0, lk_coinbase_tx = coinbase,
     lk_coinbase_reward = None \<rparr>"

fun running_sums :: "u64 \<Rightarrow> u64 list \<Rightarrow> u64 list" where
  "running_sums a [] = []"
| "running_sums a (v # vs) = (a + v) # running_sums (a + v) vs"

text \<open>\<open>find_fee\<close>: the fee of the transaction and the place in it, and \<open>None\<close> for its panics: a
  missing previous output, or an input that does not exist.\<close>

definition find_fee ::
  "evaluated_tx \<Rightarrow> nat \<Rightarrow> u64 \<Rightarrow> (outpoint \<rightharpoonup> tx_prevout) \<Rightarrow> (u64 \<times> u64) option" where
  "find_fee tx input_idx input_offset prevouts =
     (case input_values prevouts (etx_inputs tx) of
        None \<Rightarrow> None
      | Some vs \<Rightarrow>
          if length vs \<le> input_idx then None
          else (let cum = running_sums 0 vs; output_sum = sum_list (out_values (etx_outputs tx))
                in Some (last cum - output_sum, cum ! input_idx - vs ! input_idx + input_offset - output_sum)))"

fun leak_at :: "u64 \<Rightarrow> leaked_inscription \<Rightarrow> (u64 \<times> leaked_inscription list) list \<Rightarrow>
    (u64 \<times> leaked_inscription list) list" where
  "leak_at k i [] = [(k, [i])]"
| "leak_at k i ((k', is) # r) = (if k = k' then (k, is @ [i]) # r else (k', is) # leak_at k i r)"

definition leaked_add ::
  "nat \<Rightarrow> evaluated_tx \<Rightarrow> u64 \<Rightarrow> (outpoint \<rightharpoonup> tx_prevout) \<Rightarrow> leaked_inscription \<Rightarrow> leaked \<Rightarrow> leaked option" where
  "leaked_add input_idx tx input_offset prevouts i lk =
     map_option (\<lambda>(fee, fee_offset). lk\<lparr> lk_inscriptions :=
         leak_at (lk_total_amount lk - (fee - fee_offset)) i (lk_inscriptions lk) \<rparr>)
       (find_fee tx input_idx input_offset prevouts)"

definition add_tx_fee :: "evaluated_tx \<Rightarrow> (outpoint \<rightharpoonup> tx_prevout) \<Rightarrow> leaked \<Rightarrow> leaked option" where
  "add_tx_fee tx prevouts lk =
     map_option (\<lambda>vs. lk\<lparr> lk_total_amount :=
         lk_total_amount lk + (sum_list vs - sum_list (out_values (etx_outputs tx))) \<rparr>)
       (input_values prevouts (etx_inputs tx))"

definition update_reward :: "leaked \<Rightarrow> leaked" where
  "update_reward lk = lk\<lparr> lk_coinbase_reward :=
     Some (sum_list (out_values (etx_outputs (hd_value (lk_coinbase_tx lk)))) - lk_total_amount lk) \<rparr>"

definition find_inscription_vout :: "leaked \<Rightarrow> u64 \<Rightarrow> (u32 \<times> u64) option" where
  "find_inscription_vout lk offset =
     (case lk_coinbase_reward lk of
        None \<Rightarrow> None
      | Some r \<Rightarrow> find_output 0 (offset + r) (out_values (etx_outputs (hd_value (lk_coinbase_tx lk)))))"

definition get_leaked_inscriptions :: "leaked \<Rightarrow> location list" where
  "get_leaked_inscriptions lk =
     (let lk = update_reward lk in
      concat (map (\<lambda>(offset, is). concat (map (\<lambda>_.
        (case find_inscription_vout lk offset of
           None \<Rightarrow> []
         | Some (vout, offset) \<Rightarrow> [\<lparr> loc_outpoint = \<lparr> op_txid = hd_hash (lk_coinbase_tx lk), op_vout = vout \<rparr>,
                                     loc_offset = offset \<rparr>])) is)) (lk_inscriptions lk)))"

section \<open>The same on natural numbers\<close>

abbreviation total :: "u64 list \<Rightarrow> nat" where
  "total vs \<equiv> sum_list (map unat vs)"

text \<open>The position at which the \<open>i\<close>-th value starts.\<close>

definition start_of :: "u64 list \<Rightarrow> nat \<Rightarrow> nat" where
  "start_of vs i = total (take i vs)"

lemma unat_add_less: "unat (a :: u64) + unat b < 2 ^ 64 \<Longrightarrow> unat (a + b) = unat a + unat b"
  by (simp add: unat_word_ariths)

lemma unat_diff_le: "unat (b :: u64) \<le> unat a \<Longrightarrow> unat (a - b) = unat a - unat b"
  by (simp add: unat_sub_if')

lemma unat_sum_list: "total vs < 2 ^ 64 \<Longrightarrow> unat (sum_list vs) = total vs"
  by (induction vs) (simp_all add: unat_add_less)

lemma start_of_step: "i < length vs \<Longrightarrow> start_of vs (Suc i) = start_of vs i + unat (vs ! i)"
  by (simp add: start_of_def take_Suc_conv_app_nth)

lemma start_of_mono: "i \<le> j \<Longrightarrow> start_of vs i \<le> start_of vs j"
proof -
  assume "i \<le> j"
  then have "take j vs = take i vs @ take (j - i) (drop i vs)" by (metis le_add_diff_inverse take_add)
  then show ?thesis by (simp add: start_of_def)
qed

lemma start_of_length: "length vs \<le> i \<Longrightarrow> start_of vs i = total vs"
  by (simp add: start_of_def)

lemma start_of_append [simp]: "start_of (us @ vs) i = start_of us i + start_of vs (i - length us)"
  by (simp add: start_of_def)

lemma start_of_less: "i < length vs \<Longrightarrow> start_of vs i + unat (vs ! i) \<le> total vs"
  using start_of_mono [of "Suc i" "length vs" vs] start_of_length [of vs "length vs"]
  by (simp add: start_of_step)

lemma foldl_offsets: "acc \<noteq> [] \<Longrightarrow>
    foldl (\<lambda>acc x. acc @ [last acc + x]) acc vs = acc @ running_sums (last acc) vs"
  by (induction vs arbitrary: acc) auto

lemma length_running_sums [simp]: "length (running_sums a vs) = length vs"
  by (induction vs arbitrary: a) auto

lemma running_sums_Nil [simp]: "running_sums a vs = [] \<longleftrightarrow> vs = []"
  by (cases vs) auto

lemma nth_running_sums:
  "unat a + total vs < 2 ^ 64 \<Longrightarrow> i < length vs \<Longrightarrow>
     unat (running_sums a vs ! i) = unat a + start_of vs (Suc i)"
proof (induction vs arbitrary: a i)
  case (Cons v vs)
  then show ?case
    using Cons.IH [of "a + v" "i - 1"] by (cases i) (auto simp: unat_add_less start_of_def)
qed simp

lemma start_offsets_sums: "start_offsets vs = butlast (0 # running_sums 0 vs)"
  by (simp add: start_offsets_def foldl_offsets)

lemma length_start_offsets [simp]: "length (start_offsets vs) = length vs"
  by (cases vs) (simp_all add: start_offsets_sums)

lemma nth_start_offsets:
  assumes "total vs < 2 ^ 64" and "i < length vs"
  shows "unat (start_offsets vs ! i) = start_of vs i"
  using assms nth_running_sums [of 0 vs "i - 1"]
  by (cases i) (auto simp: start_offsets_sums nth_butlast start_of_def)

text \<open>Paying the fee keeps the inputs that reach into the outputs, with their starts.\<close>

lemma pay_fee_prefix:
  assumes "total vs < 2 ^ 64" and "unat fee \<le> total vs"
  defines "ws \<equiv> rev (pay_fee fee (rev vs))"
  shows "total ws \<le> total vs \<and> length ws \<le> length vs
    \<and> (\<forall>i < length vs. i < length ws \<longleftrightarrow> start_of vs i + unat fee < total vs)
    \<and> (\<forall>i < length ws. start_of ws i = start_of vs i)"
  using assms(1, 2) unfolding ws_def
proof (induction vs arbitrary: fee rule: rev_induct)
  case Nil
  then show ?case by simp
next
  case (snoc v vs)
  have below: "start_of vs i \<le> total vs" for i
    using start_of_mono [of i "max i (length vs)" vs] start_of_length [of vs "max i (length vs)"] by simp
  show ?case
  proof (cases "fee < v")
    case True
    then have "unat (v - fee) = unat v - unat fee" "unat fee < unat v"
      by (simp_all add: word_less_nat_alt unat_diff_le)
    with True snoc.prems show ?thesis
      using below by (auto simp: less_Suc_eq start_of_def [of "[_]"] intro!: add_le_less_mono)
  next
    case False
    then have fee: "unat (fee - v) = unat fee - unat v" "unat v \<le> unat fee"
      by (simp_all add: word_less_nat_alt unat_diff_le)
    with snoc.prems have IH: "total (rev (pay_fee (fee - v) (rev vs))) \<le> total vs
        \<and> length (rev (pay_fee (fee - v) (rev vs))) \<le> length vs
        \<and> (\<forall>i < length vs. i < length (rev (pay_fee (fee - v) (rev vs)))
              \<longleftrightarrow> start_of vs i + unat (fee - v) < total vs)
        \<and> (\<forall>i < length (rev (pay_fee (fee - v) (rev vs))).
              start_of (rev (pay_fee (fee - v) (rev vs))) i = start_of vs i)"
      by (intro snoc.IH) auto
    with False fee show ?thesis
      by (auto simp: less_Suc_eq start_of_def)
  qed
qed

text \<open>What \<open>calc_offsets\<close> returns: the starts of the inputs that reach into the outputs.\<close>

lemma calc_offsets_spec:
  assumes "input_values prevouts (etx_inputs tx) = Some vs"
    and "total vs < 2 ^ 64" and "total (out_values (etx_outputs tx)) \<le> total vs"
  shows "\<exists>offs. calc_offsets tx prevouts = Some offs \<and> length offs \<le> length vs
    \<and> (\<forall>i < length vs. i < length offs \<longleftrightarrow> start_of vs i < total (out_values (etx_outputs tx)))
    \<and> (\<forall>i < length offs. unat (offs ! i) = start_of vs i)"
proof -
  let ?outs = "out_values (etx_outputs tx)"
  let ?fee = "sum_list vs - sum_list ?outs"
  let ?ws = "rev (pay_fee ?fee (rev vs))"
  have fee: "unat ?fee = total vs - total ?outs"
    using assms by (simp add: unat_diff_le unat_sum_list)
  note p = pay_fee_prefix [OF assms(2), of ?fee, unfolded fee]
  have "calc_offsets tx prevouts = Some (start_offsets ?ws)"
    by (simp add: calc_offsets_def assms(1))
  moreover have "total ?ws < 2 ^ 64" using p assms(2) by linarith
  ultimately show ?thesis
    using p assms(3) by (auto simp: nth_start_offsets)
qed

lemma find_output_spec:
  assumes "unat off < total vs" and "idx + length vs \<le> 2 ^ 32"
  shows "\<exists>j o'. find_output idx off vs = Some (word_of_nat (idx + j), o') \<and> j < length vs
    \<and> start_of vs j + unat o' = unat off \<and> o' < vs ! j"
  using assms
proof (induction vs arbitrary: idx off)
  case (Cons v vs)
  show ?case
  proof (cases "off < v")
    case True
    then show ?thesis by (intro exI [of _ "0 :: nat"] exI [of _ off] conjI) (simp_all add: start_of_def)
  next
    case False
    then have o: "unat (off - v) = unat off - unat v" "unat v \<le> unat off"
      by (simp_all add: word_less_nat_alt unat_diff_le)
    with Cons.prems have "unat (off - v) < total vs" "Suc idx + length vs \<le> 2 ^ 32"
      by (auto simp: less_diff_conv2)
    with Cons.IH obtain j o' where
      "find_output (Suc idx) (off - v) vs = Some (word_of_nat (Suc idx + j), o')" "j < length vs"
      "start_of vs j + unat o' = unat (off - v)" "o' < vs ! j" by blast
    with False o show ?thesis by (intro exI [of _ "Suc j"]) (auto simp: start_of_def)
  qed
qed simp

lemma find_output_None: "total vs \<le> unat off \<Longrightarrow> find_output idx off vs = None"
proof (induction vs arbitrary: idx off)
  case (Cons v vs)
  then have "\<not> off < v" by (simp add: word_less_nat_alt)
  with Cons show ?case by (auto simp: word_less_nat_alt unat_diff_le)
qed simp

text \<open>Whatever the sums do, an output that is found is long enough for the offset it gets.\<close>

lemma find_output_fits:
  "find_output idx off vs = Some (w, o') \<Longrightarrow>
     \<exists>j. w = word_of_nat j \<and> idx \<le> j \<and> j < idx + length vs \<and> o' < vs ! (j - idx)"
proof (induction vs arbitrary: idx off)
  case (Cons v vs)
  show ?case
  proof (cases "off < v")
    case True
    with Cons.prems show ?thesis by auto
  next
    case False
    with Cons.prems Cons.IH [of "Suc idx" "off - v"] obtain j where
      "w = word_of_nat j" "Suc idx \<le> j" "j < Suc idx + length vs" "o' < vs ! (j - Suc idx)" by auto
    moreover from this have "j - idx = Suc (j - Suc idx)" by simp
    ultimately show ?thesis by (intro exI [of _ j]) auto
  qed
qed simp

lemma get_output_spec:
  assumes "total (out_values outs) < 2 ^ 64" and "length outs \<le> 2 ^ 32"
  shows "get_output_index_by_input (Some off) outs =
    (if unat off < total (out_values outs)
     then (case find_output 0 off (out_values outs) of Some r \<Rightarrow> Inr r | None \<Rightarrow> Inl OffsetExhausted)
     else Inl OffsetTooLarge)"
  using assms by (auto simp: get_output_index_by_input_def word_le_nat_alt unat_sum_list)

lemma find_fee_spec:
  assumes "input_values prevouts (etx_inputs tx) = Some vs" and "i < length vs"
    and "total vs < 2 ^ 64" and "total (out_values (etx_outputs tx)) \<le> start_of vs i + unat off"
    and "off < vs ! i"
  shows "\<exists>fee fee_offset. find_fee tx i off prevouts = Some (fee, fee_offset)
    \<and> unat fee = total vs - total (out_values (etx_outputs tx))
    \<and> unat fee_offset = start_of vs i + unat off - total (out_values (etx_outputs tx))
    \<and> fee_offset < fee"
proof -
  let ?cum = "running_sums 0 vs" and ?os = "sum_list (out_values (etx_outputs tx))"
  let ?O = "total (out_values (etx_outputs tx))"
  have le: "start_of vs i + unat (vs ! i) \<le> total vs" by (rule start_of_less [OF assms(2)])
  have off: "unat off < unat (vs ! i)" using assms(5) by (simp add: word_less_nat_alt)
  have os: "unat ?os = ?O" using assms le off by (intro unat_sum_list) linarith
  have cum: "unat (?cum ! i) = start_of vs i + unat (vs ! i)"
    using nth_running_sums [of 0 vs i] assms(2, 3) by (simp add: start_of_step)
  have last: "unat (last ?cum) = total vs"
    using assms(2, 3) nth_running_sums [of 0 vs "length vs - 1"]
    by (subst last_conv_nth) (auto simp: start_of_length)
  have a: "unat (?cum ! i - vs ! i) = start_of vs i"
    by (subst unat_diff_le) (simp_all add: cum)
  have b: "unat (?cum ! i - vs ! i + off) = start_of vs i + unat off"
    using le off assms(3) by (subst unat_add_less) (simp_all add: a)
  have c: "unat (?cum ! i - vs ! i + off - ?os) = start_of vs i + unat off - ?O"
    using assms(4) by (subst unat_diff_le) (simp_all add: b os)
  have d: "unat (last ?cum - ?os) = total vs - ?O"
    using le off assms(4) by (subst unat_diff_le) (simp_all add: last os)
  show ?thesis
    using assms(1, 2, 4) c d le off by (auto simp: find_fee_def Let_def word_less_nat_alt)
qed

end
