(* ===== verification/Scripts.thy ===== *)
theory Scripts
  imports DbTypes
begin

text \<open>
  Reading inscriptions out of scripts (\<open>src/inscriptions/structs.rs\<close>, \<open>envelope.rs\<close>, \<open>tag.rs\<close>):
  the pushes of input scripts (\<open>InscriptionParser\<close>) and the envelopes of tapscripts
  (\<open>RawEnvelope\<close>, \<open>ParsedEnvelope\<close>).

  The instruction iterator of a script, \<open>Script::instructions\<close>, is third party code: the parameter
  \<open>ins\<close> gives the list it yields, an \<open>Err\<close> being \<open>None\<close>.
\<close>

section \<open>Inscriptions\<close>

record inscription =
  in_body :: "bytes option"
  in_content_type :: "bytes option"
  in_content_encoding :: "bytes option"
  in_delegate :: "bytes option"
  in_duplicate_field :: bool
  in_incomplete_field :: bool
  in_metadata :: "bytes option"
  in_metaprotocol :: "bytes option"
  in_parents :: "bytes list"
  in_pointer :: "bytes option"
  in_rune :: "bytes option"
  in_unrecognized_even_field :: bool

datatype parsed_inscription =
    ParsedNone
  | ParsedPartial
  | ParsedSingle inscription
  | ParsedMany "inscription list"

definition protocol_id :: bytes where
  "protocol_id = str_bytes ''ord''"

text \<open>\<open>content_type()\<close>: the text, when it is UTF-8.\<close>

definition inscription_content_type :: "inscription \<Rightarrow> bytes option" where
  "inscription_content_type i =
     (case in_content_type i of None \<Rightarrow> None | Some v \<Rightarrow> if valid_utf8 v then Some v else None)"

definition inscription_pointer :: "inscription \<Rightarrow> u64 option" where
  "inscription_pointer i =
     (case in_pointer i of
        None \<Rightarrow> None
      | Some v \<Rightarrow>
          if list_ex (\<lambda>b. b \<noteq> 0) (drop 8 v) then None
          else Some (word_of_nat (le_nat (map (\<lambda>k. if k < length v then v ! k else 0) [0..<8]))))"

section \<open>Pushes of an input script\<close>

function decode_push_datas :: "bytes \<Rightarrow> bytes list option" where
  "decode_push_datas bs =
     (if bs = [] then Some []
      else let b = hd bs; n = length bs; at = (\<lambda>i. unat (bs ! i)) in
        if b = 0 then map_option ((#) []) (decode_push_datas (drop 1 bs))
        else if 81 \<le> b \<and> b \<le> 96 then map_option ((#) [b - 80]) (decode_push_datas (drop 1 bs))
        else if 1 \<le> b \<and> b \<le> 75 then
          (let len = unat b in
           if n < 1 + len then None
           else map_option ((#) (take len (drop 1 bs))) (decode_push_datas (drop (1 + len) bs)))
        else if b = 76 then
          (if n < 2 then None
           else let len = at 1 in
             if n < 2 + len then None
             else map_option ((#) (take len (drop 2 bs))) (decode_push_datas (drop (2 + len) bs)))
        else if b = 77 then
          (if n < 3 then None
           else let len = at 1 * 2 ^ 8 + at 0 in
             if n < 3 + len then None
             else map_option ((#) (take len (drop 3 bs))) (decode_push_datas (drop (3 + len) bs)))
        else if b = 78 then
          (if n < 5 then None
           else let len = at 3 * 2 ^ 24 + at 2 * 2 ^ 16 + at 1 * 2 ^ 8 + at 0 in
             if n < 5 + len then None
             else map_option ((#) (take len (drop 5 bs))) (decode_push_datas (drop (5 + len) bs)))
        else None)"
  by pat_completeness auto
termination by (relation "measure length") auto

declare decode_push_datas.simps [simp del]

text \<open>\<open>push_data_to_number\<close>, with its loop over \<open>(n, m)\<close>.\<close>

definition push_data_to_number :: "bytes \<Rightarrow> u64 option" where
  "push_data_to_number data =
     (if data = [] then Some 0
      else if 8 < length data then None
      else Some (fst (fold (\<lambda>b (n, m). (n + push_bit m (ucast b), m + 8)) data (0, 0))))"

section \<open>Inscriptions in input scripts\<close>

text \<open>The inner loop over chunks: \<open>Inr\<close> the whole body, or \<open>Inl\<close> what is missing and read so far.\<close>

fun chunk_loop :: "u64 \<Rightarrow> bytes list \<Rightarrow> bytes \<Rightarrow> (u64 \<times> bytes) + bytes" where
  "chunk_loop npieces (p # q # ps) body =
     (if npieces = 0 then Inr body
      else case push_data_to_number p of
        None \<Rightarrow> Inl (npieces, body)
      | Some next_piece \<Rightarrow>
          if next_piece \<noteq> npieces - 1 then Inl (npieces, body)
          else chunk_loop (npieces - 1) ps (body @ q))"
| "chunk_loop npieces ps body = (if npieces = 0 then Inr body else Inl (npieces, body))"

definition plain_inscription :: "bytes \<Rightarrow> bytes \<Rightarrow> inscription" where
  "plain_inscription content_type body =
     \<lparr> in_body = Some body, in_content_type = Some content_type, in_content_encoding = None,
       in_delegate = None, in_duplicate_field = False, in_incomplete_field = False,
       in_metadata = None, in_metaprotocol = None, in_parents = [], in_pointer = None,
       in_rune = None, in_unrecognized_even_field = False \<rparr>"

text \<open>The outer loop over the scripts that are left.\<close>

fun script_loop :: "bytes \<Rightarrow> u64 \<Rightarrow> bytes list \<Rightarrow> bytes \<Rightarrow> bytes list \<Rightarrow> parsed_inscription" where
  "script_loop content_type npieces pushes body [] =
     (case chunk_loop npieces pushes body of
        Inr body \<Rightarrow> ParsedSingle (plain_inscription content_type body)
      | Inl _ \<Rightarrow> ParsedPartial)"
| "script_loop content_type npieces pushes body (s # ss) =
     (case chunk_loop npieces pushes body of
        Inr body \<Rightarrow> ParsedSingle (plain_inscription content_type body)
      | Inl (npieces, body) \<Rightarrow>
          (case decode_push_datas s of
             None \<Rightarrow> ParsedNone
           | Some pushes \<Rightarrow>
               if length pushes < 2 then ParsedNone
               else (case push_data_to_number (pushes ! 0) of
                 None \<Rightarrow> ParsedNone
               | Some next_piece \<Rightarrow>
                   if next_piece \<noteq> npieces - 1 then ParsedNone
                   else script_loop content_type npieces pushes body ss)))"

text \<open>\<open>InscriptionParser::parse\<close>, on the first script and the others.\<close>

definition parse_scripts :: "bytes \<Rightarrow> bytes list \<Rightarrow> parsed_inscription" where
  "parse_scripts script others =
     (case decode_push_datas script of
        None \<Rightarrow> ParsedNone
      | Some pushes \<Rightarrow>
          if length pushes < 3 then ParsedNone
          else if pushes ! 0 \<noteq> protocol_id then ParsedNone
          else (case push_data_to_number (pushes ! 1) of
            None \<Rightarrow> ParsedNone
          | Some npieces \<Rightarrow>
              if npieces = 0 then ParsedNone
              else script_loop (pushes ! 2) npieces (drop 3 pushes) [] others))"

section \<open>Envelopes of a tapscript\<close>

datatype instruction = PushBytes bytes | Op u8

definition op_if :: u8 where "op_if = 99"
definition op_endif :: u8 where "op_endif = 104"

record raw_envelope =
  re_input :: u32
  re_offset :: u32
  re_payload :: "bytes list"
  re_pushnum :: bool
  re_stutter :: bool

text \<open>\<open>accept\<close>: skips the instruction if it is next.\<close>

definition accept_instruction ::
  "instruction \<Rightarrow> instruction option list \<Rightarrow> bool \<times> instruction option list" where
  "accept_instruction i is = (case is of Some j # r \<Rightarrow> if j = i then (True, r) else (False, is) | _ \<Rightarrow> (False, is))"

definition peek_empty_push :: "instruction option list \<Rightarrow> bool" where
  "peek_empty_push is = (case is of Some (PushBytes []) # _ \<Rightarrow> True | _ \<Rightarrow> False)"

text \<open>\<open>OP_PUSHNUM_NEG1\<close> is 79, \<open>OP_PUSHNUM_1\<close> to \<open>16\<close> are 81 to 96.\<close>

definition pushnum_bytes :: "u8 \<Rightarrow> bytes option" where
  "pushnum_bytes c = (if c = 79 then Some [129] else if 81 \<le> c \<and> c \<le> 96 then Some [c - 80] else None)"

text \<open>The loop of \<open>from_instructions\<close>; the outer \<open>None\<close> is the script error, the inner one a
  payload that is not closed by \<open>OP_ENDIF\<close>.\<close>

fun payload_loop ::
  "instruction option list \<Rightarrow> bool \<Rightarrow> bytes list \<Rightarrow>
     ((bool \<times> bytes list) option \<times> instruction option list) option"
where
  "payload_loop [] pushnum payload = Some (None, [])"
| "payload_loop (None # is) pushnum payload = None"
| "payload_loop (Some (PushBytes p) # is) pushnum payload = payload_loop is pushnum (payload @ [p])"
| "payload_loop (Some (Op c) # is) pushnum payload =
     (if c = op_endif then Some (Some (pushnum, payload), is)
      else case pushnum_bytes c of
        Some v \<Rightarrow> payload_loop is True (payload @ [v])
      | None \<Rightarrow> Some (None, is))"

definition from_instructions ::
  "instruction option list \<Rightarrow> u32 \<Rightarrow> u32 \<Rightarrow> bool \<Rightarrow>
     ((bool \<times> raw_envelope option) \<times> instruction option list) option"
where
  "from_instructions is input offset stutter =
     (let (is_if, is) = accept_instruction (Op op_if) is in
      if \<not> is_if then Some ((peek_empty_push is, None), is)
      else let (is_ord, is) = accept_instruction (PushBytes protocol_id) is in
        if \<not> is_ord then Some ((peek_empty_push is, None), is)
        else (case payload_loop is False [] of
          None \<Rightarrow> None
        | Some (None, is) \<Rightarrow> Some ((False, None), is)
        | Some (Some (pushnum, payload), is) \<Rightarrow>
            Some ((False, Some \<lparr> re_input = input, re_offset = offset, re_payload = payload,
              re_pushnum = pushnum, re_stutter = stutter \<rparr>), is)))"

lemma payload_loop_length:
  "payload_loop is pushnum payload = Some (r, is') \<Longrightarrow> length is' \<le> length is"
  by (induction "is" pushnum payload rule: payload_loop.induct)
    (auto split: if_splits option.splits)

lemma accept_length: "accept_instruction i is = (b, is') \<Longrightarrow> length is' \<le> length is"
  by (auto simp: accept_instruction_def split: list.splits option.splits if_splits)

lemma from_instructions_length:
  "from_instructions is input offset stutter = Some (r, is') \<Longrightarrow> length is' \<le> length is"
  by (auto simp: from_instructions_def Let_def split: prod.splits if_splits option.splits
      dest!: payload_loop_length accept_length)

function tapscript_loop ::
  "instruction option list \<Rightarrow> u32 \<Rightarrow> bool \<Rightarrow> raw_envelope list \<Rightarrow> raw_envelope list option" where
  "tapscript_loop is input stuttered envelopes =
     (case is of
        [] \<Rightarrow> Some envelopes
      | None # _ \<Rightarrow> None
      | Some i # is \<Rightarrow>
          if i = PushBytes [] then
            (case from_instructions is input (word_of_nat (length envelopes)) stuttered of
               None \<Rightarrow> None
             | Some ((stutter, Some envelope), is) \<Rightarrow>
                 tapscript_loop is input stuttered (envelopes @ [envelope])
             | Some ((stutter, None), is) \<Rightarrow> tapscript_loop is input stutter envelopes)
          else tapscript_loop is input stuttered envelopes)"
  by pat_completeness auto
termination
  by (relation "measure (\<lambda>(is, _). length is)") (auto dest!: from_instructions_length)

declare tapscript_loop.simps [simp del]

definition from_tapscript :: "(bytes \<Rightarrow> instruction option list) \<Rightarrow> bytes \<Rightarrow> u32 \<Rightarrow> raw_envelope list option" where
  "from_tapscript ins script input = tapscript_loop (ins script) input False []"

section \<open>Fields of an envelope\<close>

datatype tag =
    TagPointer | TagUnbound | TagContentType | TagParent | TagMetadata | TagMetaprotocol
  | TagContentEncoding | TagDelegate | TagRune | TagNote | TagNop

fun tag_bytes :: "tag \<Rightarrow> bytes" where
  "tag_bytes TagPointer = [2]"
| "tag_bytes TagUnbound = [66]"
| "tag_bytes TagContentType = [1]"
| "tag_bytes TagParent = [3]"
| "tag_bytes TagMetadata = [5]"
| "tag_bytes TagMetaprotocol = [7]"
| "tag_bytes TagContentEncoding = [9]"
| "tag_bytes TagDelegate = [11]"
| "tag_bytes TagRune = [13]"
| "tag_bytes TagNote = [15]"
| "tag_bytes TagNop = [255]"

definition tag_chunked :: "tag \<Rightarrow> bool" where
  "tag_chunked t \<longleftrightarrow> t = TagMetadata"

text \<open>The \<open>BTreeMap\<close> of fields as an association list; only lookups and keys matter.\<close>

type_synonym fields = "(bytes \<times> bytes list) list"

fun fields_remove :: "bytes \<Rightarrow> fields \<Rightarrow> fields" where
  "fields_remove k fs = filter (\<lambda>(k', v). k' \<noteq> k) fs"

fun fields_push :: "bytes \<Rightarrow> bytes \<Rightarrow> fields \<Rightarrow> fields" where
  "fields_push k v [] = [(k, [v])]"
| "fields_push k v ((k', vs) # fs) =
     (if k' = k then (k, vs @ [v]) # fs else (k', vs) # fields_push k v fs)"

definition tag_take :: "tag \<Rightarrow> fields \<Rightarrow> bytes option \<times> fields" where
  "tag_take t fs =
     (case map_of fs (tag_bytes t) of
        None \<Rightarrow> (None, fs)
      | Some vs \<Rightarrow>
          if tag_chunked t then
            (if vs = [] then None else Some (concat vs), fields_remove (tag_bytes t) fs)
          else
            (case vs of
               [] \<Rightarrow> (None, fs)
             | v # vs \<Rightarrow> (Some v,
                 if vs = [] then fields_remove (tag_bytes t) fs
                 else map (\<lambda>(k, w). (k, if k = tag_bytes t then vs else w)) fs)))"

definition tag_take_array :: "tag \<Rightarrow> fields \<Rightarrow> bytes list \<times> fields" where
  "tag_take_array t fs =
     (case map_of fs (tag_bytes t) of Some vs \<Rightarrow> vs | None \<Rightarrow> [], fields_remove (tag_bytes t) fs)"

text \<open>The first empty push at an even position ends the fields.\<close>

fun body_position :: "nat \<Rightarrow> bytes list \<Rightarrow> nat option" where
  "body_position i [] = None"
| "body_position i (p # ps) = (if i mod 2 = 0 \<and> p = [] then Some i else body_position (Suc i) ps)"

fun read_fields :: "bytes list \<Rightarrow> fields \<times> bool \<Rightarrow> fields \<times> bool" where
  "read_fields (k # v # ps) (fs, incomplete) = read_fields ps (fields_push k v fs, incomplete)"
| "read_fields [k] (fs, incomplete) = (fs, True)"
| "read_fields [] (fs, incomplete) = (fs, incomplete)"

definition parse_envelope :: "raw_envelope \<Rightarrow> inscription" where
  "parse_envelope e =
     (let payload = re_payload e;
          body = body_position 0 payload;
          (fs, incomplete) = read_fields (take (case body of Some i \<Rightarrow> i | None \<Rightarrow> length payload) payload)
            ([], False);
          duplicate = list_ex (\<lambda>(k, vs). 1 < length vs) fs;
          (content_encoding, fs) = tag_take TagContentEncoding fs;
          (content_type, fs) = tag_take TagContentType fs;
          (delegate, fs) = tag_take TagDelegate fs;
          (metadata, fs) = tag_take TagMetadata fs;
          (metaprotocol, fs) = tag_take TagMetaprotocol fs;
          (parents, fs) = tag_take_array TagParent fs;
          (pointer, fs) = tag_take TagPointer fs;
          (rune, fs) = tag_take TagRune fs
      in \<lparr> in_body = map_option (\<lambda>i. concat (drop (i + 1) payload)) body,
           in_content_type = content_type, in_content_encoding = content_encoding,
           in_delegate = delegate, in_duplicate_field = duplicate, in_incomplete_field = incomplete,
           in_metadata = metadata, in_metaprotocol = metaprotocol, in_parents = parents,
           in_pointer = pointer, in_rune = rune,
           in_unrecognized_even_field =
             list_ex (\<lambda>(k, vs). case k of [] \<Rightarrow> False | b # _ \<Rightarrow> b mod 2 = 0) fs \<rparr>)"

text \<open>\<open>Inscription::from_parts\<close>, on the first part and the others.\<close>

definition from_parts ::
  "(bytes \<Rightarrow> instruction option list) \<Rightarrow> part \<Rightarrow> part list \<Rightarrow> u32 \<Rightarrow> parsed_inscription" where
  "from_parts ins p ps vin =
     (case (if ps = [] \<and> pt_is_tapscript p then from_tapscript ins (pt_script_buffer p) vin else None) of
        Some envelopes \<Rightarrow> ParsedMany (map parse_envelope envelopes)
      | None \<Rightarrow> parse_scripts (pt_script_buffer p) (map pt_script_buffer ps))"

end
