(* ===== verification/BlockParser.thy ===== *)
theory BlockParser
  imports Searcher Scripts Database
begin

text \<open>
  The inscriptions of a block (\<open>src/inscriptions/parser.rs\<close>): every input moves the inscriptions on
  the output it spends, and may create inscriptions; what concerns tokens is handed to the token
  cache.  \<open>None\<close> is a panic: an \<open>unwrap\<close> of a missing previous output or of the coinbase
  transaction a block must start with.

  The hash function, the queries on scripts and witnesses of the script library, and the order in
  which a hash set of offsets is walked are the parameters of \<open>script_ops\<close>.
\<close>

record script_ops =
  so_sha256 :: "bytes \<Rightarrow> hash32"
  so_is_op_return :: "bytes \<Rightarrow> bool"
  so_unspendable :: "bytes \<Rightarrow> bool"
  so_tapscript :: "bytes list \<Rightarrow> bytes option"
  so_instructions :: "bytes \<Rightarrow> instruction option list"
  so_walk :: "u64 set \<Rightarrow> u64 list"

record parser_env =
  pe_env :: env
  pe_network :: network
  pe_json :: json_ops
  pe_script :: script_ops

text \<open>The state of \<open>parse_block\<close>: the partial inscriptions and the offsets by output, the inscriptions
  left to the miner and the token cache.\<close>

record parse_state =
  ps_partials :: "outpoint \<rightharpoonup> partials"
  ps_offsets :: "outpoint \<rightharpoonup> u64 set"
  ps_leaked :: "leaked option"
  ps_cache :: token_cache

section \<open>Moves\<close>

definition nth_option :: "'a list \<Rightarrow> nat \<Rightarrow> 'a option" where
  "nth_option xs i = (if i < length xs then Some (xs ! i) else None)"

text \<open>\<open>entry(k).or_default().insert(x)\<close>, and whether \<open>x\<close> was there.\<close>

definition offset_taken :: "(outpoint \<rightharpoonup> u64 set) \<Rightarrow> location \<Rightarrow> bool" where
  "offset_taken m loc \<longleftrightarrow> (case m (loc_outpoint loc) of None \<Rightarrow> False | Some s \<Rightarrow> loc_offset loc \<in> s)"

definition insert_offset :: "location \<Rightarrow> (outpoint \<rightharpoonup> u64 set) \<Rightarrow> (outpoint \<rightharpoonup> u64 set)" where
  "insert_offset loc m = m(loc_outpoint loc \<mapsto>
     insert (loc_offset loc) (case m (loc_outpoint loc) of None \<Rightarrow> {} | Some s \<Rightarrow> s))"

text \<open>The body of the loop over the offsets on a spent output.\<close>

definition move_inscription ::
  "parser_env \<Rightarrow> (outpoint \<rightharpoonup> tx_prevout) \<Rightarrow> evaluated_tx hashed \<Rightarrow> u64 list \<Rightarrow> nat \<Rightarrow> tx_input \<Rightarrow>
     u64 \<Rightarrow> parse_state \<Rightarrow> parse_state option"
where
  "move_inscription P prevouts tx inputs_cum input_index txin inscription_offset s =
     (let S = pe_script P; txid = hd_hash tx; outs = etx_outputs (hd_value tx);
          old_location = \<lparr> loc_outpoint = tin_outpoint txin, loc_offset = inscription_offset \<rparr>;
          is_token_transfer_move = (tc_all (ps_cache s) old_location \<noteq> None);
          offset = map_option (\<lambda>x. x + inscription_offset) (nth_option inputs_cum input_index)
      in case get_output_index_by_input offset outs of
           Inr (new_vout, new_offset) \<Rightarrow>
             (let s = s\<lparr> ps_offsets := insert_offset
                     \<lparr> loc_outpoint = \<lparr> op_txid = txid, op_vout = new_vout \<rparr>, loc_offset = new_offset \<rparr>
                     (ps_offsets s) \<rparr>
              in if is_token_transfer_move then
                   (case nth_option outs (unat new_vout) of
                      None \<Rightarrow> None
                    | Some out \<Rightarrow>
                        if so_is_op_return S (tout_script_pubkey (eo_out out))
                        then Some (s\<lparr> ps_cache := burned_transfer (pe_env P) old_location txid new_vout (ps_cache s) \<rparr>)
                        else Some (s\<lparr> ps_cache := transferred old_location
                               (so_sha256 S (tout_script_pubkey (eo_out out))) txid new_vout (ps_cache s) \<rparr>))
                 else Some s)
         | Inl _ \<Rightarrow> do {
             s \<leftarrow> (if is_token_transfer_move then
                   (case prevouts (tin_outpoint txin) of
                      None \<Rightarrow> None
                    | Some p \<Rightarrow> Some (s\<lparr> ps_cache :=
                        transferred old_location (pv_script_hash p) txid 0 (ps_cache s) \<rparr>))
                 else Some s);
             lk \<leftarrow> Option.bind (ps_leaked s)
               (leaked_add input_index (hd_value tx) inscription_offset prevouts LeakedMove);
             Some (s\<lparr> ps_leaked := Some lk \<rparr>)
           })"

fun fold_option :: "('a \<Rightarrow> 's \<Rightarrow> 's option) \<Rightarrow> 'a list \<Rightarrow> 's \<Rightarrow> 's option" where
  "fold_option f [] s = Some s"
| "fold_option f (x # xs) s = Option.bind (f x s) (fold_option f xs)"

definition move_inscriptions ::
  "parser_env \<Rightarrow> (outpoint \<rightharpoonup> tx_prevout) \<Rightarrow> evaluated_tx hashed \<Rightarrow> u64 list \<Rightarrow> nat \<Rightarrow> tx_input \<Rightarrow>
     parse_state \<Rightarrow> parse_state option"
where
  "move_inscriptions P prevouts tx inputs_cum input_index txin s =
     (case ps_offsets s (tin_outpoint txin) of
        None \<Rightarrow> Some s
      | Some offsets \<Rightarrow>
          fold_option (move_inscription P prevouts tx inputs_cum input_index txin)
            (so_walk (pe_script P) offsets)
            (s\<lparr> ps_offsets := (ps_offsets s)(tin_outpoint txin := None) \<rparr>))"

section \<open>Creations\<close>

datatype parsed_result =
    ResNone
  | ResPartials
  | ResSingle inscription_template
  | ResMany "inscription_template list"

text \<open>\<open>convert_to_template\<close>: the template, or an inscription left to the miner; with the changed list of
  the latter.\<close>

definition convert_to_template ::
  "parser_env \<Rightarrow> (outpoint \<rightharpoonup> tx_prevout) \<Rightarrow> evaluated_tx hashed \<Rightarrow> u64 list \<Rightarrow> nat \<Rightarrow> partials \<Rightarrow>
     inscription \<Rightarrow> leaked \<Rightarrow> (inscription_template option \<times> leaked) option"
where
  "convert_to_template P prevouts tx inputs_cum input_index pa insc lk =
     (let S = pe_script P; outs = etx_outputs (hd_value tx) in
      case get_output_index_by_input (nth_option inputs_cum input_index) outs of
        Inl _ \<Rightarrow> map_option (Pair None) (leaked_add input_index (hd_value tx) 0 prevouts LeakedCreation lk)
      | Inr found \<Rightarrow>
          (let (vout, offset) = (case get_output_index_by_input (inscription_pointer insc) outs of
                 Inr pointed \<Rightarrow> pointed | Inl _ \<Rightarrow> found)
           in case nth_option outs (unat vout) of
                None \<Rightarrow> None
              | Some out \<Rightarrow> Some (Some
                  \<lparr> it_genesis = \<lparr> iid_txid = pa_genesis_txid pa, iid_index = 0 \<rparr>,
                    it_location = \<lparr> loc_outpoint = \<lparr> op_txid = hd_hash tx, op_vout = vout \<rparr>, loc_offset = offset \<rparr>,
                    it_content_type = inscription_content_type insc,
                    it_owner = (if so_is_op_return S (tout_script_pubkey (eo_out out)) then e_op_return (pe_env P)
                                else so_sha256 S (tout_script_pubkey (eo_out out))),
                    it_value = tout_value (eo_out out),
                    it_content = in_body insc,
                    it_leaked = False \<rparr>, lk)))"

fun convert_all ::
  "(inscription \<Rightarrow> leaked \<Rightarrow> (inscription_template option \<times> leaked) option) \<Rightarrow> inscription list \<Rightarrow> leaked \<Rightarrow>
     (inscription_template list \<times> leaked) option"
where
  "convert_all f [] lk = Some ([], lk)"
| "convert_all f (i # is) lk = do {
     (t, lk) \<leftarrow> f i lk;
     (ts, lk) \<leftarrow> convert_all f is lk;
     Some ((case t of None \<Rightarrow> ts | Some t \<Rightarrow> t # ts), lk)
   }"

definition parse_inscription ::
  "parser_env \<Rightarrow> (outpoint \<rightharpoonup> tx_prevout) \<Rightarrow> evaluated_tx hashed \<Rightarrow> u64 list \<Rightarrow> nat \<Rightarrow> partials \<Rightarrow>
     leaked \<Rightarrow> (parsed_result \<times> leaked) option"
where
  "parse_inscription P prevouts tx inputs_cum input_index pa lk =
     (let convert = convert_to_template P prevouts tx inputs_cum input_index pa in
      case from_parts (so_instructions (pe_script P)) (hd (pa_parts pa)) (tl (pa_parts pa))
             (word_of_nat input_index) of
        ParsedNone \<Rightarrow> Some (ResNone, lk)
      | ParsedPartial \<Rightarrow> Some (ResPartials, lk)
      | ParsedSingle insc \<Rightarrow> map_option (\<lambda>(t, lk).
          ((case t of None \<Rightarrow> ResNone | Some t \<Rightarrow> ResSingle t), lk)) (convert insc lk)
      | ParsedMany is \<Rightarrow> map_option (\<lambda>(ts, lk). (ResMany ts, lk)) (convert_all convert is lk))"

text \<open>The inscription numbers in a transaction: those of templates whose genesis it is.\<close>

fun number_templates :: "u32 \<Rightarrow> inscription_template list \<Rightarrow> inscription_template list" where
  "number_templates n [] = []"
| "number_templates n (t # ts) =
     t\<lparr> it_genesis := (it_genesis t)\<lparr> iid_index := n \<rparr> \<rparr> # number_templates (n + 1) ts"

text \<open>One template: its offset is entered, and its content is given to the token cache unless another
  inscription was there first.\<close>

definition place_template ::
  "parser_env \<Rightarrow> u32 \<Rightarrow> u32 \<Rightarrow> inscription_template \<Rightarrow> parse_state \<Rightarrow> parse_state" where
  "place_template P height timestamp t s =
     (let E = pe_env P;
          occupied = (offset_taken (ps_offsets s) (it_location t)
            \<and> jubilee_height (pe_network P) (e_chain E) \<noteq> 133000);
          s = s\<lparr> ps_offsets := insert_offset (it_location t) (ps_offsets s) \<rparr>
      in if \<not> it_leaked t \<and> occupied \<and> \<not> is_jubilee (pe_network P) (e_chain E) height then s
         else s\<lparr> ps_cache := fst (parse_token_action E (pe_json P) t height timestamp (ps_cache s)) \<rparr>)"

definition input_part :: "parser_env \<Rightarrow> tx_input \<Rightarrow> part" where
  "input_part P txin =
     (case so_tapscript (pe_script P) (tin_witness txin) of
        Some tapscript \<Rightarrow> \<lparr> pt_is_tapscript = True, pt_script_buffer = tapscript \<rparr>
      | None \<Rightarrow> \<lparr> pt_is_tapscript = False, pt_script_buffer = tin_script_sig txin \<rparr>)"

text \<open>The creation half of the loop over the inputs; the number is the next inscription number.\<close>

definition create_inscriptions ::
  "parser_env \<Rightarrow> u32 \<Rightarrow> u32 \<Rightarrow> (outpoint \<rightharpoonup> tx_prevout) \<Rightarrow> evaluated_tx hashed \<Rightarrow> u64 list \<Rightarrow> nat \<Rightarrow>
     tx_input \<Rightarrow> u32 \<times> parse_state \<Rightarrow> (u32 \<times> parse_state) option"
where
  "create_inscriptions P height timestamp prevouts tx inputs_cum input_index txin = (\<lambda>(n, s).
     (let txid = hd_hash tx;
          pa = (case ps_partials s (tin_outpoint txin) of Some pa \<Rightarrow> pa
                | None \<Rightarrow> \<lparr> pa_inscription_index = 0, pa_genesis_txid = txid, pa_parts = [] \<rparr>);
          s = s\<lparr> ps_partials := (ps_partials s)(tin_outpoint txin := None) \<rparr>;
          pa = pa\<lparr> pa_parts := pa_parts pa @ [input_part P txin] \<rparr>;
          new = (pa_genesis_txid pa = txid)
      in do {
        lk \<leftarrow> ps_leaked s;
        (res, lk) \<leftarrow> parse_inscription P prevouts tx inputs_cum input_index pa lk;
        let s = s\<lparr> ps_leaked := Some lk \<rparr>;
        (case res of
           ResNone \<Rightarrow> Some (n, s)
         | ResPartials \<Rightarrow>
             (let (n', pa) = (if new then (n + 1, pa\<lparr> pa_inscription_index := n \<rparr>) else (n, pa))
              in Some (n', if input_index < length (etx_outputs (hd_value tx))
                   then s\<lparr> ps_partials := (ps_partials s)
                          (\<lparr> op_txid = txid, op_vout = word_of_nat input_index \<rparr> \<mapsto> pa) \<rparr>
                   else s))
         | ResSingle t \<Rightarrow>
             (let (n', ts) = (if new then (n + 1, number_templates n [t]) else (n, [t]))
              in Some (n', fold (place_template P height timestamp) ts s))
         | ResMany ts \<Rightarrow>
             (let (n', ts) = (if new then (n + word_of_nat (length ts), number_templates n ts) else (n, ts))
              in Some (n', fold (place_template P height timestamp) ts s)))
      }))"

section \<open>Transactions and blocks\<close>

definition parse_input ::
  "parser_env \<Rightarrow> u32 \<Rightarrow> u32 \<Rightarrow> (outpoint \<rightharpoonup> tx_prevout) \<Rightarrow> evaluated_tx hashed \<Rightarrow> u64 list \<Rightarrow>
     nat \<times> tx_input \<Rightarrow> u32 \<times> parse_state \<Rightarrow> (u32 \<times> parse_state) option"
where
  "parse_input P height timestamp prevouts tx inputs_cum = (\<lambda>(input_index, txin) (n, s). do {
     s \<leftarrow> move_inscriptions P prevouts tx inputs_cum input_index txin s;
     (if is_jubilee (pe_network P) (e_chain (pe_env P)) height \<or> input_index = 0
      then create_inscriptions P height timestamp prevouts tx inputs_cum input_index txin (n, s)
      else Some (n, s))
   })"

definition parse_tx ::
  "parser_env \<Rightarrow> u32 \<Rightarrow> u32 \<Rightarrow> (outpoint \<rightharpoonup> tx_prevout) \<Rightarrow> evaluated_tx hashed \<Rightarrow> parse_state \<Rightarrow> parse_state option"
where
  "parse_tx P height timestamp prevouts tx s = do {
     coinbase \<leftarrow> is_coinbase (hd_value tx);
     (if coinbase then Some (s\<lparr> ps_leaked := Some (leaked_new tx) \<rparr>)
      else do {
        lk \<leftarrow> Option.bind (ps_leaked s) (add_tx_fee (hd_value tx) prevouts);
        inputs_cum \<leftarrow> calc_offsets (hd_value tx) prevouts;
        (n, s) \<leftarrow> fold_option (parse_input P height timestamp prevouts tx inputs_cum)
          (List.enumerate 0 (etx_inputs (hd_value tx))) (0, s\<lparr> ps_leaked := Some lk \<rparr>);
        Some s
      })
   }"

text \<open>\<open>parse_block\<close>, from the loaded partial inscriptions and offsets and the loaded token cache; it
  returns the changed cache and the two entries of the data to write.\<close>

definition parse_block ::
  "parser_env \<Rightarrow> db \<Rightarrow> u32 \<Rightarrow> block \<Rightarrow> (outpoint \<rightharpoonup> tx_prevout) \<Rightarrow> token_cache \<Rightarrow>
     (token_cache \<times> processed_data list) option"
where
  "parse_block P d height b prevouts cache =
     (let partials = db_partials d |` dom prevouts; offsets = db_offsets d |` dom prevouts in do {
        s \<leftarrow> fold_option (parse_tx P height (bh_timestamp (hd_value (blk_header b))) prevouts) (blk_txs b)
          \<lparr> ps_partials = partials, ps_offsets = offsets, ps_leaked = None, ps_cache = cache \<rparr>;
        lk \<leftarrow> ps_leaked s;
        Some (ps_cache s,
          [PdPartials partials (ps_partials s),
           PdOffsets offsets (fold insert_offset (get_leaked_inscriptions lk) (ps_offsets s))])
      })"

end
