(* ===== verification/Events.thy ===== *)
theory Events
  imports Database
begin

text \<open>
  The public form of the token history: addresses instead of script hashes
  (\<open>src/utils/address_fullhash.rs\<close>), the events the server publishes (\<open>src/server/structs.rs\<close>,
  \<open>src/server/threads/event_sender.rs\<close>), the records of the REST interface
  (\<open>src/rest/types.rs\<close>) and the proof of history over them (\<open>Server::generate_history_hash\<close> of
  \<open>src/server/mod.rs\<close>).

  The JSON serializer and SHA-256 are the parameters of \<open>proof_ops\<close>.
\<close>

section \<open>Addresses\<close>

definition op_return_address :: bytes where
  "op_return_address = str_bytes ''BURNED''"

definition non_standard_address :: bytes where
  "non_standard_address = str_bytes ''non-standard''"

definition is_op_return_hash :: "(bytes \<Rightarrow> hash32) \<Rightarrow> hash32 \<Rightarrow> bool" where
  "is_op_return_hash sha h \<longleftrightarrow> h = sha op_return_address"

definition fullhash_to_address_str :: "(bytes \<Rightarrow> hash32) \<Rightarrow> hash32 \<Rightarrow> bytes option \<Rightarrow> bytes" where
  "fullhash_to_address_str sha h v =
     (case v of Some a \<Rightarrow> a
      | None \<Rightarrow> if is_op_return_hash sha h then op_return_address else non_standard_address)"

type_synonym addresses = "hash32 \<rightharpoonup> bytes"

definition address_get :: "(bytes \<Rightarrow> hash32) \<Rightarrow> addresses \<Rightarrow> hash32 \<Rightarrow> bytes" where
  "address_get sha as h = fullhash_to_address_str sha h (as h)"

text \<open>\<open>Server::load_addresses\<close>: a \<open>multi_get_kv\<close> that skips the keys it does not find.\<close>

definition load_addresses :: "db \<Rightarrow> hash32 set \<Rightarrow> addresses" where
  "load_addresses d ks = db_addresses d |` ks"

section \<open>Events\<close>

record address_token_id_event =
  ae_address :: bytes
  ae_token :: tick
  ae_id :: u64

datatype token_history_event =
    TeDeploy fixed128 fixed128 u8 hash32 u32
  | TeMint fixed128 hash32 u32
  | TeDeployTransfer fixed128 hash32 u32
  | TeSend fixed128 bytes hash32 u32
  | TeReceive fixed128 bytes hash32 u32
  | TeSendReceive fixed128 hash32 u32

record history_value_event =
  he_height :: u32
  he_action :: token_history_event

datatype server_event =
    SeNewHistory address_token_id_event history_value_event
  | SeReorg u32 u32
  | SeNewBlock u32 hash32 hash32

fun token_event_of :: "(bytes \<Rightarrow> hash32) \<Rightarrow> addresses \<Rightarrow> token_history_db \<Rightarrow> token_history_event" where
  "token_event_of sha as (ThDeploy mx lim dec txid vout) = TeDeploy mx lim dec txid vout"
| "token_event_of sha as (ThMint amt txid vout) = TeMint amt txid vout"
| "token_event_of sha as (ThDeployTransfer amt txid vout) = TeDeployTransfer amt txid vout"
| "token_event_of sha as (ThSend amt recipient txid vout) = TeSend amt (address_get sha as recipient) txid vout"
| "token_event_of sha as (ThReceive amt sender txid vout) = TeReceive amt (address_get sha as sender) txid vout"
| "token_event_of sha as (ThSendReceive amt txid vout) = TeSendReceive amt txid vout"

definition history_event_of :: "(bytes \<Rightarrow> hash32) \<Rightarrow> addresses \<Rightarrow> history_value \<Rightarrow> history_value_event" where
  "history_event_of sha as v =
     \<lparr> he_height = hv_height v, he_action = token_event_of sha as (hv_action v) \<rparr>"

type_synonym raw_event = "(address_token_id \<times> history_value) list"

text \<open>The keys whose addresses a batch of history entries shows.\<close>

definition entry_keys :: "address_token_id \<times> history_value \<Rightarrow> hash32 set" where
  "entry_keys e = insert (ati_address (fst e)) (set_option (history_db_address (hv_action (snd e))))"

definition publish_entry ::
  "(bytes \<Rightarrow> hash32) \<Rightarrow> addresses \<Rightarrow> address_token_id \<times> history_value \<Rightarrow> server_event" where
  "publish_entry sha as = (\<lambda>(k, v). SeNewHistory
     \<lparr> ae_address = address_get sha as (ati_address k), ae_token = ati_token k, ae_id = ati_id k \<rparr>
     (history_event_of sha as v))"

definition publish_batch :: "(bytes \<Rightarrow> hash32) \<Rightarrow> db \<Rightarrow> raw_event \<Rightarrow> server_event list" where
  "publish_batch sha d evs =
     map (publish_entry sha (load_addresses d (\<Union> (entry_keys ` set evs)))) evs"

text \<open>The loop of \<open>EventSender::run\<close>, on what the successive polls of its channel return and whether
  the server is cancelled at each.  The result is the list of published events and how the list of
  polls ends: the thread has stopped, or it still waits and holds events.\<close>

datatype poll = Received raw_event | Empty | Closed

datatype sender_end = Stopped | Waiting raw_event

fun event_sender_run ::
  "(raw_event \<Rightarrow> server_event list) \<Rightarrow> raw_event \<Rightarrow> (poll \<times> bool) list \<Rightarrow> server_event list \<times> sender_end"
where
  "event_sender_run pub evs [] = ([], Waiting evs)"
| "event_sender_run pub evs ((Received v, cancelled) # ps) = event_sender_run pub (evs @ v) ps"
| "event_sender_run pub evs ((Empty, cancelled) # ps) =
     (if evs = [] then if cancelled then ([], Stopped) else event_sender_run pub evs ps
      else (let (out, e) = event_sender_run pub [] ps in (pub evs @ out, e)))"
| "event_sender_run pub evs ((Closed, cancelled) # ps) =
     (if evs = [] then ([], Stopped) else event_sender_run pub evs ps)"

section \<open>The REST records\<close>

record rest_address_token_id =
  ra_id :: u64
  ra_address :: bytes
  ra_tick :: tick

datatype rest_token_action =
    RaDeploy fixed128 fixed128 u8 hash32 u32
  | RaMint fixed128 hash32 u32
  | RaDeployTransfer fixed128 hash32 u32
  | RaSend fixed128 bytes hash32 u32
  | RaReceive fixed128 bytes hash32 u32
  | RaSendReceive fixed128 hash32 u32

record rest_history =
  rh_address_token :: rest_address_token_id
  rh_height :: u32
  rh_action :: rest_token_action

definition rest_of_token_event :: "address_token_id_event \<Rightarrow> rest_address_token_id" where
  "rest_of_token_event e = \<lparr> ra_id = ae_id e, ra_address = ae_address e, ra_tick = ae_token e \<rparr>"

fun rest_of_event :: "token_history_event \<Rightarrow> rest_token_action" where
  "rest_of_event (TeDeploy mx lim dec txid vout) = RaDeploy mx lim dec txid vout"
| "rest_of_event (TeDeployTransfer amt txid vout) = RaDeployTransfer amt txid vout"
| "rest_of_event (TeMint amt txid vout) = RaMint amt txid vout"
| "rest_of_event (TeSend amt recipient txid vout) = RaSend amt recipient txid vout"
| "rest_of_event (TeReceive amt sender txid vout) = RaReceive amt sender txid vout"
| "rest_of_event (TeSendReceive amt txid vout) = RaSendReceive amt txid vout"

fun from_with_addresses :: "(bytes \<Rightarrow> hash32) \<Rightarrow> addresses \<Rightarrow> token_history_db \<Rightarrow> rest_token_action" where
  "from_with_addresses sha as (ThDeploy mx lim dec txid vout) = RaDeploy mx lim dec txid vout"
| "from_with_addresses sha as (ThMint amt txid vout) = RaMint amt txid vout"
| "from_with_addresses sha as (ThDeployTransfer amt txid vout) = RaDeployTransfer amt txid vout"
| "from_with_addresses sha as (ThSend amt recipient txid vout) = RaSend amt (address_get sha as recipient) txid vout"
| "from_with_addresses sha as (ThReceive amt sender txid vout) = RaReceive amt (address_get sha as sender) txid vout"
| "from_with_addresses sha as (ThSendReceive amt txid vout) = RaSendReceive amt txid vout"

text \<open>The conversion in the event stream of \<open>src/rest/history.rs\<close>.\<close>

definition rest_of_server_event :: "address_token_id_event \<Rightarrow> history_value_event \<Rightarrow> rest_history" where
  "rest_of_server_event e v = \<lparr> rh_address_token = rest_of_token_event e, rh_height = he_height v,
     rh_action = rest_of_event (he_action v) \<rparr>"

definition rest_entry :: "(bytes \<Rightarrow> hash32) \<Rightarrow> addresses \<Rightarrow> address_token_id \<times> history_value \<Rightarrow> rest_history" where
  "rest_entry sha as = (\<lambda>(k, v).
     \<lparr> rh_address_token = \<lparr> ra_id = ati_id k, ra_address = address_get sha as (ati_address k), ra_tick = ati_token k \<rparr>,
       rh_height = hv_height v, rh_action = from_with_addresses sha as (hv_action v) \<rparr>)"

definition rest_history_new ::
  "(bytes \<Rightarrow> hash32) \<Rightarrow> db \<Rightarrow> u32 \<Rightarrow> token_history_db \<Rightarrow> address_token_id \<Rightarrow> rest_history" where
  "rest_history_new sha d height action k =
     rest_entry sha (load_addresses d (set_option (history_db_address action) \<union> {ati_address k}))
       (k, \<lparr> hv_height = height, hv_action = action \<rparr>)"

section \<open>The proof of history\<close>

record proof_ops =
  po_sha256 :: "bytes \<Rightarrow> hash32"
  po_json :: "rest_history \<Rightarrow> bytes option"

definition default_hash :: "proof_ops \<Rightarrow> hash32" where
  "default_hash Q = po_sha256 Q (str_bytes ''null'')"

definition generate_history_hash ::
  "proof_ops \<Rightarrow> hash32 \<Rightarrow> raw_event \<Rightarrow> addresses \<Rightarrow> hash32 option" where
  "generate_history_hash Q prev history as =
     map_option (\<lambda>current. po_sha256 Q (prev @ current))
       (if history = [] then Some (default_hash Q)
        else map_option (po_sha256 Q \<circ> concat)
          (option_list (map (po_json Q \<circ> rest_entry (po_sha256 Q) as) history)))"

section \<open>Agreement\<close>

text \<open>Only the addresses of an entry's keys matter to what is shown of it.\<close>

lemma token_event_cong:
  "(\<And>h. h \<in> set_option (history_db_address a) \<Longrightarrow> as h = bs h) \<Longrightarrow>
     token_event_of sha as a = token_event_of sha bs a"
  by (cases a) (simp_all add: address_get_def)

lemma from_with_addresses_cong:
  "(\<And>h. h \<in> set_option (history_db_address a) \<Longrightarrow> as h = bs h) \<Longrightarrow>
     from_with_addresses sha as a = from_with_addresses sha bs a"
  by (cases a) (simp_all add: address_get_def)

lemma rest_entry_cong:
  "(\<And>h. h \<in> entry_keys e \<Longrightarrow> as h = bs h) \<Longrightarrow> rest_entry sha as e = rest_entry sha bs e"
  by (cases e) (auto simp: rest_entry_def entry_keys_def address_get_def intro: from_with_addresses_cong)

lemma publish_entry_cong:
  "(\<And>h. h \<in> entry_keys e \<Longrightarrow> as h = bs h) \<Longrightarrow> publish_entry sha as e = publish_entry sha bs e"
  by (cases e) (auto simp: publish_entry_def history_event_of_def entry_keys_def address_get_def
      intro: token_event_cong)

lemma rest_of_event_of: "rest_of_event (token_event_of sha as a) = from_with_addresses sha as a"
  by (cases a) simp_all

lemma rest_of_publish:
  "publish_entry sha as e = SeNewHistory a v \<Longrightarrow> rest_of_server_event a v = rest_entry sha as e"
  by (cases e) (auto simp: publish_entry_def rest_of_server_event_def rest_entry_def rest_of_token_event_def
      history_event_of_def rest_of_event_of)

lemma rest_history_new_eq:
  "rest_history_new sha d (hv_height v) (hv_action v) k = rest_entry sha (db_addresses d) (k, v)"
  unfolding rest_history_new_def
  by (subst rest_entry_cong [where bs = "db_addresses d"])
    (auto simp: entry_keys_def load_addresses_def rest_entry_def)

lemma publish_batch_eq: "publish_batch sha d evs = map (publish_entry sha (db_addresses d)) evs"
  unfolding publish_batch_def
  by (intro map_cong refl publish_entry_cong) (auto simp: load_addresses_def restrict_map_def)

lemma generate_history_hash_cong:
  assumes "\<And>e h. e \<in> set history \<Longrightarrow> h \<in> entry_keys e \<Longrightarrow> as h = bs h"
  shows "generate_history_hash Q prev history as = generate_history_hash Q prev history bs"
proof -
  have "map (po_json Q \<circ> rest_entry (po_sha256 Q) as) history
      = map (po_json Q \<circ> rest_entry (po_sha256 Q) bs) history"
    using assms by (intro map_cong refl) (auto intro!: arg_cong [of _ _ "po_json Q"] rest_entry_cong)
  then show ?thesis unfolding generate_history_hash_def by (simp only:)
qed

section \<open>The sender thread\<close>

definition batches :: "(poll \<times> bool) list \<Rightarrow> raw_event" where
  "batches ps = concat (map (\<lambda>p. case fst p of Received v \<Rightarrow> v | _ \<Rightarrow> []) ps)"

lemma batches_simps [simp]:
  "batches [] = []" "batches ((Received v, c) # ps) = v @ batches ps"
  "batches ((Empty, c) # ps) = batches ps" "batches ((Closed, c) # ps) = batches ps"
  by (simp_all add: batches_def)

text \<open>Published in order, each event once; what is left is what the thread still holds.  A thread that
  stops does so at an idle poll at which the server is cancelled, when everything received before it
  has been published.\<close>

fun sender_ok ::
  "(address_token_id \<times> history_value \<Rightarrow> server_event) \<Rightarrow> raw_event \<Rightarrow> (poll \<times> bool) list \<Rightarrow>
     server_event list \<times> sender_end \<Rightarrow> bool"
where
  "sender_ok f evs ps (out, Waiting rest) \<longleftrightarrow> (\<exists>sent. evs @ batches ps = sent @ rest \<and> out = map f sent)"
| "sender_ok f evs ps (out, Stopped) \<longleftrightarrow>
     (\<exists>k < length ps. ps ! k = (Empty, True) \<and> out = map f (evs @ batches (take k ps)))"

lemma sender_ok_skip:
  "sender_ok f evs ps r \<Longrightarrow> batches [p] = [] \<Longrightarrow> sender_ok f evs (p # ps) r"
proof (induction f evs ps r rule: sender_ok.induct)
  case (1 f evs ps out rest)
  then show ?case by (cases p; cases "fst p") auto
next
  case (2 f evs ps out)
  then obtain k where "k < length ps" "ps ! k = (Empty, True)" "out = map f (evs @ batches (take k ps))" by auto
  with 2 show ?case by (cases p; cases "fst p") (auto intro!: exI [of _ "Suc k"])
qed

lemma event_sender_run_ok:
  assumes "\<And>evs. pub evs = map f evs" and "\<And>p. p \<in> set ps \<Longrightarrow> fst p \<noteq> Closed"
  shows "sender_ok f evs ps (event_sender_run pub evs ps)"
  using assms
proof (induction pub evs ps rule: event_sender_run.induct)
  case (1 pub evs)
  show ?case by simp
next
  case (2 pub evs v c ps)
  obtain out e where r: "event_sender_run pub (evs @ v) ps = (out, e)" by fastforce
  have "sender_ok f (evs @ v) ps (out, e)" unfolding r [symmetric] by (rule 2) (use 2 in auto)
  then show ?case
  proof (cases e)
    case Stopped
    with \<open>sender_ok f (evs @ v) ps (out, e)\<close> obtain k where "k < length ps" "ps ! k = (Empty, True)"
      "out = map f ((evs @ v) @ batches (take k ps))" by auto
    with r Stopped show ?thesis by (auto intro!: exI [of _ "Suc k"])
  qed (use r in auto)
next
  case (3 pub evs c ps)
  show ?case
  proof (cases "evs = []")
    case True
    show ?thesis
    proof (cases c)
      case True
      with \<open>evs = []\<close> show ?thesis by (auto intro!: exI [of _ 0])
    next
      case False
      have "sender_ok f evs ps (event_sender_run pub evs ps)"
        by (rule 3(1) [OF \<open>evs = []\<close> False]) (use 3 in auto)
      with True False show ?thesis by (auto intro: sender_ok_skip)
    qed
  next
    case False
    have pub: "pub = map f" using 3(3) by (rule ext)
    obtain out e where r: "event_sender_run pub [] ps = (out, e)" by fastforce
    have ok: "sender_ok f [] ps (out, e)" unfolding r [symmetric] by (rule 3(2) [OF False]) (use 3 in auto)
    show ?thesis
    proof (cases e)
      case Stopped
      with ok obtain k where "k < length ps" "ps ! k = (Empty, True)" "out = map f (batches (take k ps))" by auto
      with r Stopped False pub show ?thesis by (auto intro!: exI [of _ "Suc k"])
    next
      case (Waiting rest)
      with ok obtain sent where "batches ps = sent @ rest" "out = map f sent" by auto
      with r Waiting False pub show ?thesis by (auto intro!: exI [of _ "evs @ sent"])
    qed
  qed
next
  case (4 pub evs c ps)
  from 4(3) [of "(Closed, c)"] show ?case by simp
qed

text \<open>The first idle poll publishes what is held.\<close>

lemma event_sender_run_idle:
  "\<forall>p \<in> set ps. fst p \<noteq> Closed \<Longrightarrow>
     snd (event_sender_run pub evs (ps @ [(Empty, c)])) \<in> {Stopped, Waiting []}"
  by (induction pub evs ps rule: event_sender_run.induct) (auto split: prod.splits)

text \<open>A thread that is not cancelled does not stop.\<close>

lemma event_sender_run_alive:
  "\<forall>p \<in> set ps. fst p \<noteq> Closed \<and> \<not> snd p \<Longrightarrow> snd (event_sender_run pub evs ps) \<noteq> Stopped"
  by (induction pub evs ps rule: event_sender_run.induct) (auto split: prod.splits)

text \<open>Two idle polls of a cancelled server stop the thread: at the first it publishes what it holds, at the
  second there is nothing left.\<close>

lemma event_sender_run_stops:
  "\<forall>p \<in> set ps. fst p \<noteq> Closed \<Longrightarrow> snd (event_sender_run pub evs (ps @ [(Empty, c), (Empty, True)])) = Stopped"
  by (induction pub evs ps rule: event_sender_run.induct) (auto split: prod.splits)

text \<open>A closed channel: the events held are never published.\<close>

lemma event_sender_run_closed:
  "evs \<noteq> [] \<Longrightarrow> \<forall>p \<in> set ps. fst p = Closed \<Longrightarrow> event_sender_run pub evs ps = ([], Waiting evs)"
  by (induction pub evs ps rule: event_sender_run.induct) auto

end
