(* ===== verification/Indexer.thy ===== *)
theory Indexer
  imports BlockParser Events
begin

text \<open>
  The block indexer (\<open>src/inscriptions/indexer.rs\<close>, \<open>src/inscriptions/utils.rs\<close>) and the loop that
  drives it with the blocks of the chain follower (\<open>src/inscriptions/mod.rs\<close>).

  The database, the holder index and the undo log are the state that the source shares between its
  threads; the events are what is handed to the channels.  \<open>Inl\<close> is an error or a panic that ends
  the indexing thread.  Sending to the public channel may fail without effect; the raw channel is
  open as long as its receiver, the sender thread, runs, and sending to a closed one panics.
\<close>

section \<open>Spent outputs\<close>

datatype index_error =
    IePanic
  | IeMissingPrevout outpoint
  | IeSerialize
  | IeReorgTip u32 u32

definition tx_outputs :: "parser_env \<Rightarrow> evaluated_tx hashed \<Rightarrow> (outpoint \<times> tx_prevout) list" where
  "tx_outputs P tx =
     map (\<lambda>(vout, out). (\<lparr> op_txid = hd_hash tx, op_vout = word_of_nat vout \<rparr>,
            \<lparr> pv_script_hash = so_sha256 (pe_script P) (tout_script_pubkey (eo_out out)),
              pv_value = tout_value (eo_out out) \<rparr>))
       (filter (\<lambda>(vout, out). \<not> so_unspendable (pe_script P) (tout_script_pubkey (eo_out out)))
         (List.enumerate 0 (etx_outputs (hd_value tx))))"

definition block_outputs :: "parser_env \<Rightarrow> block \<Rightarrow> (outpoint \<rightharpoonup> tx_prevout)" where
  "block_outputs P b = map_of (rev (concat (map (tx_outputs P) (blk_txs b))))"

text \<open>\<open>Itertools::unique\<close> keeps the first of equal elements.\<close>

definition unique :: "'a list \<Rightarrow> 'a list" where
  "unique xs = rev (remdups (rev xs))"

definition spent_outpoints :: "block \<Rightarrow> outpoint list option" where
  "spent_outpoints b = map_option (unique \<circ> concat)
     (option_list (map (\<lambda>tx. map_option (\<lambda>coinbase. if coinbase then []
          else map tin_outpoint (etx_inputs (hd_value tx))) (is_coinbase (hd_value tx))) (blk_txs b)))"

fun fill_prevouts ::
  "(outpoint \<rightharpoonup> tx_prevout) \<Rightarrow> (outpoint \<rightharpoonup> tx_prevout) \<Rightarrow> outpoint list \<Rightarrow> (outpoint \<rightharpoonup> tx_prevout) \<Rightarrow>
     index_error + (outpoint \<rightharpoonup> tx_prevout)"
where
  "fill_prevouts tbl own [] result = Inr result"
| "fill_prevouts tbl own (k # ks) result =
     (case tbl k of
        Some v \<Rightarrow> fill_prevouts tbl own ks (result(k \<mapsto> v))
      | None \<Rightarrow> (case own k of
            Some v \<Rightarrow> fill_prevouts tbl own ks (result(k \<mapsto> v))
          | None \<Rightarrow> Inl (IeMissingPrevout k)))"

definition process_prevouts ::
  "parser_env \<Rightarrow> db \<Rightarrow> block \<Rightarrow> index_error + ((outpoint \<rightharpoonup> tx_prevout) \<times> processed_data)" where
  "process_prevouts P d b =
     (case spent_outpoints b of
        None \<Rightarrow> Inl IePanic
      | Some ks \<Rightarrow> Sum_Type.map_sum id (\<lambda>r. (r, PdPrevouts (block_outputs P b) ks))
          (fill_prevouts (db_prevouts d) (block_outputs P b) ks Map.empty))"

section \<open>History\<close>

text \<open>The closure of the \<open>flat_map\<close>: the entries of an action and the last id used.  A send has an entry
  for the sender and one for the recipient; \<open>None\<close> is the \<open>unwrap\<close> of a missing sender.\<close>

definition history_entries ::
  "u32 \<Rightarrow> history_token_action \<Rightarrow> u64 \<Rightarrow> (u64 \<times> raw_event) option" where
  "history_entries height action last_id =
     (let last_id = last_id + 1;
          token = history_tick action;
          key = \<lparr> ati_address = history_recipient action, ati_token = token, ati_id = last_id \<rparr>;
          db_action = from_token_history action
      in case db_action of
           ThSend amt recipient txid vout \<Rightarrow>
             (case history_sender action of
                None \<Rightarrow> None
              | Some sender \<Rightarrow>
                  (let last_id = last_id + 1 in Some (last_id,
                    [(\<lparr> ati_address = sender, ati_token = token, ati_id = last_id \<rparr>,
                      \<lparr> hv_height = height, hv_action = db_action \<rparr>),
                     (key, \<lparr> hv_height = height, hv_action = ThReceive amt sender txid vout \<rparr>)])))
         | _ \<Rightarrow> Some (last_id, [(key, \<lparr> hv_height = height, hv_action = db_action \<rparr>)]))"

fun block_history :: "u32 \<Rightarrow> history_token_action list \<Rightarrow> u64 \<Rightarrow> (u64 \<times> raw_event) option" where
  "block_history height [] last_id = Some (last_id, [])"
| "block_history height (a # as) last_id = do {
     (last_id, es) \<leftarrow> history_entries height a last_id;
     (last_id, es') \<leftarrow> block_history height as last_id;
     Some (last_id, es @ es')
   }"

text \<open>\<open>fullhash_to_load\<close>\<close>

fun action_hashes :: "history_token_action \<Rightarrow> hash32 set" where
  "action_hashes (HSend t amt recipient sender txid vout) = {recipient, sender}"
| "action_hashes a = {history_recipient a}"

definition block_addresses :: "parser_env \<Rightarrow> block \<Rightarrow> addresses" where
  "block_addresses P b = map_of (rev (concat (map (\<lambda>tx. List.map_filter (\<lambda>out.
     map_option (Pair (so_sha256 (pe_script P) (tout_script_pubkey (eo_out out)))) (eo_address out))
       (etx_outputs (hd_value tx))) (blk_txs b))))"

section \<open>One block\<close>

record index_env =
  ie_parser :: parser_env
  ie_json :: "rest_history \<Rightarrow> bytes option"

definition ie_proof :: "index_env \<Rightarrow> proof_ops" where
  "ie_proof X = \<lparr> po_sha256 = so_sha256 (pe_script (ie_parser X)), po_json = ie_json X \<rparr>"

record data_to_write =
  dw_processed :: "processed_data list"
  dw_block_events :: "server_event list"
  dw_history :: raw_event

definition transfers_to_remove :: "token_cache \<Rightarrow> address_location set" where
  "transfers_to_remove c =
     (\<lambda>loc. \<lparr> al_address = fst (the (tc_valid c loc)), al_location = loc \<rparr>) ` dom (tc_valid c)"

definition transfers_to_write :: "token_cache \<Rightarrow> (address_location \<rightharpoonup> transfer_proto_db)" where
  "transfers_to_write c = (\<lambda>k. case tc_valid c (al_location k) of
     Some (address, t) \<Rightarrow> if al_address k = address then Some t else None | None \<Rightarrow> None)"

definition prev_block_proof :: "index_env \<Rightarrow> db \<Rightarrow> u32 \<Rightarrow> hash32" where
  "prev_block_proof X d height =
     (case db_proof_of_history d (if height = 0 then 0 else height - 1) of
        Some p \<Rightarrow> p | None \<Rightarrow> default_hash (ie_proof X))"

text \<open>The part of \<open>handle_block\<close> for a block with more than the coinbase transaction.\<close>

definition handle_tokens ::
  "index_env \<Rightarrow> db \<Rightarrow> holders \<Rightarrow> u32 \<Rightarrow> block \<Rightarrow> (outpoint \<rightharpoonup> tx_prevout) \<Rightarrow> processed_data list \<Rightarrow>
     index_error + (data_to_write \<times> holders)"
where
  "handle_tokens X d h height b prevouts processed =
     (let P = ie_parser X; E = pe_env P;
          info = \<lparr> bi_hash = hd_hash (blk_header b), bi_created = bh_timestamp (hd_value (blk_header b)) \<rparr>;
          cache = token_cache_load prevouts (db_transfers d);
          to_remove = transfers_to_remove cache
      in case parse_block P d height b prevouts cache of
           None \<Rightarrow> Inl IePanic
         | Some (cache, parsed) \<Rightarrow>
      (case process_token_actions E (load_tokens_data E (db_token_to_meta d) (db_balances d) cache, h) of
           Inl e \<Rightarrow> Inl IePanic
         | Inr ((cache, h), actions) \<Rightarrow>
      (case block_history height actions (history_id d) of
           None \<Rightarrow> Inl IePanic
         | Some (last_id, history) \<Rightarrow>
             (let own = block_addresses P b;
                  rest_addresses = load_addresses d (\<Union> (action_hashes ` set actions) - dom own) ++ own
              in case generate_history_hash (ie_proof X) (prev_block_proof X d height) history rest_addresses of
                   None \<Rightarrow> Inl IeSerialize
                 | Some new_proof \<Rightarrow> Inr (\<lparr>
                     dw_processed = processed @ parsed @
                       [PdHistory height last_id history,
                        PdTokens (tc_tokens cache) (tc_accounts cache) (transfers_to_write cache) to_remove,
                        PdInfo height info new_proof],
                     dw_block_events = [SeNewBlock height new_proof (hd_hash (blk_header b))],
                     dw_history = history \<rparr>, h)))))"

definition handle_block ::
  "index_env \<Rightarrow> db \<Rightarrow> holders \<Rightarrow> u32 \<Rightarrow> block \<Rightarrow> index_error + (data_to_write \<times> holders)" where
  "handle_block X d h height b =
     (let P = ie_parser X;
          info = \<lparr> bi_hash = hd_hash (blk_header b), bi_created = bh_timestamp (hd_value (blk_header b)) \<rparr>
      in case process_prevouts P d b of
           Inl e \<Rightarrow> Inl e
         | Inr (prevouts, pd) \<Rightarrow>
             (let processed = [pd, PdFullHash (block_addresses P b)] in
              if height < start_height (pe_network P) (e_chain (pe_env P))
              then Inr (\<lparr> dw_processed = processed, dw_block_events = [], dw_history = [] \<rparr>, h)
              else if length (blk_txs b) = 1
              then (case generate_history_hash (ie_proof X) (prev_block_proof X d height) [] Map.empty of
                      None \<Rightarrow> Inl IeSerialize
                    | Some new_proof \<Rightarrow> Inr (\<lparr>
                        dw_processed = processed @ [PdInfo height info new_proof],
                        dw_block_events = [SeNewBlock height new_proof (hd_hash (blk_header b))],
                        dw_history = [] \<rparr>, h))
              else handle_tokens X d h height b prevouts processed))"

section \<open>The indexing loop\<close>

record index_state =
  is_db :: db
  is_holders :: holders
  is_cache :: reorg_cache
  is_prev_height :: "u64 option"
  is_events :: "server_event list"
  is_raw_events :: "raw_event list"

text \<open>\<open>InscriptionIndexer::handle\<close>; \<open>raw_open\<close> says whether the raw channel still takes events and
  \<open>cancelled\<close> whether the server is being stopped.\<close>

definition handle ::
  "index_env \<Rightarrow> bool \<Rightarrow> bool \<Rightarrow> u32 \<Rightarrow> block \<Rightarrow> bool \<Rightarrow> index_state \<Rightarrow> index_error + index_state" where
  "handle X raw_open cancelled height b handle_reorgs s =
     (case handle_block X (is_db s) (is_holders s) height b of
        Inl e \<Rightarrow> Inl e
      | Inr (w, h) \<Rightarrow>
          (let cache = (if handle_reorgs then reorg_new_block height (is_cache s) else is_cache s) in
           case write_all (dw_processed w) (is_db s, if handle_reorgs then Some cache else None) of
             None \<Rightarrow> Inl IePanic
           | Some (d, logged) \<Rightarrow>
               if \<not> raw_open \<and> \<not> cancelled then Inl IePanic
               else Inr (s\<lparr> is_db := d, is_holders := h,
                 is_cache := (case logged of Some r \<Rightarrow> r | None \<Rightarrow> cache),
                 is_events := is_events s @ dw_block_events w,
                 is_raw_events := (if raw_open then is_raw_events s @ [dw_history w] else is_raw_events s) \<rparr>)))"

record block_event =
  be_height :: u64
  be_hash :: hash32
  be_block :: block
  be_reorg_len :: u64
  be_tip :: u64

definition sat_sub :: "'a::len word \<Rightarrow> 'a word \<Rightarrow> 'a word" where
  "sat_sub a b = (if a < b then 0 else a - b)"

text \<open>The heights for which the undo log is kept; the subtraction wraps for a tip below thirty.\<close>

definition keeps_log :: "block_event \<Rightarrow> bool" where
  "keeps_log ev \<longleftrightarrow> be_tip ev - word_of_nat reorg_cache_max_len < be_height ev"

text \<open>The reorganisation half of the loop body.\<close>

definition roll_back :: "block_event \<Rightarrow> index_state \<Rightarrow> index_state" where
  "roll_back ev s =
     (if 0 < be_reorg_len ev
      then (let restore_height = sat_sub (case is_prev_height s of Some p \<Rightarrow> p | None \<Rightarrow> 0) (be_reorg_len ev);
                (r, d) = reorg_restore (ucast restore_height) (is_cache s, is_db s)
            in s\<lparr> is_db := d, is_cache := r,
                  is_events := is_events s @ [SeReorg (ucast (be_reorg_len ev)) (ucast (be_height ev))] \<rparr>)
      else s)"

definition drop_log :: "block_event \<Rightarrow> index_state \<Rightarrow> index_state" where
  "drop_log ev s = (if rc_blocks (is_cache s) \<noteq> [] \<and> \<not> keeps_log ev
     then s\<lparr> is_cache := (is_cache s)\<lparr> rc_blocks := [] \<rparr> \<rparr> else s)"

definition index_step ::
  "index_env \<Rightarrow> bool \<Rightarrow> bool \<Rightarrow> block_event \<Rightarrow> index_state \<Rightarrow> index_error + index_state" where
  "index_step X raw_open cancelled ev s =
     (let s = roll_back ev (drop_log ev s); blocks = rc_blocks (is_cache s) in
      if blocks \<noteq> [] \<and> fst (last blocks) + 1 \<noteq> ucast (be_height ev)
      then Inl (IeReorgTip (fst (last blocks) + 1) (ucast (be_height ev)))
      else (case handle X raw_open cancelled (ucast (be_height ev)) (be_block ev) (keeps_log ev) s of
              Inl e \<Rightarrow> Inl e
            | Inr s \<Rightarrow> Inr (s\<lparr> is_prev_height := Some (be_height ev) \<rparr>)))"

text \<open>The blocks received until the channel closes or the server is cancelled, and \<open>Indexer::run\<close>,
  which takes the logged blocks back at the end, unless a panic ended the thread.  The other errors
  arise before anything of the block is written, so the state is the one after the rollback.\<close>

fun index_loop ::
  "index_env \<Rightarrow> bool \<Rightarrow> block_event list \<Rightarrow> index_state \<Rightarrow> index_state \<times> index_error option" where
  "index_loop X raw_open [] s = (s, None)"
| "index_loop X raw_open (ev # evs) s =
     (case index_step X raw_open False ev s of
        Inl e \<Rightarrow> (roll_back ev (drop_log ev s), Some e)
      | Inr s \<Rightarrow> index_loop X raw_open evs s)"

definition index_run ::
  "index_env \<Rightarrow> bool \<Rightarrow> block_event list \<Rightarrow> index_state \<Rightarrow> index_state \<times> index_error option" where
  "index_run X raw_open evs s =
     (let (s, e) = index_loop X raw_open evs s; (r, d) = reorg_restore_all (is_cache s, is_db s)
      in (if e = Some IePanic then s else s\<lparr> is_db := d, is_cache := r \<rparr>, e))"

end
