(* ===== verification/ParserInv.thy ===== *)
theory ParserInv
  imports BlockParser TokenCollect
begin

text \<open>
  What parsing a block keeps: the offsets it tracks lie in the outputs they are recorded for, and
  the token cache it fills is one the execution of the actions accepts (\<open>collected_ok\<close> and
  \<open>moves_loaded\<close> of \<open>TokenSim\<close>), as long as no two transfers are inscribed at one location.
\<close>

section \<open>Folds that may fail\<close>

lemma fold_option_inv:
  assumes "fold_option f xs s = Some s'" and "I s"
    and "\<And>x s s'. x \<in> set xs \<Longrightarrow> I s \<Longrightarrow> f x s = Some s' \<Longrightarrow> I s'"
  shows "I s'"
  using assms
proof (induction xs arbitrary: s)
  case Nil
  then show ?case by simp
next
  case (Cons x xs)
  then obtain t where t: "f x s = Some t" "fold_option f xs t = Some s'"
    by (auto simp: bind_eq_Some_conv)
  with Cons.prems have "I t" by auto
  with Cons t show ?case by auto
qed

lemma fold_option_total:
  assumes "I s" and "\<And>x s. x \<in> set xs \<Longrightarrow> I s \<Longrightarrow> \<exists>s'. f x s = Some s' \<and> I s'"
  shows "\<exists>s'. fold_option f xs s = Some s' \<and> I s'"
  using assms
proof (induction xs arbitrary: s)
  case Nil
  then show ?case by simp
next
  case (Cons x xs)
  then obtain t where "f x s = Some t" "I t" by force
  with Cons show ?case by auto
qed

lemma fold_inv: "I s \<Longrightarrow> (\<And>x s. x \<in> set xs \<Longrightarrow> I s \<Longrightarrow> I (f x s)) \<Longrightarrow> I (fold f xs s)"
  by (induction xs arbitrary: s) auto

section \<open>Places in the outputs of a block\<close>

definition few_outputs :: "evaluated_tx hashed \<Rightarrow> bool" where
  "few_outputs tx \<longleftrightarrow> length (etx_outputs (hd_value tx)) \<le> 2 ^ 32"

text \<open>A location in an output of a transaction, at an offset below the value of the output.\<close>

definition in_output :: "evaluated_tx hashed \<Rightarrow> location \<Rightarrow> bool" where
  "in_output tx loc \<longleftrightarrow> op_txid (loc_outpoint loc) = hd_hash tx
     \<and> (\<exists>out. nth_option (etx_outputs (hd_value tx)) (unat (op_vout (loc_outpoint loc))) = Some out
          \<and> loc_offset loc < tout_value (eo_out out))"

lemma length_out_values [simp]: "length (out_values outs) = length outs"
  by (simp add: out_values_def)

lemma get_output_fits:
  assumes "get_output_index_by_input off outs = Inr (vout, x)" and "length outs \<le> 2 ^ 32"
  shows "\<exists>out. nth_option outs (unat vout) = Some out \<and> x < tout_value (eo_out out)"
proof -
  from assms(1) obtain o' where "find_output 0 o' (out_values outs) = Some (vout, x)"
    by (auto simp: get_output_index_by_input_def split: option.splits if_splits)
  then obtain j where j: "vout = word_of_nat j" "j < length outs" "x < out_values outs ! j"
    using find_output_fits by fastforce
  with assms(2) have "unat vout = j" by (simp add: unat_of_nat)
  with j show ?thesis by (simp add: nth_option_def out_values_def)
qed

lemma get_output_in_output:
  assumes "get_output_index_by_input off (etx_outputs (hd_value tx)) = Inr (vout, x)" and "few_outputs tx"
  shows "in_output tx \<lparr> loc_outpoint = \<lparr> op_txid = hd_hash tx, op_vout = vout \<rparr>, loc_offset = x \<rparr>"
  using get_output_fits [OF assms(1)] assms(2) by (auto simp: in_output_def few_outputs_def)

section \<open>The invariant\<close>

text \<open>Offsets: loaded, or in an output of the block.\<close>

definition offsets_ok ::
  "evaluated_tx hashed list \<Rightarrow> (outpoint \<rightharpoonup> u64 set) \<Rightarrow> (outpoint \<rightharpoonup> u64 set) \<Rightarrow> bool" where
  "offsets_ok txs L m \<longleftrightarrow> (\<forall>p s x. m p = Some s \<and> x \<in> s \<longrightarrow>
     (\<exists>s0. L p = Some s0 \<and> x \<in> s0) \<or> (\<exists>tx\<in>set txs. in_output tx \<lparr> loc_outpoint = p, loc_offset = x \<rparr>))"

lemma offsets_ok_insert:
  assumes "offsets_ok txs L m" and "tx \<in> set txs" and "in_output tx loc"
  shows "offsets_ok txs L (insert_offset loc m)"
proof -
  have loc: "\<lparr> loc_outpoint = loc_outpoint loc, loc_offset = loc_offset loc \<rparr> = loc" by (cases loc) simp
  from assms show ?thesis
    by (auto simp: offsets_ok_def insert_offset_def loc split: option.splits if_splits)
qed

lemma offsets_ok_remove: "offsets_ok txs L m \<Longrightarrow> offsets_ok txs L (m(p := None))"
  by (auto simp: offsets_ok_def)

text \<open>Actions: a move is one of a spent output, a transfer is owned by the script it lies on.\<close>

fun action_from :: "parser_env \<Rightarrow> evaluated_tx hashed list \<Rightarrow> (outpoint \<rightharpoonup> tx_prevout) \<Rightarrow> token_action \<Rightarrow> bool" where
  "action_from P txs prevouts (TaTransferred loc rcpt txid vout) = (prevouts (loc_outpoint loc) \<noteq> None)"
| "action_from P txs prevouts (TaTransfer loc owner w txid vout) =
     (\<exists>tx\<in>set txs. in_output tx loc \<and> (\<exists>out. nth_option (etx_outputs (hd_value tx))
          (unat (op_vout (loc_outpoint loc))) = Some out
        \<and> \<not> so_is_op_return (pe_script P) (tout_script_pubkey (eo_out out))
        \<and> owner = so_sha256 (pe_script P) (tout_script_pubkey (eo_out out))))"
| "action_from P txs prevouts _ = True"

definition cache_ok ::
  "parser_env \<Rightarrow> evaluated_tx hashed list \<Rightarrow> (outpoint \<rightharpoonup> tx_prevout) \<Rightarrow>
     (location \<rightharpoonup> hash32 \<times> transfer_proto_db) \<Rightarrow> token_cache \<Rightarrow> bool"
where
  "cache_ok P txs prevouts V c \<longleftrightarrow> tc_valid c = V
     \<and> (distinct (transfer_locs (tc_actions c)) \<longrightarrow> collected_ok (pe_env P) c)
     \<and> list_all (action_from P txs prevouts) (tc_actions c)"

definition parse_ok ::
  "parser_env \<Rightarrow> evaluated_tx hashed list \<Rightarrow> (outpoint \<rightharpoonup> tx_prevout) \<Rightarrow> (outpoint \<rightharpoonup> u64 set) \<Rightarrow>
     (location \<rightharpoonup> hash32 \<times> transfer_proto_db) \<Rightarrow> parse_state \<Rightarrow> bool"
where
  "parse_ok P txs prevouts L V s \<longleftrightarrow> offsets_ok txs L (ps_offsets s)
     \<and> (\<forall>lk. ps_leaked s = Some lk \<longrightarrow> lk_coinbase_tx lk \<in> set txs)
     \<and> cache_ok P txs prevouts V (ps_cache s)"

text \<open>The transfers of the database that could be confused with new ones: none lies in the block.\<close>

definition fresh_transfers ::
  "evaluated_tx hashed list \<Rightarrow> (location \<rightharpoonup> 'v) \<Rightarrow> bool" where
  "fresh_transfers txs V \<longleftrightarrow> (\<forall>loc. op_txid (loc_outpoint loc) \<in> hd_hash ` set txs \<longrightarrow> V loc = None)"

lemma cache_ok_push:
  assumes "cache_ok P txs prevouts V c" and "transfer_locs [a] = []" and "action_ok (pe_env P) c a"
    and "action_from P txs prevouts a"
  shows "cache_ok P txs prevouts V (push_action a c)"
proof -
  have "distinct (transfer_locs (tc_actions (push_action a c))) \<longleftrightarrow> distinct (transfer_locs (tc_actions c))"
    using assms(2) by (simp add: push_action_def)
  with assms show ?thesis
    by (auto simp: cache_ok_def collected_ok_push) (simp_all add: push_action_def)
qed

lemma cache_ok_transferred:
  "cache_ok P txs prevouts V c \<Longrightarrow> prevouts (loc_outpoint loc) \<noteq> None \<Longrightarrow>
     cache_ok P txs prevouts V (transferred loc rcpt txid vout c)"
  by (simp add: transferred_def cache_ok_push)

lemma cache_ok_burned:
  "cache_ok P txs prevouts V c \<Longrightarrow> prevouts (loc_outpoint loc) \<noteq> None \<Longrightarrow>
     cache_ok P txs prevouts V (burned_transfer E loc txid vout c)"
  by (simp add: burned_transfer_def cache_ok_push)

definition template_ok :: "parser_env \<Rightarrow> evaluated_tx hashed \<Rightarrow> inscription_template \<Rightarrow> bool" where
  "template_ok P tx t \<longleftrightarrow> in_output tx (it_location t) \<and> \<not> it_leaked t
     \<and> (\<exists>out. nth_option (etx_outputs (hd_value tx)) (unat (op_vout (loc_outpoint (it_location t)))) = Some out
          \<and> it_owner t = (if so_is_op_return (pe_script P) (tout_script_pubkey (eo_out out))
              then e_op_return (pe_env P) else so_sha256 (pe_script P) (tout_script_pubkey (eo_out out))))"

lemma cache_ok_parse:
  assumes c: "cache_ok P txs prevouts V c" and J: "fixed_json (pe_env P) J" and t: "template_ok P tx t"
    and tx: "tx \<in> set txs" and fresh: "fresh_transfers txs V"
  shows "cache_ok P txs prevouts V (fst (parse_token_action (pe_env P) J t height created c))"
  using J
proof (cases rule: parse_token_cases [where inc = t and height = height and created = created
      and c = c, consumes 1, case_names same push transfer])
  case same
  with c show ?thesis by simp
next
  case (push a)
  from push(2, 4) have "action_from P txs prevouts a" by (cases a) (simp_all, metis)
  with push c show ?thesis by (simp add: cache_ok_push)
next
  case (transfer w d)
  let ?c = "fst (parse_token_action (pe_env P) J t height created c)"
  have "V (it_location t) = None"
    using fresh t tx by (auto simp: fresh_transfers_def template_ok_def in_output_def)
  then have new: "tc_valid c (it_location t) = None" using c by (simp add: cache_ok_def)
  have "collected_ok (pe_env P) ?c" if "distinct (transfer_locs (tc_actions ?c))"
  proof -
    from that have d: "distinct (transfer_locs (tc_actions c))"
      and n: "it_location t \<notin> set (transfer_locs (tc_actions c))"
      by (simp_all add: transfer(1) push_action_def)
    from d c have "collected_ok (pe_env P) c" by (simp add: cache_ok_def)
    from collected_ok_transfer [OF this transfer(2-4) n new refl] show ?thesis
      by (simp add: transfer(1) push_action_def)
  qed
  moreover have "action_from P txs prevouts (TaTransfer (it_location t) (it_owner t) w x v)" for x v
    using t tx transfer(5) by (auto simp: template_ok_def split: if_splits)
  ultimately show ?thesis
    using c by (simp add: cache_ok_def) (simp add: transfer(1) push_action_def)
qed

section \<open>Steps\<close>

lemma leaked_add_coinbase:
  "leaked_add i tx off prevouts k lk = Some lk' \<Longrightarrow> lk_coinbase_tx lk' = lk_coinbase_tx lk"
  by (auto simp: leaked_add_def)

lemma input_values_dom:
  "tin_outpoint ` set is \<subseteq> dom prevouts \<Longrightarrow>
     input_values prevouts is = Some (map (\<lambda>i. pv_value (the (prevouts (tin_outpoint i)))) is)"
  unfolding input_values_def by (intro option_list_map_total) auto

text \<open>What a transaction must be for its parsing not to panic.\<close>

definition spendable :: "(outpoint \<rightharpoonup> tx_prevout) \<Rightarrow> evaluated_tx hashed \<Rightarrow> bool" where
  "spendable prevouts tx \<longleftrightarrow> few_outputs tx \<and> tin_outpoint ` set (etx_inputs (hd_value tx)) \<subseteq> dom prevouts"

lemma leaked_add_total:
  assumes "spendable prevouts tx" and "i < length (etx_inputs (hd_value tx))"
  shows "\<exists>lk'. leaked_add i (hd_value tx) off prevouts k lk = Some lk'
    \<and> lk_coinbase_tx lk' = lk_coinbase_tx lk"
  using assms input_values_dom [of "etx_inputs (hd_value tx)" prevouts]
  by (simp add: leaked_add_def find_fee_def spendable_def Let_def)

text \<open>The state of a block whose coinbase transaction has been seen.\<close>

definition ready ::
  "parser_env \<Rightarrow> evaluated_tx hashed list \<Rightarrow> (outpoint \<rightharpoonup> tx_prevout) \<Rightarrow> (outpoint \<rightharpoonup> u64 set) \<Rightarrow>
     (location \<rightharpoonup> hash32 \<times> transfer_proto_db) \<Rightarrow> parse_state \<Rightarrow> bool"
where
  "ready P txs prevouts L V s \<longleftrightarrow> parse_ok P txs prevouts L V s \<and> ps_leaked s \<noteq> None"

lemma readyD:
  assumes "ready P txs prevouts L V s"
  obtains lk where "ps_leaked s = Some lk" "lk_coinbase_tx lk \<in> set txs"
    "offsets_ok txs L (ps_offsets s)" "cache_ok P txs prevouts V (ps_cache s)"
  using assms by (auto simp: ready_def parse_ok_def)

lemma readyI:
  "ps_leaked s = Some lk \<Longrightarrow> lk_coinbase_tx lk \<in> set txs \<Longrightarrow> offsets_ok txs L (ps_offsets s) \<Longrightarrow>
     cache_ok P txs prevouts V (ps_cache s) \<Longrightarrow> ready P txs prevouts L V s"
  by (simp add: ready_def parse_ok_def)

lemma move_inscription_ready:
  assumes s: "ready P txs prevouts L V s" and tx: "tx \<in> set txs" "spendable prevouts tx"
    and i: "i < length (etx_inputs (hd_value tx))" "prevouts (tin_outpoint txin) \<noteq> None"
  shows "\<exists>s'. move_inscription P prevouts tx cum i txin off s = Some s' \<and> ready P txs prevouts L V s'"
proof -
  obtain lk where lk: "ps_leaked s = Some lk" "lk_coinbase_tx lk \<in> set txs"
    "offsets_ok txs L (ps_offsets s)" "cache_ok P txs prevouts V (ps_cache s)"
    using s by (rule readyD)
  obtain p where p: "prevouts (tin_outpoint txin) = Some p" using i(2) by auto
  have few: "few_outputs tx" using tx(2) by (simp add: spendable_def)
  show ?thesis
  proof (cases "get_output_index_by_input (map_option (\<lambda>x. x + off) (nth_option cum i)) (etx_outputs (hd_value tx))")
    case (Inl e)
    obtain lk' where "leaked_add i (hd_value tx) off prevouts LeakedMove lk = Some lk'"
      "lk_coinbase_tx lk' = lk_coinbase_tx lk"
      using leaked_add_total [OF tx(2) i(1)] by blast
    with Inl lk p show ?thesis
      by (auto simp: move_inscription_def Let_def intro!: readyI cache_ok_transferred)
  next
    case (Inr r)
    obtain vout x where r: "r = (vout, x)" by (cases r)
    let ?loc = "\<lparr> loc_outpoint = \<lparr> op_txid = hd_hash tx, op_vout = vout \<rparr>, loc_offset = x \<rparr>"
    note in_out = get_output_in_output [OF Inr [unfolded r] few]
    then obtain out where out: "nth_option (etx_outputs (hd_value tx)) (unat vout) = Some out"
      by (auto simp: in_output_def)
    have "offsets_ok txs L (insert_offset ?loc (ps_offsets s))"
      using lk(3) tx(1) in_out by (rule offsets_ok_insert)
    with Inr r out lk p show ?thesis
      by (auto simp: move_inscription_def Let_def
          intro!: readyI cache_ok_transferred cache_ok_burned)
  qed
qed

lemma move_inscriptions_ready:
  assumes s: "ready P txs prevouts L V s" and tx: "tx \<in> set txs" "spendable prevouts tx"
    and i: "i < length (etx_inputs (hd_value tx))" "prevouts (tin_outpoint txin) \<noteq> None"
  shows "\<exists>s'. move_inscriptions P prevouts tx cum i txin s = Some s' \<and> ready P txs prevouts L V s'"
proof (cases "ps_offsets s (tin_outpoint txin)")
  case None
  with s show ?thesis by (simp add: move_inscriptions_def)
next
  case (Some offs)
  have "ready P txs prevouts L V (s\<lparr> ps_offsets := (ps_offsets s)(tin_outpoint txin := None) \<rparr>)"
    using s by (auto elim!: readyD intro!: readyI offsets_ok_remove)
  then show ?thesis
    unfolding move_inscriptions_def Some option.case
    by (intro fold_option_total) (auto intro: move_inscription_ready [OF _ tx i])
qed

lemma place_template_ready:
  assumes s: "ready P txs prevouts L V s" and tx: "tx \<in> set txs"
    and t: "template_ok P tx t" and J: "fixed_json (pe_env P) (pe_json P)" and fresh: "fresh_transfers txs V"
  shows "ready P txs prevouts L V (place_template P height timestamp t s)"
proof -
  have "in_output tx (it_location t)" using t by (simp add: template_ok_def)
  with s tx show ?thesis
    by (auto simp: place_template_def Let_def elim!: readyD
        intro!: readyI offsets_ok_insert cache_ok_parse [OF _ J t tx fresh])
qed

lemma template_ok_genesis [simp]: "template_ok P tx (t\<lparr> it_genesis := g \<rparr>) = template_ok P tx t"
  by (simp add: template_ok_def)

lemma number_templates_ok:
  "list_all (template_ok P tx) ts \<Longrightarrow> list_all (template_ok P tx) (number_templates n ts)"
  by (induction n ts rule: number_templates.induct) auto

lemma convert_total:
  assumes tx: "spendable prevouts tx" and i: "i < length (etx_inputs (hd_value tx))"
  shows "\<exists>t lk'. convert_to_template P prevouts tx cum i pa insc lk = Some (t, lk')
    \<and> (\<forall>t'. t = Some t' \<longrightarrow> template_ok P tx t') \<and> lk_coinbase_tx lk' = lk_coinbase_tx lk"
proof -
  let ?outs = "etx_outputs (hd_value tx)"
  have few: "few_outputs tx" using tx by (simp add: spendable_def)
  show ?thesis
  proof (cases "get_output_index_by_input (nth_option cum i) ?outs")
    case (Inl e)
    then show ?thesis
      using leaked_add_total [OF tx i, of 0 LeakedCreation lk] by (auto simp: convert_to_template_def Let_def)
  next
    case (Inr found)
    define r where "r = (case get_output_index_by_input (inscription_pointer insc) ?outs of
      Inr pointed \<Rightarrow> pointed | Inl _ \<Rightarrow> found)"
    obtain vout x where x: "r = (vout, x)" by (cases r)
    obtain off where "get_output_index_by_input off ?outs = Inr (vout, x)"
      using Inr x r_def by (cases "get_output_index_by_input (inscription_pointer insc) ?outs") auto
    note in_out = get_output_in_output [OF this few]
    then obtain out where out: "nth_option ?outs (unat vout) = Some out" by (auto simp: in_output_def)
    show ?thesis
      using in_out Inr x out
      by (auto simp: convert_to_template_def Let_def template_ok_def r_def [symmetric])
  qed
qed

lemma convert_all_total:
  assumes "\<And>insc lk. \<exists>t lk'. f insc lk = Some (t, lk') \<and> (\<forall>t'. t = Some t' \<longrightarrow> template_ok P tx t')
    \<and> lk_coinbase_tx lk' = lk_coinbase_tx lk"
  shows "\<exists>ts lk'. convert_all f is lk = Some (ts, lk') \<and> list_all (template_ok P tx) ts
    \<and> lk_coinbase_tx lk' = lk_coinbase_tx lk"
proof (induction "is" arbitrary: lk)
  case (Cons i "is")
  obtain t lk1 where "f i lk = Some (t, lk1)" "\<forall>t'. t = Some t' \<longrightarrow> template_ok P tx t'"
    "lk_coinbase_tx lk1 = lk_coinbase_tx lk" using assms by blast
  moreover obtain ts lk2 where "convert_all f is lk1 = Some (ts, lk2)" "list_all (template_ok P tx) ts"
    "lk_coinbase_tx lk2 = lk_coinbase_tx lk1" using Cons.IH by blast
  ultimately show ?case by (auto split: option.split)
qed simp

fun result_ok :: "parser_env \<Rightarrow> evaluated_tx hashed \<Rightarrow> parsed_result \<Rightarrow> bool" where
  "result_ok P tx (ResSingle t) = template_ok P tx t"
| "result_ok P tx (ResMany ts) = list_all (template_ok P tx) ts"
| "result_ok P tx _ = True"

lemma parse_inscription_total:
  assumes tx: "spendable prevouts tx" and i: "i < length (etx_inputs (hd_value tx))"
  shows "\<exists>res lk'. parse_inscription P prevouts tx cum i pa lk = Some (res, lk') \<and> result_ok P tx res
    \<and> lk_coinbase_tx lk' = lk_coinbase_tx lk"
proof (cases "from_parts (so_instructions (pe_script P)) (hd (pa_parts pa)) (tl (pa_parts pa)) (word_of_nat i)")
  case (ParsedSingle insc)
  obtain t lk' where t: "convert_to_template P prevouts tx cum i pa insc lk = Some (t, lk')"
    "\<forall>t'. t = Some t' \<longrightarrow> template_ok P tx t'" "lk_coinbase_tx lk' = lk_coinbase_tx lk"
    using convert_total [OF tx i] by blast
  with ParsedSingle show ?thesis by (cases t) (auto simp: parse_inscription_def)
next
  case (ParsedMany "is")
  then show ?thesis
    using convert_all_total [where f = "convert_to_template P prevouts tx cum i pa" and P = P and tx = tx,
        OF convert_total [OF tx i], of "is" lk]
    by (auto simp: parse_inscription_def)
qed (simp_all add: parse_inscription_def)

text \<open>The steps of a block that has been loaded.\<close>

definition block_ready ::
  "parser_env \<Rightarrow> evaluated_tx hashed list \<Rightarrow> (location \<rightharpoonup> hash32 \<times> transfer_proto_db) \<Rightarrow> bool" where
  "block_ready P txs V \<longleftrightarrow> fixed_json (pe_env P) (pe_json P) \<and> fresh_transfers txs V"

lemma place_templates_ready:
  assumes "ready P txs prevouts L V s" and "tx \<in> set txs" and "block_ready P txs V"
    and "list_all (template_ok P tx) ts"
  shows "ready P txs prevouts L V (fold (place_template P height timestamp) ts s)"
  by (rule fold_inv [where I = "ready P txs prevouts L V", OF assms(1)])
    (use assms in \<open>auto simp: block_ready_def list_all_iff intro: place_template_ready\<close>)

lemma create_inscriptions_ready:
  assumes s: "ready P txs prevouts L V s" and tx: "tx \<in> set txs" "spendable prevouts tx"
    and i: "i < length (etx_inputs (hd_value tx))" and b: "block_ready P txs V"
  shows "\<exists>n' s'. create_inscriptions P height timestamp prevouts tx cum i txin (n, s) = Some (n', s')
    \<and> ready P txs prevouts L V s'"
proof -
  obtain lk where lk: "ps_leaked s = Some lk" "lk_coinbase_tx lk \<in> set txs"
    "offsets_ok txs L (ps_offsets s)" "cache_ok P txs prevouts V (ps_cache s)"
    using s by (rule readyD)
  define pa where "pa = (case ps_partials s (tin_outpoint txin) of Some pa \<Rightarrow> pa
    | None \<Rightarrow> \<lparr> pa_inscription_index = 0, pa_genesis_txid = hd_hash tx, pa_parts = [] \<rparr>)"
  define qa where "qa = pa\<lparr> pa_parts := pa_parts pa @ [input_part P txin] \<rparr>"
  obtain res lk' where res: "parse_inscription P prevouts tx cum i qa lk = Some (res, lk')"
    "result_ok P tx res" "lk_coinbase_tx lk' = lk_coinbase_tx lk"
    using parse_inscription_total [OF tx(2) i] by blast
  define s1 where "s1 = s\<lparr> ps_partials := (ps_partials s)(tin_outpoint txin := None), ps_leaked := Some lk' \<rparr>"
  have s1: "ready P txs prevouts L V s1"
    using lk res(3) by (auto simp: s1_def intro!: readyI)
  have s2: "ready P txs prevouts L V (s1\<lparr> ps_partials := m \<rparr>)" for m
    using s1 by (auto elim!: readyD intro!: readyI)
  have many: "ready P txs prevouts L V (fold (place_template P height timestamp) ts s1)"
    if "list_all (template_ok P tx) ts" for ts
    by (rule place_templates_ready [OF s1 tx(1) b that])
  show ?thesis
    using res(1, 2) lk(1) s1 s2 many [of "[_]"] many
    by (cases res) (auto simp: create_inscriptions_def Let_def pa_def [symmetric] qa_def [symmetric]
        s1_def [symmetric] number_templates_ok simp del: number_templates.simps split: prod.splits)
qed

lemma parse_input_ready:
  assumes s: "ready P txs prevouts L V s" and tx: "tx \<in> set txs" "spendable prevouts tx"
    and i: "(i, txin) \<in> set (List.enumerate 0 (etx_inputs (hd_value tx)))" and b: "block_ready P txs V"
  shows "\<exists>n' s'. parse_input P height timestamp prevouts tx cum (i, txin) (n, s) = Some (n', s')
    \<and> ready P txs prevouts L V s'"
proof -
  have less: "i < length (etx_inputs (hd_value tx))" and txin: "prevouts (tin_outpoint txin) \<noteq> None"
  proof -
    from i have i': "i < length (etx_inputs (hd_value tx))" "txin = etx_inputs (hd_value tx) ! i"
      by (auto simp: in_set_enumerate_eq)
    then have "tin_outpoint txin \<in> tin_outpoint ` set (etx_inputs (hd_value tx))" by simp
    with tx(2) have "tin_outpoint txin \<in> dom prevouts" unfolding spendable_def by blast
    with i' show "i < length (etx_inputs (hd_value tx))" "prevouts (tin_outpoint txin) \<noteq> None"
      by auto
  qed
  obtain s1 where s1: "move_inscriptions P prevouts tx cum i txin s = Some s1" "ready P txs prevouts L V s1"
    using move_inscriptions_ready [OF s tx less txin] by blast
  then show ?thesis
    using create_inscriptions_ready [OF s1(2) tx less b, of height timestamp cum txin n]
    by (auto simp: parse_input_def)
qed

lemma calc_offsets_total: "spendable prevouts tx \<Longrightarrow> calc_offsets (hd_value tx) prevouts \<noteq> None"
  by (simp add: calc_offsets_def spendable_def input_values_dom Let_def)

lemma parse_tx_ready:
  assumes s: "ready P txs prevouts L V s" and tx: "tx \<in> set txs" "spendable prevouts tx"
    and c: "is_coinbase (hd_value tx) = Some False" and b: "block_ready P txs V"
  shows "\<exists>s'. parse_tx P height timestamp prevouts tx s = Some s' \<and> ready P txs prevouts L V s'"
proof -
  obtain lk where lk: "ps_leaked s = Some lk" "lk_coinbase_tx lk \<in> set txs"
    "offsets_ok txs L (ps_offsets s)" "cache_ok P txs prevouts V (ps_cache s)"
    using s by (rule readyD)
  obtain lk' where lk': "add_tx_fee (hd_value tx) prevouts lk = Some lk'" "lk_coinbase_tx lk' = lk_coinbase_tx lk"
    using tx(2) by (auto simp: add_tx_fee_def spendable_def input_values_dom)
  obtain cum where cum: "calc_offsets (hd_value tx) prevouts = Some cum"
    using calc_offsets_total [OF tx(2)] by blast
  have "\<exists>r. fold_option (parse_input P height timestamp prevouts tx cum)
      (List.enumerate 0 (etx_inputs (hd_value tx))) (0, s\<lparr> ps_leaked := Some lk' \<rparr>) = Some r
    \<and> ready P txs prevouts L V (snd r)"
  proof (rule fold_option_total [where I = "\<lambda>r. ready P txs prevouts L V (snd r)"])
    show "ready P txs prevouts L V (snd (0, s\<lparr> ps_leaked := Some lk' \<rparr>))"
      using lk lk' by (auto intro: readyI)
  next
    fix x and r :: "u32 \<times> parse_state"
    assume "x \<in> set (List.enumerate 0 (etx_inputs (hd_value tx)))" "ready P txs prevouts L V (snd r)"
    then show "\<exists>s'. parse_input P height timestamp prevouts tx cum x r = Some s'
        \<and> ready P txs prevouts L V (snd s')"
      using parse_input_ready [where s = "snd r" and i = "fst x" and txin = "snd x" and n = "fst r",
          OF _ tx _ b, of L height timestamp cum] by auto
  qed
  with c lk lk' cum show ?thesis by (auto simp: parse_tx_def)
qed

text \<open>A block the node accepts: the coinbase transaction is the first one and the only one, and the
  outputs the others spend are known.\<close>

definition block_shape :: "(outpoint \<rightharpoonup> tx_prevout) \<Rightarrow> evaluated_tx hashed list \<Rightarrow> bool" where
  "block_shape prevouts txs \<longleftrightarrow> (\<exists>cb rest. txs = cb # rest \<and> is_coinbase (hd_value cb) = Some True
     \<and> few_outputs cb \<and> (\<forall>tx\<in>set rest. is_coinbase (hd_value tx) = Some False \<and> spendable prevouts tx))"

lemma parse_txs_ready:
  assumes shape: "block_shape prevouts txs" and b: "block_ready P txs V" and V: "tc_valid c = V"
    and c: "collected_ok (pe_env P) c" "tc_actions c = []"
  shows "\<exists>s'. fold_option (parse_tx P height timestamp prevouts) txs
      \<lparr> ps_partials = partials, ps_offsets = L, ps_leaked = None, ps_cache = c \<rparr> = Some s'
    \<and> ready P txs prevouts L V s'"
proof -
  obtain cb rest where cb: "txs = cb # rest" "is_coinbase (hd_value cb) = Some True"
    and rest: "\<And>tx. tx \<in> set rest \<Longrightarrow> is_coinbase (hd_value tx) = Some False \<and> spendable prevouts tx"
    using shape unfolding block_shape_def by blast
  let ?s = "\<lparr> ps_partials = partials, ps_offsets = L, ps_leaked = Some (leaked_new cb), ps_cache = c \<rparr>"
  have "ready P txs prevouts L V ?s"
    by (rule readyI [of _ "leaked_new cb"])
      (use c cb V in \<open>auto simp: leaked_new_def offsets_ok_def cache_ok_def\<close>)
  then have "\<exists>s'. fold_option (parse_tx P height timestamp prevouts) rest ?s = Some s'
      \<and> ready P txs prevouts L V s'"
    by (rule fold_option_total) (use rest cb b in \<open>auto intro: parse_tx_ready\<close>)
  with cb show ?thesis by (simp add: parse_tx_def)
qed

section \<open>Blocks\<close>

lemma leaked_in_output:
  assumes "loc \<in> set (get_leaked_inscriptions lk)" and "few_outputs (lk_coinbase_tx lk)"
  shows "in_output (lk_coinbase_tx lk) loc"
proof -
  let ?outs = "etx_outputs (hd_value (lk_coinbase_tx lk))"
  from assms(1) obtain o' vout x where "find_output 0 o' (out_values ?outs) = Some (vout, x)"
    and loc: "loc = \<lparr> loc_outpoint = \<lparr> op_txid = hd_hash (lk_coinbase_tx lk), op_vout = vout \<rparr>, loc_offset = x \<rparr>"
    by (auto simp: get_leaked_inscriptions_def Let_def find_inscription_vout_def update_reward_def
        split: option.splits if_splits) metis
  then obtain j where "vout = word_of_nat j" "j < length ?outs" "x < out_values ?outs ! j"
    using find_output_fits by fastforce
  with assms(2) loc show ?thesis
    by (simp add: in_output_def nth_option_def few_outputs_def out_values_def unat_of_nat)
qed

lemma block_shape_few: "block_shape prevouts txs \<Longrightarrow> tx \<in> set txs \<Longrightarrow> few_outputs tx"
  by (auto simp: block_shape_def spendable_def)

lemma parse_block_total:
  assumes shape: "block_shape prevouts (blk_txs b)" and ready: "block_ready P (blk_txs b) (tc_valid c)"
    and c: "collected_ok (pe_env P) c" "tc_actions c = []"
  shows "\<exists>c' pa m. parse_block P d height b prevouts c = Some (c',
        [PdPartials (db_partials d |` dom prevouts) pa, PdOffsets (db_offsets d |` dom prevouts) m])
    \<and> offsets_ok (blk_txs b) (db_offsets d |` dom prevouts) m
    \<and> cache_ok P (blk_txs b) prevouts (tc_valid c) c'"
proof -
  let ?L = "db_offsets d |` dom prevouts"
  obtain s where s: "fold_option (parse_tx P height (bh_timestamp (hd_value (blk_header b))) prevouts) (blk_txs b)
      \<lparr> ps_partials = db_partials d |` dom prevouts, ps_offsets = ?L, ps_leaked = None, ps_cache = c \<rparr> = Some s"
    and r: "ready P (blk_txs b) prevouts ?L (tc_valid c) s"
    using parse_txs_ready [OF shape ready refl c] by blast
  obtain lk where lk: "ps_leaked s = Some lk" "lk_coinbase_tx lk \<in> set (blk_txs b)"
    "offsets_ok (blk_txs b) ?L (ps_offsets s)" "cache_ok P (blk_txs b) prevouts (tc_valid c) (ps_cache s)"
    using r by (rule readyD)
  have "few_outputs (lk_coinbase_tx lk)" by (rule block_shape_few [OF shape lk(2)])
  then have "offsets_ok (blk_txs b) ?L (fold insert_offset (get_leaked_inscriptions lk) (ps_offsets s))"
    by (intro fold_inv [where I = "offsets_ok (blk_txs b) ?L", OF lk(3)])
      (auto intro: offsets_ok_insert [OF _ lk(2)] leaked_in_output)
  with s lk show ?thesis by (simp add: parse_block_def Let_def)
qed

lemma transfer_locs_TaTransfer:
  "loc \<in> set (transfer_locs as) \<Longrightarrow> \<exists>owner w txid vout. TaTransfer loc owner w txid vout \<in> set as"
  by (induction as rule: transfer_locs.induct) auto

lemma cache_ok_moves_loaded:
  assumes c: "cache_ok P txs prevouts (V |` {loc. prevouts (loc_outpoint loc) \<noteq> None}) c"
    and fresh: "fresh_transfers txs V"
  shows "moves_loaded V c"
proof -
  have act: "action_from P txs prevouts a" if "a \<in> set (tc_actions c)" for a
    using c that by (simp add: cache_ok_def list_all_iff)
  have "V loc = None" if "loc \<in> set (transfer_locs (tc_actions c))" for loc
    using transfer_locs_TaTransfer [OF that] act fresh
    by (fastforce simp: in_output_def fresh_transfers_def)
  moreover have "tc_valid c loc = V loc" if "TaTransferred loc rcpt txid vout \<in> set (tc_actions c)"
    for loc rcpt txid vout
    using act [OF that] c by (simp add: cache_ok_def restrict_map_def)
  ultimately show ?thesis
    using c by (auto simp: moves_loaded_def cache_ok_def map_le_def)
qed

end
