(* ===== verification/ParserOnce.thy ===== *)
theory ParserOnce
  imports ParserInv
begin

text \<open>
  Where the parser guards against a second inscription at an occupied place - before the jubilee, and
  not where the jubilee is at block 133000 - a block inscribes at most one transfer at each location:
  the place of a template is looked up in the offsets before its content is parsed.
\<close>

section \<open>The guard\<close>

definition guarded :: "parser_env \<Rightarrow> u32 \<Rightarrow> bool" where
  "guarded P height \<longleftrightarrow> jubilee_height (pe_network P) (e_chain (pe_env P)) \<noteq> 133000
     \<and> \<not> is_jubilee (pe_network P) (e_chain (pe_env P)) height"

text \<open>In transaction \<open>tx\<close>, after the transactions with the hashes in \<open>H\<close>.\<close>

definition placed :: "hash32 set \<Rightarrow> evaluated_tx hashed \<Rightarrow> parse_state \<Rightarrow> bool" where
  "placed H tx s \<longleftrightarrow> distinct (transfer_locs (tc_actions (ps_cache s)))
     \<and> (\<forall>loc \<in> set (transfer_locs (tc_actions (ps_cache s))).
          op_txid (loc_outpoint loc) \<in> insert (hd_hash tx) H
          \<and> (op_txid (loc_outpoint loc) = hd_hash tx \<longrightarrow> offset_taken (ps_offsets s) loc))"

lemma offset_taken_insert [simp]:
  "offset_taken (insert_offset loc m) loc' \<longleftrightarrow> loc' = loc \<or> offset_taken m loc'"
  by (cases loc; cases loc') (auto simp: offset_taken_def insert_offset_def split: option.splits)

lemma offset_taken_remove:
  "loc_outpoint loc \<noteq> p \<Longrightarrow> offset_taken (m(p := None)) loc = offset_taken m loc"
  by (simp add: offset_taken_def)

lemma placed_mono:
  assumes "placed H tx s" and "transfer_locs (tc_actions (ps_cache s')) = transfer_locs (tc_actions (ps_cache s))"
    and "\<And>loc. op_txid (loc_outpoint loc) = hd_hash tx \<Longrightarrow> offset_taken (ps_offsets s) loc \<Longrightarrow>
      offset_taken (ps_offsets s') loc"
  shows "placed H tx s'"
  using assms by (auto simp: placed_def)

lemma transfer_locs_push [simp]:
  "transfer_locs (tc_actions (push_action a c)) = transfer_locs (tc_actions c) @ transfer_locs [a]"
  by (simp add: push_action_def)

lemma move_inscription_placed:
  assumes "placed H tx s" and "move_inscription P prevouts tx cum i txin off s = Some s'"
  shows "placed H tx s'"
  by (rule placed_mono [OF assms(1)])
    (use assms(2) in \<open>auto simp: move_inscription_def Let_def transferred_def burned_transfer_def
        bind_eq_Some_conv split: sum.splits prod.splits option.splits if_splits\<close>)

lemma move_inscriptions_placed:
  assumes s: "placed H tx s" and m: "move_inscriptions P prevouts tx cum i txin s = Some s'"
    and own: "op_txid (tin_outpoint txin) \<noteq> hd_hash tx"
  shows "placed H tx s'"
proof (cases "ps_offsets s (tin_outpoint txin)")
  case None
  with s m show ?thesis by (simp add: move_inscriptions_def)
next
  case (Some offs)
  let ?s = "s\<lparr> ps_offsets := (ps_offsets s)(tin_outpoint txin := None) \<rparr>"
  have st: "placed H tx ?s"
    by (rule placed_mono [OF s]) (use own in \<open>auto simp: offset_taken_def\<close>)
  from m Some have f: "fold_option (move_inscription P prevouts tx cum i txin)
      (so_walk (pe_script P) offs) ?s = Some s'"
    by (simp add: move_inscriptions_def)
  show ?thesis
    by (rule fold_option_inv [where I = "placed H tx", OF f st]) (rule move_inscription_placed)
qed

lemma place_template_placed:
  assumes s: "placed H tx s" and g: "guarded P height" and t: "template_ok P tx t"
    and J: "fixed_json (pe_env P) (pe_json P)"
  shows "placed H tx (place_template P height timestamp t s)"
proof (cases "offset_taken (ps_offsets s) (it_location t)")
  case True
  then show ?thesis
    using g t by (intro placed_mono [OF s]) (auto simp: place_template_def guarded_def template_ok_def Let_def)
next
  case False
  let ?c = "fst (parse_token_action (pe_env P) (pe_json P) t height timestamp (ps_cache s))"
  have eq: "place_template P height timestamp t s
      = s\<lparr> ps_offsets := insert_offset (it_location t) (ps_offsets s), ps_cache := ?c \<rparr>"
    using False by (simp add: place_template_def Let_def)
  have txid: "op_txid (loc_outpoint (it_location t)) = hd_hash tx"
    using t by (simp add: template_ok_def in_output_def)
  with s False have new: "it_location t \<notin> set (transfer_locs (tc_actions (ps_cache s)))"
    by (auto simp: placed_def)
  from J show ?thesis
    unfolding eq
  proof (cases rule: parse_token_cases [where inc = t and height = height and created = timestamp
        and c = "ps_cache s", consumes 1, case_names same push transfer])
    case same
    then show "placed H tx (s\<lparr> ps_offsets := insert_offset (it_location t) (ps_offsets s), ps_cache := ?c \<rparr>)"
      by (intro placed_mono [OF s]) simp_all
  next
    case (push a)
    then show "placed H tx (s\<lparr> ps_offsets := insert_offset (it_location t) (ps_offsets s), ps_cache := ?c \<rparr>)"
      by (intro placed_mono [OF s]) simp_all
  next
    case (transfer w d)
    then show "placed H tx (s\<lparr> ps_offsets := insert_offset (it_location t) (ps_offsets s), ps_cache := ?c \<rparr>)"
      using s new txid by (auto simp: placed_def push_action_def)
  qed
qed

lemma create_inscriptions_placed:
  assumes s: "placed H tx s" and g: "guarded P height" and J: "fixed_json (pe_env P) (pe_json P)"
    and tx: "spendable prevouts tx" and i: "i < length (etx_inputs (hd_value tx))"
    and c: "create_inscriptions P height timestamp prevouts tx cum i txin (n, s) = Some (n', s')"
  shows "placed H tx s'"
proof -
  define pa where "pa = (case ps_partials s (tin_outpoint txin) of Some pa \<Rightarrow> pa
    | None \<Rightarrow> \<lparr> pa_inscription_index = 0, pa_genesis_txid = hd_hash tx, pa_parts = [] \<rparr>)"
  define qa where "qa = pa\<lparr> pa_parts := pa_parts pa @ [input_part P txin] \<rparr>"
  obtain lk where lk: "ps_leaked s = Some lk"
    using c by (auto simp: create_inscriptions_def Let_def bind_eq_Some_conv)
  obtain res lk' where res: "parse_inscription P prevouts tx cum i qa lk = Some (res, lk')" "result_ok P tx res"
    using parse_inscription_total [OF tx i] by blast
  define s1 where "s1 = s\<lparr> ps_partials := (ps_partials s)(tin_outpoint txin := None), ps_leaked := Some lk' \<rparr>"
  have s1: "placed H tx s1" by (rule placed_mono [OF s]) (simp_all add: s1_def)
  have s2: "placed H tx (s1\<lparr> ps_partials := m \<rparr>)" for m
    by (rule placed_mono [OF s1]) simp_all
  have many: "placed H tx (fold (place_template P height timestamp) ts s1)"
    if "list_all (template_ok P tx) ts" for ts
    by (rule fold_inv [where I = "placed H tx", OF s1])
      (use that in \<open>auto simp: list_all_iff intro: place_template_placed [OF _ g _ J]\<close>)
  show ?thesis
    using c res lk s1 s2 many [of "[_]"] many
    by (cases res) (auto simp: create_inscriptions_def Let_def pa_def [symmetric] qa_def [symmetric]
        s1_def [symmetric] number_templates_ok simp del: number_templates.simps
        split: prod.splits if_splits)
qed

lemma parse_input_placed:
  assumes s: "placed H tx s" and g: "guarded P height" and J: "fixed_json (pe_env P) (pe_json P)"
    and tx: "spendable prevouts tx" and i: "i < length (etx_inputs (hd_value tx))"
    and own: "op_txid (tin_outpoint txin) \<noteq> hd_hash tx"
    and p: "parse_input P height timestamp prevouts tx cum (i, txin) (n, s) = Some (n', s')"
  shows "placed H tx s'"
proof -
  obtain s1 where s1: "move_inscriptions P prevouts tx cum i txin s = Some s1"
    using p by (auto simp: parse_input_def bind_eq_Some_conv)
  note q = move_inscriptions_placed [OF s s1 own]
  from p s1 q show ?thesis
    using create_inscriptions_placed [OF q g J tx i] by (auto simp: parse_input_def split: if_splits)
qed

section \<open>Transactions\<close>

text \<open>Between transactions the offsets no longer matter: the next one has another hash.\<close>

definition placed_before :: "hash32 set \<Rightarrow> parse_state \<Rightarrow> bool" where
  "placed_before H s \<longleftrightarrow> distinct (transfer_locs (tc_actions (ps_cache s)))
     \<and> (\<forall>loc \<in> set (transfer_locs (tc_actions (ps_cache s))). op_txid (loc_outpoint loc) \<in> H)"

definition no_self_spend :: "evaluated_tx hashed \<Rightarrow> bool" where
  "no_self_spend tx \<longleftrightarrow> (\<forall>i \<in> set (etx_inputs (hd_value tx)). op_txid (tin_outpoint i) \<noteq> hd_hash tx)"

lemma parse_tx_placed:
  assumes s: "placed_before H s" and g: "guarded P height" and J: "fixed_json (pe_env P) (pe_json P)"
    and tx: "is_coinbase (hd_value tx) = Some True
      \<or> is_coinbase (hd_value tx) = Some False \<and> spendable prevouts tx \<and> no_self_spend tx"
    and new: "hd_hash tx \<notin> H" and p: "parse_tx P height timestamp prevouts tx s = Some s'"
  shows "placed_before (insert (hd_hash tx) H) s'"
  using tx
proof (elim disjE conjE)
  assume "is_coinbase (hd_value tx) = Some True"
  with p s show ?thesis by (auto simp: parse_tx_def placed_before_def)
next
  assume cb: "is_coinbase (hd_value tx) = Some False" and tx: "spendable prevouts tx" "no_self_spend tx"
  from p cb obtain lk cum n where fold: "fold_option (parse_input P height timestamp prevouts tx cum)
      (List.enumerate 0 (etx_inputs (hd_value tx))) (0, s\<lparr> ps_leaked := Some lk \<rparr>) = Some (n, s')"
    by (auto simp: parse_tx_def bind_eq_Some_conv)
  have start: "placed H tx (s\<lparr> ps_leaked := Some lk \<rparr>)"
    using s new by (auto simp: placed_def placed_before_def)
  have "placed H tx (snd (n, s'))"
  proof (rule fold_option_inv [OF fold, where I = "\<lambda>r. placed H tx (snd r)"])
    show "placed H tx (snd (0, s\<lparr> ps_leaked := Some lk \<rparr>))" using start by simp
  next
    fix x and r r' :: "u32 \<times> parse_state"
    assume x: "x \<in> set (List.enumerate 0 (etx_inputs (hd_value tx)))" and r: "placed H tx (snd r)"
      and st: "parse_input P height timestamp prevouts tx cum x r = Some r'"
    have i: "fst x < length (etx_inputs (hd_value tx))" "snd x = etx_inputs (hd_value tx) ! fst x"
      using x by (auto simp: in_set_enumerate_eq)
    then have "op_txid (tin_outpoint (snd x)) \<noteq> hd_hash tx" using tx(2) by (simp add: no_self_spend_def)
    from parse_input_placed [OF r g J tx(1) i(1) this] st show "placed H tx (snd r')"
      by (cases x; cases r; cases r') auto
  qed
  then show ?thesis by (auto simp: placed_def placed_before_def)
qed

lemma parse_txs_placed:
  assumes "placed_before H s" and g: "guarded P height" and J: "fixed_json (pe_env P) (pe_json P)"
    and "\<And>tx. tx \<in> set txs \<Longrightarrow> is_coinbase (hd_value tx) = Some True
      \<or> is_coinbase (hd_value tx) = Some False \<and> spendable prevouts tx \<and> no_self_spend tx"
    and "distinct (map hd_hash txs)" and "H \<inter> hd_hash ` set txs = {}"
    and "fold_option (parse_tx P height timestamp prevouts) txs s = Some s'"
  shows "\<exists>H'. placed_before H' s'"
  using assms(1, 4-)
proof (induction txs arbitrary: s H)
  case Nil
  then show ?case by auto
next
  case (Cons tx txs)
  from Cons.prems(5) obtain t where t: "parse_tx P height timestamp prevouts tx s = Some t"
    "fold_option (parse_tx P height timestamp prevouts) txs t = Some s'"
    by (auto simp: bind_eq_Some_conv)
  have "hd_hash tx \<notin> H" using Cons.prems(4) by auto
  from parse_tx_placed [OF Cons.prems(1) g J Cons.prems(2) [OF list.set_intros(1)] this t(1)]
  have "placed_before (insert (hd_hash tx) H) t" .
  moreover have "distinct (map hd_hash txs)" "insert (hd_hash tx) H \<inter> hd_hash ` set txs = {}"
    using Cons.prems(3, 4) by auto
  ultimately show ?case using Cons.IH Cons.prems(2) t(2) by (meson list.set_intros(2))
qed

lemma parse_block_once:
  assumes shape: "block_shape prevouts (blk_txs b)" and g: "guarded P height"
    and J: "fixed_json (pe_env P) (pe_json P)"
    and txids: "distinct (map hd_hash (blk_txs b))" "\<forall>tx \<in> set (tl (blk_txs b)). no_self_spend tx"
    and c: "tc_actions c = []" and p: "parse_block P d height b prevouts c = Some (c', out)"
  shows "distinct (transfer_locs (tc_actions c'))"
proof -
  obtain s where s: "fold_option (parse_tx P height (bh_timestamp (hd_value (blk_header b))) prevouts) (blk_txs b)
      \<lparr> ps_partials = db_partials d |` dom prevouts, ps_offsets = db_offsets d |` dom prevouts,
        ps_leaked = None, ps_cache = c \<rparr> = Some s" "c' = ps_cache s"
    using p by (auto simp: parse_block_def Let_def bind_eq_Some_conv)
  have kinds: "is_coinbase (hd_value tx) = Some True
      \<or> is_coinbase (hd_value tx) = Some False \<and> spendable prevouts tx \<and> no_self_spend tx"
    if "tx \<in> set (blk_txs b)" for tx
    using shape txids(2) that by (auto simp: block_shape_def)
  have "\<exists>H. placed_before H s"
    by (rule parse_txs_placed [OF _ g J _ txids(1) _ s(1), of "{}"])
      (use c kinds in \<open>auto simp: placed_before_def\<close>)
  then show ?thesis using s(2) by (auto simp: placed_before_def)
qed

end
