(* ===== verification/IndexInv.thy ===== *)
theory IndexInv
  imports Indexer ParserOnce Reorg "HOL-Library.Multiset"
begin

text \<open>
  What the block indexer keeps: the previous outputs it resolves, the ids it gives to the history,
  and the invariant of the whole database, from the parsing of a block to the writes.
\<close>

section \<open>Spent outputs\<close>

lemma set_unique [simp]: "set (unique xs) = set xs"
  by (simp add: unique_def)

lemma distinct_unique [simp]: "distinct (unique xs)"
  by (simp add: unique_def)

definition resolved ::
  "(outpoint \<rightharpoonup> tx_prevout) \<Rightarrow> (outpoint \<rightharpoonup> tx_prevout) \<Rightarrow> outpoint \<Rightarrow> tx_prevout option" where
  "resolved tbl own k = (case tbl k of Some v \<Rightarrow> Some v | None \<Rightarrow> own k)"

lemma fill_prevouts_total:
  assumes "\<And>k. k \<in> set ks \<Longrightarrow> resolved tbl own k \<noteq> None"
  shows "fill_prevouts tbl own ks result
    = Inr (\<lambda>k. if k \<in> set ks then resolved tbl own k else result k)"
  using assms
proof (induction ks arbitrary: result)
  case Nil
  then show ?case by simp
next
  case (Cons k ks)
  obtain v where v: "resolved tbl own k = Some v" using Cons.prems [of k] by auto
  have step: "fill_prevouts tbl own (k # ks) result = fill_prevouts tbl own ks (result(k \<mapsto> v))"
    using v by (auto simp: resolved_def split: option.splits)
  show ?case
    unfolding step using Cons v by (auto simp: fun_eq_iff)
qed

lemma fill_prevouts_missing:
  assumes "fill_prevouts tbl own ks result = Inl e"
  shows "\<exists>k. k \<in> set ks \<and> e = IeMissingPrevout k \<and> resolved tbl own k = None"
  using assms
proof (induction ks arbitrary: result)
  case (Cons k ks)
  show ?case
  proof (cases "resolved tbl own k")
    case None
    then have "tbl k = None" "own k = None" by (simp_all add: resolved_def split: option.splits)
    with Cons.prems None show ?thesis by auto
  next
    case (Some v)
    then have "fill_prevouts tbl own ks (result(k \<mapsto> v)) = Inl e"
      using Cons.prems by (auto simp: resolved_def split: option.splits)
    from Cons.IH [OF this] show ?thesis by auto
  qed
qed simp

lemma fill_prevouts_Inr:
  "fill_prevouts tbl own ks result = Inr r \<Longrightarrow> k \<in> set ks \<Longrightarrow> resolved tbl own k \<noteq> None"
proof (induction ks arbitrary: result)
  case (Cons k' ks)
  then show ?case by (cases "tbl k'"; cases "own k'") (auto simp: resolved_def)
qed simp

text \<open>The transactions of a block that spend outputs.\<close>

definition spending :: "block \<Rightarrow> evaluated_tx hashed list" where
  "spending b = filter (\<lambda>tx. is_coinbase (hd_value tx) = Some False) (blk_txs b)"

lemma UN_if_filter: "(\<Union>x \<in> A. if P x then g x else {}) = (\<Union>x \<in> {x \<in> A. P x}. g x)"
  by auto

lemma spent_outpoints_set:
  assumes "\<And>tx. tx \<in> set (blk_txs b) \<Longrightarrow> is_coinbase (hd_value tx) \<noteq> None"
  shows "\<exists>ks. spent_outpoints b = Some ks \<and> distinct ks
    \<and> set ks = (\<Union>tx \<in> set (spending b). tin_outpoint ` set (etx_inputs (hd_value tx)))"
proof -
  have opt: "option_list (map (\<lambda>tx. map_option (\<lambda>coinbase. if coinbase then []
          else map tin_outpoint (etx_inputs (hd_value tx))) (is_coinbase (hd_value tx))) (blk_txs b))
      = Some (map (\<lambda>tx. if the (is_coinbase (hd_value tx)) then []
          else map tin_outpoint (etx_inputs (hd_value tx))) (blk_txs b))"
  proof (rule option_list_map_total)
    fix tx assume "tx \<in> set (blk_txs b)"
    then obtain c where c: "is_coinbase (hd_value tx) = Some c" using assms by blast
    show "map_option (\<lambda>coinbase. if coinbase then [] else map tin_outpoint (etx_inputs (hd_value tx)))
        (is_coinbase (hd_value tx))
      = Some (if the (is_coinbase (hd_value tx)) then [] else map tin_outpoint (etx_inputs (hd_value tx)))"
      unfolding c by simp
  qed
  have un: "(\<Union>tx \<in> set (blk_txs b). set (if the (is_coinbase (hd_value tx)) then []
          else map tin_outpoint (etx_inputs (hd_value tx))))
      = (\<Union>tx \<in> set (spending b). tin_outpoint ` set (etx_inputs (hd_value tx)))" (is "?l = ?r")
  proof -
    have "set (if the (is_coinbase (hd_value tx)) then [] else map tin_outpoint (etx_inputs (hd_value tx)))
        = (if is_coinbase (hd_value tx) = Some False then tin_outpoint ` set (etx_inputs (hd_value tx)) else {})"
      if tx: "tx \<in> set (blk_txs b)" for tx
    proof -
      obtain c where c: "is_coinbase (hd_value tx) = Some c" using assms [OF tx] by blast
      show ?thesis unfolding c by (cases c) simp_all
    qed
    then have "?l = (\<Union>tx \<in> set (blk_txs b). if is_coinbase (hd_value tx) = Some False
        then tin_outpoint ` set (etx_inputs (hd_value tx)) else {})"
      by (rule SUP_cong [OF refl])
    also have "\<dots> = (\<Union>tx \<in> {tx \<in> set (blk_txs b). is_coinbase (hd_value tx) = Some False}.
        tin_outpoint ` set (etx_inputs (hd_value tx)))" by (rule UN_if_filter)
    finally show ?thesis by (simp only: spending_def set_filter)
  qed
  show ?thesis
    unfolding spent_outpoints_def opt option.map comp_apply
    by (intro exI conjI, rule refl, rule distinct_unique) (simp only: set_unique set_concat set_map image_image un)
qed

lemma process_prevouts_shape:
  "process_prevouts P d b = Inr (r, pd) \<Longrightarrow> \<exists>ks. pd = PdPrevouts (block_outputs P b) ks"
proof -
  assume p: "process_prevouts P d b = Inr (r, pd)"
  then obtain ks where ks: "spent_outpoints b = Some ks"
    by (auto simp: process_prevouts_def split: option.splits)
  from p show ?thesis
    by (cases "fill_prevouts (db_prevouts d) (block_outputs P b) ks Map.empty")
      (auto simp: process_prevouts_def ks)
qed

section \<open>History ids\<close>

lemma history_entries_total:
  "\<exists>m es. history_entries height a n = Some (m, es) \<and> m = n + word_of_nat (length es)
    \<and> (es = [] \<or> length es = 1 \<and> map (ati_id \<circ> fst) es = [n + 1]
        \<or> length es = 2 \<and> map (ati_id \<circ> fst) es = [n + 2, n + 1])
    \<and> (\<forall>(k, v) \<in> set es. hv_height v = height)"
  by (cases a) (auto simp: history_entries_def Let_def)

lemma history_entries_keys:
  "history_entries height a n = Some (m, es) \<Longrightarrow> e \<in> set es \<Longrightarrow> entry_keys e \<subseteq> action_hashes a"
  by (cases a) (auto simp: history_entries_def Let_def entry_keys_def split: if_splits)

lemma block_history_total:
  "\<exists>m es. block_history height as n = Some (m, es) \<and> m = n + word_of_nat (length es)"
proof (induction as arbitrary: n)
  case (Cons a as)
  obtain m es where m: "history_entries height a n = Some (m, es)" "m = n + word_of_nat (length es)"
    using history_entries_total by blast
  obtain m' es' where "block_history height as m = Some (m', es')" "m' = m + word_of_nat (length es')"
    using Cons.IH by blast
  with m show ?case by (intro exI [of _ m'] exI [of _ "es @ es'"]) simp
qed simp

lemma block_history_length:
  "block_history height as n = Some (m, es) \<Longrightarrow> length as \<le> length es \<and> length es \<le> 2 * length as"
proof (induction as arbitrary: n es)
  case (Cons a as)
  then obtain m1 es1 es2 where s: "history_entries height a n = Some (m1, es1)"
    "block_history height as m1 = Some (m, es2)" "es = es1 @ es2"
    by (auto simp: bind_eq_Some_conv)
  have "length es1 = 1 \<or> length es1 = 2"
    using s(1) by (cases a) (auto simp: history_entries_def Let_def split: if_splits)
  with Cons.IH [OF s(2)] s(3) show ?case by auto
qed simp

lemma block_history_keys:
  assumes "block_history height as n = Some (m, es)" and "e \<in> set es"
  shows "entry_keys e \<subseteq> \<Union> (action_hashes ` set as)"
  using assms
proof (induction as arbitrary: n es)
  case (Cons a as)
  then obtain m1 es1 es2 where s: "history_entries height a n = Some (m1, es1)"
    "block_history height as m1 = Some (m, es2)" "es = es1 @ es2"
    by (auto simp: bind_eq_Some_conv)
  with Cons show ?case using history_entries_keys [OF s(1)] by fastforce
qed simp

text \<open>The ids of a block's entries are the next ones, each once.\<close>

lemma block_history_ids:
  assumes "block_history height as n = Some (m, es)" and "unat n + length es < 2 ^ 64"
  shows "mset (map (unat \<circ> ati_id \<circ> fst) es) = mset [unat n + 1 ..< unat n + 1 + length es]
    \<and> unat m = unat n + length es \<and> (\<forall>(k, v) \<in> set es. hv_height v = height)"
  using assms
proof (induction as arbitrary: n es)
  case Nil
  then show ?case by simp
next
  case (Cons a as)
  obtain m1 es1 where s: "history_entries height a n = Some (m1, es1)" "m1 = n + word_of_nat (length es1)"
    and ids: "es1 = [] \<or> length es1 = 1 \<and> map (ati_id \<circ> fst) es1 = [n + 1]
        \<or> length es1 = 2 \<and> map (ati_id \<circ> fst) es1 = [n + 2, n + 1]"
    and hs: "\<forall>(k, v) \<in> set es1. hv_height v = height"
    using history_entries_total [of height a n] by (elim exE conjE) (rule that)
  obtain es2 where t: "block_history height as m1 = Some (m, es2)" "es = es1 @ es2"
    using Cons.prems(1) s(1) by (auto simp: bind_eq_Some_conv)
  have room: "unat n + (length es1 + length es2) < 2 ^ 64" using Cons.prems(2) t(2) by simp
  have m1: "unat m1 = unat n + length es1"
    using room unfolding s(2) by (subst unat_word_ariths) (simp add: unat_of_nat)
  have plus: "unat (n + 1) = unat n + 1" if "1 \<le> length es1"
    using that room by (subst unat_add_less) (simp_all, linarith?)
  have plus2: "unat (n + 2) = unat n + 2" if "2 \<le> length es1"
    using that room by (subst unat_add_less) (simp_all, linarith?)
  have "map (unat \<circ> ati_id \<circ> fst) es1 = map unat (map (ati_id \<circ> fst) es1)" by simp
  with ids plus plus2 have "mset (map (unat \<circ> ati_id \<circ> fst) es1) = mset [unat n + 1 ..< unat n + 1 + length es1]"
    by (auto simp: upt_conv_Cons numeral_2_eq_2 add_mset_commute)
  moreover have "mset (map (unat \<circ> ati_id \<circ> fst) es2) = mset [unat m1 + 1 ..< unat m1 + 1 + length es2]
      \<and> unat m = unat m1 + length es2 \<and> (\<forall>(k, v) \<in> set es2. hv_height v = height)"
    by (rule Cons.IH [OF t(1)]) (use room m1 in simp)
  moreover have "[unat n + 1 ..< unat n + 1 + length es]
      = [unat n + 1 ..< unat n + 1 + length es1] @ [unat m1 + 1 ..< unat m1 + 1 + length es2]"
    using upt_add_eq_append [of "unat n + 1" "unat n + 1 + length es1" "length es2"] t(2) m1
    by (simp add: add.assoc)
  moreover have "mset (map (unat \<circ> ati_id \<circ> fst) es)
      = mset (map (unat \<circ> ati_id \<circ> fst) es1) + mset (map (unat \<circ> ati_id \<circ> fst) es2)"
    by (simp only: t(2) map_append mset_append)
  ultimately show ?case using t(2) m1 hs by (simp only: mset_append length_append set_append) auto
qed

section \<open>Writing with and without the log\<close>

lemma write_all_unlogged: "write_all ps (d, None) = Some (fold written ps d, None)"
proof (induction ps arbitrary: d)
  case (Cons p ps)
  have "write_processed p (d, None) = Some (written p d, None)"
    by (cases p) (auto simp: written_def Let_def)
  with Cons show ?case by simp
qed simp

fun loggable :: "processed_data list \<Rightarrow> db \<Rightarrow> bool" where
  "loggable [] d \<longleftrightarrow> True"
| "loggable (p # ps) d \<longleftrightarrow> (\<exists>ts os. logs p d ts os) \<and> loggable ps (written p d)"

lemma write_all_logged:
  assumes "loggable ps d" and "rc_blocks r \<noteq> []"
  shows "\<exists>r'. write_all ps (d, Some r) = Some (fold written ps d, Some r')
    \<and> map fst (rc_blocks r') = map fst (rc_blocks r) \<and> rc_len r' = rc_len r"
  using assms
proof (induction ps arbitrary: d r)
  case (Cons p ps)
  obtain ts os where l: "logs p d ts os" using Cons.prems(1) by auto
  have r: "r = r\<lparr> rc_blocks := butlast (rc_blocks r) @ [(fst (last (rc_blocks r)), snd (last (rc_blocks r)))] \<rparr>"
    using Cons.prems(2) by simp
  define r1 where "r1 = r\<lparr> rc_blocks := butlast (rc_blocks r) @ [(fst (last (rc_blocks r)), (snd (last (rc_blocks r)))
      \<lparr> rb_token_history := rb_token_history (snd (last (rc_blocks r))) @ ts,
        rb_ordinals_history := rb_ordinals_history (snd (last (rc_blocks r))) @ os \<rparr>)] \<rparr>"
  have "write_processed p (d, Some r) = Some (written p d, Some r1)"
    using l unfolding logs_def r1_def by (subst r) (simp only:)
  moreover have "rc_len r1 = rc_len r" by (simp add: r1_def)
  moreover have "map fst (rc_blocks r1) = map fst (rc_blocks r)" "rc_blocks r1 \<noteq> []"
  proof -
    have "map fst (rc_blocks r) = map fst (butlast (rc_blocks r)) @ [fst (last (rc_blocks r))]"
      using Cons.prems(2) by (metis append_butlast_last_id list.simps(8,9) map_append)
    then show "map fst (rc_blocks r1) = map fst (rc_blocks r)" "rc_blocks r1 \<noteq> []"
      by (simp_all add: r1_def)
  qed
  ultimately show ?case using Cons.IH [of "written p d" r1] Cons.prems by auto
qed simp

end
