(* ===== verification/IndexSafe.thy ===== *)
theory IndexSafe
  imports IndexInv
begin

text \<open>
  The invariant of the database over a block: the ledger in its tables is sound, every open transfer
  is stored under the owner of the output it lies on, and handling a block that extends the chain
  neither fails nor breaks this.
\<close>

section \<open>The invariant and the blocks it is kept by\<close>

definition db_ledger :: "db \<Rightarrow> (location \<rightharpoonup> hash32 \<times> transfer_proto_db) \<Rightarrow> token_cache" where
  "db_ledger d V = whole_ledger (db_token_to_meta d) (db_balances d) V token_cache_empty"

definition db_ok :: "env \<Rightarrow> db \<Rightarrow> holders \<Rightarrow> bool" where
  "db_ok E d h \<longleftrightarrow> (\<exists>V. transfers_rel (db_transfers d) V \<and> owners_ok V (db_prevouts d)
     \<and> ledger_ok E (db_ledger d V, h))"

definition block_value :: "block \<Rightarrow> nat" where
  "block_value b = sum_list (map (\<lambda>tx. total (out_values (etx_outputs (hd_value tx)))) (blk_txs b))"

text \<open>A block that extends the chain: one coinbase transaction, in front; transaction hashes that occur
  once, no transaction that spends itself, every spent output known, no open transfer in an output of
  the block, and outputs of the block only as they are where the table has them already.\<close>

definition valid_block :: "parser_env \<Rightarrow> db \<Rightarrow> block \<Rightarrow> bool" where
  "valid_block P d b \<longleftrightarrow>
     (\<exists>cb rest. blk_txs b = cb # rest \<and> is_coinbase (hd_value cb) = Some True
        \<and> (\<forall>tx \<in> set rest. is_coinbase (hd_value tx) = Some False \<and> no_self_spend tx))
     \<and> (\<forall>tx \<in> set (blk_txs b). few_outputs tx) \<and> distinct (map hd_hash (blk_txs b))
     \<and> (\<forall>tx \<in> set (spending b). \<forall>i \<in> set (etx_inputs (hd_value tx)).
          resolved (db_prevouts d) (block_outputs P b) (tin_outpoint i) \<noteq> None)
     \<and> (\<forall>k v. db_prevouts d k = Some v \<and> op_txid k \<in> hd_hash ` set (blk_txs b) \<longrightarrow> block_outputs P b k = Some v)
     \<and> (\<forall>k \<in> dom (db_transfers d). op_txid (loc_outpoint (al_location k)) \<notin> hd_hash ` set (blk_txs b))"

lemma valid_blockD:
  assumes "valid_block P d b"
  shows "tx \<in> set (blk_txs b) \<Longrightarrow> few_outputs tx" "distinct (map hd_hash (blk_txs b))"
    "tx \<in> set (spending b) \<Longrightarrow> i \<in> set (etx_inputs (hd_value tx)) \<Longrightarrow>
      resolved (db_prevouts d) (block_outputs P b) (tin_outpoint i) \<noteq> None"
    "db_prevouts d k = Some v \<Longrightarrow> op_txid k \<in> hd_hash ` set (blk_txs b) \<Longrightarrow> block_outputs P b k = Some v"
    "al \<in> dom (db_transfers d) \<Longrightarrow> op_txid (loc_outpoint (al_location al)) \<notin> hd_hash ` set (blk_txs b)"
  using assms unfolding valid_block_def by (elim conjE; simp)+

lemma valid_blockE:
  assumes "valid_block P d b"
  obtains cb rest where "blk_txs b = cb # rest" "is_coinbase (hd_value cb) = Some True"
    "\<forall>tx \<in> set rest. is_coinbase (hd_value tx) = Some False \<and> no_self_spend tx"
  using assms unfolding valid_block_def by (elim conjE exE) simp

section \<open>The outputs of a block\<close>

lemma block_outputs_mem:
  assumes "block_outputs P b k = Some v" and few: "\<And>tx. tx \<in> set (blk_txs b) \<Longrightarrow> few_outputs tx"
  shows "\<exists>tx out. tx \<in> set (blk_txs b) \<and> op_txid k = hd_hash tx
    \<and> nth_option (etx_outputs (hd_value tx)) (unat (op_vout k)) = Some out
    \<and> pv_script_hash v = so_sha256 (pe_script P) (tout_script_pubkey (eo_out out))"
proof -
  have "(k, v) \<in> set (concat (map (tx_outputs P) (blk_txs b)))"
    using map_of_SomeD [OF assms(1) [unfolded block_outputs_def]] by simp
  then obtain tx where tx: "tx \<in> set (blk_txs b)" "(k, v) \<in> set (tx_outputs P tx)" by auto
  then obtain j out where j: "(j, out) \<in> set (List.enumerate 0 (etx_outputs (hd_value tx)))"
    and k: "op_txid k = hd_hash tx" "op_vout k = word_of_nat j"
    and v: "pv_script_hash v = so_sha256 (pe_script P) (tout_script_pubkey (eo_out out))"
    by (auto simp: tx_outputs_def)
  from j have "j < length (etx_outputs (hd_value tx))" "out = etx_outputs (hd_value tx) ! j"
    by (auto simp: in_set_enumerate_eq)
  moreover from this few [OF tx(1)] have "unat (op_vout k) = j"
    using k by (simp add: unat_of_nat few_outputs_def)
  ultimately show ?thesis using tx k v by (auto simp: nth_option_def)
qed

lemma in_output_card:
  "finite {loc. in_output tx loc} \<and> card {loc. in_output tx loc} \<le> total (out_values (etx_outputs (hd_value tx)))"
proof -
  let ?vs = "out_values (etx_outputs (hd_value tx))"
  let ?A = "SIGMA j:{..<length ?vs}. {..<unat (?vs ! j)}"
  let ?f = "\<lambda>(j, x). \<lparr> loc_outpoint = \<lparr> op_txid = hd_hash tx, op_vout = word_of_nat j \<rparr>,
    loc_offset = word_of_nat x \<rparr> :: location"
  have sub: "{loc. in_output tx loc} \<subseteq> ?f ` ?A"
  proof
    fix loc assume "loc \<in> {loc. in_output tx loc}"
    then obtain out where o: "op_txid (loc_outpoint loc) = hd_hash tx"
      "nth_option (etx_outputs (hd_value tx)) (unat (op_vout (loc_outpoint loc))) = Some out"
      "loc_offset loc < tout_value (eo_out out)" by (auto simp: in_output_def)
    let ?p = "(unat (op_vout (loc_outpoint loc)), unat (loc_offset loc))"
    have "unat (op_vout (loc_outpoint loc)) < length (etx_outputs (hd_value tx))"
      "out = etx_outputs (hd_value tx) ! unat (op_vout (loc_outpoint loc))"
      using o(2) by (simp_all add: nth_option_def split: if_splits)
    with o(3) have "?p \<in> ?A" by (simp add: out_values_def word_less_nat_alt)
    have "\<lparr> op_txid = hd_hash tx, op_vout = op_vout (loc_outpoint loc) \<rparr> = loc_outpoint loc"
      using o(1) by (simp add: outpoint.equality)
    then have "?f ?p = loc" by (simp add: location.equality)
    then show "loc \<in> ?f ` ?A" using \<open>?p \<in> ?A\<close> by (rule image_eqI [OF sym])
  qed
  have fin: "finite ?A" by simp
  have "card (?f ` ?A) \<le> card ?A" by (rule card_image_le [OF fin])
  also have "\<dots> = total ?vs" by (simp add: sum_list_sum_nth atLeast0LessThan)
  finally have "card (?f ` ?A) \<le> total ?vs" .
  with card_mono [OF finite_imageI [OF fin] sub] finite_subset [OF sub finite_imageI [OF fin]]
  show ?thesis by simp
qed

lemma block_locations_few:
  assumes "distinct locs" and "\<And>loc. loc \<in> set locs \<Longrightarrow> \<exists>tx \<in> set (blk_txs b). in_output tx loc"
    and "distinct (map hd_hash (blk_txs b))"
  shows "length locs \<le> block_value b"
proof -
  have "length locs = card (set locs)" using assms(1) by (simp add: distinct_card)
  also have "\<dots> \<le> card (\<Union>tx \<in> set (blk_txs b). {loc. in_output tx loc})"
    using assms(2) in_output_card by (intro card_mono) auto
  also have "\<dots> \<le> (\<Sum>tx \<in> set (blk_txs b). card {loc. in_output tx loc})"
    by (intro card_UN_le) simp
  also have "\<dots> \<le> (\<Sum>tx \<in> set (blk_txs b). total (out_values (etx_outputs (hd_value tx))))"
    by (intro sum_mono) (simp add: in_output_card)
  also have "\<dots> = block_value b"
    unfolding block_value_def using assms(3) by (simp add: sum_list_distinct_conv_sum_set distinct_map)
  finally show ?thesis .
qed

section \<open>Where the open transfers come from\<close>

lemma step_valid_from:
  assumes "process_token_action E a (c, h) = Inr ((c', h'), evs)" and "tc_valid c' l = Some (s, t)"
  shows "tc_valid c l = Some (s, t) \<or> (\<exists>w txid vout. a = TaTransfer l s w txid vout)"
proof (cases a)
  case (TaDeploy g p owner)
  with assms show ?thesis by (auto elim!: deploy_cases)
next
  case (TaMint owner w txid vout)
  with assms show ?thesis by (auto elim!: mint_cases)
next
  case (TaTransfer loc owner w txid vout)
  with assms show ?thesis by (auto elim!: transfer_cases split: if_splits)
next
  case (TaTransferred loc rcpt txid vout)
  with assms(1) have "process_transferred E loc rcpt txid vout (c, h) = Inr ((c', h'), evs)" by simp
  then show ?thesis
    by (cases rule: transferred_cases) (use assms(2) in \<open>auto split: if_splits\<close>)
qed

lemma run_valid_from:
  "run (process_token_action E) as (c, h) = Inr ((c', h'), evs) \<Longrightarrow> tc_valid c' l = Some (s, t) \<Longrightarrow>
    tc_valid c l = Some (s, t) \<or> (\<exists>w txid vout. TaTransfer l s w txid vout \<in> set as)"
proof (induction as arbitrary: c h evs)
  case Nil
  then show ?case by simp
next
  case (Cons a as)
  then obtain c1 h1 o1 o2 where s: "process_token_action E a (c, h) = Inr ((c1, h1), o1)"
    "run (process_token_action E) as (c1, h1) = Inr ((c', h'), o2)"
    by (auto split: sum.splits prod.splits)
  from Cons.IH [OF s(2) Cons.prems(2)] step_valid_from [OF s(1), of l s t] show ?case by auto
qed

lemma process_valid_from:
  assumes "process_token_actions E (load_tokens_data E metas balances c, h) = Inr ((c', h'), evs)"
    and "tc_valid c' l = Some (s, t)"
  shows "tc_valid c l = Some (s, t) \<or> (\<exists>w txid vout. TaTransfer l s w txid vout \<in> set (tc_actions c))"
  using run_valid_from [of E "tc_actions c" "(load_tokens_data E metas balances c)\<lparr> tc_actions := [] \<rparr>"
      h c' h' evs l s t] assms
  by (simp add: process_token_actions_def load_tokens_data_maps)

section \<open>The transfer table\<close>

lemma transfers_rel_written:
  assumes rel: "transfers_rel tbl V" and sub: "tc_valid c \<subseteq>\<^sub>m V"
    and new: "\<And>l s t. tc_valid c' l = Some (s, t) \<Longrightarrow> tc_valid c l = Some (s, t) \<or> V l = None"
  shows "transfers_rel (tbl |` (- transfers_to_remove c) ++ transfers_to_write c')
    (V |` (- dom (tc_valid c)) ++ tc_valid c')"
  unfolding transfers_rel_def
proof (intro allI)
  fix a l t
  let ?k = "\<lparr> al_address = a, al_location = l \<rparr>"
  have V: "tbl \<lparr> al_address = x, al_location = l \<rparr> = Some y \<longleftrightarrow> V l = Some (x, y)" for x y
    using rel by (simp add: transfers_rel_def)
  have rem: "?k \<in> transfers_to_remove c \<longleftrightarrow> (\<exists>u. tc_valid c l = Some (a, u))"
    by (force simp: transfers_to_remove_def image_iff)
  have loaded: "tc_valid c l = Some v \<Longrightarrow> V l = Some v" for v
    using sub by (auto simp: map_le_def dom_def)
  show "(tbl |` (- transfers_to_remove c) ++ transfers_to_write c') ?k = Some t
    \<longleftrightarrow> (V |` (- dom (tc_valid c)) ++ tc_valid c') l = Some (a, t)"
  proof (cases "tc_valid c' l")
    case None
    then have w: "transfers_to_write c' ?k = None" by (simp add: transfers_to_write_def)
    show ?thesis
    proof (cases "tc_valid c l")
      case None
      with w \<open>tc_valid c' l = None\<close> show ?thesis
        using V rem by (simp add: map_add_def restrict_map_def domIff)
    next
      case (Some v)
      obtain b u where v: "v = (b, u)" by (cases v)
      from Some loaded have "V l = Some (b, u)" by (simp add: v)
      with w Some v \<open>tc_valid c' l = None\<close> show ?thesis
        using V rem by (auto simp: map_add_def restrict_map_def domIff)
    qed
  next
    case (Some v)
    obtain b u where v: "v = (b, u)" by (cases v)
    show ?thesis
    proof (cases "a = b")
      case True
      with Some v show ?thesis by (simp add: map_add_def transfers_to_write_def)
    next
      case False
      have "V l = Some (b, u) \<or> V l = None"
        using new [OF Some [unfolded v]] loaded [of "(b, u)"] by auto
      with V False have "tbl ?k \<noteq> Some y" for y by auto
      then have "tbl ?k = None" by (metis not_Some_eq)
      with False Some v show ?thesis
        by (auto simp: map_add_def transfers_to_write_def restrict_map_def)
    qed
  qed
qed

section \<open>A block with transactions\<close>

text \<open>What \<open>process_prevouts\<close> gives for a valid block.\<close>

lemma valid_block_coinbase:
  assumes "valid_block P d b" and "tx \<in> set (blk_txs b)"
  shows "is_coinbase (hd_value tx) \<noteq> None"
proof -
  obtain cb rest where t: "blk_txs b = cb # rest" "is_coinbase (hd_value cb) = Some True"
    "\<forall>tx \<in> set rest. is_coinbase (hd_value tx) = Some False \<and> no_self_spend tx"
    using assms(1) by (rule valid_blockE)
  then have "tx = cb \<or> tx \<in> set rest" using assms(2) by simp
  with t show ?thesis by auto
qed

lemma process_prevouts_total:
  assumes "valid_block P d b"
  shows "\<exists>prevouts ks. process_prevouts P d b = Inr (prevouts, PdPrevouts (block_outputs P b) ks)
    \<and> dom prevouts = set ks
    \<and> set ks = (\<Union>tx \<in> set (spending b). tin_outpoint ` set (etx_inputs (hd_value tx)))
    \<and> (\<forall>k \<in> set ks. resolved (db_prevouts d) (block_outputs P b) k \<noteq> None
        \<and> prevouts k = resolved (db_prevouts d) (block_outputs P b) k)"
proof -
  have "\<exists>ks. spent_outpoints b = Some ks \<and> distinct ks
      \<and> set ks = (\<Union>tx \<in> set (spending b). tin_outpoint ` set (etx_inputs (hd_value tx)))"
    by (rule spent_outpoints_set) (rule valid_block_coinbase [OF assms])
  then obtain ks where ks: "spent_outpoints b = Some ks"
    "set ks = (\<Union>tx \<in> set (spending b). tin_outpoint ` set (etx_inputs (hd_value tx)))"
    by (elim exE conjE) (rule that)
  have known: "resolved (db_prevouts d) (block_outputs P b) k \<noteq> None" if k: "k \<in> set ks" for k
  proof -
    obtain tx i where i: "tx \<in> set (spending b)" "i \<in> set (etx_inputs (hd_value tx))" "k = tin_outpoint i"
      using k unfolding ks(2) by blast
    show ?thesis using valid_blockD(3) [OF assms i(1, 2)] i(3) by simp
  qed
  let ?r = "\<lambda>k. if k \<in> set ks then resolved (db_prevouts d) (block_outputs P b) k else None"
  have "process_prevouts P d b = Inr (?r, PdPrevouts (block_outputs P b) ks)"
    by (simp add: process_prevouts_def ks(1) fill_prevouts_total known)
  moreover have "dom ?r = set ks" using known by (auto simp: dom_def)
  ultimately show ?thesis using ks(2) known by (intro exI [of _ ?r] exI [of _ ks]) auto
qed

lemma valid_block_shape:
  assumes b: "valid_block P d b"
    and dom: "dom prevouts = (\<Union>tx \<in> set (spending b). tin_outpoint ` set (etx_inputs (hd_value tx)))"
  shows "block_shape prevouts (blk_txs b)" "\<forall>tx \<in> set (tl (blk_txs b)). no_self_spend tx"
proof -
  obtain cb rest where t: "blk_txs b = cb # rest" "is_coinbase (hd_value cb) = Some True"
    "\<forall>tx \<in> set rest. is_coinbase (hd_value tx) = Some False \<and> no_self_spend tx"
    using b by (rule valid_blockE)
  note few = valid_blockD(1) [OF b]
  have "spendable prevouts tx" if tx: "tx \<in> set rest" for tx
  proof -
    have "tx \<in> set (spending b)" using tx t by (simp add: spending_def)
    then have "tin_outpoint ` set (etx_inputs (hd_value tx)) \<subseteq> dom prevouts" unfolding dom by blast
    with few [of tx] tx t(1) show ?thesis by (simp add: spendable_def)
  qed
  with t few [of cb] show "block_shape prevouts (blk_txs b)" by (simp add: block_shape_def)
  from t show "\<forall>tx \<in> set (tl (blk_txs b)). no_self_spend tx" by simp
qed

text \<open>Owners of old and new transfers after the outputs of the block are written.\<close>

lemma owners_ok_written:
  assumes V: "owners_ok V (db_prevouts d)" and b: "valid_block P d b"
    and old: "\<And>l s t. V' l = Some (s, t) \<Longrightarrow> V l = Some (s, t)
        \<and> op_txid (loc_outpoint l) \<notin> hd_hash ` set (blk_txs b)
      \<or> (\<exists>tx out. tx \<in> set (blk_txs b) \<and> op_txid (loc_outpoint l) = hd_hash tx
          \<and> nth_option (etx_outputs (hd_value tx)) (unat (op_vout (loc_outpoint l))) = Some out
          \<and> s = so_sha256 (pe_script P) (tout_script_pubkey (eo_out out)))"
  shows "owners_ok V' (tbl_remove_batch (db_prevouts d ++ block_outputs P b) ks)"
  unfolding owners_ok_def
proof (intro allI impI, elim conjE)
  fix l s t p
  assume l: "V' l = Some (s, t)"
    and p: "tbl_remove_batch (db_prevouts d ++ block_outputs P b) ks (loc_outpoint l) = Some p"
  note few = valid_blockD(1) [OF b] and dist = valid_blockD(2) [OF b]
  from p have p': "(db_prevouts d ++ block_outputs P b) (loc_outpoint l) = Some p"
    by (auto simp: map_simps split: if_splits)
  show "pv_script_hash p = s"
  proof (cases "block_outputs P b (loc_outpoint l)")
    case None
    with p' have d: "db_prevouts d (loc_outpoint l) = Some p" by (simp add: map_add_def)
    have "op_txid (loc_outpoint l) \<notin> hd_hash ` set (blk_txs b)"
      using valid_blockD(4) [OF b d] None by auto
    with old [OF l] have "V l = Some (s, t)" by auto
    with V d show ?thesis unfolding owners_ok_def by blast
  next
    case (Some q)
    with p' have q: "q = p" by (simp add: map_add_def)
    obtain tx out where tx: "tx \<in> set (blk_txs b)" "op_txid (loc_outpoint l) = hd_hash tx"
      "nth_option (etx_outputs (hd_value tx)) (unat (op_vout (loc_outpoint l))) = Some out"
      "pv_script_hash p = so_sha256 (pe_script P) (tout_script_pubkey (eo_out out))"
      using block_outputs_mem [OF Some [unfolded q] few] by blast
    with old [OF l] obtain tx' out' where tx': "tx' \<in> set (blk_txs b)" "op_txid (loc_outpoint l) = hd_hash tx'"
      "nth_option (etx_outputs (hd_value tx')) (unat (op_vout (loc_outpoint l))) = Some out'"
      "s = so_sha256 (pe_script P) (tout_script_pubkey (eo_out out'))" by auto
    have "tx' = tx" using dist tx tx' by (metis distinct_map inj_on_eq_iff)
    with tx tx' show ?thesis by simp
  qed
qed

section \<open>Handling a block\<close>

lemma written_simps:
  "written (PdInfo n info pf) d = d\<lparr> db_last_block := Some n, db_block_info := (db_block_info d)(n \<mapsto> info),
     db_proof_of_history := (db_proof_of_history d)(n \<mapsto> pf) \<rparr>"
  "written (PdPrevouts w ks) d = d\<lparr> db_prevouts := tbl_remove_batch (db_prevouts d ++ w) ks \<rparr>"
  "written (PdFullHash as) d = d\<lparr> db_addresses := db_addresses d ++ as \<rparr>"
  "written (PdTokens metas balances tw tr) d = d\<lparr> db_token_to_meta := db_token_to_meta d ++ metas,
     db_balances := db_balances d ++ balances, db_transfers := db_transfers d |` (- tr) ++ tw \<rparr>"
  "written (PdPartials prem pw) d = d\<lparr> db_partials := db_partials d |` (- dom prem) ++ pw \<rparr>"
  "written (PdOffsets orem ow) d = d\<lparr> db_offsets := db_offsets d |` (- dom orem) ++ ow \<rparr>"
  by (simp_all add: written_def)

lemma written_history:
  "db_token_to_meta (written (PdHistory n lid es) d) = db_token_to_meta d"
  "db_balances (written (PdHistory n lid es) d) = db_balances d"
  "db_transfers (written (PdHistory n lid es) d) = db_transfers d"
  "db_prevouts (written (PdHistory n lid es) d) = db_prevouts d"
  "db_addresses (written (PdHistory n lid es) d) = db_addresses d"
  "db_last_history_id (written (PdHistory n lid es) d) = Some lid"
  "db_history (written (PdHistory n lid es) d) = tbl_extend (db_history d) es"
  by (simp_all add: written_def Let_def)

lemma transfers_rel_card:
  assumes "transfers_rel tbl V"
  shows "card (dom V) = card (dom tbl)"
proof -
  let ?f = "\<lambda>l. \<lparr> al_address = fst (the (V l)), al_location = l \<rparr>"
  have V: "tbl k = Some t \<longleftrightarrow> V (al_location k) = Some (al_address k, t)" for k t
    using assms by (cases k) (auto simp: transfers_rel_def)
  have "dom tbl = ?f ` dom V"
  proof (intro set_eqI iffI)
    fix k assume "k \<in> dom tbl"
    then obtain t where "tbl k = Some t" by blast
    with V have "V (al_location k) = Some (al_address k, t)" by simp
    then have "k = ?f (al_location k)" "al_location k \<in> dom V" by auto
    then show "k \<in> ?f ` dom V" by (rule image_eqI)
  qed (auto simp: V)
  moreover have "inj_on ?f (dom V)" by (intro inj_onI) simp
  ultimately show ?thesis by (simp add: card_image)
qed

lemma generate_history_hash_total:
  assumes "\<And>r. po_json Q r \<noteq> None"
  shows "generate_history_hash Q prev es as \<noteq> None"
proof -
  have "option_list (map (po_json Q \<circ> rest_entry (po_sha256 Q) as) es)
      = Some (map (\<lambda>e. the (po_json Q (rest_entry (po_sha256 Q) as e))) es)"
    by (rule option_list_map_total) (use assms in simp)
  then show ?thesis by (simp add: generate_history_hash_def)
qed

lemma prevout_before_total:
  "(\<And>k. k \<in> set ks \<Longrightarrow> resolved tbl own k \<noteq> None) \<Longrightarrow> \<exists>m. prevout_before tbl own ks = Some m"
proof -
  assume *: "\<And>k. k \<in> set ks \<Longrightarrow> resolved tbl own k \<noteq> None"
  have "option_list (map (\<lambda>k. map_option (Pair k) (case tbl k of Some v \<Rightarrow> Some v | None \<Rightarrow> own k)) ks)
      = Some (map (\<lambda>k. (k, the (resolved tbl own k))) ks)"
  proof (rule option_list_map_total)
    fix k assume "k \<in> set ks"
    with * obtain v where "resolved tbl own k = Some v" by blast
    then show "map_option (Pair k) (case tbl k of Some v \<Rightarrow> Some v | None \<Rightarrow> own k)
        = Some (k, the (resolved tbl own k))"
      by (simp add: resolved_def)
  qed
  then show ?thesis by (simp add: prevout_before_def)
qed

text \<open>No two transfer inscriptions of a block share a location.  On Dogecoin the parser sees to it; on the
  other chains the block has to.\<close>

definition single_transfers :: "parser_env \<Rightarrow> db \<Rightarrow> u32 \<Rightarrow> block \<Rightarrow> bool" where
  "single_transfers P d height b \<longleftrightarrow> guarded P height
     \<or> (\<forall>prevouts pd c out. process_prevouts P d b = Inr (prevouts, pd)
          \<and> parse_block P d height b prevouts (token_cache_load prevouts (db_transfers d)) = Some (c, out)
          \<longrightarrow> distinct (transfer_locs (tc_actions c)))"

text \<open>What the indexer needs of its surroundings.\<close>

definition index_env_ok :: "index_env \<Rightarrow> db \<Rightarrow> u32 \<Rightarrow> block \<Rightarrow> bool" where
  "index_env_ok X d height b \<longleftrightarrow> single_transfers (ie_parser X) d height b
     \<and> fixed_json (pe_env (ie_parser X)) (pe_json (ie_parser X)) \<and> (\<forall>r. ie_json X r \<noteq> None)"

lemma db_ledger_whole: "ledger_ok E (db_ledger d V, h) \<Longrightarrow>
    ledger_ok E (whole_ledger (db_token_to_meta d) (db_balances d) V c, h)"
  by (simp add: ledger_ok_def db_ledger_def whole_ledger_def)

text \<open>The cache a valid block fills is one that executes.\<close>

lemma parse_valid_block:
  assumes V: "transfers_rel (db_transfers d) V" "owners_ok V (db_prevouts d)"
    and b: "valid_block P d b" and g: "single_transfers P d height b" and J: "fixed_json (pe_env P) (pe_json P)"
    and pre: "process_prevouts P d b = Inr (prevouts, pd)"
  shows "\<exists>c pw ow. parse_block P d height b prevouts (token_cache_load prevouts (db_transfers d))
      = Some (c, [PdPartials (db_partials d |` dom prevouts) pw, PdOffsets (db_offsets d |` dom prevouts) ow])
    \<and> tc_valid c = tc_valid (token_cache_load prevouts (db_transfers d))
    \<and> tc_valid c \<subseteq>\<^sub>m V \<and> (\<forall>loc v. V loc = Some v \<longrightarrow> op_txid (loc_outpoint loc) \<notin> hd_hash ` set (blk_txs b))
    \<and> collected_ok (pe_env P) c \<and> moves_loaded V c
    \<and> list_all (action_from P (blk_txs b) prevouts) (tc_actions c)"
proof -
  let ?c = "token_cache_load prevouts (db_transfers d)"
  have new: "op_txid (loc_outpoint loc) \<notin> hd_hash ` set (blk_txs b)" if v: "V loc = Some v" for loc v
  proof -
    obtain a t where "v = (a, t)" by (cases v)
    with v V(1) have "\<lparr> al_address = a, al_location = loc \<rparr> \<in> dom (db_transfers d)"
      by (simp add: transfers_rel_def domIff)
    from valid_blockD(5) [OF b this] show ?thesis by simp
  qed
  obtain ks where pd: "pd = PdPrevouts (block_outputs P b) ks" and dom: "dom prevouts = set ks"
    "set ks = (\<Union>tx \<in> set (spending b). tin_outpoint ` set (etx_inputs (hd_value tx)))"
    and res: "\<forall>k \<in> set ks. prevouts k = resolved (db_prevouts d) (block_outputs P b) k"
    using process_prevouts_total [OF b] pre by auto
  have own: "owners_ok V prevouts"
    unfolding owners_ok_def
  proof (intro allI impI, elim conjE)
    fix loc a t p
    assume v: "V loc = Some (a, t)" and p: "prevouts (loc_outpoint loc) = Some p"
    then have "resolved (db_prevouts d) (block_outputs P b) (loc_outpoint loc) = Some p"
      using res dom by (metis domI)
    moreover have "block_outputs P b (loc_outpoint loc) = None"
    proof (rule ccontr)
      assume "block_outputs P b (loc_outpoint loc) \<noteq> None"
      then obtain q where "block_outputs P b (loc_outpoint loc) = Some q" by blast
      from block_outputs_mem [OF this valid_blockD(1) [OF b]] new [OF v] show False by auto
    qed
    ultimately have "db_prevouts d (loc_outpoint loc) = Some p"
      by (simp add: resolved_def split: option.splits)
    with V(2) v show "pv_script_hash p = a" unfolding owners_ok_def by blast
  qed
  have valid: "tc_valid ?c = V |` {loc. prevouts (loc_outpoint loc) \<noteq> None}"
    using load_transfers_restrict [OF V(1) own] by (simp add: token_cache_load_def Let_def)
  have fresh: "fresh_transfers (blk_txs b) V" using new unfolding fresh_transfers_def by (metis not_Some_eq)
  then have "fresh_transfers (blk_txs b) (tc_valid ?c)"
    unfolding valid by (auto simp: fresh_transfers_def restrict_map_def)
  with J have ready: "block_ready P (blk_txs b) (tc_valid ?c)" by (simp add: block_ready_def)
  have c0: "collected_ok (pe_env P) ?c" "tc_actions ?c = []"
    by (rule collected_ok_load) (simp add: token_cache_load_def token_cache_empty_def Let_def)
  note shape = valid_block_shape [OF b trans [OF dom]]
  obtain c pw ow where p: "parse_block P d height b prevouts ?c
      = Some (c, [PdPartials (db_partials d |` dom prevouts) pw, PdOffsets (db_offsets d |` dom prevouts) ow])"
    and c: "cache_ok P (blk_txs b) prevouts (tc_valid ?c) c"
    using parse_block_total [OF shape(1) ready c0] by blast
  have dist: "distinct (transfer_locs (tc_actions c))"
    using g parse_block_once [OF shape(1) _ J valid_blockD(2) [OF b] shape(2) c0(2) p] pre p
    unfolding single_transfers_def by blast
  have "moves_loaded V c" by (rule cache_ok_moves_loaded [OF c [unfolded valid] fresh])
  moreover have "collected_ok (pe_env P) c" "tc_valid c = tc_valid ?c"
    "list_all (action_from P (blk_txs b) prevouts) (tc_actions c)"
    using c dist by (simp_all add: cache_ok_def)
  moreover have "tc_valid ?c \<subseteq>\<^sub>m V" unfolding valid by (auto simp: map_le_def restrict_map_def)
  ultimately show ?thesis using p new by (intro exI [of _ c] exI [of _ pw] exI [of _ ow]) auto
qed

lemma index_env_okD:
  assumes "index_env_ok X d height b"
  shows "single_transfers (ie_parser X) d height b" "fixed_json (pe_env (ie_parser X)) (pe_json (ie_parser X))"
    "po_json (ie_proof X) r \<noteq> None"
  using assms by (simp_all add: index_env_ok_def ie_proof_def)

text \<open>The transfers and the outputs after a block whose actions were executed.\<close>

lemma action_from_output:
  assumes "list_all (action_from P txs prevouts) as" and "TaTransfer loc s w txid vout \<in> set as"
  shows "\<exists>tx out. tx \<in> set txs \<and> in_output tx loc
    \<and> nth_option (etx_outputs (hd_value tx)) (unat (op_vout (loc_outpoint loc))) = Some out
    \<and> s = so_sha256 (pe_script P) (tout_script_pubkey (eo_out out))"
proof -
  have "action_from P txs prevouts (TaTransfer loc s w txid vout)"
    using assms unfolding list_all_iff by blast
  then show ?thesis unfolding action_from.simps by blast
qed

lemma tables_after_block:
  assumes V: "transfers_rel (db_transfers d) V" "owners_ok V (db_prevouts d)" and b: "valid_block P d b"
    and sub: "tc_valid c \<subseteq>\<^sub>m V"
    and new: "\<forall>loc v. V loc = Some v \<longrightarrow> op_txid (loc_outpoint loc) \<notin> hd_hash ` set (blk_txs b)"
    and mov: "moves_loaded V c" and acts: "list_all (action_from P (blk_txs b) prevouts) (tc_actions c)"
    and orig: "\<forall>l s t. tc_valid c' l = Some (s, t) \<longrightarrow>
      tc_valid c l = Some (s, t) \<or> (\<exists>w txid vout. TaTransfer l s w txid vout \<in> set (tc_actions c))"
  defines "V' \<equiv> V |` (- dom (tc_valid c)) ++ tc_valid c'"
  shows "transfers_rel (db_transfers d |` (- transfers_to_remove c) ++ transfers_to_write c') V'"
    "owners_ok V' (tbl_remove_batch (db_prevouts d ++ block_outputs P b) ks)"
proof -
  have loaded: "V l = Some v" if "tc_valid c l = Some v" for l v
    using sub that by (auto simp: map_le_def dom_def)
  show "transfers_rel (db_transfers d |` (- transfers_to_remove c) ++ transfers_to_write c') V'"
    unfolding V'_def
  proof (rule transfers_rel_written [OF V(1) sub])
    fix l s t assume "tc_valid c' l = Some (s, t)"
    from orig [rule_format, OF this] show "tc_valid c l = Some (s, t) \<or> V l = None"
      using mov transfer_locs_mem by (auto simp: moves_loaded_def)
  qed
  show "owners_ok V' (tbl_remove_batch (db_prevouts d ++ block_outputs P b) ks)"
  proof (rule owners_ok_written [OF V(2) b])
    fix l s t assume l: "V' l = Some (s, t)"
    have old: "V l = Some (s, t) \<or> (\<exists>w txid vout. TaTransfer l s w txid vout \<in> set (tc_actions c))"
    proof (cases "tc_valid c' l = Some (s, t)")
      case True
      from orig [rule_format, OF this] loaded show ?thesis by auto
    next
      case False
      with l show ?thesis
        by (auto simp: V'_def map_add_def restrict_map_def split: option.splits if_splits)
    qed
    then show "V l = Some (s, t) \<and> op_txid (loc_outpoint l) \<notin> hd_hash ` set (blk_txs b)
      \<or> (\<exists>tx out. tx \<in> set (blk_txs b) \<and> op_txid (loc_outpoint l) = hd_hash tx
          \<and> nth_option (etx_outputs (hd_value tx)) (unat (op_vout (loc_outpoint l))) = Some out
          \<and> s = so_sha256 (pe_script P) (tout_script_pubkey (eo_out out)))"
    proof
      assume "V l = Some (s, t)"
      with new show ?thesis by simp
    next
      assume "\<exists>w txid vout. TaTransfer l s w txid vout \<in> set (tc_actions c)"
      then obtain w txid vout where "TaTransfer l s w txid vout \<in> set (tc_actions c)" by blast
      from action_from_output [OF acts this] show ?thesis unfolding in_output_def by blast
    qed
  qed
qed

lemma block_writes_loggable:
  assumes V: "transfers_rel (db_transfers d) V" "tc_valid c \<subseteq>\<^sub>m V"
    and known: "\<forall>k \<in> set ks. resolved (db_prevouts d) own k \<noteq> None"
  shows "loggable [PdPrevouts own ks, PdFullHash as, PdPartials prem pw, PdOffsets orem ow, PdHistory n lid es,
    PdTokens metas balances tw (transfers_to_remove c), PdInfo n info pf] d"
proof -
  obtain m where "prevout_before (db_prevouts d) own ks = Some m"
    using prevout_before_total known by blast
  note first = logs_PdPrevouts [OF this]
  have "transfers_to_remove c \<subseteq> dom (db_transfers d)"
  proof
    fix k assume "k \<in> transfers_to_remove c"
    then obtain l a t where "tc_valid c l = Some (a, t)" "k = \<lparr> al_address = a, al_location = l \<rparr>"
      by (auto simp: transfers_to_remove_def)
    moreover from this V(2) have "V l = Some (a, t)" by (auto simp: map_le_def dom_def)
    ultimately show "k \<in> dom (db_transfers d)" using V(1) by (auto simp: transfers_rel_def)
  qed
  then have "\<And>x. db_transfers x = db_transfers d \<Longrightarrow>
      logs (PdTokens metas balances tw (transfers_to_remove c)) x
        (token_undo_entries metas balances tw (transfers_to_remove c) x) []"
    by (intro logs_PdTokens) simp
  note tokens = this
  show ?thesis
    unfolding loggable.simps
    by (intro conjI exI TrueI, rule first, rule logs_ordinals, rule logs_ordinals, rule logs_ordinals,
        rule logs_PdHistory, rule tokens, simp add: written_simps written_history, rule logs_ordinals)
qed

lemma few_transfers:
  assumes "collected_ok E c" and "valid_block P d b"
    and "list_all (action_from P (blk_txs b) prevouts) (tc_actions c)"
  shows "length (transfer_locs (tc_actions c)) \<le> block_value b"
proof (rule block_locations_few)
  show "distinct (transfer_locs (tc_actions c))" using assms(1) by (simp add: collected_ok_def)
  show "distinct (map hd_hash (blk_txs b))" by (rule valid_blockD(2) [OF assms(2)])
  fix loc assume "loc \<in> set (transfer_locs (tc_actions c))"
  then obtain s w txid vout where "TaTransfer loc s w txid vout \<in> set (tc_actions c)"
    using transfer_locs_TaTransfer by blast
  from action_from_output [OF assms(3) this] show "\<exists>tx \<in> set (blk_txs b). in_output tx loc" by blast
qed

lemma handle_tokens_safe:
  assumes V: "transfers_rel (db_transfers d) V" "owners_ok V (db_prevouts d)"
    and inv: "ledger_ok (pe_env (ie_parser X)) (db_ledger d V, h)"
    and b: "valid_block (ie_parser X) d b" and ok: "index_env_ok X d height b"
    and room: "card (dom (db_transfers d)) + block_value b < 2 ^ 64"
    and pre: "process_prevouts (ie_parser X) d b = Inr (prevouts, pd)"
  shows "\<exists>w h'. handle_tokens X d h height b prevouts [pd, PdFullHash as] = Inr (w, h')
    \<and> db_ok (pe_env (ie_parser X)) (fold written (dw_processed w) d) h'
    \<and> loggable (dw_processed w) d"
proof -
  let ?P = "ie_parser X" let ?E = "pe_env ?P" and ?c = "token_cache_load prevouts (db_transfers d)"
  obtain ks where pd: "pd = PdPrevouts (block_outputs ?P b) ks"
    and known: "\<forall>k \<in> set ks. resolved (db_prevouts d) (block_outputs ?P b) k \<noteq> None"
    using process_prevouts_total [OF b] pre by auto
  obtain c pw ow where p: "parse_block ?P d height b prevouts ?c
      = Some (c, [PdPartials (db_partials d |` dom prevouts) pw, PdOffsets (db_offsets d |` dom prevouts) ow])"
    and valid: "tc_valid c = tc_valid ?c" "tc_valid c \<subseteq>\<^sub>m V"
    and new: "\<forall>loc v. V loc = Some v \<longrightarrow> op_txid (loc_outpoint loc) \<notin> hd_hash ` set (blk_txs b)"
    and col: "collected_ok ?E c" and mov: "moves_loaded V c"
    and acts: "list_all (action_from ?P (blk_txs b) prevouts) (tc_actions c)"
    using parse_valid_block [OF V b index_env_okD(1, 2) [OF ok] pre] by blast
  have "card (dom V) + length (transfer_locs (tc_actions c)) < 2 ^ 64"
    using room few_transfers [OF col b acts] by (simp add: transfers_rel_card [OF V(1)])
  then obtain c' h' evs where run: "process_token_actions ?E
      (load_tokens_data ?E (db_token_to_meta d) (db_balances d) c, h) = Inr ((c', h'), evs)"
    and led: "ledger_ok ?E (whole_ledger (db_token_to_meta d ++ tc_tokens c') (db_balances d ++ tc_accounts c')
        (V |` (- dom (tc_valid c)) ++ tc_valid c') c', h')"
    using collected_block_safe [OF db_ledger_whole [OF inv] col mov] by blast
  obtain last_id history where hist: "block_history height evs (history_id d) = Some (last_id, history)"
    using block_history_total by blast
  obtain pf where pf: "generate_history_hash (ie_proof X) (prev_block_proof X d height) history
      (load_addresses d (\<Union> (action_hashes ` set evs) - dom (block_addresses ?P b)) ++ block_addresses ?P b) = Some pf"
    using generate_history_hash_total [OF index_env_okD(3) [OF ok]] by blast
  define ps where "ps = [pd, PdFullHash as, PdPartials (db_partials d |` dom prevouts) pw,
    PdOffsets (db_offsets d |` dom prevouts) ow, PdHistory height last_id history,
    PdTokens (tc_tokens c') (tc_accounts c') (transfers_to_write c') (transfers_to_remove c),
    PdInfo height \<lparr> bi_hash = hd_hash (blk_header b), bi_created = bh_timestamp (hd_value (blk_header b)) \<rparr> pf]"
  have rem: "transfers_to_remove ?c = transfers_to_remove c" by (simp add: transfers_to_remove_def valid(1))
  have orig: "\<forall>l s t. tc_valid c' l = Some (s, t) \<longrightarrow>
      tc_valid c l = Some (s, t) \<or> (\<exists>w txid vout. TaTransfer l s w txid vout \<in> set (tc_actions c))"
    using process_valid_from [OF run] by blast
  note after = tables_after_block(1) [OF V b valid(2) new mov acts orig]
    tables_after_block(2) [OF V b valid(2) new mov acts orig, where ks = ks]
  have "db_ok ?E (fold written ps d) h'"
    unfolding db_ok_def db_ledger_def using led after
    by (intro exI [of _ "V |` (- dom (tc_valid c)) ++ tc_valid c'"])
      (simp add: ps_def pd written_simps written_history ledger_ok_def whole_ledger_def)
  moreover have "loggable ps d"
    unfolding ps_def pd by (rule block_writes_loggable [OF V(1) valid(2) known])
  moreover have "\<exists>w. handle_tokens X d h height b prevouts [pd, PdFullHash as] = Inr (w, h') \<and> dw_processed w = ps"
    using p run hist pf rem by (simp add: handle_tokens_def Let_def ps_def)
  ultimately show ?thesis by (elim exE conjE) (intro exI conjI, assumption, simp_all)
qed

end
