(* ===== verification/IndexLoop.thy ===== *)
theory IndexLoop
  imports IndexSafe
begin

text \<open>
  The indexing loop over the blocks of a chain: it neither fails nor loses the invariant of the
  database as long as the chain grows, and after a reorganisation it continues from the database
  as it was before the blocks that were dropped.
\<close>

section \<open>Handling any block\<close>

lemma logs_plain:
  "\<exists>ts os. logs (PdInfo n info pf) d ts os" "\<exists>ts os. logs (PdFullHash as) d ts os"
  using logs_ordinals(3, 4) by blast+

lemma handle_block_safe:
  assumes inv: "db_ok (pe_env (ie_parser X)) d h" and b: "valid_block (ie_parser X) d b"
    and ok: "index_env_ok X d height b" and room: "card (dom (db_transfers d)) + block_value b < 2 ^ 64"
  shows "\<exists>w h'. handle_block X d h height b = Inr (w, h')
    \<and> db_ok (pe_env (ie_parser X)) (fold written (dw_processed w) d) h' \<and> loggable (dw_processed w) d"
proof -
  let ?P = "ie_parser X"
  obtain V where V: "transfers_rel (db_transfers d) V" "owners_ok V (db_prevouts d)"
    and led: "ledger_ok (pe_env ?P) (db_ledger d V, h)"
    using inv unfolding db_ok_def by blast
  obtain prevouts ks where pre: "process_prevouts ?P d b = Inr (prevouts, PdPrevouts (block_outputs ?P b) ks)"
    and known: "\<forall>k \<in> set ks. resolved (db_prevouts d) (block_outputs ?P b) k \<noteq> None"
    using process_prevouts_total [OF b] by auto
  let ?ps = "[PdPrevouts (block_outputs ?P b) ks, PdFullHash (block_addresses ?P b)]"
  obtain m where "prevout_before (db_prevouts d) (block_outputs ?P b) ks = Some m"
    using prevout_before_total known by blast
  note first = logs_PdPrevouts [OF this]
  have new: "op_txid (loc_outpoint loc) \<notin> hd_hash ` set (blk_txs b)" if v: "V loc = Some (a, t)" for loc a t
  proof -
    from v V(1) have "\<lparr> al_address = a, al_location = loc \<rparr> \<in> dom (db_transfers d)"
      by (simp add: transfers_rel_def domIff)
    from valid_blockD(5) [OF b this] show ?thesis by simp
  qed
  have own: "owners_ok V (tbl_remove_batch (db_prevouts d ++ block_outputs ?P b) ks)"
    by (rule owners_ok_written [OF V(2) b]) (use new in blast)
  have plain: "db_ok (pe_env ?P) (fold written (?ps @ info) d) h \<and> loggable (?ps @ info) d"
    if "info = [] \<or> (\<exists>n i pf. info = [PdInfo n i pf])" for info
    using that
  proof (elim disjE exE)
    assume "info = []"
    then show ?thesis
      using V own led first
      by (auto simp: db_ok_def written_simps db_ledger_def logs_plain)
  next
    fix n i pf assume "info = [PdInfo n i pf]"
    then show ?thesis
      using V own led first
      by (auto simp: db_ok_def written_simps db_ledger_def logs_plain)
  qed
  obtain pf where hash: "generate_history_hash (ie_proof X) (prev_block_proof X d height) [] Map.empty = Some pf"
    using generate_history_hash_total [OF index_env_okD(3) [OF ok]] by blast
  consider "height < start_height (pe_network ?P) (e_chain (pe_env ?P))"
    | "\<not> height < start_height (pe_network ?P) (e_chain (pe_env ?P))" "length (blk_txs b) = 1"
    | "\<not> height < start_height (pe_network ?P) (e_chain (pe_env ?P))" "length (blk_txs b) \<noteq> 1" by blast
  then show ?thesis
  proof cases
    case 1
    with plain [of "[]"] pre show ?thesis by (simp add: handle_block_def Let_def)
  next
    case 2
    with plain [of "[PdInfo height \<lparr> bi_hash = hd_hash (blk_header b),
        bi_created = bh_timestamp (hd_value (blk_header b)) \<rparr> pf]"] pre hash
    show ?thesis by (simp add: handle_block_def Let_def)
  next
    case 3
    have "handle_block X d h height b
        = handle_tokens X d h height b prevouts [PdPrevouts (block_outputs ?P b) ks, PdFullHash (block_addresses ?P b)]"
      using 3 pre by (simp add: handle_block_def Let_def)
    with handle_tokens_safe [OF V led b ok room pre, of "block_addresses ?P b"] show ?thesis by simp
  qed
qed

section \<open>The heights in the log\<close>

fun consecutive :: "u32 list \<Rightarrow> bool" where
  "consecutive (x # y # zs) \<longleftrightarrow> unat y = unat x + 1 \<and> consecutive (y # zs)"
| "consecutive _ \<longleftrightarrow> True"

lemma consecutive_append:
  "consecutive (xs @ ys) \<longleftrightarrow> consecutive xs \<and> consecutive ys
    \<and> (xs \<noteq> [] \<and> ys \<noteq> [] \<longrightarrow> unat (hd ys) = unat (last xs) + 1)"
proof (induction xs)
  case (Cons x xs)
  then show ?case by (cases xs; cases ys) auto
qed simp

lemma consecutive_tl: "consecutive xs \<Longrightarrow> consecutive (tl xs)"
  by (cases xs rule: consecutive.cases) auto

lemma consecutive_hd_le: "consecutive (x # zs) \<Longrightarrow> unat x \<le> unat (last (x # zs))"
proof (induction zs arbitrary: x)
  case (Cons z zs)
  from Cons.prems have c: "consecutive (z # zs)" "unat z = unat x + 1" by simp_all
  from Cons.IH [OF c(1)] c(2) show ?case by simp
qed simp

lemma consecutive_le_last:
  assumes "consecutive xs" and "x \<in> set xs"
  shows "unat x \<le> unat (last xs)"
proof -
  obtain us vs where xs: "xs = us @ x # vs" using assms(2) by (meson split_list)
  with assms(1) have "consecutive (x # vs)" by (simp add: consecutive_append)
  with xs consecutive_hd_le show ?thesis by simp
qed

lemma new_block_log:
  assumes "consecutive (map fst (rc_blocks r))" and "length (rc_blocks r) \<le> rc_len r" and "0 < rc_len r"
    and tip: "rc_blocks r \<noteq> [] \<Longrightarrow> unat height = unat (fst (last (rc_blocks r))) + 1"
  shows "\<exists>low. rc_blocks (reorg_new_block height r) = low @ [(height, reorg_history_block_new)]
    \<and> consecutive (map fst (low @ [(height, reorg_history_block_new)])) \<and> length low < rc_len r
    \<and> rc_len (reorg_new_block height r) = rc_len r"
proof -
  let ?bs = "rc_blocks r" and ?low = "if length (rc_blocks r) = rc_len r then tl (rc_blocks r) else rc_blocks r"
  have low: "set ?low \<subseteq> set ?bs" "?low \<noteq> [] \<Longrightarrow> last ?low = last ?bs" "length ?low < rc_len r"
  proof -
    show "set ?low \<subseteq> set ?bs" by (cases ?bs) auto
    show "?low \<noteq> [] \<Longrightarrow> last ?low = last ?bs" by (simp add: last_tl split: if_splits)
    show "length ?low < rc_len r" using assms(2, 3) by simp
  qed
  have below: "k < height" if kv: "(k, v) \<in> set ?bs" for k v
  proof -
    have "fst (last ?bs) = last (map fst ?bs)" using kv by (subst last_map) auto
    moreover have "k \<in> set (map fst ?bs)" using kv by force
    ultimately have "unat k \<le> unat (fst (last ?bs))" using consecutive_le_last [OF assms(1)] by simp
    moreover have "?bs \<noteq> []" using kv by auto
    ultimately show ?thesis using tip by (simp add: word_less_nat_alt)
  qed
  have ins: "bt_insert height reorg_history_block_new ?low = ?low @ [(height, reorg_history_block_new)]"
    by (rule bt_insert_last) (use below low in blast)
  have "consecutive (map fst ?low)" using assms(1) consecutive_tl [OF assms(1)] by (simp add: map_tl)
  moreover have "?low \<noteq> [] \<Longrightarrow> unat height = unat (last (map fst ?low)) + 1"
  proof -
    assume ne: "?low \<noteq> []"
    then have "?bs \<noteq> []" by (auto split: if_splits)
    with tip low(2) [OF ne] ne show "unat height = unat (last (map fst ?low)) + 1" by (simp add: last_map)
  qed
  ultimately have "consecutive (map fst ?low @ [height])" by (simp add: consecutive_append del: map_map)
  moreover have "rc_blocks (reorg_new_block height r) = ?low @ [(height, reorg_history_block_new)]"
    by (simp only: reorg_new_block_def Let_def ins) simp
  moreover have "rc_len (reorg_new_block height r) = rc_len r" by (simp add: reorg_new_block_def Let_def)
  ultimately show ?thesis using low(3) by (intro exI [of _ ?low]) simp
qed

section \<open>One step of the loop\<close>

text \<open>The log holds the last blocks, without a gap in their heights.\<close>

definition log_ok :: "index_state \<Rightarrow> bool" where
  "log_ok s \<longleftrightarrow> consecutive (map fst (rc_blocks (is_cache s)))
     \<and> length (rc_blocks (is_cache s)) \<le> rc_len (is_cache s) \<and> 0 < rc_len (is_cache s)
     \<and> (rc_blocks (is_cache s) \<noteq> [] \<longrightarrow> (\<exists>p. is_prev_height s = Some p \<and> unat p < 2 ^ 32
          \<and> fst (last (rc_blocks (is_cache s))) = ucast p))"

definition state_ok :: "index_env \<Rightarrow> index_state \<Rightarrow> bool" where
  "state_ok X s \<longleftrightarrow> db_ok (pe_env (ie_parser X)) (is_db s) (is_holders s) \<and> log_ok s"

text \<open>The next block of a chain that grows.\<close>

definition next_height :: "block_event \<Rightarrow> index_state \<Rightarrow> bool" where
  "next_height ev s \<longleftrightarrow> unat (be_height ev) < 2 ^ 32
     \<and> (case is_prev_height s of None \<Rightarrow> True | Some p \<Rightarrow> unat (be_height ev) = unat p + 1)"

definition next_block :: "index_env \<Rightarrow> block_event \<Rightarrow> index_state \<Rightarrow> bool" where
  "next_block X ev s \<longleftrightarrow> be_reorg_len ev = 0 \<and> next_height ev s
     \<and> index_env_ok X (is_db s) (ucast (be_height ev)) (be_block ev) \<and> valid_block (ie_parser X) (is_db s) (be_block ev)
     \<and> card (dom (db_transfers (is_db s))) + block_value (be_block ev) < 2 ^ 64"

lemma ucast_u32_small: "unat (w :: u64) < 2 ^ 32 \<Longrightarrow> unat (ucast w :: u32) = unat w"
  by (simp add: unsigned_ucast_eq take_bit_nat_eq_self)

lemma next_height_word:
  assumes "next_height ev s" and "is_prev_height s = Some p"
  shows "(ucast p :: u32) + 1 = ucast (be_height ev)"
    "unat (ucast (be_height ev) :: u32) = unat (ucast p :: u32) + 1"
proof -
  have h: "unat (be_height ev) < 2 ^ 32" "unat (be_height ev) = unat p + 1"
    using assms by (simp_all add: next_height_def)
  then have u: "unat (ucast (be_height ev) :: u32) = unat p + 1" "unat (ucast p :: u32) = unat p"
    by (simp_all add: ucast_u32_small)
  then show "unat (ucast (be_height ev) :: u32) = unat (ucast p :: u32) + 1" by simp
  have "unat ((ucast p :: u32) + 1) = unat p + 1"
    using h u(2) by (subst unat_word_ariths) simp
  with u(1) show "(ucast p :: u32) + 1 = ucast (be_height ev)" by (simp add: word_unat_eq_iff)
qed

lemma roll_back_none [simp]: "be_reorg_len ev = 0 \<Longrightarrow> roll_back ev s = s"
  by (simp add: roll_back_def)

lemma drop_log_simps [simp]:
  "is_db (drop_log ev s) = is_db s" "is_holders (drop_log ev s) = is_holders s"
  "is_prev_height (drop_log ev s) = is_prev_height s" "is_events (drop_log ev s) = is_events s"
  "rc_blocks (is_cache (drop_log ev s)) = (if keeps_log ev then rc_blocks (is_cache s) else [])"
  "rc_len (is_cache (drop_log ev s)) = rc_len (is_cache s)"
  by (simp_all add: drop_log_def)

lemma index_step_safe:
  assumes s: "state_ok X s" and nb: "next_block X ev s"
  shows "\<exists>s'. index_step X True c ev s = Inr s' \<and> state_ok X s' \<and> is_prev_height s' = Some (be_height ev)"
proof -
  let ?s = "drop_log ev s" and ?h = "ucast (be_height ev) :: u32"
  have nh: "next_height ev s" and no: "be_reorg_len ev = 0" using nb by (simp_all add: next_block_def)
  have log: "log_ok ?s" using s by (auto simp: log_ok_def state_ok_def)
  have tip: "unat ?h = unat (fst (last (rc_blocks (is_cache ?s)))) + 1" "fst (last (rc_blocks (is_cache ?s))) + 1 = ?h"
    if "rc_blocks (is_cache ?s) \<noteq> []"
    using log that next_height_word [OF nh] by (auto simp: log_ok_def)
  obtain w h' where w: "handle_block X (is_db ?s) (is_holders ?s) ?h (be_block ev) = Inr (w, h')"
    and db: "db_ok (pe_env (ie_parser X)) (fold written (dw_processed w) (is_db ?s)) h'"
    and logs: "loggable (dw_processed w) (is_db ?s)"
    using handle_block_safe [of X "is_db ?s" "is_holders ?s" "be_block ev" ?h] s nb
    by (auto simp: state_ok_def next_block_def)
  show ?thesis
  proof (cases "keeps_log ev")
    case True
    let ?r = "reorg_new_block ?h (is_cache ?s)"
    have "\<exists>low. rc_blocks ?r = low @ [(?h, reorg_history_block_new)]
        \<and> consecutive (map fst (low @ [(?h, reorg_history_block_new)])) \<and> length low < rc_len (is_cache ?s)
        \<and> rc_len ?r = rc_len (is_cache ?s)"
      by (rule new_block_log) (use log tip(1) in \<open>simp_all add: log_ok_def\<close>)
    then obtain low where new: "rc_blocks ?r = low @ [(?h, reorg_history_block_new)]"
      "consecutive (map fst (low @ [(?h, reorg_history_block_new)]))" "length low < rc_len (is_cache ?s)"
      "rc_len ?r = rc_len (is_cache ?s)"
      by (elim exE conjE) (rule that)
    obtain r' where r': "write_all (dw_processed w) (is_db ?s, Some ?r)
        = Some (fold written (dw_processed w) (is_db ?s), Some r')"
      "map fst (rc_blocks r') = map fst (rc_blocks ?r)" "rc_len r' = rc_len ?r"
      using write_all_logged [OF logs, of ?r] new(1) by auto
    have ne: "rc_blocks r' \<noteq> []" and "consecutive (map fst (rc_blocks r'))"
      using r'(2) new(1, 2) by auto
    moreover have "fst (last (rc_blocks r')) = last (map fst (rc_blocks r'))"
      by (rule last_map [OF ne, symmetric])
    moreover have "length (rc_blocks r') = length (rc_blocks ?r)"
      using arg_cong [OF r'(2), of length] by simp
    moreover have "rc_blocks (is_cache ?s) = [] \<or> fst (last (rc_blocks (is_cache ?s))) + 1 = ?h"
      using tip(2) by blast
    ultimately show ?thesis
      using True w db r' nh no new
      by (simp add: index_step_def handle_def Let_def state_ok_def log_ok_def next_height_def)
  next
    case False
    with w db no log show ?thesis
      by (auto simp: index_step_def handle_def Let_def write_all_unlogged state_ok_def log_ok_def)
  qed
qed

section \<open>A chain that grows\<close>

fun chain_ok :: "index_env \<Rightarrow> block_event list \<Rightarrow> index_state \<Rightarrow> bool" where
  "chain_ok X [] s \<longleftrightarrow> True"
| "chain_ok X (ev # evs) s \<longleftrightarrow> next_block X ev s
     \<and> (case index_step X True False ev s of Inl _ \<Rightarrow> True | Inr s' \<Rightarrow> chain_ok X evs s')"

lemma index_loop_safe:
  assumes "state_ok X s" and "chain_ok X evs s"
  shows "\<exists>s'. index_loop X True evs s = (s', None) \<and> state_ok X s'"
  using assms
proof (induction evs arbitrary: s)
  case (Cons ev evs)
  then obtain s1 where "index_step X True False ev s = Inr s1" "state_ok X s1"
    using index_step_safe [of X s ev False] by auto
  with Cons show ?case by simp
qed simp

section \<open>A reorganisation\<close>

text \<open>The writes of the blocks the loop handles.\<close>

fun writes_of :: "index_env \<Rightarrow> block_event list \<Rightarrow> index_state \<Rightarrow> (u32 \<times> processed_data list) list" where
  "writes_of X [] s = []"
| "writes_of X (ev # evs) s =
     (case handle_block X (is_db s) (is_holders s) (ucast (be_height ev)) (be_block ev) of
        Inl _ \<Rightarrow> []
      | Inr (w, _) \<Rightarrow> (ucast (be_height ev), dw_processed w) #
          (case index_step X True False ev s of Inl _ \<Rightarrow> [] | Inr s' \<Rightarrow> writes_of X evs s'))"

lemma index_step_writes:
  assumes "index_step X True False ev s = Inr s'" and "keeps_log ev" and "be_reorg_len ev = 0"
  shows "\<exists>w h r. handle_block X (is_db s) (is_holders s) (ucast (be_height ev)) (be_block ev) = Inr (w, h)
    \<and> write_all (dw_processed w) (is_db s, Some (reorg_new_block (ucast (be_height ev)) (is_cache s)))
      = Some (is_db s', r) \<and> is_cache s' = (case r of Some r \<Rightarrow> r | None \<Rightarrow> reorg_new_block (ucast (be_height ev)) (is_cache s))
    \<and> is_prev_height s' = Some (be_height ev)"
proof -
  have "drop_log ev s = s" using assms(2) by (simp add: drop_log_def)
  with assms show ?thesis
    by (auto simp: index_step_def handle_def Let_def split: sum.splits prod.splits option.splits if_splits)
qed

lemma write_processed_log: "write_processed p (d, Some r) = Some (d', rc) \<Longrightarrow> \<exists>r'. rc = Some r'"
  by (cases p) (auto simp: log_ordinals_def log_tokens_def bind_eq_Some_conv Let_def split: if_splits)

lemma write_all_log: "write_all ps (d, Some r) = Some (d', rc) \<Longrightarrow> \<exists>r'. rc = Some r'"
proof (induction ps arbitrary: d r)
  case (Cons p ps)
  then obtain d1 rc1 where p: "write_processed p (d, Some r) = Some (d1, rc1)" "write_all ps (d1, rc1) = Some (d', rc)"
    by (auto simp: bind_eq_Some_conv)
  with write_processed_log [OF p(1)] Cons.IH show ?case by auto
qed auto

lemma index_loop_writes:
  assumes "index_loop X True evs s = (s', None)"
    and "\<And>ev. ev \<in> set evs \<Longrightarrow> keeps_log ev \<and> be_reorg_len ev = 0"
  shows "index_blocks (writes_of X evs s) (is_db s, is_cache s) = Some (is_db s', is_cache s')
    \<and> map fst (writes_of X evs s) = map (\<lambda>ev. ucast (be_height ev)) evs
    \<and> is_prev_height s' = (if evs = [] then is_prev_height s else Some (be_height (last evs)))"
  using assms
proof (induction evs arbitrary: s)
  case (Cons ev evs)
  then obtain s1 where s1: "index_step X True False ev s = Inr s1" "index_loop X True evs s1 = (s', None)"
    by (auto split: sum.splits)
  have ev: "keeps_log ev" "be_reorg_len ev = 0" using Cons.prems(2) by simp_all
  obtain w h r where w: "handle_block X (is_db s) (is_holders s) (ucast (be_height ev)) (be_block ev) = Inr (w, h)"
    and wr: "write_all (dw_processed w) (is_db s, Some (reorg_new_block (ucast (be_height ev)) (is_cache s)))
      = Some (is_db s1, r)"
    and r: "is_cache s1 = (case r of Some r \<Rightarrow> r | None \<Rightarrow> reorg_new_block (ucast (be_height ev)) (is_cache s))"
      "is_prev_height s1 = Some (be_height ev)"
    using index_step_writes [OF s1(1) ev] by blast
  obtain r1 where "r = Some r1" using write_all_log [OF wr] by blast
  moreover have "index_blocks (writes_of X evs s1) (is_db s1, is_cache s1) = Some (is_db s', is_cache s')
      \<and> map fst (writes_of X evs s1) = map (\<lambda>ev. ucast (be_height ev)) evs
      \<and> is_prev_height s' = (if evs = [] then is_prev_height s1 else Some (be_height (last evs)))"
    by (rule Cons.IH [OF s1(2)]) (use Cons.prems(2) in auto)
  ultimately show ?case using w wr r s1(1) by simp
qed simp

lemma chain_heights:
  assumes "state_ok X s" and "chain_ok X evs s" and "is_prev_height s = Some p"
  shows "list_all2 (\<lambda>ev i. unat (be_height ev) = unat p + 1 + i \<and> unat (be_height ev) < 2 ^ 32
      \<and> be_reorg_len ev = 0) evs [0 ..< length evs]"
  using assms
proof (induction evs arbitrary: s p)
  case (Cons ev evs)
  then have nb: "next_block X ev s" by simp
  obtain s1 where s1: "index_step X True False ev s = Inr s1" "state_ok X s1"
    "is_prev_height s1 = Some (be_height ev)"
    using index_step_safe [OF Cons.prems(1) nb, of False] by blast
  have h: "unat (be_height ev) = unat p + 1" "unat (be_height ev) < 2 ^ 32" "be_reorg_len ev = 0"
    using nb Cons.prems(3) by (simp_all add: next_block_def next_height_def)
  have "list_all2 (\<lambda>ev' i. unat (be_height ev') = unat (be_height ev) + 1 + i \<and> unat (be_height ev') < 2 ^ 32
      \<and> be_reorg_len ev' = 0) evs [0 ..< length evs]"
    by (rule Cons.IH [OF s1(2) _ s1(3)]) (use Cons.prems(2) s1(1) in simp)
  then have "list_all2 (\<lambda>ev i. unat (be_height ev) = unat p + 1 + i \<and> unat (be_height ev) < 2 ^ 32
      \<and> be_reorg_len ev = 0) evs (map Suc [0 ..< length evs])"
    by (simp add: list_all2_map2 h(1) list_all2_mono)
  with h show ?case by (simp add: upt_conv_Cons map_Suc_upt del: upt_Suc)
qed simp

text \<open>Rolling back the last blocks: the heights left in the log end where the chain continues.\<close>

lemma consecutive_sorted: "consecutive xs \<Longrightarrow> sorted_wrt (<) xs"
proof (induction xs rule: rev_induct)
  case (snoc x xs)
  have "y < x" if y: "y \<in> set xs" for y
  proof -
    from y have "xs \<noteq> []" by auto
    with snoc.prems consecutive_le_last [of xs y] y show ?thesis
      by (simp add: consecutive_append word_less_nat_alt)
  qed
  with snoc show ?case by (simp add: consecutive_append sorted_wrt_append)
qed simp

lemma consecutive_split:
  assumes "consecutive (lo @ hi)" and "lo \<noteq> []" and "hi \<noteq> []"
    and "\<And>k. k \<in> set lo \<Longrightarrow> unat k \<le> n" and "\<And>k. k \<in> set hi \<Longrightarrow> n < unat k"
  shows "unat (last lo) = n"
proof -
  have "unat (hd hi) = unat (last lo) + 1" using assms(1-3) by (simp add: consecutive_append)
  moreover have "unat (last lo) \<le> n" "n < unat (hd hi)" using assms(2-5) by simp_all
  ultimately show ?thesis by simp
qed

text \<open>The heights of a growing chain, as the words the log keeps.\<close>

lemma chain_height_words:
  assumes "state_ok X s" and "chain_ok X evs s" and "is_prev_height s = Some p" and i: "i < length evs"
  shows "unat (be_height (evs ! i)) = unat p + 1 + i" "be_reorg_len (evs ! i) = 0"
    "unat (ucast (be_height (evs ! i)) :: u32) = unat p + 1 + i"
proof -
  have h: "unat (be_height (evs ! i)) = unat p + 1 + i \<and> unat (be_height (evs ! i)) < 2 ^ 32 \<and> be_reorg_len (evs ! i) = 0"
    using list_all2_nthD [OF chain_heights [OF assms(1-3)] i] i by simp
  then show "unat (be_height (evs ! i)) = unat p + 1 + i" "be_reorg_len (evs ! i) = 0" by blast+
  show "unat (ucast (be_height (evs ! i)) :: u32) = unat p + 1 + i"
    using h ucast_u32_small [of "be_height (evs ! i)"] by metis
qed

lemma log_below:
  assumes "log_ok s" and "is_prev_height s = Some p" and kv: "(k, v) \<in> set (rc_blocks (is_cache s))"
  shows "k \<le> ucast p"
proof -
  have "rc_blocks (is_cache s) \<noteq> []" "k \<in> set (map fst (rc_blocks (is_cache s)))" using kv by force+
  then show ?thesis
    using consecutive_le_last [of "map fst (rc_blocks (is_cache s))" k] assms(1, 2)
    by (simp add: log_ok_def last_map word_le_nat_alt)
qed

text \<open>What is left of a log after the blocks above a height are taken off ends at that height.\<close>

lemma cut_log_tip:
  assumes "log_ok s" and "rc_blocks (is_cache s) = lo @ hi" and "lo \<noteq> []" "hi \<noteq> []"
    and p: "unat (ucast p :: u32) = unat p"
    and "\<And>x. x \<in> set lo \<Longrightarrow> unat (fst x) \<le> unat p" "\<And>x. x \<in> set hi \<Longrightarrow> unat p < unat (fst x)"
  shows "fst (last lo) = ucast (p :: u64)"
proof -
  have "unat (last (map fst lo)) = unat p"
    using assms by (intro consecutive_split [of "map fst lo" "map fst hi"]) (auto simp: log_ok_def)
  with p assms(3) show ?thesis by (simp add: last_map word_unat_eq_iff)
qed

lemma roll_back_exact:
  assumes s: "state_ok X s" and chain: "chain_ok X evs s" and prev: "is_prev_height s = Some p"
    and logged: "\<And>e. e \<in> set evs \<Longrightarrow> keeps_log e"
    and fresh: "fresh_blocks (writes_of X evs s) (is_db s)"
    and few: "evs \<noteq> []" "length evs \<le> rc_len (is_cache s)"
    and ev: "keeps_log ev" "unat (be_reorg_len ev) = length evs" "unat (be_height ev) = unat p + 1"
  shows "\<exists>s1. index_loop X True evs s = (s1, None)
    \<and> core (is_db (roll_back ev (drop_log ev s1))) = core (is_db s)
    \<and> (let bs = rc_blocks (is_cache (roll_back ev (drop_log ev s1)))
       in bs = [] \<or> fst (last bs) + 1 = ucast (be_height ev))"
proof -
  obtain s1 where s1: "index_loop X True evs s = (s1, None)" "state_ok X s1"
    using index_loop_safe [OF s chain] by blast
  note hts = chain_height_words [OF s chain prev]
  have "keeps_log e \<and> be_reorg_len e = 0" if e: "e \<in> set evs" for e
  proof -
    obtain i where "i < length evs" "evs ! i = e" using e by (meson in_set_conv_nth)
    with hts logged e show ?thesis by blast
  qed
  note W = index_loop_writes [OF s1(1) this]
  define hs where "hs = map (\<lambda>e. ucast (be_height e) :: u32) evs"
  have hs: "unat (hs ! i) = unat p + 1 + i" if "i < length hs" for i
    using that hts(3) by (simp add: hs_def)
  have p32: "unat (ucast p :: u32) = unat p" "unat p + 1 < 2 ^ 32"
    using hts(3) [of 0] few(1) unat_u32_less [of "ucast (be_height (evs ! 0))"]
    by (simp_all add: ucast_u32_small)
  have log: "log_ok s" "log_ok s1" using s s1(2) by (simp_all add: state_ok_def)
  have new: "ucast p < h" if "h \<in> set (map fst (writes_of X evs s))" for h
  proof -
    from that W obtain i where "i < length hs" "h = hs ! i" by (metis hs_def in_set_conv_nth)
    with hs p32 show ?thesis by (simp add: word_less_nat_alt)
  qed
  have "sorted_wrt (<) (map fst (writes_of X evs s))"
    using W hs by (simp add: hs_def [symmetric] sorted_wrt_iff_nth_less word_less_nat_alt)
  moreover have "length (writes_of X evs s) = length evs" using W by (metis length_map)
  ultimately have "\<exists>lo hi d. rc_blocks (is_cache s1) = lo @ hi
      \<and> (\<forall>(k, v)\<in>set lo. k \<le> ucast p) \<and> (\<forall>(k, v)\<in>set hi. ucast p < k)
      \<and> reorg_restore (ucast p) (is_cache s1, is_db s1) = ((is_cache s1)\<lparr> rc_blocks := lo \<rparr>, d)
      \<and> core d = core (is_db s)"
    by (intro restore_indexed [OF conjunct1 [OF W] fresh] new log_below [OF log(1) prev])
      (use log(1) few(2) in \<open>simp_all add: log_ok_def\<close>)
  then obtain lo hi d where lohi: "rc_blocks (is_cache s1) = lo @ hi"
      "\<forall>(k, v)\<in>set lo. k \<le> ucast p" "\<forall>(k, v)\<in>set hi. ucast p < k"
    and res: "reorg_restore (ucast p) (is_cache s1, is_db s1) = ((is_cache s1)\<lparr> rc_blocks := lo \<rparr>, d)"
      "core d = core (is_db s)"
    by (elim exE conjE) (rule that)
  have last: "unat (be_height (last evs)) = unat p + length evs"
    using hts(1) [of "length evs - 1"] few(1) by (simp add: last_conv_nth)
  have "sat_sub (be_height (last evs)) (be_reorg_len ev) = p"
    using last ev(2) by (simp add: sat_sub_def word_less_nat_alt word_unat_eq_iff unat_diff_le)
  then have rb: "roll_back ev (drop_log ev s1) = s1\<lparr> is_db := d, is_cache := (is_cache s1)\<lparr> rc_blocks := lo \<rparr>,
      is_events := is_events s1 @ [SeReorg (ucast (be_reorg_len ev)) (ucast (be_height ev))] \<rparr>"
    using ev few(1) W res(1) by (simp add: roll_back_def drop_log_def word_less_nat_alt)
  have below: "x \<in> set lo \<Longrightarrow> unat (fst x) \<le> unat p" "x \<in> set hi \<Longrightarrow> unat p < unat (fst x)" for x
    using lohi(2, 3) p32(1) by (auto simp: word_le_nat_alt word_less_nat_alt)
  have "fst (last lo) + 1 = ucast (be_height ev)" if "lo \<noteq> []"
  proof -
    have tip: "rc_blocks (is_cache s1) \<noteq> []" "fst (last (rc_blocks (is_cache s1))) = ucast (be_height (last evs))"
      using log(2) that lohi(1) W few(1) by (auto simp: log_ok_def)
    have "unat (ucast (be_height (last evs)) :: u32) = unat p + length evs"
      using hts(3) [of "length evs - 1"] few(1) by (simp add: last_conv_nth)
    moreover have "unat (fst (last lo)) \<le> unat p" using below(1) [of "last lo"] that by simp
    ultimately have "hi \<noteq> []" using tip(2) lohi(1) few(1) by auto
    then have l: "fst (last lo) = ucast p"
      using cut_log_tip [OF log(2) lohi(1) that _ p32(1)] below by blast
    have "unat (ucast p + 1 :: u32) = unat p + 1"
      using p32 by (subst unat_word_ariths) simp
    moreover have "unat (ucast (be_height ev) :: u32) = unat p + 1"
      using ev(3) p32(2) ucast_u32_small [of "be_height ev"] by metis
    ultimately show ?thesis unfolding l by (simp add: word_unat_eq_iff)
  qed
  with rb res(2) s1(1) show ?thesis by (auto simp: Let_def)
qed

end
