(* ===== verification/TrackProps.thy ===== *)
theory TrackProps
  imports ParserInv
begin

text \<open>
  The properties of the tracking of inscriptions: where a satoshi goes, what the miner gets, and
  that parsing a block neither panics nor loses its places.
\<close>

section \<open>Where the satoshis go\<close>

text \<open>C9.  A satoshi at an offset below the value of an input keeps its position among the satoshis of
  the transaction.  When the position is inside the outputs, the search started at the offset that
  \<open>calc_offsets\<close> gives for the input finds the output that covers it and the place in it; otherwise
  the search fails, and \<open>find_fee\<close> gives the fee and the place of the satoshi in the fee.\<close>

theorem satoshi_position:
  assumes ins: "input_values prevouts (etx_inputs tx) = Some vs" and small: "total vs < 2 ^ 64"
    and fee: "total (out_values (etx_outputs tx)) \<le> total vs" and few: "length (etx_outputs tx) \<le> 2 ^ 32"
    and i: "i < length vs" and off: "off < vs ! i"
  shows "\<exists>cum. calc_offsets tx prevouts = Some cum
    \<and> (let outs = out_values (etx_outputs tx); pos = start_of vs i + unat off;
           found = get_output_index_by_input (map_option (\<lambda>x. x + off) (nth_option cum i)) (etx_outputs tx)
       in if pos < total outs
          then \<exists>j o'. found = Inr (word_of_nat j, o') \<and> j < length outs \<and> o' < outs ! j
            \<and> start_of outs j + unat o' = pos
          else (\<exists>e. found = Inl e) \<and> (\<exists>f p. find_fee tx i off prevouts = Some (f, p)
            \<and> unat f = total vs - total outs \<and> unat p = pos - total outs \<and> p < f))"
proof -
  let ?outs = "out_values (etx_outputs tx)" and ?pos = "start_of vs i + unat off"
  obtain cum where cum: "calc_offsets tx prevouts = Some cum" "length cum \<le> length vs"
    "\<forall>i < length vs. i < length cum \<longleftrightarrow> start_of vs i < total ?outs"
    "\<forall>i < length cum. unat (cum ! i) = start_of vs i"
    using calc_offsets_spec [OF ins small fee] by blast
  have le: "?pos < total vs"
    using start_of_less [OF i] off by (simp add: word_less_nat_alt)
  have outs: "total ?outs < 2 ^ 64" using fee small by simp
  let ?found = "get_output_index_by_input (map_option (\<lambda>x. x + off) (nth_option cum i)) (etx_outputs tx)"
  have start: "unat (cum ! i + off) = ?pos" if "i < length cum"
    using that cum(4) le small by (subst unat_add_less) auto
  show ?thesis
  proof (cases "?pos < total ?outs")
    case True
    then have len: "i < length cum" using cum(3) i by auto
    have "length ?outs \<le> 2 ^ 32" using few by simp
    then obtain j o' where "find_output 0 (cum ! i + off) ?outs = Some (word_of_nat j, o')" "j < length ?outs"
      "start_of ?outs j + unat o' = ?pos" "o' < ?outs ! j"
      using find_output_spec [of "cum ! i + off" ?outs 0] True start [OF len] by auto
    moreover from this have "?found = Inr (word_of_nat j, o')"
      using get_output_spec [OF outs few, of "cum ! i + off"] True start [OF len] len
      by (simp add: nth_option_def)
    ultimately show ?thesis using cum(1) True by (auto simp: Let_def)
  next
    case False
    have "\<exists>e. ?found = Inl e"
    proof (cases "i < length cum")
      case True
      then show ?thesis
        using get_output_spec [OF outs few, of "cum ! i + off"] False start by (simp add: nth_option_def)
    qed (simp add: nth_option_def get_output_index_by_input_def)
    then show ?thesis
      using cum(1) False find_fee_spec [OF ins i small _ off] by (auto simp: Let_def)
  qed
qed

text \<open>A transaction that spends two outputs of 10 and 5 into outputs of 8 and 4.\<close>

definition example_vu :: var_uint where
  "example_vu = \<lparr> vu_value = 0, vu_buf = [0] \<rparr>"

definition example_in :: "u8 \<Rightarrow> tx_input" where
  "example_in b = \<lparr> tin_outpoint = \<lparr> op_txid = replicate 32 b, op_vout = 0 \<rparr>, tin_script_len = example_vu,
     tin_script_sig = [], tin_seq_no = 0, tin_witness = [] \<rparr>"

definition example_out :: "u64 \<Rightarrow> evaluated_tx_out" where
  "example_out v = \<lparr> eo_address = None,
     eo_out = \<lparr> tout_value = v, tout_script_len = example_vu, tout_script_pubkey = [1] \<rparr> \<rparr>"

definition example_payment :: evaluated_tx where
  "example_payment = \<lparr> etx_version = 1, etx_in_count = example_vu, etx_inputs = [example_in 1, example_in 2],
     etx_out_count = example_vu, etx_outputs = [example_out 8, example_out 4], etx_locktime = 0 \<rparr>"

definition example_prevouts :: "outpoint \<rightharpoonup> tx_prevout" where
  "example_prevouts = [tin_outpoint (example_in 1) \<mapsto> \<lparr> pv_script_hash = replicate 32 7, pv_value = 10 \<rparr>,
     tin_outpoint (example_in 2) \<mapsto> \<lparr> pv_script_hash = replicate 32 8, pv_value = 5 \<rparr>]"

lemma example_values: "input_values example_prevouts (etx_inputs example_payment) = Some [10, 5]"
  by (simp add: input_values_def example_payment_def example_prevouts_def example_in_def numeral_eq_Suc)

lemma example_outs: "out_values (etx_outputs example_payment) = [8, 4]"
  by (simp add: out_values_def example_payment_def example_out_def)

theorem satoshi_position_witness:
  "\<exists>cum. calc_offsets example_payment example_prevouts = Some cum
    \<and> (\<exists>j. get_output_index_by_input (map_option (\<lambda>x. x + 9) (nth_option cum 0)) (etx_outputs example_payment)
        = Inr (word_of_nat j, 1) \<and> start_of [8, 4] j + 1 = 9)"
proof -
  have "total [10, 5] < 2 ^ 64" "total (out_values (etx_outputs example_payment)) \<le> total [10, 5]"
    "length (etx_outputs example_payment) \<le> 2 ^ 32" "(0 :: nat) < length [10, 5 :: u64]" "(9 :: u64) < [10, 5] ! 0"
    by (simp_all add: example_outs) (simp add: example_payment_def)
  note p = satoshi_position [OF example_values this]
  have two: "j = 0 \<or> j = 1" if "j < 2" for j :: nat using that by auto
  from p obtain cum j o' where c: "calc_offsets example_payment example_prevouts = Some cum"
    and f: "get_output_index_by_input (map_option (\<lambda>x. x + 9) (nth_option cum 0)) (etx_outputs example_payment)
        = Inr (word_of_nat j, o')"
    and j: "j < 2" "o' < [8, 4] ! j" "start_of [8, 4] j + unat o' = 9"
    by (auto simp: Let_def example_outs start_of_def)
  have "j = 1" using two [OF j(1)] j by (auto simp: start_of_def word_less_nat_alt)
  with j have "unat o' = unat (1 :: u64)" by (simp add: start_of_def)
  then have "o' = 1" by (simp only: word_unat_eq_iff)
  with c f j show ?thesis by auto
qed

text \<open>C10.  A satoshi that a transaction leaves to the miner is filed under the fees of the transactions
  before it plus its place in the fee, and when the block ends, with all fees \<open>F\<close> counted, the search
  in the coinbase transaction finds the output that covers the position that comes this far after
  the block reward (the coinbase outputs less all fees).\<close>

theorem fee_satoshi_position:
  assumes ins: "input_values prevouts (etx_inputs tx) = Some vs" and small: "total vs < 2 ^ 64"
    and fee: "total (out_values (etx_outputs tx)) \<le> start_of vs i + unat off"
    and i: "i < length vs" "off < vs ! i"
    and room: "unat (lk_total_amount lk) + (total vs - total (out_values (etx_outputs tx))) < 2 ^ 64"
    and final: "lk_coinbase_tx lk' = lk_coinbase_tx lk"
      "unat (lk_total_amount lk) + (total vs - total (out_values (etx_outputs tx))) \<le> unat (lk_total_amount lk')"
    and reward: "outs = out_values (etx_outputs (hd_value (lk_coinbase_tx lk)))"
      "unat (lk_total_amount lk') \<le> total outs" "total outs < 2 ^ 64" "length outs \<le> 2 ^ 32"
  shows "\<exists>lk1 lk2 k. add_tx_fee tx prevouts lk = Some lk1
    \<and> leaked_add i tx off prevouts kind lk1 = Some lk2
    \<and> lk_inscriptions lk2 = leak_at k kind (lk_inscriptions lk)
    \<and> unat k = unat (lk_total_amount lk) + (start_of vs i + unat off - total (out_values (etx_outputs tx)))
    \<and> (\<exists>j o'. find_inscription_vout (update_reward lk') k = Some (word_of_nat j, o')
        \<and> j < length outs \<and> o' < outs ! j
        \<and> start_of outs j + unat o' = total outs - unat (lk_total_amount lk') + unat k)"
proof -
  let ?O = "total (out_values (etx_outputs tx))" and ?F = "lk_total_amount lk"
  let ?fee = "sum_list vs - sum_list (out_values (etx_outputs tx))"
  have le: "start_of vs i + unat off < total vs"
    using start_of_less [OF i(1)] i(2) by (simp add: word_less_nat_alt)
  obtain f p where fp: "find_fee tx i off prevouts = Some (f, p)" "unat f = total vs - ?O"
    "unat p = start_of vs i + unat off - ?O" "p < f"
    using find_fee_spec [OF ins i(1) small fee i(2)] by blast
  have "unat ?fee = total vs - ?O"
    using le fee small by (simp add: unat_diff_le unat_sum_list)
  then have "?fee = f" using fp(2) by (simp only: word_unat_eq_iff)
  define lk1 where "lk1 = lk\<lparr> lk_total_amount := ?F + f \<rparr>"
  define k where "k = ?F + f - (f - p)"
  have "unat (f - p) = unat f - unat p" using fp(4) by (simp add: unat_diff_le word_less_nat_alt)
  moreover have "unat (?F + f) = unat ?F + unat f" using room fp(2) by (simp add: unat_add_less)
  ultimately have k: "unat k = unat ?F + unat p"
    using fp(4) unfolding k_def by (subst unat_diff_le) (auto simp: word_less_nat_alt)
  have "add_tx_fee tx prevouts lk = Some lk1"
    using ins \<open>?fee = f\<close> by (simp add: add_tx_fee_def lk1_def)
  moreover have "leaked_add i tx off prevouts kind lk1
      = Some (lk1\<lparr> lk_inscriptions := leak_at k kind (lk_inscriptions lk) \<rparr>)"
    using fp(1) by (simp add: leaked_add_def lk1_def k_def)
  moreover have "\<exists>j o'. find_inscription_vout (update_reward lk') k = Some (word_of_nat j, o')
      \<and> j < length outs \<and> o' < outs ! j
      \<and> start_of outs j + unat o' = total outs - unat (lk_total_amount lk') + unat k"
  proof -
    let ?r = "sum_list outs - lk_total_amount lk'"
    have r: "unat ?r = total outs - unat (lk_total_amount lk')"
      using reward by (simp add: unat_diff_le unat_sum_list)
    have lt: "unat k < unat (lk_total_amount lk')"
      using k fp final(2) le fee by (simp add: word_less_nat_alt)
    then have "unat (k + ?r) = unat k + unat ?r"
      using r reward by (intro unat_add_less) simp
    then have pos: "unat (k + ?r) = total outs - unat (lk_total_amount lk') + unat k" using r by simp
    have "unat (k + ?r) < total outs" using pos lt reward(2) by simp
    then obtain j o' where j: "find_output 0 (k + ?r) outs = Some (word_of_nat j, o')" "j < length outs"
      "start_of outs j + unat o' = unat (k + ?r)" "o' < outs ! j"
      using find_output_spec [of "k + ?r" outs 0] reward(4) by auto
    have "find_inscription_vout (update_reward lk') k = find_output 0 (k + ?r) outs"
      by (simp add: find_inscription_vout_def update_reward_def final(1) reward(1))
    with j pos show ?thesis by metis
  qed
  ultimately show ?thesis
    using k fp(3) by (intro exI [of _ lk1] exI [of _ "lk1\<lparr> lk_inscriptions := leak_at k kind (lk_inscriptions lk) \<rparr>"]
        exI [of _ k]) auto
qed

text \<open>The coinbase of the block of \<open>example_payment\<close> pays a reward of 50 and its fee of 3.\<close>

definition example_coinbase :: "evaluated_tx hashed" where
  "example_coinbase = \<lparr> hd_hash = replicate 32 20,
     hd_value = example_payment\<lparr> etx_inputs := [], etx_outputs := [example_out 40, example_out 13] \<rparr> \<rparr>"

definition example_leaked :: leaked where
  "example_leaked = (leaked_new example_coinbase)\<lparr> lk_total_amount := 3 \<rparr>"

theorem fee_satoshi_position_witness:
  "\<exists>lk1 lk2 k. add_tx_fee example_payment example_prevouts (leaked_new example_coinbase) = Some lk1
    \<and> leaked_add 1 example_payment 4 example_prevouts LeakedMove lk1 = Some lk2
    \<and> lk_inscriptions lk2 = leak_at k LeakedMove []
    \<and> unat k = 2
    \<and> (\<exists>j o'. find_inscription_vout (update_reward example_leaked) k = Some (word_of_nat j, o')
        \<and> start_of [40, 13] j + unat o' = 52)"
proof -
  have outs: "out_values (etx_outputs (hd_value (lk_coinbase_tx (leaked_new example_coinbase)))) = [40, 13]"
    by (simp add: leaked_new_def example_coinbase_def out_values_def example_out_def)
  have "total [10, 5] < 2 ^ 64"
    "total (out_values (etx_outputs example_payment)) \<le> start_of [10, 5] 1 + unat (4 :: u64)"
    "1 < length [10, 5 :: u64]" "(4 :: u64) < [10, 5] ! 1"
    "unat (lk_total_amount (leaked_new example_coinbase))
      + (total [10, 5] - total (out_values (etx_outputs example_payment))) < 2 ^ 64"
    "lk_coinbase_tx example_leaked = lk_coinbase_tx (leaked_new example_coinbase)"
    "unat (lk_total_amount (leaked_new example_coinbase))
      + (total [10, 5] - total (out_values (etx_outputs example_payment))) \<le> unat (lk_total_amount example_leaked)"
    "unat (lk_total_amount example_leaked) \<le> total [40, 13]" "total [40, 13] < 2 ^ 64"
    "length [40, 13 :: u64] \<le> 2 ^ 32"
    by (simp_all add: example_outs example_leaked_def leaked_new_def start_of_def)
  note q = fee_satoshi_position [OF example_values this(1-7) outs [symmetric] this(8-10), of LeakedMove]
  have n: "unat (lk_total_amount (leaked_new example_coinbase))
      + (start_of [10, 5] 1 + unat (4 :: u64) - total (out_values (etx_outputs example_payment))) = 2"
    "total [40, 13] - unat (lk_total_amount example_leaked) = 50"
    "lk_inscriptions (leaked_new example_coinbase) = []"
    by (simp_all add: example_outs example_leaked_def leaked_new_def start_of_def)
  from q [unfolded n] obtain lk1 lk2 k j o' where
    "add_tx_fee example_payment example_prevouts (leaked_new example_coinbase) = Some lk1"
    "leaked_add 1 example_payment 4 example_prevouts LeakedMove lk1 = Some lk2"
    "lk_inscriptions lk2 = leak_at k LeakedMove []" "unat k = 2"
    "find_inscription_vout (update_reward example_leaked) k = Some (word_of_nat j, o')"
    "start_of [40, 13] j + unat o' = 50 + unat k" by blast
  then show ?thesis by (intro exI conjI) simp_all
qed

end
