(* ===== verification/IndexProps.thy ===== *)
theory IndexProps
  imports IndexLoop TrackProps ReorgProps
begin

text \<open>
  The properties of the block indexer and of the events it feeds, with a chain of one block as
  witness.
\<close>

section \<open>Witness data\<close>

definition example_script_ops :: script_ops where
  "example_script_ops = \<lparr> so_sha256 = (\<lambda>bs. take 32 (bs @ replicate 32 0)), so_is_op_return = (\<lambda>_. False),
     so_unspendable = (\<lambda>_. False), so_tapscript = (\<lambda>_. None), so_instructions = (\<lambda>_. []),
     so_walk = sorted_list_of_set \<rparr>"

definition example_json :: json_ops where
  "example_json = \<lparr> js_normalize = (\<lambda>_. None), js_brc4 = (\<lambda>_. Inl ''none'') \<rparr>"

definition example_parser :: parser_env where
  "example_parser = \<lparr> pe_env = example_env\<lparr> e_chain := Dogecoin \<rparr>, pe_network = NetTestnet,
     pe_json = example_json, pe_script = example_script_ops \<rparr>"

definition example_index_env :: index_env where
  "example_index_env = \<lparr> ie_parser = example_parser, ie_json = (\<lambda>_. Some []) \<rparr>"

definition example_cb :: "evaluated_tx hashed" where
  "example_cb = \<lparr> hd_hash = replicate 32 20, hd_value = example_payment\<lparr>
     etx_in_count := \<lparr> vu_value = 1, vu_buf = [1] \<rparr>,
     etx_inputs := [(example_in 0)\<lparr> tin_outpoint := \<lparr> op_txid = replicate 32 0, op_vout = - 1 \<rparr> \<rparr>],
     etx_outputs := [example_out 40, example_out 13] \<rparr> \<rparr>"

definition example_spending :: "evaluated_tx hashed" where
  "example_spending = \<lparr> hd_hash = replicate 32 21, hd_value = example_payment \<rparr>"

definition example_chain_block :: "evaluated_tx hashed list \<Rightarrow> block" where
  "example_chain_block txs = \<lparr> blk_size = 0, blk_header = \<lparr> hd_hash = replicate 32 30,
     hd_value = \<lparr> bh_version = 1, bh_prev_hash = replicate 32 29, bh_merkle_root = [], bh_timestamp = 0,
       bh_bits = 0, bh_nonce = 0 \<rparr> \<rparr>, blk_aux_pow = None, blk_tx_count = example_vu, blk_txs = txs \<rparr>"

definition example_event :: "u64 \<Rightarrow> evaluated_tx hashed list \<Rightarrow> block_event" where
  "example_event height txs = \<lparr> be_height = height, be_hash = replicate 32 30,
     be_block = example_chain_block txs, be_reorg_len = 0, be_tip = height \<rparr>"

definition example_state :: "u64 \<Rightarrow> index_state" where
  "example_state prev = \<lparr> is_db = db_empty\<lparr> db_prevouts := example_prevouts \<rparr>, is_holders = holders_empty,
     is_cache = reorg_cache_new, is_prev_height = Some prev, is_events = [], is_raw_events = [] \<rparr>"

lemma example_state_ok: "state_ok example_index_env (example_state prev)"
proof -
  have "transfers_rel Map.empty Map.empty" "owners_ok Map.empty example_prevouts"
    by (simp_all add: transfers_rel_def owners_ok_def)
  then show ?thesis
    using ledger_ok_empty
    by (auto simp: state_ok_def db_ok_def log_ok_def example_state_def db_ledger_def db_empty_def
        reorg_cache_new_def reorg_cache_max_len_def)
qed

lemma example_cb_coinbase:
  "is_coinbase (hd_value example_cb) = Some True" "is_coinbase (hd_value example_spending) = Some False"
  by (simp_all add: is_coinbase_def example_cb_def example_spending_def example_payment_def example_in_def
      example_vu_def)

lemma example_env_ok:
  "index_env_ok example_index_env d height b"
  by (simp add: index_env_ok_def single_transfers_def guarded_def example_index_env_def example_parser_def never_jubilee_dogecoin
      fixed_json_def example_json_def)

lemma example_blocks_valid:
  "valid_block (ie_parser example_index_env) (is_db (example_state prev)) (example_chain_block [example_cb])"
  "valid_block (ie_parser example_index_env) (is_db (example_state prev)) (example_chain_block [example_cb, example_spending])"
proof -
  have few: "few_outputs example_cb" "few_outputs example_spending" "no_self_spend example_spending"
    by (simp_all add: few_outputs_def no_self_spend_def example_cb_def example_spending_def example_payment_def
        example_in_def)
  have sp: "spending (example_chain_block [example_cb]) = []"
    "spending (example_chain_block [example_cb, example_spending]) = [example_spending]"
    by (simp_all add: spending_def example_chain_block_def example_cb_coinbase)
  have known: "\<exists>v. resolved example_prevouts own (tin_outpoint i) = Some v"
    if "i \<in> set (etx_inputs (hd_value example_spending))" for i own
    using that by (auto simp: example_spending_def example_payment_def example_prevouts_def resolved_def)
  have txids: "op_txid k \<notin> {replicate 32 20, replicate 32 21}" if "example_prevouts k = Some v" for k v
    using that by (auto simp: example_prevouts_def example_in_def split: if_splits)
  have hashes: "hd_hash example_cb = replicate 32 20" "hd_hash example_spending = replicate 32 21"
    "replicate 32 (20 :: u8) \<noteq> replicate 32 21"
    by (simp_all add: example_cb_def example_spending_def)
  show "valid_block (ie_parser example_index_env) (is_db (example_state prev)) (example_chain_block [example_cb])"
    unfolding valid_block_def sp
    using few example_cb_coinbase hashes txids
    by (auto simp: example_chain_block_def example_state_def db_empty_def)
  show "valid_block (ie_parser example_index_env) (is_db (example_state prev)) (example_chain_block [example_cb, example_spending])"
    unfolding valid_block_def sp
    using few example_cb_coinbase hashes txids known
    by (auto simp: example_chain_block_def example_state_def db_empty_def)
qed

section \<open>Properties\<close>

lemma example_chain:
  assumes "be_block ev = example_chain_block [example_cb] \<or> be_block ev = example_chain_block [example_cb, example_spending]"
    and "be_reorg_len ev = 0" "unat (be_height ev) = unat prev + 1" "unat (be_height ev) < 2 ^ 32"
  shows "chain_ok example_index_env [ev] (example_state prev)"
proof -
  have v: "block_value (example_chain_block [example_cb]) = 53"
    "block_value (example_chain_block [example_cb, example_spending]) = 65"
    by (simp_all add: block_value_def example_chain_block_def example_cb_def example_spending_def
        example_payment_def example_out_def out_values_def)
  have "card (dom (db_transfers (is_db (example_state prev)))) = 0"
    by (simp add: example_state_def db_empty_def)
  with assms v example_blocks_valid have "next_block example_index_env ev (example_state prev)"
    by (auto simp: next_block_def next_height_def example_env_ok) (simp_all add: example_state_def)
  then show ?thesis by (simp split: sum.splits)
qed

text \<open>C6.  A reorganisation: after blocks were indexed with the undo log on and the chain follower
  reports that it dropped all of them, rolling back gives the tokens, balances, transfers, history,
  partial inscriptions and offsets of the database before the first of them, and the next block,
  one above the block the chain forked from, passes the height check of the log.\<close>

theorem reorg_resumes:
  assumes "state_ok X s" and "chain_ok X evs s" and "is_prev_height s = Some p"
    and "\<And>e. e \<in> set evs \<Longrightarrow> keeps_log e" and "fresh_blocks (writes_of X evs s) (is_db s)"
    and "evs \<noteq> []" and "length evs \<le> rc_len (is_cache s)"
    and "keeps_log ev" and "unat (be_reorg_len ev) = length evs" and "unat (be_height ev) = unat p + 1"
  shows "\<exists>s1. index_loop X True evs s = (s1, None)
    \<and> core (is_db (roll_back ev (drop_log ev s1))) = core (is_db s)
    \<and> (let bs = rc_blocks (is_cache (roll_back ev (drop_log ev s1)))
       in bs = [] \<or> fst (last bs) + 1 = ucast (be_height ev))"
  using roll_back_exact [OF assms] .

lemma example_writes_fresh:
  "fresh_blocks (writes_of example_index_env [example_event 100 [example_cb]] (example_state 99))
     (is_db (example_state 99))"
proof -
  let ?b = "example_chain_block [example_cb]" and ?d = "is_db (example_state 99)"
  obtain prevouts ks where pre: "process_prevouts example_parser ?d ?b = Inr (prevouts, PdPrevouts (block_outputs example_parser ?b) ks)"
    using process_prevouts_total [OF example_blocks_valid(1) [of 99]] by (auto simp: example_index_env_def)
  have "handle_block example_index_env ?d (is_holders (example_state 99)) 100 ?b = Inr (\<lparr> dw_processed =
      [PdPrevouts (block_outputs example_parser ?b) ks, PdFullHash (block_addresses example_parser ?b)],
      dw_block_events = [], dw_history = [] \<rparr>, is_holders (example_state 99))"
    using pre by (simp add: handle_block_def Let_def example_index_env_def) (simp add: example_parser_def)
  moreover have "dom (block_outputs example_parser ?b) \<inter> dom (db_prevouts ?d) = {}"
  proof (rule ccontr)
    assume "\<not> ?thesis"
    then obtain k v w where "block_outputs example_parser ?b k = Some v" "example_prevouts k = Some w"
      by (auto simp: example_state_def)
    moreover from this block_outputs_mem [OF this(1)] valid_blockD(1) [OF example_blocks_valid(1)]
    have "op_txid k = replicate 32 20" by (auto simp: example_chain_block_def example_cb_def)
    ultimately show False
      by (auto simp: example_prevouts_def example_in_def split: if_splits)
  qed
  ultimately show ?thesis
    by (simp add: example_event_def split: sum.splits)
qed

theorem reorg_resumes_witness:
  "\<exists>s1. index_loop example_index_env True [example_event 100 [example_cb]] (example_state 99) = (s1, None)
    \<and> core (is_db (roll_back (example_event 100 []\<lparr> be_reorg_len := 1 \<rparr>)
        (drop_log (example_event 100 []\<lparr> be_reorg_len := 1 \<rparr>) s1))) = core (is_db (example_state 99))"
proof -
  have c: "chain_ok example_index_env [example_event 100 [example_cb]] (example_state 99)"
    by (rule example_chain) (simp_all add: example_event_def)
  have k: "keeps_log (example_event 100 [example_cb])" "keeps_log (example_event 100 []\<lparr> be_reorg_len := 1 \<rparr>)"
    "is_prev_height (example_state 99) = Some 99" "length [example_event 100 [example_cb]] \<le> rc_len (is_cache (example_state 99))"
    "unat (be_reorg_len (example_event 100 []\<lparr> be_reorg_len := 1 \<rparr>)) = length [example_event 100 [example_cb]]"
    "unat (be_height (example_event 100 []\<lparr> be_reorg_len := 1 \<rparr>)) = unat (99 :: u64) + 1"
    by (simp_all add: keeps_log_def example_event_def example_state_def reorg_cache_new_def reorg_cache_max_len_def)
  show ?thesis
    using reorg_resumes [OF example_state_ok c k(3) _ example_writes_fresh _ k(4) k(2) k(5) k(6)] k(1)
    by auto
qed

text \<open>The history of a block: every action has one entry, or two when it moves tokens between two
  owners; the ids of the entries are the ones after the last id of the database, each used once; the
  last of them becomes the new last id; and every entry carries the height of the block.\<close>

lemma history_ids_consecutive:
  assumes "unat n + 2 * length as < 2 ^ 64"
  shows "\<exists>m es. block_history height as n = Some (m, es)
    \<and> length as \<le> length es \<and> length es \<le> 2 * length as
    \<and> mset (map (unat \<circ> ati_id \<circ> fst) es) = mset [unat n + 1 ..< unat n + 1 + length es]
    \<and> unat m = unat n + length es \<and> (\<forall>(k, v) \<in> set es. hv_height v = height)"
proof -
  obtain m es where h: "block_history height as n = Some (m, es)" using block_history_total by blast
  note l = block_history_length [OF h]
  have "unat n + length es < 2 ^ 64" using assms l by simp
  from block_history_ids [OF h this] h l show ?thesis by blast
qed

text \<open>C12.  The outputs a block spends: resolving them fails only for an output that neither the table
  nor the block itself has, and names it; otherwise exactly the spent outputs are resolved, each from
  the table or, where it is not there, from the block, and they are the ones to remove.\<close>

theorem prevouts_resolved:
  assumes "\<forall>tx \<in> set (blk_txs b). is_coinbase (hd_value tx) \<noteq> None"
  shows "\<exists>ks. set ks = (\<Union>tx \<in> set (spending b). tin_outpoint ` set (etx_inputs (hd_value tx))) \<and> distinct ks
    \<and> (case process_prevouts P d b of
         Inr (r, pd) \<Rightarrow> pd = PdPrevouts (block_outputs P b) ks
           \<and> r = (\<lambda>k. if k \<in> set ks then resolved (db_prevouts d) (block_outputs P b) k else None)
           \<and> dom r = set ks
       | Inl e \<Rightarrow> \<exists>k. k \<in> set ks \<and> e = IeMissingPrevout k
           \<and> db_prevouts d k = None \<and> block_outputs P b k = None)"
proof -
  have "\<exists>ks. spent_outpoints b = Some ks \<and> distinct ks
      \<and> set ks = (\<Union>tx \<in> set (spending b). tin_outpoint ` set (etx_inputs (hd_value tx)))"
    by (rule spent_outpoints_set) (rule assms [rule_format])
  then obtain ks where ks: "spent_outpoints b = Some ks" "distinct ks"
    "set ks = (\<Union>tx \<in> set (spending b). tin_outpoint ` set (etx_inputs (hd_value tx)))"
    by (elim exE conjE) (rule that)
  let ?own = "block_outputs P b"
  let ?fill = "fill_prevouts (db_prevouts d) ?own ks Map.empty"
  let ?r = "\<lambda>k. if k \<in> set ks then resolved (db_prevouts d) ?own k else None"
  have p: "process_prevouts P d b = Sum_Type.map_sum id (\<lambda>r. (r, PdPrevouts ?own ks)) ?fill"
    by (simp add: process_prevouts_def ks(1))
  have "case process_prevouts P d b of
         Inr (r, pd) \<Rightarrow> pd = PdPrevouts ?own ks \<and> r = ?r \<and> dom r = set ks
       | Inl e \<Rightarrow> \<exists>k. k \<in> set ks \<and> e = IeMissingPrevout k \<and> db_prevouts d k = None \<and> ?own k = None"
  proof (cases ?fill)
    case (Inl e)
    with fill_prevouts_missing [OF Inl] show ?thesis
      by (auto simp: p resolved_def split: option.splits)
  next
    case (Inr r)
    note known = fill_prevouts_Inr [OF Inr]
    have "r = ?r" using fill_prevouts_total [of ks "db_prevouts d" ?own Map.empty] known Inr by simp
    moreover have "dom ?r = set ks" using known by (auto simp: dom_def)
    ultimately show ?thesis by (simp add: p Inr)
  qed
  with ks(2, 3) show ?thesis by blast
qed

theorem prevouts_resolved_witness:
  "\<exists>ks. distinct ks
    \<and> (case process_prevouts example_parser db_empty (example_chain_block [example_cb, example_spending]) of
         Inr (r, pd) \<Rightarrow> dom r = set ks
       | Inl e \<Rightarrow> \<exists>k. k \<in> set ks \<and> e = IeMissingPrevout k)"
proof -
  have "\<forall>tx \<in> set (blk_txs (example_chain_block [example_cb, example_spending])). is_coinbase (hd_value tx) \<noteq> None"
    by (auto simp: example_chain_block_def example_cb_coinbase)
  from prevouts_resolved [OF this, of db_empty example_parser] obtain ks where "distinct ks"
    "case process_prevouts example_parser db_empty (example_chain_block [example_cb, example_spending]) of
       Inr (r, pd) \<Rightarrow> pd = PdPrevouts (block_outputs example_parser (example_chain_block [example_cb, example_spending])) ks
         \<and> r = (\<lambda>k. if k \<in> set ks then resolved (db_prevouts db_empty)
             (block_outputs example_parser (example_chain_block [example_cb, example_spending])) k else None)
         \<and> dom r = set ks
     | Inl e \<Rightarrow> \<exists>k. k \<in> set ks \<and> e = IeMissingPrevout k \<and> db_prevouts db_empty k = None
         \<and> block_outputs example_parser (example_chain_block [example_cb, example_spending]) k = None"
    by (elim exE conjE) (rule that)
  then show ?thesis
    by (cases "process_prevouts example_parser db_empty (example_chain_block [example_cb, example_spending])")
      (auto split: prod.splits)
qed

text \<open>What a block with transactions writes.\<close>

lemma handle_tokens_writes:
  assumes "handle_tokens X d h height b prevouts processed = Inr (w, h')"
  obtains m1 m2 m3 m4 c' last_id evs pf where
    "block_history height evs (history_id d) = Some (last_id, dw_history w)"
    "generate_history_hash (ie_proof X) (prev_block_proof X d height) (dw_history w)
      (load_addresses d (\<Union> (action_hashes ` set evs) - dom (block_addresses (ie_parser X) b))
        ++ block_addresses (ie_parser X) b) = Some pf"
    "dw_processed w = processed @ [PdPartials m1 m2, PdOffsets m3 m4, PdHistory height last_id (dw_history w),
      PdTokens (tc_tokens c') (tc_accounts c') (transfers_to_write c')
        (transfers_to_remove (token_cache_load prevouts (db_transfers d))),
      PdInfo height \<lparr> bi_hash = hd_hash (blk_header b), bi_created = bh_timestamp (hd_value (blk_header b)) \<rparr> pf]"
    "dw_block_events w = [SeNewBlock height pf (hd_hash (blk_header b))]"
proof -
  from assms obtain c parsed c' evs last_id pf where
    parse: "parse_block (ie_parser X) d height b prevouts (token_cache_load prevouts (db_transfers d)) = Some (c, parsed)"
    and rest: "block_history height evs (history_id d) = Some (last_id, dw_history w)"
      "generate_history_hash (ie_proof X) (prev_block_proof X d height) (dw_history w)
        (load_addresses d (\<Union> (action_hashes ` set evs) - dom (block_addresses (ie_parser X) b))
          ++ block_addresses (ie_parser X) b) = Some pf"
      "dw_processed w = processed @ parsed @ [PdHistory height last_id (dw_history w),
        PdTokens (tc_tokens c') (tc_accounts c') (transfers_to_write c')
          (transfers_to_remove (token_cache_load prevouts (db_transfers d))),
        PdInfo height \<lparr> bi_hash = hd_hash (blk_header b), bi_created = bh_timestamp (hd_value (blk_header b)) \<rparr> pf]"
      "dw_block_events w = [SeNewBlock height pf (hd_hash (blk_header b))]"
    by (auto simp: handle_tokens_def Let_def split: option.splits sum.splits prod.splits)
  obtain m1 m2 m3 m4 where "parsed = [PdPartials m1 m2, PdOffsets m3 m4]"
    using parse by (auto simp: parse_block_def Let_def bind_eq_Some_conv)
  with rest show ?thesis by (intro that [of evs last_id pf m1 m2 m3 m4 c']) simp_all
qed

text \<open>The guard against a second inscription at one place is in force on Dogecoin only: on Bellscoin's main
  network it is switched off, and the other chains are past their jubilee from the first block.\<close>

lemma guarded_iff: "guarded P height \<longleftrightarrow> e_chain (pe_env P) = Dogecoin"
proof (cases "e_chain (pe_env P) = Dogecoin")
  case True
  then show ?thesis
    using never_jubilee_dogecoin by (cases "pe_network P") (simp_all add: guarded_def)
next
  case False
  then show ?thesis
    by (cases "e_chain (pe_env P)"; cases "pe_network P") (simp_all add: guarded_def is_jubilee_def)
qed

text \<open>C11.  Parsing the inscriptions of a valid block never panics.  Every offset it stores was stored for
  the same output before or lies below the value of an output of the block, and on Dogecoin the block
  has at most one transfer inscription at each location.\<close>

theorem parsing_in_bounds:
  assumes b: "valid_block P d b" and J: "fixed_json (pe_env P) (pe_json P)"
  shows "\<exists>prevouts pd c pw ow. process_prevouts P d b = Inr (prevouts, pd)
    \<and> parse_block P d height b prevouts (token_cache_load prevouts (db_transfers d)) = Some (c,
        [PdPartials (db_partials d |` dom prevouts) pw, PdOffsets (db_offsets d |` dom prevouts) ow])
    \<and> (\<forall>p s x. ow p = Some s \<and> x \<in> s \<longrightarrow> (\<exists>s0. db_offsets d p = Some s0 \<and> x \<in> s0)
        \<or> (\<exists>tx \<in> set (blk_txs b). in_output tx \<lparr> loc_outpoint = p, loc_offset = x \<rparr>))
    \<and> (e_chain (pe_env P) = Dogecoin \<longrightarrow> distinct (transfer_locs (tc_actions c)))"
proof -
  obtain prevouts ks where pre: "process_prevouts P d b = Inr (prevouts, PdPrevouts (block_outputs P b) ks)"
    and dom: "dom prevouts = (\<Union>tx \<in> set (spending b). tin_outpoint ` set (etx_inputs (hd_value tx)))"
    using process_prevouts_total [OF b] by (elim exE conjE) simp
  let ?c = "token_cache_load prevouts (db_transfers d)"
  have "fresh_transfers (blk_txs b) (tc_valid ?c)"
    unfolding fresh_transfers_def
  proof (intro allI impI)
    fix loc :: location assume own: "op_txid (loc_outpoint loc) \<in> hd_hash ` set (blk_txs b)"
    then have "db_transfers d \<lparr> al_address = a, al_location = loc \<rparr> = None" for a
      using valid_blockD(5) [OF b, of "\<lparr> al_address = a, al_location = loc \<rparr>"] by fastforce
    then show "tc_valid ?c loc = None"
      by (simp add: token_cache_load_def token_cache_empty_def load_transfers_def Let_def split: option.split)
  qed
  with J have ready: "block_ready P (blk_txs b) (tc_valid ?c)" by (simp add: block_ready_def)
  have c0: "collected_ok (pe_env P) ?c" "tc_actions ?c = []"
    by (rule collected_ok_load) (simp add: token_cache_load_def token_cache_empty_def Let_def)
  note shape = valid_block_shape [OF b dom]
  obtain c pw ow where p: "parse_block P d height b prevouts ?c
      = Some (c, [PdPartials (db_partials d |` dom prevouts) pw, PdOffsets (db_offsets d |` dom prevouts) ow])"
    and ow: "offsets_ok (blk_txs b) (db_offsets d |` dom prevouts) ow"
    using parse_block_total [OF shape(1) ready c0] by blast
  have "distinct (transfer_locs (tc_actions c))" if "e_chain (pe_env P) = Dogecoin"
    by (rule parse_block_once [OF shape(1) iffD2 [OF guarded_iff that] J valid_blockD(2) [OF b] shape(2) c0(2) p])
  moreover have "(\<exists>s0. db_offsets d q = Some s0 \<and> x \<in> s0)
      \<or> (\<exists>tx \<in> set (blk_txs b). in_output tx \<lparr> loc_outpoint = q, loc_offset = x \<rparr>)"
    if "ow q = Some s" "x \<in> s" for q s x
    using ow that unfolding offsets_ok_def restrict_map_def by (metis option.distinct(1))
  ultimately show ?thesis using pre p by blast
qed

theorem parsing_in_bounds_witness:
  "\<exists>prevouts pd c ps. process_prevouts example_parser (is_db (example_state 0))
      (example_chain_block [example_cb, example_spending]) = Inr (prevouts, pd)
    \<and> parse_block example_parser (is_db (example_state 0)) 5000000 (example_chain_block [example_cb, example_spending])
        prevouts (token_cache_load prevouts (db_transfers (is_db (example_state 0)))) = Some (c, ps)
    \<and> distinct (transfer_locs (tc_actions c))"
proof -
  have "valid_block example_parser (is_db (example_state 0)) (example_chain_block [example_cb, example_spending])"
    using example_blocks_valid(2) [of 0] by (simp add: example_index_env_def)
  moreover have "fixed_json (pe_env example_parser) (pe_json example_parser)"
    by (simp add: example_parser_def fixed_json_def example_json_def)
  moreover have "e_chain (pe_env example_parser) = Dogecoin" by (simp add: example_parser_def)
  ultimately show ?thesis using parsing_in_bounds [of example_parser] by blast
qed

text \<open>C14.  What a subscriber sees is what the database holds: for every batch of history entries the
  events published, converted as the event stream does, are the history records that the REST
  interface builds for the same entries, in the same order.\<close>

theorem events_are_history:
  "\<exists>es. publish_batch sha d evs = map (\<lambda>(a, v). SeNewHistory a v) es
    \<and> map (\<lambda>(a, v). rest_of_server_event a v) es
      = map (\<lambda>(k, v). rest_history_new sha d (hv_height v) (hv_action v) k) evs"
proof -
  define ev where "ev = (\<lambda>(k :: address_token_id, v). (\<lparr> ae_address = address_get sha (db_addresses d) (ati_address k),
    ae_token = ati_token k, ae_id = ati_id k \<rparr>, history_event_of sha (db_addresses d) v))"
  have ev: "publish_entry sha (db_addresses d) e = SeNewHistory (fst (ev e)) (snd (ev e))" for e
    by (cases e) (simp add: ev_def publish_entry_def)
  have "publish_batch sha d evs = map (\<lambda>(a, v). SeNewHistory a v) (map ev evs)"
    by (simp add: publish_batch_eq ev split_def)
  moreover have "map (\<lambda>(a, v). rest_of_server_event a v) (map ev evs)
      = map (\<lambda>(k, v). rest_history_new sha d (hv_height v) (hv_action v) k) evs"
    using rest_of_publish [OF ev] by (simp add: rest_history_new_eq split_def)
  ultimately show ?thesis by blast
qed

text \<open>C15.  The sender thread delivers.  As long as its channel is open, every history entry received
  before an idle poll has been published after it, each once and in the order received, unless the
  thread has stopped.  It stops only at an idle poll at which the server is cancelled, and only when
  every entry received before that poll has been published; two idle polls after the cancellation are
  enough to stop it.\<close>

theorem sender_delivers:
  assumes "\<forall>p \<in> set ps. fst p \<noteq> Closed"
  shows "(case event_sender_run (publish_batch sha d) [] (ps @ [(Empty, c)]) of
      (out, Waiting rest) \<Rightarrow> rest = [] \<and> out = map (publish_entry sha (db_addresses d)) (batches ps)
    | (out, Stopped) \<Rightarrow> (\<exists>k \<le> length ps. (ps @ [(Empty, c)]) ! k = (Empty, True)
        \<and> out = map (publish_entry sha (db_addresses d)) (batches (take k ps))))
    \<and> snd (event_sender_run (publish_batch sha d) [] (ps @ [(Empty, c), (Empty, True)])) = Stopped"
proof -
  let ?f = "publish_entry sha (db_addresses d)" and ?run = "event_sender_run (publish_batch sha d) [] (ps @ [(Empty, c)])"
  have ok: "sender_ok ?f [] (ps @ [(Empty, c)]) ?run"
    by (rule event_sender_run_ok) (use assms in \<open>auto simp: publish_batch_eq\<close>)
  have idle: "snd ?run \<in> {Stopped, Waiting []}" by (rule event_sender_run_idle [OF assms])
  have b: "batches (ps @ [(Empty, c)]) = batches ps" by (simp add: batches_def)
  obtain out e where r: "?run = (out, e)" by fastforce
  have "case ?run of (out, Waiting rest) \<Rightarrow> rest = [] \<and> out = map ?f (batches ps)
    | (out, Stopped) \<Rightarrow> (\<exists>k \<le> length ps. (ps @ [(Empty, c)]) ! k = (Empty, True) \<and> out = map ?f (batches (take k ps)))"
  proof (cases e)
    case Stopped
    have "sender_ok ?f [] (ps @ [(Empty, c)]) (out, Stopped)" using ok r Stopped by simp
    then obtain k where "k < length (ps @ [(Empty, c)])" "(ps @ [(Empty, c)]) ! k = (Empty, True)"
      "out = map ?f (batches (take k (ps @ [(Empty, c)])))"
      unfolding sender_ok.simps append_Nil by (elim exE conjE) (rule that)
    moreover from this(1) have "k \<le> length ps" "take k (ps @ [(Empty, c)]) = take k ps" by auto
    ultimately show ?thesis using r Stopped by auto
  next
    case (Waiting rest)
    with idle r have "rest = []" by simp
    with Waiting ok r b show ?thesis by simp
  qed
  with event_sender_run_stops [OF assms] show ?thesis by blast
qed

definition example_entry :: "address_token_id \<times> history_value" where
  "example_entry = (\<lparr> ati_address = example_owner, ati_token = example_tick, ati_id = 1 \<rparr>,
     \<lparr> hv_height = 7, hv_action = ThMint 10 (replicate 32 4) 0 \<rparr>)"

theorem sender_delivers_witness:
  "(case event_sender_run (publish_batch (\<lambda>_. []) db_empty) [] ([(Received [example_entry], True)] @ [(Empty, False)]) of
      (out, Waiting rest) \<Rightarrow> out = [publish_entry (\<lambda>_. []) (db_addresses db_empty) example_entry]
    | (out, Stopped) \<Rightarrow> False)
    \<and> snd (event_sender_run (publish_batch (\<lambda>_. []) db_empty) []
      ([(Received [example_entry], True)] @ [(Empty, False), (Empty, True)])) = Stopped"
proof -
  have "\<forall>p \<in> set [(Received [example_entry], True)]. fst p \<noteq> Closed" by simp
  from sender_delivers [OF this, where sha = "\<lambda>_. []" and d = db_empty and c = False] show ?thesis
    by (auto split: prod.splits sender_end.splits simp: nth_Cons split: nat.splits)
qed

end
