(* ===== verification/TokenBlock.thy ===== *)
theory TokenBlock
  imports IndexProps
begin

text \<open>
  A block with a token action, the witness of the properties of whole blocks: on Dogecoin, after the
  coinbase, a transaction whose first input script inscribes the deployment of a token.
\<close>

section \<open>The block\<close>

definition deploy_json :: json_ops where
  "deploy_json = \<lparr> js_normalize = Some, js_brc4 = (\<lambda>data. if data = [] then Inl ''none''
     else Inr (Brc4Deploy (DeployDrc20 \<lparr> dw_tick = example_tick, dw_max = 100, dw_lim = Some 10, dw_dec = 18 \<rparr>))) \<rparr>"

definition deploy_parser :: parser_env where
  "deploy_parser = example_parser\<lparr> pe_json := deploy_json \<rparr>"

definition deploy_env :: index_env where
  "deploy_env = example_index_env\<lparr> ie_parser := deploy_parser \<rparr>"

text \<open>The pushes \<open>ord\<close>, \<open>1\<close>, \<open>text/plain\<close>, \<open>0\<close> and a body of two bytes.\<close>

definition deploy_script :: bytes where
  "deploy_script = [3] @ str_bytes ''ord'' @ [81, 10] @ str_bytes ''text/plain'' @ [0, 2, 123, 125]"

definition example_deploying :: "evaluated_tx hashed" where
  "example_deploying = \<lparr> hd_hash = replicate 32 21, hd_value = example_payment\<lparr>
     etx_inputs := [(example_in 1)\<lparr> tin_script_sig := deploy_script \<rparr>, example_in 2] \<rparr> \<rparr>"

abbreviation deploy_block :: block where
  "deploy_block \<equiv> example_chain_block [example_cb, example_deploying]"

lemma deploy_script_bytes: "deploy_script
    = [3, 111, 114, 100, 81, 10, 116, 101, 120, 116, 47, 112, 108, 97, 105, 110, 0, 2, 123, 125]"
  by code_simp

lemma deploy_script_parsed:
  "parse_scripts deploy_script [] = ParsedSingle (plain_inscription (str_bytes ''text/plain'') [123, 125])"
  by code_simp

lemma deploy_coinbase:
  "is_coinbase (hd_value example_deploying) = Some False"
  by (simp add: is_coinbase_def example_deploying_def example_payment_def example_in_def example_vu_def)

section \<open>Its parsing\<close>

definition deploy_proto :: deploy_proto_db where
  "deploy_proto = \<lparr> dp_tick = example_tick, dp_max = 100, dp_lim = 10, dp_dec = 18, dp_supply = 0,
     dp_transfer_count = 0, dp_mint_count = 0, dp_height = 5000000, dp_created = 0,
     dp_deployer = so_sha256 example_script_ops [1], dp_transactions = 1 \<rparr>"

definition deploy_action :: token_action where
  "deploy_action = TaDeploy \<lparr> iid_txid = replicate 32 21, iid_index = 0 \<rparr> deploy_proto (so_sha256 example_script_ops [1])"

lemma deploy_parsed: "try_parse Dogecoin deploy_json (str_bytes ''text/plain'') [123, 125]
    = Inr (Brc4Deploy (DeployDrc20 \<lparr> dw_tick = example_tick, dw_max = 100, dw_lim = Some 10, dw_dec = 18 \<rparr>))"
  by code_simp

definition deploy_template :: inscription_template where
  "deploy_template = \<lparr> it_genesis = \<lparr> iid_txid = replicate 32 21, iid_index = 0 \<rparr>,
     it_location = \<lparr> loc_outpoint = \<lparr> op_txid = replicate 32 21, op_vout = 0 \<rparr>, loc_offset = 0 \<rparr>,
     it_content_type = Some (str_bytes ''text/plain''), it_owner = so_sha256 example_script_ops [1],
     it_value = 8, it_content = Some [123, 125], it_leaked = False \<rparr>"

lemma deploy_token_action:
  "parse_token_action (pe_env deploy_parser) deploy_json deploy_template 5000000 0 c = (push_action deploy_action c, None)"
proof -
  have "so_sha256 example_script_ops [1] \<noteq> replicate 32 255"
    by code_simp
  then show ?thesis
    using deploy_parsed
    by (simp add: parse_token_action_def on_chain_def deploy_parser_def example_parser_def example_env_def deploy_template_def
        deploy_action_def deploy_proto_def)
qed

lemma deploy_values: "input_values example_prevouts (etx_inputs (hd_value example_deploying)) = Some [10, 5]"
  by (simp add: input_values_def example_deploying_def example_payment_def example_prevouts_def example_in_def numeral_eq_Suc)

lemma deploy_outs: "out_values (etx_outputs (hd_value example_deploying)) = [8, 4]"
  by (simp add: out_values_def example_deploying_def example_payment_def example_out_def)

lemma deploy_offsets: "calc_offsets (hd_value example_deploying) example_prevouts = Some [0, 10]"
  unfolding calc_offsets_def deploy_values deploy_outs by (simp add: start_offsets_sums)

lemma deploy_template_made:
  "parse_inscription deploy_parser example_prevouts example_deploying [0, 10] 0
     \<lparr> pa_inscription_index = 0, pa_genesis_txid = replicate 32 21,
       pa_parts = [\<lparr> pt_is_tapscript = False, pt_script_buffer = deploy_script \<rparr>] \<rparr> lk
   = Some (ResSingle deploy_template, lk)"
proof -
  have "valid_utf8 (str_bytes ''text/plain'')" by code_simp
  moreover have "nth_option (etx_outputs (hd_value example_deploying)) 0 = Some (example_out 8)"
    by (simp add: nth_option_def example_deploying_def example_payment_def)
  moreover have "get_output_index_by_input (nth_option [0, 10] 0) (etx_outputs (hd_value example_deploying)) = Inr (0, 0)"
    unfolding get_output_index_by_input_def deploy_outs by (simp add: nth_option_def)
  ultimately show ?thesis
    by (simp add: parse_inscription_def from_parts_def deploy_script_parsed convert_to_template_def deploy_template_def
        plain_inscription_def inscription_pointer_def inscription_content_type_def get_output_index_by_input_def
        example_out_def deploy_parser_def example_parser_def example_script_ops_def example_deploying_def)
qed

lemma deploy_placed:
  "place_template deploy_parser 5000000 0 deploy_template
      \<lparr> ps_partials = p, ps_offsets = Map.empty, ps_leaked = lk, ps_cache = c \<rparr>
    = \<lparr> ps_partials = p, ps_offsets = insert_offset (it_location deploy_template) Map.empty, ps_leaked = lk,
        ps_cache = push_action deploy_action c \<rparr>"
  using deploy_token_action
  by (simp add: place_template_def offset_taken_def Let_def deploy_parser_def)

lemma deploy_tx_parsed:
  "\<exists>s. parse_tx deploy_parser 5000000 0 example_prevouts example_deploying
      \<lparr> ps_partials = Map.empty, ps_offsets = Map.empty, ps_leaked = Some lk, ps_cache = c \<rparr> = Some s
    \<and> ps_cache s = push_action deploy_action c \<and> ps_leaked s \<noteq> None"
proof -
  have ins: "etx_inputs (hd_value example_deploying) = [(example_in 1)\<lparr> tin_script_sig := deploy_script \<rparr>, example_in 2]"
    by (simp add: example_deploying_def)
  have early: "\<not> is_jubilee (pe_network deploy_parser) (e_chain (pe_env deploy_parser)) 5000000"
    using never_jubilee_dogecoin by (simp add: deploy_parser_def example_parser_def)
  have part: "input_part deploy_parser ((example_in 1)\<lparr> tin_script_sig := deploy_script \<rparr>)
      = \<lparr> pt_is_tapscript = False, pt_script_buffer = deploy_script \<rparr>"
    by (simp add: input_part_def deploy_parser_def example_parser_def example_script_ops_def)
  have txid: "hd_hash example_deploying = replicate 32 21" by (simp add: example_deploying_def)
  have number: "number_templates 0 [deploy_template] = [deploy_template]" by (simp add: deploy_template_def)
  have other: "insert_offset (it_location deploy_template) Map.empty (tin_outpoint (example_in 2)) = None"
    by (simp add: insert_offset_def deploy_template_def example_in_def)
  show ?thesis
    using deploy_coinbase deploy_values deploy_offsets early part txid number other deploy_template_made deploy_placed
    by (simp add: parse_tx_def ins add_tx_fee_def parse_input_def move_inscriptions_def create_inscriptions_def Let_def)
qed

section \<open>Its handling\<close>

abbreviation deploy_owner :: hash32 where
  "deploy_owner \<equiv> so_sha256 example_script_ops [1]"

definition deploy_key :: lower_tick where
  "deploy_key = tick_key example_env example_tick"

definition deploy_entry :: "address_token_id \<times> history_value" where
  "deploy_entry = (\<lparr> ati_address = deploy_owner, ati_token = example_tick, ati_id = 1 \<rparr>,
     \<lparr> hv_height = 5000000, hv_action = ThDeploy 100 10 18 (replicate 32 21) 0 \<rparr>)"

lemma deploy_block_shape:
  "blk_txs deploy_block = [example_cb, example_deploying]" "bh_timestamp (hd_value (blk_header deploy_block)) = 0"
  "spending deploy_block = [example_deploying]"
  by (simp_all add: example_chain_block_def spending_def example_cb_coinbase deploy_coinbase)

lemma deploy_block_valid: "valid_block deploy_parser (is_db (example_state prev)) deploy_block"
proof -
  have few: "few_outputs example_cb" "few_outputs example_deploying" "no_self_spend example_deploying"
    by (simp_all add: few_outputs_def no_self_spend_def example_cb_def example_deploying_def example_payment_def
        example_in_def)
  have known: "\<exists>v. resolved example_prevouts own (tin_outpoint i) = Some v"
    if "i \<in> set (etx_inputs (hd_value example_deploying))" for i own
    using that by (auto simp: example_deploying_def example_payment_def example_prevouts_def resolved_def)
  have txids: "op_txid k \<notin> {replicate 32 20, replicate 32 21}" if "example_prevouts k = Some v" for k v
    using that by (auto simp: example_prevouts_def example_in_def split: if_splits)
  have hashes: "hd_hash example_cb = replicate 32 20" "hd_hash example_deploying = replicate 32 21"
    "replicate 32 (20 :: u8) \<noteq> replicate 32 21"
    by (simp_all add: example_cb_def example_deploying_def)
  show ?thesis
    unfolding valid_block_def deploy_block_shape
    using few example_cb_coinbase(1) deploy_coinbase hashes txids known
    by (auto simp: example_state_def db_empty_def)
qed

lemma deploy_block_parsed:
  "\<exists>m1 m2 m3 m4. parse_block deploy_parser (is_db (example_state prev)) 5000000 deploy_block example_prevouts c
    = Some (push_action deploy_action c, [PdPartials m1 m2, PdOffsets m3 m4])"
proof -
  have "parse_tx deploy_parser 5000000 0 example_prevouts example_cb s = Some (s\<lparr> ps_leaked := Some (leaked_new example_cb) \<rparr>)" for s
    using example_cb_coinbase(1) by (simp add: parse_tx_def)
  moreover obtain s where "parse_tx deploy_parser 5000000 0 example_prevouts example_deploying
      \<lparr> ps_partials = Map.empty, ps_offsets = Map.empty, ps_leaked = Some (leaked_new example_cb), ps_cache = c \<rparr> = Some s"
    "ps_cache s = push_action deploy_action c" "ps_leaked s \<noteq> None"
    using deploy_tx_parsed by blast
  ultimately show ?thesis
    by (auto simp: parse_block_def deploy_block_shape example_state_def db_empty_def)
qed

lemma deploy_executed:
  assumes "tc_actions c = []"
  shows "\<exists>c' h. process_token_actions (pe_env deploy_parser)
      (load_tokens_data (pe_env deploy_parser) Map.empty Map.empty (push_action deploy_action c), holders_empty)
      = Inr ((c', h), [HDeploy example_tick 100 10 18 deploy_owner (replicate 32 21) 0])
    \<and> tc_tokens c' = [deploy_key \<mapsto> \<lparr> tm_genesis = \<lparr> iid_txid = replicate 32 21, iid_index = 0 \<rparr>, tm_proto = deploy_proto \<rparr>]"
proof -
  have "e_lower (pe_env deploy_parser) = e_lower example_env" by (simp add: deploy_parser_def example_parser_def)
  then show ?thesis
    using assms
    by (simp add: process_token_actions_def load_tokens_data_def fill_tickers_and_users_def push_action_def
        deploy_action_def tbl_found_def process_deploy_def deploy_proto_def deploy_key_def rbind_def)
qed

lemma deploy_env_ok:
  "fixed_json (pe_env deploy_parser) (pe_json deploy_parser)" "po_json (ie_proof deploy_env) r \<noteq> None"
  by (auto simp: fixed_json_def deploy_parser_def deploy_json_def example_parser_def example_env_def example_fx_def
      deploy_env_def ie_proof_def example_index_env_def split: if_splits)

lemma deploy_prevouts:
  "\<exists>ks. process_prevouts deploy_parser (is_db (example_state prev)) deploy_block
    = Inr (example_prevouts, PdPrevouts (block_outputs deploy_parser deploy_block) ks)"
proof -
  obtain prevouts ks where p: "process_prevouts deploy_parser (is_db (example_state prev)) deploy_block
      = Inr (prevouts, PdPrevouts (block_outputs deploy_parser deploy_block) ks)"
    "dom prevouts = set ks" "set ks = (\<Union>tx \<in> {example_deploying}. tin_outpoint ` set (etx_inputs (hd_value tx)))"
    "\<forall>k \<in> set ks. prevouts k = resolved example_prevouts (block_outputs deploy_parser deploy_block) k"
    using process_prevouts_total [OF deploy_block_valid [of prev]]
    by (auto simp: deploy_block_shape example_state_def)
  have ks: "set ks = dom example_prevouts"
    unfolding p(3) by (auto simp: example_deploying_def example_payment_def example_prevouts_def)
  have "prevouts k = example_prevouts k" for k
  proof (cases "k \<in> set ks")
    case True
    with p(4) show ?thesis unfolding ks by (auto simp: resolved_def)
  next
    case False
    moreover from False have "prevouts k = None" using p(2) by auto
    ultimately show ?thesis unfolding ks by (auto simp: domIff)
  qed
  with p(1) show ?thesis by (metis ext)
qed

lemma deploy_block_handled:
  "\<exists>w h. handle_block deploy_env (is_db (example_state prev)) holders_empty 5000000 deploy_block = Inr (w, h)
    \<and> dw_history w = [deploy_entry]
    \<and> db_token_to_meta (fold written (dw_processed w) (is_db (example_state prev))) deploy_key
      = Some \<lparr> tm_genesis = \<lparr> iid_txid = replicate 32 21, iid_index = 0 \<rparr>, tm_proto = deploy_proto \<rparr>"
proof -
  let ?d = "is_db (example_state prev)" and ?c = "token_cache_load example_prevouts Map.empty"
  have env: "ie_parser deploy_env = deploy_parser" by (simp add: deploy_env_def)
  have d: "db_transfers ?d = Map.empty" "db_token_to_meta ?d = Map.empty" "db_balances ?d = Map.empty" "history_id ?d = 0"
    by (simp_all add: example_state_def db_empty_def history_id_def)
  have "\<exists>ks. process_prevouts deploy_parser ?d deploy_block = Inr (example_prevouts, PdPrevouts (block_outputs deploy_parser deploy_block) ks)"
    by (rule deploy_prevouts)
  then obtain ks where pre: "process_prevouts deploy_parser ?d deploy_block
      = Inr (example_prevouts, PdPrevouts (block_outputs deploy_parser deploy_block) ks)" by blast
  obtain m1 m2 m3 m4 where parse: "parse_block deploy_parser ?d 5000000 deploy_block example_prevouts ?c
      = Some (push_action deploy_action ?c, [PdPartials m1 m2, PdOffsets m3 m4])"
    using deploy_block_parsed by blast
  have "tc_actions ?c = []" by (simp add: token_cache_load_def token_cache_empty_def Let_def)
  from deploy_executed [OF this] obtain c' h where exec: "process_token_actions (pe_env deploy_parser)
      (load_tokens_data (pe_env deploy_parser) Map.empty Map.empty (push_action deploy_action ?c), holders_empty)
      = Inr ((c', h), [HDeploy example_tick 100 10 18 deploy_owner (replicate 32 21) 0])"
    and tok: "tc_tokens c' = [deploy_key \<mapsto> \<lparr> tm_genesis = \<lparr> iid_txid = replicate 32 21, iid_index = 0 \<rparr>, tm_proto = deploy_proto \<rparr>]"
    by blast
  have hist: "block_history 5000000 [HDeploy example_tick 100 10 18 deploy_owner (replicate 32 21) 0] 0 = Some (1, [deploy_entry])"
    by (simp add: history_entries_def deploy_entry_def)
  obtain pf where pf: "generate_history_hash (ie_proof deploy_env) (prev_block_proof deploy_env ?d 5000000) [deploy_entry]
      (load_addresses ?d ({deploy_owner} - dom (block_addresses deploy_parser deploy_block))
        ++ block_addresses deploy_parser deploy_block) = Some pf"
    using generate_history_hash_total [of "ie_proof deploy_env", OF deploy_env_ok(2)] by blast
  have start: "\<not> 5000000 < start_height (pe_network deploy_parser) (e_chain (pe_env deploy_parser))"
    by (simp add: deploy_parser_def example_parser_def)
  show ?thesis
    using pre parse exec hist pf start
    by (simp add: handle_block_def env d Let_def deploy_block_shape handle_tokens_def written_simps written_history tok)
qed

end
