(* ===== verification/HistoryProps.thy ===== *)
theory HistoryProps
  imports TokenBlock
begin

text \<open>
  The proof of history recomputed from the database: the entries of a block as its tables give them,
  the order in which they were hashed, and the chain of the hashes.
\<close>

section \<open>The entries of a block in the database\<close>

text \<open>What the REST interface reads for a height: the keys of \<open>block_events\<close>, which are in the order of
  their ids, each with its record of the history table.\<close>

definition stored_entries :: "db \<Rightarrow> u32 \<Rightarrow> raw_event" where
  "stored_entries d height =
     map (\<lambda>k. (k, the (db_history d k))) (case db_block_events d height of None \<Rightarrow> [] | Some ks \<Rightarrow> ks)"

text \<open>The order of the hash: of the two entries of a send the sender's comes first although its id is the
  greater one.\<close>

fun is_receive :: "token_history_db \<Rightarrow> bool" where
  "is_receive (ThReceive amt sender txid vout) = True"
| "is_receive _ = False"

fun sends_first :: "raw_event \<Rightarrow> raw_event" where
  "sends_first (x # y # es) =
     (if is_receive (hv_action (snd x)) then y # x # sends_first es else x # sends_first (y # es))"
| "sends_first es = es"

lemma sends_first_single: "\<not> is_receive (hv_action (snd x)) \<Longrightarrow> sends_first (x # es) = x # sends_first es"
  by (cases es) simp_all

lemma not_receive: "\<not> is_receive (from_token_history a)"
  by (cases a) simp_all

text \<open>The entries of an action by their ids.\<close>

lemma history_entries_by_id:
  assumes "history_entries height a n = Some (m, es)"
  shows "\<exists>es'. mset es' = mset es \<and> map (ati_id \<circ> fst) es' = map (\<lambda>i. n + word_of_nat i) [1 ..< Suc (length es)]
    \<and> m = n + word_of_nat (length es) \<and> (\<forall>r. sends_first (es' @ r) = es @ sends_first r)"
proof -
  consider k v where "es = [(k, v)]" "ati_id k = n + 1" "\<not> is_receive (hv_action v)" "m = n + 1"
    | k v k' v' where "es = [(k, v), (k', v')]" "ati_id k = n + 1 + 1" "ati_id k' = n + 1" "is_receive (hv_action v')" "m = n + 1 + 1"
  proof (cases "\<exists>t amt recipient sender txid vout. a = HSend t amt recipient sender txid vout \<and> sender \<noteq> recipient")
    case True
    then obtain t amt recipient sender txid vout where "a = HSend t amt recipient sender txid vout" "sender \<noteq> recipient"
      by blast
    with assms have "es = [(\<lparr> ati_address = sender, ati_token = t, ati_id = n + 1 + 1 \<rparr>,
          \<lparr> hv_height = height, hv_action = ThSend amt recipient txid vout \<rparr>),
        (\<lparr> ati_address = recipient, ati_token = t, ati_id = n + 1 \<rparr>,
          \<lparr> hv_height = height, hv_action = ThReceive amt sender txid vout \<rparr>)]" "m = n + 1 + 1"
      by (auto simp: history_entries_def Let_def)
    note two = this
    show thesis by (rule that(2) [OF two(1) _ _ _ two(2)]) simp_all
  next
    case False
    then have "es = [(\<lparr> ati_address = history_recipient a, ati_token = history_tick a, ati_id = n + 1 \<rparr>,
        \<lparr> hv_height = height, hv_action = from_token_history a \<rparr>)]" "m = n + 1"
      using assms by (cases a; auto simp: history_entries_def Let_def split: if_splits)+
    then show thesis using that(1) not_receive [of a] by simp
  qed
  then show ?thesis
  proof cases
    case 1
    then show ?thesis by (intro exI [of _ es]) (simp add: sends_first_single)
  next
    case (2 k v k' v')
    then show ?thesis by (intro exI [of _ "[(k', v'), (k, v)]"]) (simp add: numeral_2_eq_2)
  qed
qed

lemma upt_words_append:
  "map (\<lambda>i. n + word_of_nat i) [1 ..< Suc a] @ map (\<lambda>i. n + word_of_nat a + word_of_nat i) [1 ..< Suc b]
    = map (\<lambda>i. (n :: u64) + word_of_nat i) [1 ..< Suc (a + b)]"
proof -
  have "[1 ..< Suc (a + b)] = [1 ..< Suc a] @ map (\<lambda>i. a + i) [1 ..< Suc b]"
    by (rule nth_equalityI) (auto simp: nth_append simp del: upt_Suc)
  then show ?thesis by (simp add: comp_def add.assoc del: upt_Suc)
qed

lemma block_history_by_id:
  "block_history height as n = Some (m, es) \<Longrightarrow> \<exists>es'. mset es' = mset es \<and> sends_first es' = es
    \<and> map (ati_id \<circ> fst) es' = map (\<lambda>i. n + word_of_nat i) [1 ..< Suc (length es)]"
proof (induction as arbitrary: n es)
  case Nil
  then show ?case by simp
next
  case (Cons a as)
  then obtain m1 es1 es2 where s: "history_entries height a n = Some (m1, es1)"
    "block_history height as m1 = Some (m, es2)" "es = es1 @ es2"
    by (auto simp: bind_eq_Some_conv)
  obtain es1' where e1: "mset es1' = mset es1" "map (ati_id \<circ> fst) es1' = map (\<lambda>i. n + word_of_nat i) [1 ..< Suc (length es1)]"
    "m1 = n + word_of_nat (length es1)" "\<forall>r. sends_first (es1' @ r) = es1 @ sends_first r"
    using history_entries_by_id [OF s(1)] by blast
  obtain es2' where e2: "mset es2' = mset es2" "sends_first es2' = es2"
    "map (ati_id \<circ> fst) es2' = map (\<lambda>i. m1 + word_of_nat i) [1 ..< Suc (length es2)]"
    using Cons.IH [OF s(2)] by blast
  have "map (ati_id \<circ> fst) (es1' @ es2') = map (\<lambda>i. n + word_of_nat i) [1 ..< Suc (length es)]"
    using upt_words_append [of n "length es1" "length es2"]
    by (simp only: map_append e1(2, 3) e2(3) s(3) length_append)
  moreover have "mset (es1' @ es2') = mset es" "sends_first (es1' @ es2') = es"
    using e1(1, 4) e2(1, 2) s(3) by simp_all
  ultimately show ?case by blast
qed

text \<open>Written to the tables and read back by height, the entries are the ones that were hashed.\<close>

lemma sort_key_unique:
  fixes f :: "'a \<Rightarrow> nat"
  assumes "mset xs = mset ys" and "sorted_wrt (<) (map f ys)"
  shows "sort_key f xs = ys"
proof (rule sort_key_inj_key_eq [OF assms(1)])
  have "distinct (map f ys)" "sorted (map f ys)" using assms(2) by (simp_all add: strict_sorted_iff)
  then show "inj_on f (set xs)" "sorted (map f ys)"
    using mset_eq_setD [OF assms(1)] by (simp_all add: distinct_map)
qed

lemma stored_history:
  assumes h: "block_history height as (history_id d) = Some (m, es)" and room: "unat (history_id d) + length es < 2 ^ 64"
    and d': "db_block_events d' height = Some (sort_events (map fst es))" "db_history d' = tbl_extend t es"
  shows "sends_first (stored_entries d' height) = es"
proof -
  let ?n = "history_id d"
  obtain es' where e: "mset es' = mset es" "sends_first es' = es"
    and ids: "map (ati_id \<circ> fst) es' = map (\<lambda>i. ?n + word_of_nat i) [1 ..< Suc (length es)]"
    using block_history_by_id [OF h] by blast
  have "unat (?n + word_of_nat i) = unat ?n + i" if "i \<le> length es" for i
    using that room by (subst unat_word_ariths) (simp add: unat_of_nat)
  then have "map (\<lambda>k. unat (ati_id k)) (map fst es') = map (\<lambda>i. unat ?n + i) [1 ..< Suc (length es)]"
    using arg_cong [OF ids, of "map unat"] by (simp add: comp_def del: upt_Suc)
  then have sorted: "sorted_wrt (<) (map (\<lambda>k. unat (ati_id k)) (map fst es'))"
    by (simp add: sorted_wrt_map del: upt_Suc map_map)
  then have "sort_events (map fst es) = map fst es'"
    unfolding sort_events_def by (intro sort_key_unique) (simp_all only: mset_map e(1))
  moreover have "distinct (map fst es)"
  proof -
    have "distinct (map (\<lambda>k. unat (ati_id k)) (map fst es'))" using sorted by (simp only: strict_sorted_iff)
    then have "distinct (map fst es')" unfolding map_map by (simp add: distinct_map inj_on_def)
    then show ?thesis using e(1) by (metis mset_eq_imp_distinct_iff mset_map)
  qed
  then have "db_history d' k = Some v" if "(k, v) \<in> set es'" for k v
    unfolding d'(2) by (rule tbl_extend_distinct) (use that mset_eq_setD [OF e(1)] in simp)
  then have "map (\<lambda>k. (k, the (db_history d' k))) (map fst es') = es'"
    unfolding map_map by (intro map_idI) auto
  ultimately show ?thesis by (simp add: stored_entries_def d'(1) e(2))
qed

section \<open>The proof of a block\<close>

lemma written_events:
  "db_block_events (written (PdHistory n lid es) d) = (db_block_events d)(n \<mapsto> sort_events (map fst es))"
  "db_proof_of_history (written (PdHistory n lid es) d) = db_proof_of_history d"
  by (simp_all add: written_def Let_def)

lemma prev_block_proof_kept:
  "db_proof_of_history d' = (db_proof_of_history d)(height \<mapsto> pf) \<Longrightarrow> height \<noteq> 0 \<Longrightarrow>
    prev_block_proof X d' height = prev_block_proof X d height"
  by (simp add: prev_block_proof_def)

text \<open>What the writes of a block leave in the tables, whichever way it was handled.\<close>

lemma block_tables:
  assumes h: "handle_block X d h height b = Inr (w, h')"
    and tokens: "\<not> height < start_height (pe_network (ie_parser X)) (e_chain (pe_env (ie_parser X)))"
    and new: "db_block_events d height = None" and room: "unat (history_id d) + length (dw_history w) < 2 ^ 64"
  defines "d' \<equiv> fold written (dw_processed w) d"
  shows "\<exists>pf. db_proof_of_history d' = (db_proof_of_history d)(height \<mapsto> pf)
    \<and> sends_first (stored_entries d' height) = dw_history w
    \<and> generate_history_hash (ie_proof X) (prev_block_proof X d height) (dw_history w) (db_addresses d') = Some pf
    \<and> dw_block_events w = [SeNewBlock height pf (hd_hash (blk_header b))]"
proof -
  let ?P = "ie_parser X"
  obtain prevouts pd where pre': "process_prevouts ?P d b = Inr (prevouts, pd)"
    using h by (cases "process_prevouts ?P d b") (auto simp: handle_block_def Let_def)
  then obtain ks where "pd = PdPrevouts (block_outputs ?P b) ks"
    using process_prevouts_shape by blast
  note pre = pre' [unfolded this]
  let ?own = "block_addresses ?P b"
  show ?thesis
  proof (cases "length (blk_txs b) = 1")
    case True
    with h tokens pre obtain pf where "generate_history_hash (ie_proof X) (prev_block_proof X d height) [] Map.empty = Some pf"
      and w: "w = \<lparr> dw_processed = [PdPrevouts (block_outputs ?P b) ks, PdFullHash ?own, PdInfo height
          \<lparr> bi_hash = hd_hash (blk_header b), bi_created = bh_timestamp (hd_value (blk_header b)) \<rparr> pf],
        dw_block_events = [SeNewBlock height pf (hd_hash (blk_header b))], dw_history = [] \<rparr>"
      by (auto simp: handle_block_def Let_def split: option.splits)
    then show ?thesis
      unfolding d'_def by (simp add: written_simps generate_history_hash_def stored_entries_def new)
  next
    case False
    with h tokens pre have "handle_tokens X d h height b prevouts
        [PdPrevouts (block_outputs ?P b) ks, PdFullHash ?own] = Inr (w, h')"
      by (simp add: handle_block_def Let_def)
    then obtain m1 m2 m3 m4 c' last_id evs pf where
      hist: "block_history height evs (history_id d) = Some (last_id, dw_history w)"
      and pf: "generate_history_hash (ie_proof X) (prev_block_proof X d height) (dw_history w)
        (load_addresses d (\<Union> (action_hashes ` set evs) - dom ?own) ++ ?own) = Some pf"
      and w: "dw_processed w = [PdPrevouts (block_outputs ?P b) ks, PdFullHash ?own, PdPartials m1 m2, PdOffsets m3 m4,
          PdHistory height last_id (dw_history w), PdTokens (tc_tokens c') (tc_accounts c') (transfers_to_write c')
             (transfers_to_remove (token_cache_load prevouts (db_transfers d))),
           PdInfo height \<lparr> bi_hash = hd_hash (blk_header b), bi_created = bh_timestamp (hd_value (blk_header b)) \<rparr> pf]"
        "dw_block_events w = [SeNewBlock height pf (hd_hash (blk_header b))]"
      by (elim handle_tokens_writes) simp
    have d': "db_addresses d' = db_addresses d ++ ?own" "db_proof_of_history d' = (db_proof_of_history d)(height \<mapsto> pf)"
      "db_block_events d' height = Some (sort_events (map fst (dw_history w)))"
      "db_history d' = tbl_extend (db_history d) (dw_history w)"
      unfolding d'_def w(1) by (simp_all add: written_simps written_history written_events)
    have "generate_history_hash (ie_proof X) (prev_block_proof X d height) (dw_history w) (db_addresses d') = Some pf"
    proof (subst generate_history_hash_cong)
      show "generate_history_hash (ie_proof X) (prev_block_proof X d height) (dw_history w)
        (load_addresses d (\<Union> (action_hashes ` set evs) - dom ?own) ++ ?own) = Some pf" by (rule pf)
      fix e k assume "e \<in> set (dw_history w)" "k \<in> entry_keys e"
      with block_history_keys [OF hist] have "k \<in> \<Union> (action_hashes ` set evs)" by blast
      then show "db_addresses d' k = (load_addresses d (\<Union> (action_hashes ` set evs) - dom ?own) ++ ?own) k"
        by (auto simp: d'(1) load_addresses_def map_add_def restrict_map_def split: option.split)
    qed
    with d'(2) stored_history [OF hist room d'(3, 4)] w(2) show ?thesis by blast
  qed
qed

text \<open>C13.  The proof of history is the one anybody can compute from the database after a block is written,
  for a block above 0 at a height that has no events yet: the entries that \<open>block_events\<close> and the
  history table give for the height, the sender's entry of a send moved before the recipient's, shown
  as the REST interface shows them, are hashed onto the stored proof of the height below to give the
  stored proof of the block, which is also the one announced.\<close>

theorem proof_recomputable:
  assumes h: "handle_block X d h height b = Inr (w, h')"
    and tokens: "\<not> height < start_height (pe_network (ie_parser X)) (e_chain (pe_env (ie_parser X)))"
    and new: "db_block_events d height = None" "height \<noteq> 0"
    and room: "unat (history_id d) + length (dw_history w) < 2 ^ 64"
  defines "d' \<equiv> fold written (dw_processed w) d" and "sha \<equiv> po_sha256 (ie_proof X)"
  defines "es \<equiv> sends_first (stored_entries d' height)"
  shows "\<exists>pf. db_proof_of_history d' height = Some pf
    \<and> dw_block_events w = [SeNewBlock height pf (hd_hash (blk_header b))]
    \<and> generate_history_hash (ie_proof X) (prev_block_proof X d' height) es (db_addresses d') = Some pf
    \<and> map (rest_entry sha (db_addresses d')) es
      = map (\<lambda>(k, v). rest_history_new sha d' (hv_height v) (hv_action v) k) es"
proof -
  obtain pf where pf: "db_proof_of_history d' = (db_proof_of_history d)(height \<mapsto> pf)" "es = dw_history w"
    "generate_history_hash (ie_proof X) (prev_block_proof X d height) (dw_history w) (db_addresses d') = Some pf"
    "dw_block_events w = [SeNewBlock height pf (hd_hash (blk_header b))]"
    using block_tables [OF h tokens new(1) room] unfolding d'_def es_def by blast
  have "prev_block_proof X d' height = prev_block_proof X d height"
    by (rule prev_block_proof_kept [OF pf(1) new(2)])
  then show ?thesis
    using pf by (simp add: rest_history_new_eq split_def)
qed

theorem proof_recomputable_witness:
  "\<exists>w h' pf. handle_block deploy_env (is_db (example_state 0)) holders_empty 5000000 deploy_block = Inr (w, h')
    \<and> db_proof_of_history (fold written (dw_processed w) (is_db (example_state 0))) 5000000 = Some pf
    \<and> sends_first (stored_entries (fold written (dw_processed w) (is_db (example_state 0))) 5000000) = [deploy_entry]"
proof -
  let ?d = "is_db (example_state 0)"
  obtain w h' where w: "handle_block deploy_env ?d holders_empty 5000000 deploy_block = Inr (w, h')" "dw_history w = [deploy_entry]"
    using deploy_block_handled [of 0] by blast
  have room: "\<not> 5000000 < start_height (pe_network (ie_parser deploy_env)) (e_chain (pe_env (ie_parser deploy_env)))"
    "db_block_events ?d 5000000 = None" "unat (history_id ?d) + length (dw_history w) < 2 ^ 64" "(5000000 :: u32) \<noteq> 0"
    using w(2) by (simp_all add: deploy_env_def deploy_parser_def example_parser_def example_state_def db_empty_def history_id_def)
  show ?thesis
    using w proof_recomputable [OF w(1) room(1, 2, 4, 3)] block_tables [OF w(1) room(1, 2, 3)] by auto
qed

end
