(* ===== verification/SafetyProps.thy ===== *)
theory SafetyProps
  imports TokenBlock
begin

text \<open>
  The indexer over any chain a node can give it: what is assumed of a block is the node's part only,
  and where two transfer inscriptions of a block share a location the theorem says so instead of
  excluding it.
\<close>

section \<open>Chains from a node\<close>

text \<open>The next block of a chain that grows, as the node guarantees it, and the two third-party formats.\<close>

definition node_block :: "index_env \<Rightarrow> block_event \<Rightarrow> index_state \<Rightarrow> bool" where
  "node_block X ev s \<longleftrightarrow> be_reorg_len ev = 0 \<and> next_height ev s
     \<and> fixed_json (pe_env (ie_parser X)) (pe_json (ie_parser X)) \<and> (\<forall>r. ie_json X r \<noteq> None)
     \<and> valid_block (ie_parser X) (is_db s) (be_block ev)
     \<and> card (dom (db_transfers (is_db s))) + block_value (be_block ev) < 2 ^ 64"

fun node_chain :: "index_env \<Rightarrow> block_event list \<Rightarrow> index_state \<Rightarrow> bool" where
  "node_chain X [] s \<longleftrightarrow> True"
| "node_chain X (ev # evs) s \<longleftrightarrow> node_block X ev s
     \<and> (case index_step X True False ev s of Inl _ \<Rightarrow> True | Inr s' \<Rightarrow> node_chain X evs s')"

text \<open>Two transfer inscriptions that the parser takes out of the block lie at one location.\<close>

definition shares_location :: "parser_env \<Rightarrow> db \<Rightarrow> u32 \<Rightarrow> block \<Rightarrow> bool" where
  "shares_location P d height b \<longleftrightarrow>
     (case process_prevouts P d b of
        Inl _ \<Rightarrow> False
      | Inr (prevouts, _) \<Rightarrow>
          (case parse_block P d height b prevouts (token_cache_load prevouts (db_transfers d)) of
             None \<Rightarrow> False
           | Some (c, _) \<Rightarrow> \<not> distinct (transfer_locs (tc_actions c))))"

lemma node_block_next:
  assumes "node_block X ev s"
    and "\<not> (e_chain (pe_env (ie_parser X)) \<noteq> Dogecoin
      \<and> shares_location (ie_parser X) (is_db s) (ucast (be_height ev)) (be_block ev))"
  shows "next_block X ev s"
proof -
  have "single_transfers (ie_parser X) (is_db s) (ucast (be_height ev)) (be_block ev)"
    using assms(2) by (auto simp: single_transfers_def guarded_iff shares_location_def)
  with assms(1) show ?thesis by (simp add: node_block_def next_block_def index_env_ok_def)
qed

section \<open>The property\<close>

text \<open>C1.  The indexer over a chain that grows: if the database is sound at the start - its ledger satisfies
  the invariant, its holder index matches, its open transfers lie with the owners of their outputs -
  and every block is one a node accepts, then the loop indexes all blocks without an error or panic
  and leaves a sound database and an undo log without gaps; or, on a chain other than Dogecoin, it
  does so up to a first block that has two transfer inscriptions at one location.\<close>

theorem indexing_keeps_database:
  assumes "state_ok X s" and "node_chain X evs s"
  shows "\<exists>n s'. index_loop X True (take n evs) s = (s', None) \<and> state_ok X s'
    \<and> (length evs \<le> n \<or> n < length evs \<and> e_chain (pe_env (ie_parser X)) \<noteq> Dogecoin
        \<and> shares_location (ie_parser X) (is_db s') (ucast (be_height (evs ! n))) (be_block (evs ! n)))"
  using assms
proof (induction evs arbitrary: s)
  case Nil
  then show ?case by simp
next
  case (Cons ev evs)
  show ?case
  proof (cases "e_chain (pe_env (ie_parser X)) \<noteq> Dogecoin
      \<and> shares_location (ie_parser X) (is_db s) (ucast (be_height ev)) (be_block ev)")
    case True
    with Cons.prems(1) show ?thesis by (intro exI [of _ 0] exI [of _ s]) simp
  next
    case False
    with Cons.prems have "next_block X ev s" by (intro node_block_next) simp_all
    then obtain s1 where s1: "index_step X True False ev s = Inr s1" "state_ok X s1"
      using index_step_safe [OF Cons.prems(1)] by blast
    then obtain n s' where "index_loop X True (take n evs) s1 = (s', None)" "state_ok X s'"
      "length evs \<le> n \<or> n < length evs \<and> e_chain (pe_env (ie_parser X)) \<noteq> Dogecoin
        \<and> shares_location (ie_parser X) (is_db s') (ucast (be_height (evs ! n))) (be_block (evs ! n))"
      using Cons.IH [OF s1(2)] Cons.prems(2) by auto
    with s1(1) show ?thesis by (intro exI [of _ "Suc n"] exI [of _ s']) simp
  qed
qed

text \<open>The witness indexes the deployment of a token, which is in the table afterwards.\<close>

definition deploy_event :: block_event where
  "deploy_event = (example_event 5000000 [])\<lparr> be_block := deploy_block, be_tip := 6000000 \<rparr>"

lemma deploy_chain: "node_chain deploy_env [deploy_event] (example_state 4999999)"
proof -
  have "card (dom (db_transfers (is_db (example_state 4999999)))) + block_value deploy_block < 2 ^ 64"
    unfolding block_value_def deploy_block_shape
    by (simp add: example_state_def db_empty_def example_cb_def example_deploying_def
        example_payment_def example_out_def out_values_def)
  then have "node_block deploy_env deploy_event (example_state 4999999)"
    using deploy_block_valid deploy_env_ok
    by (simp add: node_block_def deploy_event_def example_event_def next_height_def ie_proof_def deploy_env_def)
      (simp add: example_state_def)
  then show ?thesis by (simp split: sum.splits)
qed

lemma deploy_state_ok: "state_ok deploy_env (example_state prev)"
  using example_state_ok
  by (simp add: state_ok_def deploy_env_def deploy_parser_def example_index_env_def)

theorem indexing_keeps_database_witness:
  "\<exists>s'. index_loop deploy_env True [deploy_event] (example_state 4999999) = (s', None) \<and> state_ok deploy_env s'
    \<and> db_token_to_meta (is_db s') deploy_key \<noteq> None"
proof -
  have "e_chain (pe_env (ie_parser deploy_env)) = Dogecoin"
    by (simp add: deploy_env_def deploy_parser_def example_parser_def)
  with indexing_keeps_database [OF deploy_state_ok deploy_chain] obtain s'
    where s': "index_loop deploy_env True [deploy_event] (example_state 4999999) = (s', None)" "state_ok deploy_env s'"
    by auto
  then have step: "index_step deploy_env True False deploy_event (example_state 4999999) = Inr s'"
    by (simp split: sum.splits)
  obtain w h where w: "handle_block deploy_env (is_db (example_state 4999999)) holders_empty 5000000 deploy_block = Inr (w, h)"
    "db_token_to_meta (fold written (dw_processed w) (is_db (example_state 4999999))) deploy_key \<noteq> None"
    using deploy_block_handled by blast
  have "is_db s' = fold written (dw_processed w) (is_db (example_state 4999999))"
    using step w(1)
    by (auto simp: index_step_def drop_log_def roll_back_def handle_def write_all_unlogged deploy_event_def example_event_def
        example_state_def reorg_cache_new_def keeps_log_def reorg_cache_max_len_def)
  with w(2) s' show ?thesis by auto
qed

end
