(* ===== verification/ScriptProps.thy ===== *)
theory ScriptProps
  imports Scripts
begin

text \<open>
  Round trips of the script readers: scripts built from pushes read back as those pushes, an
  inscription written in pieces over several inputs is put together again, and an envelope gives
  its content type and body.  The two longer push opcodes are read wrongly, which is shown too.
\<close>

section \<open>Numbers\<close>

lemma push_number_loop:
  assumes "m + 8 * length data \<le> 64"
  shows "fold (\<lambda>b (n, m). (n + push_bit m (ucast b), m + 8)) data (n :: u64, m)
    = (n + push_bit m (word_of_nat (le_nat data)), m + 8 * length data)"
  using assms
proof (induction data arbitrary: n m)
  case Nil
  then show ?case by simp
next
  case (Cons b data)
  have b: "(ucast b :: u64) = word_of_nat (unat b)" by simp
  have "push_bit m (ucast b) + push_bit (m + 8) (word_of_nat (le_nat data)) =
      (push_bit m (word_of_nat (le_nat (b # data))) :: u64)"
    unfolding b push_bit_eq_mult le_nat.simps of_nat_add of_nat_mult power_add
    by (simp add: distrib_left mult.commute mult.left_commute)
  with Cons show ?case by (simp add: add.assoc)
qed

text \<open>The loop reads a little endian number.\<close>

lemma push_data_to_number_le:
  "push_data_to_number data = (if length data \<le> 8 then Some (word_of_nat (le_nat data)) else None)"
  using push_number_loop [of 0 data 0] by (auto simp: push_data_to_number_def)

definition push_number :: "u64 \<Rightarrow> bytes" where
  "push_number n = le_bytes 8 (unat n)"

lemma push_number_back [simp]: "push_data_to_number (push_number n) = Some n"
  using unat_u64_less [of n]
  by (simp add: push_data_to_number_le push_number_def le_nat_le_bytes)

section \<open>Pushes\<close>

text \<open>How a wallet pushes up to 255 bytes.\<close>

definition push_script :: "bytes \<Rightarrow> bytes" where
  "push_script d =
     (if length d \<le> 75 then word_of_nat (length d) # d else 76 # word_of_nat (length d) # d)"

lemma decode_push_script:
  assumes "length d < 256"
  shows "decode_push_datas (push_script d @ rest) = map_option ((#) d) (decode_push_datas rest)"
proof -
  have small: "unat (word_of_nat (length d) :: u8) = length d"
    using assms by (simp add: unat_of_nat)
  have le: "(word_of_nat (length d) :: u8) \<le> 75 \<longleftrightarrow> length d \<le> 75"
    unfolding word_le_nat_alt small by simp
  have z: "(word_of_nat (length d) :: u8) = 0 \<longleftrightarrow> d = []"
    using small by (metis length_0_conv unat_eq_zero)
  have one: "1 \<le> (word_of_nat (length d) :: u8) \<longleftrightarrow> d \<noteq> []"
    unfolding word_le_nat_alt small by (cases d) auto
  have hi: "81 \<le> (word_of_nat (length d) :: u8) \<longleftrightarrow> 81 \<le> length d"
    unfolding word_le_nat_alt small by simp
  show ?thesis
  proof (cases "length d \<le> 75")
    case True
    then show ?thesis
      using z one hi le small
      by (subst decode_push_datas.simps) (simp add: push_script_def Let_def)
  next
    case False
    then show ?thesis
      using small by (subst decode_push_datas.simps) (simp add: push_script_def Let_def)
  qed
qed

lemma decode_empty [simp]: "decode_push_datas [] = Some []"
  by (simp add: decode_push_datas.simps)

section \<open>Pieces\<close>

text \<open>The pushes for the last pieces of a body, each announced by the number of pieces after it.\<close>

fun piece_pushes :: "bytes list \<Rightarrow> bytes list" where
  "piece_pushes [] = []"
| "piece_pushes (c # cs) = push_number (word_of_nat (length cs)) # c # piece_pushes cs"

text \<open>The same for pieces with more to come in later scripts.\<close>

fun group_pushes :: "bytes list \<Rightarrow> nat \<Rightarrow> bytes list" where
  "group_pushes [] later = []"
| "group_pushes (c # cs) later =
     push_number (word_of_nat (length cs + later)) # c # group_pushes cs later"

lemma length_group_pushes [simp]: "length (group_pushes cs later) = 2 * length cs"
  by (induction cs) auto

lemma unat_of_nat_eq_self: "n < 2 ^ 64 \<Longrightarrow> unat (word_of_nat n :: u64) = n"
  by (simp add: unat_of_nat)

lemma chunk_loop_group:
  assumes "length cs + later < 2 ^ 64"
  shows "chunk_loop (word_of_nat (length cs + later)) (group_pushes cs later @ rest) body
    = chunk_loop (word_of_nat later) rest (body @ concat cs)"
  using assms
proof (induction cs arbitrary: body)
  case Nil
  then show ?case by simp
next
  case (Cons c cs)
  have "(word_of_nat (length (c # cs) + later) :: u64) \<noteq> 0"
    using Cons.prems unat_of_nat_eq_self [of "length (c # cs) + later"] by (metis Zero_not_Suc add_Suc length_Cons unsigned_0)
  then show ?case using Cons by simp
qed

lemma chunk_loop_stop:
  "npieces \<noteq> 0 \<Longrightarrow> chunk_loop npieces [] body = Inl (npieces, body)"
  by simp

definition script_of :: "bytes list \<Rightarrow> bytes" where
  "script_of ds = concat (map push_script ds)"

lemma decode_script_of:
  assumes "\<And>d. d \<in> set ds \<Longrightarrow> length d < 256"
  shows "decode_push_datas (script_of ds) = Some ds"
  using assms
proof (induction ds)
  case Nil
  then show ?case by (simp add: script_of_def)
next
  case (Cons d ds)
  then show ?case using decode_push_script [of d "script_of ds"] by (simp add: script_of_def)
qed

lemma decode_pushdata2:
  assumes "n = unat l * 2 ^ 8 + 77"
  shows "decode_push_datas (77 # l # h # d) = (if length d < n then None
    else map_option ((#) (take n d)) (decode_push_datas (drop n d)))"
proof -
  have "drop (3 + n) (77 # l # h # d) = drop n d" "take n (drop 3 (77 # l # h # d)) = take n d"
    by (simp_all add: numeral_3_eq_3)
  moreover have "length (77 # l # h # d) < 3 + n \<longleftrightarrow> length d < n" "\<not> length (77 # l # h # d) < 3"
    by auto
  moreover have "unat ((77 # l # h # d) ! 1) * 2 ^ 8 + unat ((77 # l # h # d) ! 0) = n"
    using assms by simp
  ultimately show ?thesis
    by (subst decode_push_datas.simps) (simp only: Let_def, simp)
qed

text \<open>The scripts of the later inputs: every group of pieces in a script of its own.\<close>

fun group_scripts :: "bytes list list \<Rightarrow> bytes list" where
  "group_scripts [] = []"
| "group_scripts (g # gs) = script_of (group_pushes g (length (concat gs))) # group_scripts gs"

definition pieces_ok :: "bytes list list \<Rightarrow> bool" where
  "pieces_ok gs \<longleftrightarrow> list_all (\<lambda>g. g \<noteq> [] \<and> list_all (\<lambda>c. length c < 256) g) gs
     \<and> length (concat gs) < 2 ^ 64"

lemma group_pushes_small:
  "list_all (\<lambda>c. length c < 256) g \<Longrightarrow> d \<in> set (group_pushes g later) \<Longrightarrow> length d < 256"
  by (induction g) (auto simp: push_number_def)

lemma script_loop_groups:
  assumes "pieces_ok (g # gs)"
  shows "script_loop ct (word_of_nat (length (concat (g # gs)))) (group_pushes g (length (concat gs))) body
      (group_scripts gs)
    = ParsedSingle (plain_inscription ct (body @ concat (concat (g # gs))))"
  using assms
proof (induction gs arbitrary: g body)
  case Nil
  then show ?case
    using chunk_loop_group [of g 0 "[]" body] by (simp add: pieces_ok_def)
next
  case (Cons g' gs)
  let ?n = "length (concat (g' # gs))" and ?p = "group_pushes g' (length (concat gs))"
  have ok: "pieces_ok (g' # gs)" and small: "length g + ?n < 2 ^ 64" and ne: "g' \<noteq> []"
    using Cons.prems by (auto simp: pieces_ok_def)
  have n: "(word_of_nat ?n :: u64) \<noteq> 0"
    using small ne unat_of_nat_eq_self [of ?n] by (metis add_lessD1 add.commute concat.simps(2) length_0_conv append_is_Nil_conv unsigned_0)
  have chunk: "chunk_loop (word_of_nat (length (concat (g # g' # gs)))) (group_pushes g ?n) body
      = Inl (word_of_nat ?n, body @ concat g)"
    using chunk_loop_group [OF small, of "[]" body] n by simp
  have dec: "decode_push_datas (script_of ?p) = Some ?p"
    using ok by (intro decode_script_of) (auto simp: pieces_ok_def intro: group_pushes_small)
  obtain c cs where g': "g' = c # cs" using ne by (cases g') auto
  have first: "push_data_to_number (?p ! 0) = Some (word_of_nat ?n - 1)" "2 \<le> length ?p"
    by (simp_all add: g')
  show ?case
    using Cons.IH [OF ok, of "body @ concat g"] dec first ne
    by (simp add: chunk del: group_pushes.simps concat.simps) simp
qed

text \<open>The first script: protocol, number of pieces, content type, the first pieces.\<close>

definition inscription_scripts :: "bytes \<Rightarrow> bytes list list \<Rightarrow> bytes list" where
  "inscription_scripts ct gs =
     (case gs of
        [] \<Rightarrow> []
      | g # gs \<Rightarrow> script_of (protocol_id # push_number (word_of_nat (length (concat (g # gs)))) # ct
            # group_pushes g (length (concat gs))) # group_scripts gs)"

lemma script_loop_prefix:
  assumes "pieces_ok (g # gs)" and "k < length gs"
  shows "script_loop ct (word_of_nat (length (concat (g # gs)))) (group_pushes g (length (concat gs))) body
      (take k (group_scripts gs)) = ParsedPartial"
  using assms
proof (induction gs arbitrary: g body k)
  case Nil
  then show ?case by simp
next
  case (Cons g' gs)
  let ?n = "length (concat (g' # gs))" and ?p = "group_pushes g' (length (concat gs))"
  have ok: "pieces_ok (g' # gs)" and small: "length g + ?n < 2 ^ 64" and ne: "g' \<noteq> []"
    using Cons.prems by (auto simp: pieces_ok_def)
  have n: "(word_of_nat ?n :: u64) \<noteq> 0"
    using small ne unat_of_nat_eq_self [of ?n] by (metis add_lessD1 add.commute concat.simps(2) length_0_conv append_is_Nil_conv unsigned_0)
  have chunk: "chunk_loop (word_of_nat (length (concat (g # g' # gs)))) (group_pushes g ?n) body
      = Inl (word_of_nat ?n, body @ concat g)"
    using chunk_loop_group [OF small, of "[]" body] n by simp
  show ?case
  proof (cases k)
    case 0
    with chunk show ?thesis by (simp del: group_pushes.simps concat.simps)
  next
    case (Suc k')
    have dec: "decode_push_datas (script_of ?p) = Some ?p"
      using ok by (intro decode_script_of) (auto simp: pieces_ok_def intro: group_pushes_small)
    obtain c cs where g': "g' = c # cs" using ne by (cases g') auto
    have first: "push_data_to_number (?p ! 0) = Some (word_of_nat ?n - 1)" "2 \<le> length ?p"
      by (simp_all add: g')
    have "k' < length gs" using Suc Cons.prems(2) by simp
    with Cons.IH [OF ok this, of "body @ concat g"] dec first ne Suc show ?thesis
      by (simp add: chunk del: group_pushes.simps concat.simps)
  qed
qed

text \<open>An envelope as wallets write it.\<close>

definition envelope_instructions :: "(bytes \<times> bytes) list \<Rightarrow> bytes list \<Rightarrow> instruction option list" where
  "envelope_instructions kvs chunks = map Some ([PushBytes [], Op op_if, PushBytes protocol_id]
     @ concat (map (\<lambda>(k, v). [PushBytes k, PushBytes v]) kvs)
     @ [PushBytes []] @ map PushBytes chunks @ [Op op_endif])"

lemma payload_loop_pushes:
  "payload_loop (map (Some \<circ> PushBytes) ps @ Some (Op op_endif) # is) pushnum payload
    = Some (Some (pushnum, payload @ ps), is)"
  by (induction ps arbitrary: payload) simp_all

lemma envelope_payload:
  "map Some (concat (map (\<lambda>(k, v). [PushBytes k, PushBytes v]) kvs))
    = map (Some \<circ> PushBytes) (concat (map (\<lambda>(k, v). [k, v]) kvs))"
  by (induction kvs) auto

definition written_envelope :: "u32 \<Rightarrow> (bytes \<times> bytes) list \<Rightarrow> bytes list \<Rightarrow> raw_envelope" where
  "written_envelope vin kvs chunks = \<lparr> re_input = vin, re_offset = 0,
     re_payload = concat (map (\<lambda>(k, v). [k, v]) kvs) @ [] # chunks, re_pushnum = False, re_stutter = False \<rparr>"

lemma from_tapscript_envelope:
  assumes "ins script = envelope_instructions kvs chunks"
  shows "from_tapscript ins script vin = Some [written_envelope vin kvs chunks]"
proof -
  let ?ps = "concat (map (\<lambda>(k, v). [k, v]) kvs) @ [] # chunks"
  have e: "envelope_instructions kvs chunks = Some (PushBytes []) # Some (Op op_if) # Some (PushBytes protocol_id)
      # map (Some \<circ> PushBytes) ?ps @ [Some (Op op_endif)]"
    by (simp add: envelope_instructions_def envelope_payload)
  have "from_instructions (Some (Op op_if) # Some (PushBytes protocol_id)
      # map (Some \<circ> PushBytes) ?ps @ [Some (Op op_endif)]) vin 0 False
    = Some ((False, Some (written_envelope vin kvs chunks)), [])"
    using payload_loop_pushes [of ?ps "[]" False "[]"]
    by (simp add: from_instructions_def accept_instruction_def written_envelope_def)
  then show ?thesis
    unfolding from_tapscript_def assms e
    by (subst tapscript_loop.simps) (simp add: tapscript_loop.simps del: map_append map_concat)
qed

lemma fields_push_new: "k \<notin> fst ` set fs \<Longrightarrow> fields_push k v fs = fs @ [(k, [v])]"
  by (induction fs) auto

lemma read_fields_pairs:
  assumes "distinct (map fst kvs)" and "fst ` set kvs \<inter> fst ` set fs = {}"
  shows "read_fields (concat (map (\<lambda>(k, v). [k, v]) kvs)) (fs, b) = (fs @ map (\<lambda>(k, v). (k, [v])) kvs, b)"
  using assms
proof (induction kvs arbitrary: fs)
  case Nil
  then show ?case by simp
next
  case (Cons kv kvs)
  obtain k v where kv: "kv = (k, v)" by (cases kv)
  have "fields_push k v fs = fs @ [(k, [v])]" using Cons.prems(2) kv by (intro fields_push_new) auto
  with Cons kv show ?case by auto
qed

lemma body_position_pairs:
  assumes "list_all (\<lambda>(k, v). k \<noteq> []) kvs" and "i mod 2 = 0"
  shows "body_position i (concat (map (\<lambda>(k, v). [k, v]) kvs) @ [] # chunks) = Some (i + 2 * length kvs)"
  using assms
proof (induction kvs arbitrary: i)
  case Nil
  then show ?case by simp
next
  case (Cons kv kvs)
  obtain k v where kv: "kv = (k, v)" by (cases kv)
  have "Suc i mod 2 = 1" using Cons.prems(2) by presburger
  with Cons kv show ?case by simp
qed

definition single_fields :: "(bytes \<times> bytes) list \<Rightarrow> fields" where
  "single_fields kvs = map (\<lambda>(k, v). (k, [v])) kvs"

lemma map_of_single_fields: "map_of (single_fields kvs) k = map_option (\<lambda>v. [v]) (map_of kvs k)"
  by (induction kvs) (auto simp: single_fields_def)

lemma fields_remove_single:
  "fields_remove k (single_fields kvs) = single_fields (filter (\<lambda>(k', v). k' \<noteq> k) kvs)"
  by (induction kvs) (auto simp: single_fields_def)

lemma tag_take_single:
  "tag_take t (single_fields kvs) = (map_of kvs (tag_bytes t),
     single_fields (filter (\<lambda>(k', v). k' \<noteq> tag_bytes t) kvs))"
proof (cases "map_of kvs (tag_bytes t)")
  case None
  then have "filter (\<lambda>(k', v). k' \<noteq> tag_bytes t) kvs = kvs"
    by (auto simp: map_of_eq_None_iff filter_id_conv image_iff)
  with None show ?thesis by (simp add: tag_take_def map_of_single_fields)
next
  case (Some v)
  then show ?thesis
    by (simp add: tag_take_def map_of_single_fields fields_remove_single del: fields_remove.simps)
qed

lemma tag_take_array_single:
  "tag_take_array t (single_fields kvs) = (case map_of kvs (tag_bytes t) of Some v \<Rightarrow> [v] | None \<Rightarrow> [],
     single_fields (filter (\<lambda>(k', v). k' \<noteq> tag_bytes t) kvs))"
  by (simp add: tag_take_array_def map_of_single_fields fields_remove_single
      del: fields_remove.simps split: option.split)

lemma map_of_filter_other: "k \<noteq> k' \<Longrightarrow> map_of (filter (\<lambda>(a, v). a \<noteq> k') kvs) k = map_of kvs k"
  by (induction kvs) auto

lemma parse_written_envelope:
  assumes "distinct (map fst kvs)" and "list_all (\<lambda>(k, v). k \<noteq> []) kvs"
  shows "in_body (parse_envelope (written_envelope vin kvs chunks)) = Some (concat chunks)
    \<and> in_content_type (parse_envelope (written_envelope vin kvs chunks)) = map_of kvs [1]
    \<and> in_pointer (parse_envelope (written_envelope vin kvs chunks)) = map_of kvs [2]
    \<and> in_delegate (parse_envelope (written_envelope vin kvs chunks)) = map_of kvs [11]
    \<and> in_metadata (parse_envelope (written_envelope vin kvs chunks)) = map_of kvs [5]
    \<and> \<not> in_duplicate_field (parse_envelope (written_envelope vin kvs chunks))
    \<and> \<not> in_incomplete_field (parse_envelope (written_envelope vin kvs chunks))"
proof -
  let ?q = "concat (map (\<lambda>(k, v). [k, v]) kvs)"
  have len: "length ?q = 2 * length kvs" by (induction kvs) auto
  have body: "body_position 0 (?q @ [] # chunks) = Some (2 * length kvs)"
    using body_position_pairs [OF assms(2), of 0 chunks] by simp
  have rf: "read_fields ?q ([], False) = (single_fields kvs, False)"
    using read_fields_pairs [OF assms(1), of "[]" False] by (simp add: single_fields_def)
  have tk: "take (2 * length kvs) (?q @ [] # chunks) = ?q"
    and dr: "drop (2 * length kvs + 1) (?q @ [] # chunks) = chunks"
    using len by simp_all
  have dup: "\<not> list_ex (\<lambda>(k, vs). 1 < length vs) (single_fields kvs)"
    by (auto simp: single_fields_def list_ex_iff)
  show ?thesis
    unfolding parse_envelope_def written_envelope_def raw_envelope.select_convs Let_def body
      option.case option.map tk dr rf prod.case tag_take_single tag_take_array_single
      inscription.select_convs tag_bytes.simps
    using dup by (simp add: map_of_filter_other del: filter_filter)
qed

section \<open>Properties\<close>

text \<open>C17.  An inscription written in pieces reads back: a body cut into pieces of at most 255 bytes,
  grouped over any number of input scripts, gives the inscription with its content type and the
  whole body.\<close>

theorem pieces_roundtrip:
  assumes "pieces_ok (g # gs)" and "length ct < 256"
  shows "parse_scripts (hd (inscription_scripts ct (g # gs))) (tl (inscription_scripts ct (g # gs)))
    = ParsedSingle (plain_inscription ct (concat (concat (g # gs))))"
proof -
  let ?n = "length (concat (g # gs))" and ?p = "group_pushes g (length (concat gs))"
  have "decode_push_datas (script_of (protocol_id # push_number (word_of_nat ?n) # ct # ?p))
      = Some (protocol_id # push_number (word_of_nat ?n) # ct # ?p)"
    using assms by (intro decode_script_of)
      (auto simp: pieces_ok_def protocol_id_def str_bytes_def push_number_def intro: group_pushes_small)
  moreover have "(word_of_nat ?n :: u64) \<noteq> 0"
    using assms unat_of_nat_eq_self [of ?n] by (auto simp: pieces_ok_def simp del: length_concat)
  ultimately show ?thesis
    using script_loop_groups [OF assms(1), of ct "[]"]
    by (simp add: inscription_scripts_def parse_scripts_def del: concat.simps)
qed

theorem pieces_roundtrip_witness:
  "parse_scripts (hd (inscription_scripts [116] [[[1, 2], [3]], [[4]]]))
      (tl (inscription_scripts [116] [[[1, 2], [3]], [[4]]]))
    = ParsedSingle (plain_inscription [116] [1, 2, 3, 4])"
  using pieces_roundtrip [of "[[1, 2], [3]]" "[[[4]]]" "[116]"] by (simp add: pieces_ok_def)

text \<open>C29.  A push of at most 255 bytes, written with a length byte or \<open>OP_PUSHDATA1\<close>, is read back
  exactly; a push written with \<open>OP_PUSHDATA2\<close>, whose two length bytes follow the opcode low byte
  first, is read with a length of 77 plus 256 times the low byte, so it is read back only if it is
  19789 bytes long, and no standard push above 255 bytes is.\<close>

theorem push_lengths:
  "(\<forall>ds. list_all (\<lambda>d. length d < 256) ds \<longrightarrow> decode_push_datas (script_of ds) = Some ds)
   \<and> (\<forall>d. length d < 2 ^ 16 \<longrightarrow>
        (decode_push_datas (77 # le_bytes 2 (length d) @ d) = Some [d] \<longleftrightarrow> length d = 19789))"
proof (intro conjI allI impI)
  fix ds :: "bytes list" assume "list_all (\<lambda>d. length d < 256) ds"
  then show "decode_push_datas (script_of ds) = Some ds"
    by (intro decode_script_of) (auto simp: list_all_iff)
next
  fix d :: bytes
  let ?bs = "77 # le_bytes 2 (length d) @ d"
  have two: "le_bytes 2 (length d) = [word_of_nat (length d mod 256), word_of_nat (length d div 256 mod 256)]"
    by (simp add: numeral_2_eq_2)
  have lo: "unat (word_of_nat (length d mod 256) :: u8) = length d mod 256"
    by (simp add: unat_of_nat)
  let ?len = "length d mod 256 * 256 + 77"
  have eq: "decode_push_datas ?bs = (if length d < ?len then None
      else map_option ((#) (take ?len d)) (decode_push_datas (drop ?len d)))"
    unfolding two append.simps by (rule decode_pushdata2) (simp only: lo, simp)
  show "decode_push_datas ?bs = Some [d] \<longleftrightarrow> length d = 19789"
  proof
    assume "decode_push_datas ?bs = Some [d]"
    with eq have some: "Some [d] = (if length d < ?len then None
        else map_option ((#) (take ?len d)) (decode_push_datas (drop ?len d)))" by (simp only:)
    then have ge: "?len \<le> length d"
      by (cases "length d < ?len") (simp_all only: if_True option.distinct not_less)
    with some have "map_option ((#) (take ?len d)) (decode_push_datas (drop ?len d)) = Some [d]"
      by (simp only: not_less [symmetric] if_False)
    then have "take ?len d = d" by (auto simp del: take_all_iff)
    with ge have L: "length d = ?len" by (metis length_take min.absorb2)
    have "length d mod 256 = ?len mod 256" by (rule arg_cong [OF L])
    then have "length d mod 256 = 77" by simp
    with L show "length d = 19789" by simp
  next
    assume "length d = 19789"
    with eq show "decode_push_datas ?bs = Some [d]" by (simp add: decode_push_datas.simps)
  qed
qed

theorem push_lengths_witness:
  "decode_push_datas (script_of [[1, 2]]) = Some [[1, 2]]
   \<and> decode_push_datas (77 # le_bytes 2 (length [7 :: u8]) @ [7]) \<noteq> Some [[7]]"
  using conjunct1 [OF push_lengths, rule_format, of "[[1, 2]]"]
    conjunct2 [OF push_lengths, rule_format, of "[7]"] by simp

text \<open>With some of its scripts still missing, an inscription written in pieces is reported as
  partial, so the pieces found are kept for the inputs to come.\<close>

lemma pieces_partial:
  assumes "pieces_ok (g # gs)" and "length ct < 256" and "k < length gs"
  shows "parse_scripts (hd (inscription_scripts ct (g # gs)))
      (take k (tl (inscription_scripts ct (g # gs)))) = ParsedPartial"
proof -
  let ?n = "length (concat (g # gs))" and ?p = "group_pushes g (length (concat gs))"
  have "decode_push_datas (script_of (protocol_id # push_number (word_of_nat ?n) # ct # ?p))
      = Some (protocol_id # push_number (word_of_nat ?n) # ct # ?p)"
    using assms by (intro decode_script_of)
      (auto simp: pieces_ok_def protocol_id_def str_bytes_def push_number_def intro: group_pushes_small)
  moreover have "(word_of_nat ?n :: u64) \<noteq> 0"
    using assms unat_of_nat_eq_self [of ?n] by (auto simp: pieces_ok_def simp del: length_concat)
  ultimately show ?thesis
    using script_loop_prefix [OF assms(1,3), of ct "[]"]
    by (simp add: inscription_scripts_def parse_scripts_def del: concat.simps)
qed

text \<open>C16.  A tapscript with one envelope of distinct, non-empty tags and a body is read as one
  inscription with the whole body, the content type, pointer, delegate and metadata of its tags,
  and no duplicate or incomplete field.\<close>

theorem envelope_roundtrip:
  assumes "ins script = envelope_instructions kvs chunks"
    and "distinct (map fst kvs)" and "list_all (\<lambda>(k, v). k \<noteq> []) kvs"
  shows "\<exists>i. from_parts ins \<lparr> pt_is_tapscript = True, pt_script_buffer = script \<rparr> [] vin = ParsedMany [i]
    \<and> in_body i = Some (concat chunks) \<and> in_content_type i = map_of kvs [1]
    \<and> in_pointer i = map_of kvs [2] \<and> in_delegate i = map_of kvs [11] \<and> in_metadata i = map_of kvs [5]
    \<and> \<not> in_duplicate_field i \<and> \<not> in_incomplete_field i"
  using parse_written_envelope [OF assms(2,3), of vin chunks] from_tapscript_envelope [where ins = ins, OF assms(1), of vin]
  by (simp add: from_parts_def)

theorem envelope_roundtrip_witness:
  "\<exists>i. from_parts (\<lambda>_. envelope_instructions [([1], [116])] [[104], [105]])
      \<lparr> pt_is_tapscript = True, pt_script_buffer = [] \<rparr> [] 0 = ParsedMany [i]
    \<and> in_body i = Some [104, 105] \<and> in_content_type i = Some [116]"
  using envelope_roundtrip [of "\<lambda>_. envelope_instructions [([1], [116])] [[104], [105]]" "[]" "[([1], [116])]" "[[104], [105]]" 0]
  by auto

end
