(* ===== verification/Checkpoints.thy ===== *)
theory Checkpoints
  imports Prelude
begin

text \<open>
  Checkpoints (\<open>packages/new-blk-parser/src/blockchain/checkpoint.rs\<close> and \<open>block_id.rs\<close>): a linked
  list of block ids from the tip of a chain downwards.  A node is shared and counted in the code;
  nothing changes a node once it is built, so a value models it.  \<open>Inl\<close> is the error of a
  \<open>Result\<close>, \<open>None\<close> a panic.
\<close>

record block_id =
  bid_height :: u64
  bid_hash :: hash32

datatype checkpoint = CheckPoint block_id "checkpoint option"

section \<open>Operations\<close>

definition cp_new :: "block_id \<Rightarrow> checkpoint" where
  "cp_new b = CheckPoint b None"

fun cp_block_id :: "checkpoint \<Rightarrow> block_id" where
  "cp_block_id (CheckPoint b p) = b"

definition cp_height :: "checkpoint \<Rightarrow> u64" where
  "cp_height cp = bid_height (cp_block_id cp)"

definition cp_hash :: "checkpoint \<Rightarrow> hash32" where
  "cp_hash cp = bid_hash (cp_block_id cp)"

fun cp_prev :: "checkpoint \<Rightarrow> checkpoint option" where
  "cp_prev (CheckPoint b p) = p"

text \<open>\<open>CheckPointIter\<close>: the checkpoints from the tip downwards.\<close>

fun cp_iter :: "checkpoint \<Rightarrow> checkpoint list" where
  "cp_iter (CheckPoint b None) = [CheckPoint b None]"
| "cp_iter (CheckPoint b (Some p)) = CheckPoint b (Some p) # cp_iter p"

definition cp_eq :: "checkpoint \<Rightarrow> checkpoint \<Rightarrow> bool" where
  "cp_eq a b \<longleftrightarrow> map cp_block_id (cp_iter a) = map cp_block_id (cp_iter b)"

definition cp_push :: "block_id \<Rightarrow> checkpoint \<Rightarrow> checkpoint + checkpoint" where
  "cp_push b cp = (if cp_height cp < bid_height b then Inr (CheckPoint b (Some cp)) else Inl cp)"

text \<open>The loop of \<open>extend\<close> gives back the checkpoint it started from on an error, that of
  \<open>from_block_ids\<close> the last one it built.\<close>

fun cp_extend_from :: "checkpoint \<Rightarrow> block_id list \<Rightarrow> checkpoint \<Rightarrow> checkpoint + checkpoint" where
  "cp_extend_from self [] cp = Inr cp"
| "cp_extend_from self (b # bs) cp =
     (case cp_push b cp of Inl _ \<Rightarrow> Inl self | Inr cp \<Rightarrow> cp_extend_from self bs cp)"

definition cp_extend :: "block_id list \<Rightarrow> checkpoint \<Rightarrow> checkpoint + checkpoint" where
  "cp_extend bs cp = cp_extend_from cp bs cp"

fun cp_push_all :: "block_id list \<Rightarrow> checkpoint \<Rightarrow> checkpoint option + checkpoint" where
  "cp_push_all [] cp = Inr cp"
| "cp_push_all (b # bs) cp =
     (case cp_push b cp of Inl cp \<Rightarrow> Inl (Some cp) | Inr cp \<Rightarrow> cp_push_all bs cp)"

fun from_block_ids :: "block_id list \<Rightarrow> checkpoint option + checkpoint" where
  "from_block_ids [] = Inl None"
| "from_block_ids (b # bs) = cp_push_all bs (cp_new b)"

text \<open>The loop of \<open>insert\<close>: down to a checkpoint below the height, or the block itself.\<close>

datatype insert_walk = Present | Panics | Base checkpoint "block_id list"

fun cp_walk :: "block_id \<Rightarrow> checkpoint \<Rightarrow> block_id list \<Rightarrow> insert_walk" where
  "cp_walk b (CheckPoint x p) tail =
     (if bid_height x = bid_height b then
        (if bid_hash x = bid_hash b then Present
         else if bid_height x = 0 then Panics
         else (case p of None \<Rightarrow> Panics | Some base \<Rightarrow> Base base []))
      else if bid_height x < bid_height b then Base (CheckPoint x p) tail
      else (case p of None \<Rightarrow> Panics | Some cp \<Rightarrow> cp_walk b cp (tail @ [x])))"

definition cp_insert :: "block_id \<Rightarrow> checkpoint \<Rightarrow> checkpoint option" where
  "cp_insert b self =
     (case cp_walk b self [] of
        Present \<Rightarrow> Some self
      | Panics \<Rightarrow> None
      | Base base tail \<Rightarrow> (case cp_extend (b # rev tail) base of Inl _ \<Rightarrow> None | Inr cp \<Rightarrow> Some cp))"

section \<open>The blocks of a checkpoint in ascending order\<close>

fun cp_ids :: "checkpoint \<Rightarrow> block_id list" where
  "cp_ids (CheckPoint b None) = [b]"
| "cp_ids (CheckPoint b (Some p)) = cp_ids p @ [b]"

definition ascending :: "block_id list \<Rightarrow> bool" where
  "ascending bs \<longleftrightarrow> sorted_wrt (\<lambda>a b. bid_height a < bid_height b) bs"

lemma ascending_simps [simp]:
  "ascending []" "ascending [b]"
  "ascending (bs @ bs') \<longleftrightarrow> ascending bs \<and> ascending bs'
     \<and> (\<forall>a \<in> set bs. \<forall>b \<in> set bs'. bid_height a < bid_height b)"
  "ascending (b # bs) \<longleftrightarrow> ascending bs \<and> (\<forall>a \<in> set bs. bid_height b < bid_height a)"
  by (auto simp: ascending_def sorted_wrt_append)

lemma cp_iter_ids: "map cp_block_id (cp_iter cp) = rev (cp_ids cp)"
  by (induction cp rule: cp_iter.induct) simp_all

lemma cp_ids_simps [simp]: "cp_ids cp \<noteq> []" "last (cp_ids cp) = cp_block_id cp"
  by (induction cp rule: cp_ids.induct) simp_all

lemma cp_ids_snoc: "cp_ids cp = butlast (cp_ids cp) @ [cp_block_id cp]"
  by (metis append_butlast_last_id cp_ids_simps)

lemma ascending_tip:
  assumes "ascending (cp_ids cp)" and "b \<in> set (cp_ids cp)"
  shows "bid_height b \<le> cp_height cp"
proof -
  from assms(1) have "ascending (butlast (cp_ids cp) @ [cp_block_id cp])" using cp_ids_snoc by metis
  moreover from assms(2) have "b \<in> set (butlast (cp_ids cp)) \<or> b = cp_block_id cp"
    by (metis cp_ids_snoc Un_iff empty_iff list.set(1) set_ConsD set_append)
  ultimately show ?thesis by (auto simp: cp_height_def)
qed

lemma cp_push_ids:
  assumes "ascending (cp_ids cp)"
  shows "(case cp_push b cp of Inr cp' \<Rightarrow> cp_ids cp' = cp_ids cp @ [b] \<and> ascending (cp_ids cp @ [b])
    | Inl cp' \<Rightarrow> cp' = cp \<and> \<not> ascending (cp_ids cp @ [b]))"
proof -
  have "cp_height cp < bid_height b \<longleftrightarrow> ascending (cp_ids cp @ [b])"
    using assms ascending_tip [OF assms] cp_ids_simps(2) [of cp] last_in_set [OF cp_ids_simps(1), of cp]
    by (auto simp: cp_height_def intro: le_less_trans)
  then show ?thesis by (simp add: cp_push_def)
qed

lemma cp_extend_from_ids:
  assumes "ascending (cp_ids cp)"
  shows "(case cp_extend_from self bs cp of Inr cp' \<Rightarrow> cp_ids cp' = cp_ids cp @ bs \<and> ascending (cp_ids cp @ bs)
    | Inl cp' \<Rightarrow> cp' = self \<and> \<not> ascending (cp_ids cp @ bs))"
  using assms
proof (induction bs arbitrary: cp)
  case (Cons b bs)
  show ?case
  proof (cases "cp_push b cp")
    case (Inl cp')
    with cp_push_ids [OF Cons.prems, of b] show ?thesis by auto
  next
    case (Inr cp')
    with cp_push_ids [OF Cons.prems, of b] have *: "cp_ids cp' = cp_ids cp @ [b]" "ascending (cp_ids cp')"
      by simp_all
    from Cons.IH [OF *(2)] show ?thesis
      unfolding * by (simp add: Inr split: sum.splits)
  qed
qed simp

lemma cp_push_all_ids:
  assumes "ascending (cp_ids cp)"
  shows "(case cp_push_all bs cp of Inr cp' \<Rightarrow> cp_ids cp' = cp_ids cp @ bs \<and> ascending (cp_ids cp @ bs)
    | Inl e \<Rightarrow> (\<exists>cp' n. e = Some cp' \<and> n < length bs \<and> cp_ids cp' = cp_ids cp @ take n bs)
        \<and> \<not> ascending (cp_ids cp @ bs))"
  using assms
proof (induction bs arbitrary: cp)
  case (Cons b bs)
  show ?case
  proof (cases "cp_push b cp")
    case (Inl cp')
    with cp_push_ids [OF Cons.prems, of b] show ?thesis by (auto intro!: exI [of _ 0])
  next
    case (Inr cp')
    with cp_push_ids [OF Cons.prems, of b] have *: "cp_ids cp' = cp_ids cp @ [b]" "ascending (cp_ids cp')"
      by simp_all
    from Cons.IH [OF *(2)] show ?thesis
      unfolding * by (fastforce simp: Inr split: sum.splits intro: exI [of _ "Suc n" for n])
  qed
qed simp

text \<open>Checkpoints built from a list of ids, as \<open>ChainStorage::complete\<close> builds them.\<close>

lemma from_block_ids_spec:
  "(case from_block_ids bs of
      Inr cp \<Rightarrow> cp_ids cp = bs \<and> ascending bs
    | Inl None \<Rightarrow> bs = []
    | Inl (Some cp) \<Rightarrow> \<not> ascending bs \<and> (\<exists>n. 0 < n \<and> n < length bs \<and> cp_ids cp = take n bs))"
proof (cases bs)
  case (Cons b bs')
  have "ascending (cp_ids (cp_new b))" by (simp add: cp_new_def)
  from cp_push_all_ids [OF this, of bs'] show ?thesis
    unfolding Cons by (auto simp: cp_new_def split: sum.splits option.splits intro: exI [of _ "Suc n" for n])
qed simp

section \<open>Insertion\<close>

definition lower :: "block_id \<Rightarrow> block_id list \<Rightarrow> block_id list" where
  "lower b bs = filter (\<lambda>x. bid_height x < bid_height b) bs"

definition higher :: "block_id \<Rightarrow> block_id list \<Rightarrow> block_id list" where
  "higher b bs = filter (\<lambda>x. bid_height b < bid_height x) bs"

definition conflicts :: "block_id \<Rightarrow> block_id list \<Rightarrow> bool" where
  "conflicts b bs \<longleftrightarrow> (\<exists>x \<in> set bs. bid_height x = bid_height b \<and> bid_hash x \<noteq> bid_hash b)"

text \<open>What \<open>insert\<close> promises, on the ascending list of blocks.\<close>

definition insert_ids :: "block_id \<Rightarrow> block_id list \<Rightarrow> block_id list option" where
  "insert_ids b bs =
     (if b \<in> set bs then Some bs
      else if lower b bs = [] then None
      else Some (lower b bs @ [b] @ (if conflicts b bs then [] else higher b bs)))"

lemma block_id_eq: "bid_height x = bid_height b \<Longrightarrow> bid_hash x = bid_hash b \<Longrightarrow> x = (b :: block_id)"
  by simp

lemma cp_ids_prev: "cp_ids (CheckPoint x p) = (case p of None \<Rightarrow> [] | Some q \<Rightarrow> cp_ids q) @ [x]"
  by (cases p) simp_all

lemma lower_all: "\<forall>x \<in> set bs. bid_height x < bid_height b \<Longrightarrow> lower b bs = bs \<and> higher b bs = []"
  by (fastforce simp: lower_def higher_def filter_empty_conv)

lemma lower_higher_append [simp]:
  "lower b (bs @ bs') = lower b bs @ lower b bs'" "higher b (bs @ bs') = higher b bs @ higher b bs'"
  "lower b [] = []" "higher b [] = []"
  by (simp_all add: lower_def higher_def)

lemma cp_walk_spec:
  assumes "ascending (cp_ids cp)"
  shows "(case cp_walk b cp tail of
      Present \<Rightarrow> b \<in> set (cp_ids cp)
    | Panics \<Rightarrow> b \<notin> set (cp_ids cp) \<and> lower b (cp_ids cp) = []
    | Base base tail' \<Rightarrow> b \<notin> set (cp_ids cp) \<and> cp_ids base = lower b (cp_ids cp)
        \<and> tail' = (if conflicts b (cp_ids cp) then [] else tail @ rev (higher b (cp_ids cp))))"
  using assms
proof (induction b cp tail rule: cp_walk.induct)
  case (1 b x p tail)
  let ?rest = "case p of None \<Rightarrow> [] | Some q \<Rightarrow> cp_ids q"
  have rest: "ascending ?rest" "\<forall>y \<in> set ?rest. bid_height y < bid_height x"
    using 1(2) by (simp_all add: cp_ids_prev)
  consider "bid_height x = bid_height b" | "bid_height x < bid_height b" | "bid_height b < bid_height x"
    by (meson linorder_cases)
  then show ?case
  proof cases
    case 1
    then have "b \<notin> set ?rest" "lower b ?rest = ?rest" "higher b ?rest = []" "\<not> conflicts b ?rest"
      using rest lower_all [of ?rest b] by (auto simp: conflicts_def)
    note old = this
    have ids: "lower b (cp_ids (CheckPoint x p)) = ?rest" "higher b (cp_ids (CheckPoint x p)) = []"
      using 1 old(2, 3) by (simp_all add: cp_ids_prev lower_def higher_def)
    show ?thesis
    proof (cases "x = b")
      case False
      with 1 have hash: "bid_hash x \<noteq> bid_hash b" using block_id_eq by blast
      then have "conflicts b (cp_ids (CheckPoint x p))" "b \<notin> set (cp_ids (CheckPoint x p))"
        using 1 old(1) False by (auto simp: cp_ids_prev conflicts_def)
      moreover have "?rest = []" if "bid_height x = 0"
        using that rest(2) by (metis word_not_simps(1) list.set_intros(1) neq_Nil_conv)
      ultimately show ?thesis
        using 1 hash ids by (cases p) (auto split: option.splits)
    qed (simp add: cp_ids_prev)
  next
    case 2
    then have "\<forall>y \<in> set (cp_ids (CheckPoint x p)). bid_height y < bid_height b"
      using rest by (auto simp: cp_ids_prev)
    note all = this lower_all [OF this]
    have "b \<notin> set (cp_ids (CheckPoint x p))" "\<not> conflicts b (cp_ids (CheckPoint x p))"
      using all(1) unfolding conflicts_def by (metis order_less_irrefl)+
    moreover have "cp_walk b (CheckPoint x p) tail = Base (CheckPoint x p) tail"
      using 2 less_imp_neq [OF 2] by simp
    ultimately show ?thesis using all(2) by (simp del: cp_walk.simps)
  next
    case 3
    then have "bid_height x \<noteq> bid_height b" "\<not> bid_height x < bid_height b" by auto
    show ?thesis
    proof (cases p)
      case None
      with 3 show ?thesis by (auto simp: lower_def)
    next
      case (Some q)
      with rest have "ascending (cp_ids q)" by simp
      note IH = "1.IH" [OF \<open>bid_height x \<noteq> bid_height b\<close> \<open>\<not> bid_height x < bid_height b\<close> Some this]
      have "lower b (cp_ids q @ [x]) = lower b (cp_ids q)" "higher b (cp_ids q @ [x]) = higher b (cp_ids q) @ [x]"
        using 3 by (simp_all add: lower_def higher_def less_not_sym)
      moreover have "conflicts b (cp_ids q @ [x]) = conflicts b (cp_ids q)" "b \<noteq> x"
        using \<open>bid_height x \<noteq> bid_height b\<close> by (auto simp: conflicts_def)
      moreover have "cp_walk b (CheckPoint x p) tail = cp_walk b q (tail @ [x])"
        using Some \<open>bid_height x \<noteq> bid_height b\<close> \<open>\<not> bid_height x < bid_height b\<close> by simp
      ultimately show ?thesis
        using IH Some by (cases "cp_walk b q (tail @ [x])") (simp_all del: cp_walk.simps lower_higher_append)
    qed
  qed
qed

lemma ascending_filter: "ascending bs \<Longrightarrow> ascending (filter P bs)"
  by (simp add: ascending_def sorted_wrt_filter)

lemma cp_insert_spec:
  assumes "ascending (cp_ids cp)"
  shows "map_option cp_ids (cp_insert b cp) = insert_ids b (cp_ids cp)"
    "cp_insert b cp = Some cp' \<Longrightarrow> ascending (cp_ids cp')"
proof -
  have "map_option cp_ids (cp_insert b cp) = insert_ids b (cp_ids cp)
    \<and> (\<forall>cp'. cp_insert b cp = Some cp' \<longrightarrow> ascending (cp_ids cp'))"
  proof (cases "cp_walk b cp []")
    case Present
    with cp_walk_spec [OF assms, of b "[]"] assms show ?thesis by (simp add: cp_insert_def insert_ids_def)
  next
    case Panics
    with cp_walk_spec [OF assms, of b "[]"] show ?thesis by (simp add: cp_insert_def insert_ids_def)
  next
    case (Base base tail)
    with cp_walk_spec [OF assms, of b "[]"] have w: "b \<notin> set (cp_ids cp)" "cp_ids base = lower b (cp_ids cp)"
      "tail = (if conflicts b (cp_ids cp) then [] else rev (higher b (cp_ids cp)))" by auto
    have "ascending (cp_ids base)" "ascending (cp_ids base @ b # rev tail)"
      using assms w by (auto simp: lower_def higher_def ascending_filter)
    with cp_extend_from_ids [OF this(1), of base "b # rev tail"]
    obtain cp' where "cp_extend (b # rev tail) base = Inr cp'" "cp_ids cp' = cp_ids base @ b # rev tail"
      by (auto simp: cp_extend_def split: sum.splits)
    moreover have "lower b (cp_ids cp) \<noteq> []" using w(2) by (metis cp_ids_simps(1))
    ultimately show ?thesis
      using Base w \<open>ascending (cp_ids base @ b # rev tail)\<close> by (auto simp: cp_insert_def insert_ids_def)
  qed
  then show "map_option cp_ids (cp_insert b cp) = insert_ids b (cp_ids cp)"
    "cp_insert b cp = Some cp' \<Longrightarrow> ascending (cp_ids cp')" by blast+
qed

lemma cp_insert_tip: "cp_height cp < bid_height b \<Longrightarrow> cp_insert b cp = Some (CheckPoint b (Some cp))"
  by (cases cp) (auto simp: cp_insert_def cp_height_def cp_extend_def cp_push_def)

end
