(* ===== verification/Follow.thy ===== *)
theory Follow
  imports Checkpoints Indexer
begin

text \<open>
  Following the chain of the node (\<open>Indexer::parse_blocks\<close> of \<open>packages/new-blk-parser/src/lib.rs\<close>).

  The node is outside the program and changes between the calls to it: a \<open>node\<close> gives its answers
  to the \<open>n\<close>-th call, \<open>None\<close> where the client returns an error, together with whether the receiver of
  the blocks is still there.  The state counts the calls.  A pass is one round of the outer loop,
  which ends when the server is cancelled.  The result of a step has the events sent, and how it
  ends: the thread panics, returns because the channel is closed, or goes on.
\<close>

type_synonym i32 = "32 word"

record node_view =
  nv_best :: "hash32 option"
  nv_info :: "hash32 \<Rightarrow> (i32 \<times> u64) option"
  nv_hash :: "u64 \<Rightarrow> hash32 option"
  nv_block :: "hash32 \<Rightarrow> block option"
  nv_open :: bool

type_synonym node = "nat \<Rightarrow> node_view"

record follow_state =
  fs_calls :: nat
  fs_checkpoint :: checkpoint
  fs_last_hash :: hash32

datatype follow_end = FoPanic | FoClosed

type_synonym follow_result = "block_event list \<times> (follow_end + follow_state)"

section \<open>Sending blocks\<close>

text \<open>\<open>None\<close> is the panic of a wrong order, otherwise the new last hash.\<close>

definition check_ordering :: "hash32 \<Rightarrow> block_header hashed \<Rightarrow> hash32 option" where
  "check_ordering last_sent_hash header =
     (if last_sent_hash \<noteq> bh_prev_hash (hd_value header) then None else Some (hd_hash header))"

definition block_id_at :: "u64 \<Rightarrow> hash32 \<Rightarrow> block_id" where
  "block_id_at height h = \<lparr> bid_height = height, bid_hash = h \<rparr>"

lemma cp_height_next:
  assumes "cp_height cp < m"
  shows "unat (cp_height cp + 1) = unat (cp_height cp) + 1" "cp_height cp < cp_height cp + 1"
proof -
  have "unat (cp_height cp) < unat m" using assms by (simp add: word_less_nat_alt)
  then have "unat (cp_height cp) + 1 < 2 ^ 64" using unat_u64_less [of m] by simp
  then show "unat (cp_height cp + 1) = unat (cp_height cp) + 1"
    by (simp add: unat_word_ariths)
  then show "cp_height cp < cp_height cp + 1" by (simp add: word_less_nat_alt)
qed

lemma cp_insert_next:
  assumes "cp_height cp < m"
  shows "cp_insert (block_id_at (cp_height cp + 1) h) cp
    = Some (CheckPoint (block_id_at (cp_height cp + 1) h) (Some cp))"
  using cp_height_next [OF assms] by (intro cp_insert_tip) (simp add: block_id_at_def)

lemma cp_insert_closer:
  assumes "cp_height cp < m" and "cp_insert (block_id_at (cp_height cp + 1) h) cp = Some cp'"
  shows "unat m - unat (cp_height cp') < unat m - unat (cp_height cp)"
proof -
  have "cp_height cp' = cp_height cp + 1"
    using assms cp_insert_next [OF assms(1)] by (auto simp: cp_height_def block_id_at_def)
  then show ?thesis using assms(1) cp_height_next(1) [OF assms(1)] by (simp add: word_less_nat_alt)
qed

text \<open>The inner \<open>while\<close> loop: the blocks above the checkpoint up to the best height.\<close>

function send_blocks :: "node \<Rightarrow> u64 \<Rightarrow> u64 \<Rightarrow> follow_state \<Rightarrow> follow_result" where
  "send_blocks N best_height reorg_counter s =
     (let cp = fs_checkpoint s; t = fs_calls s; next_height = cp_height cp + 1 in
      if \<not> cp_height cp < best_height then ([], Inr s)
      else case nv_hash (N t) next_height of
        None \<Rightarrow> ([], Inl FoPanic)
      | Some next_hash \<Rightarrow>
      (case nv_block (N (t + 1)) next_hash of
         None \<Rightarrow> ([], Inl FoPanic)
       | Some b \<Rightarrow>
           if bh_prev_hash (hd_value (blk_header b)) \<noteq> cp_hash cp
           then ([], Inr (s\<lparr> fs_calls := t + 2 \<rparr>))
           else (case check_ordering (fs_last_hash s) (blk_header b) of
             None \<Rightarrow> ([], Inl FoPanic)
           | Some last_hash \<Rightarrow>
               if \<not> nv_open (N (t + 1)) then ([], Inl FoClosed)
               else (let event = \<lparr> be_height = next_height, be_hash = next_hash, be_block = b,
                           be_reorg_len = reorg_counter, be_tip = best_height \<rparr>
                     in case cp_insert (block_id_at next_height next_hash) cp of
                          None \<Rightarrow> ([event], Inl FoPanic)
                        | Some cp' \<Rightarrow>
                            (let r = send_blocks N best_height 0
                               \<lparr> fs_calls = t + 2, fs_checkpoint = cp', fs_last_hash = last_hash \<rparr>
                             in (event # fst r, snd r))))))"
  by pat_completeness auto

termination
  by (relation "measure (\<lambda>(N, m, r, s). unat m - unat (cp_height (fs_checkpoint s)))")
    (simp_all add: cp_insert_closer)

declare send_blocks.simps [simp del]

section \<open>Going back\<close>

text \<open>The \<open>loop\<close> that leaves the checkpoints the node does not have on its best chain; \<open>None\<close> is the
  panic of too many or of going below the first checkpoint.\<close>

definition orphaned :: "node_view \<Rightarrow> hash32 \<Rightarrow> bool" where
  "orphaned V h = (case nv_info V h of None \<Rightarrow> True | Some (confirmations, _) \<Rightarrow> confirmations <s 0)"

fun drop_orphans ::
  "node \<Rightarrow> u64 \<Rightarrow> u64 \<Rightarrow> nat \<Rightarrow> checkpoint \<Rightarrow> hash32 \<Rightarrow> (u64 \<times> nat \<times> checkpoint \<times> hash32) option"
where
  "drop_orphans N max_len reorg_counter t (CheckPoint b p) last_hash =
     (if max_len < reorg_counter then None
      else if orphaned (N t) (bid_hash b)
      then (case p of
              None \<Rightarrow> None
            | Some cp \<Rightarrow> drop_orphans N max_len (reorg_counter + 1) (t + 1) cp (cp_hash cp))
      else Some (reorg_counter, t + 1, CheckPoint b p, last_hash))"

section \<open>The loop\<close>

definition follow_pass :: "node \<Rightarrow> u64 \<Rightarrow> follow_state \<Rightarrow> follow_result" where
  "follow_pass N max_len s =
     (let t = fs_calls s; cp = fs_checkpoint s in
      case nv_best (N t) of
        None \<Rightarrow> ([], Inl FoPanic)
      | Some best_hash \<Rightarrow>
          if best_hash = cp_hash cp then ([], Inr (s\<lparr> fs_calls := t + 1 \<rparr>))
          else (case drop_orphans N max_len 0 (t + 1) cp (fs_last_hash s) of
            None \<Rightarrow> ([], Inl FoPanic)
          | Some (reorg_counter, t, cp, last_hash) \<Rightarrow>
              (case nv_info (N t) best_hash of
                 None \<Rightarrow> ([], Inl FoPanic)
               | Some (_, best_height) \<Rightarrow> send_blocks N best_height reorg_counter
                   \<lparr> fs_calls = t + 1, fs_checkpoint = cp, fs_last_hash = last_hash \<rparr>)))"

fun follow :: "node \<Rightarrow> u64 \<Rightarrow> nat \<Rightarrow> follow_state \<Rightarrow> follow_result" where
  "follow N max_len 0 s = ([], Inr s)"
| "follow N max_len (Suc passes) s =
     (case follow_pass N max_len s of
        (evs, Inl e) \<Rightarrow> (evs, Inl e)
      | (evs, Inr s) \<Rightarrow> (let r = follow N max_len passes s in (evs @ fst r, snd r)))"

end
