(* ===== verification/ChainStore.thy ===== *)
theory ChainStore
  imports Follow
begin

text \<open>
  The block files of the node and its index of blocks (\<open>parser/index.rs\<close>, \<open>parser/chain.rs\<close>,
  \<open>parser/blk_file.rs\<close>, \<open>parser/mod.rs\<close> of \<open>packages/new-blk-parser/src/blockchain\<close>), and the start
  of \<open>parse_blocks\<close>, which reads from them before it follows the node.

  LevelDB is outside the program: the index is the list of the entries that its iterator gives
  from the first key not below \<open>b\<close> on.  A block file is its bytes.  \<open>None\<close> is an error or a panic;
  every error is unwrapped by the callers.
\<close>

section \<open>Index records\<close>

record block_index_record =
  bir_block_hash :: hash32
  bir_blk_index :: u64
  bir_data_offset :: u64
  bir_height :: u64
  bir_status :: u64
  bir_prev_hash :: hash32

record block_index_small =
  bis_block_hash :: hash32
  bis_blk_index :: u64
  bis_data_offset :: u64

definition small_record :: "block_index_record \<Rightarrow> block_index_small" where
  "small_record r = \<lparr> bis_block_hash = bir_block_hash r, bis_blk_index = bir_blk_index r,
     bis_data_offset = bir_data_offset r \<rparr>"

definition block_have_data :: u64 where "block_have_data = 8"

definition block_have_undo :: u64 where "block_have_undo = 16"

definition block_valid_mask :: u64 where
  "block_valid_mask = or (or (or (or 1 2) 3) 4) 5"

definition block_failed_mask :: u64 where
  "block_failed_mask = or 32 64"

text \<open>\<open>BlockIndexRecord::from\<close>; the inner \<open>None\<close> is a block whose data the node does not have.\<close>

definition read_index_record :: "hash32 \<Rightarrow> block_index_record option reader" where
  "read_index_record block_hash =
     rthen read_varint (\<lambda>_. rthen read_varint (\<lambda>height. rthen read_varint (\<lambda>status. rthen read_varint (\<lambda>_.
       if \<not> 0 < and status (or block_have_data block_have_undo) then rreturn None
       else rthen read_varint (\<lambda>blk_index.
         rthen (if 0 < and status block_have_data then rthen read_varint (\<lambda>n. rreturn (Some n)) else rreturn None)
           (\<lambda>data_offset.
         rthen (if 0 < and status block_have_undo then rthen read_varint (\<lambda>n. rreturn ()) else rreturn ()) (\<lambda>_.
         rthen read_block_header (\<lambda>header. \<lambda>rest.
           (case data_offset of
              None \<Rightarrow> None
            | Some off \<Rightarrow> Some (Some \<lparr> bir_block_hash = block_hash, bir_blk_index = blk_index,
                bir_data_offset = off, bir_height = height, bir_status = status,
                bir_prev_hash = bh_prev_hash header \<rparr>, rest))))))))))"

definition index_record_from :: "bytes \<Rightarrow> bytes \<Rightarrow> block_index_record option option" where
  "index_record_from key values =
     (if length key \<noteq> 32 then None else map_option fst (read_index_record key values))"

section \<open>The index of the best chain\<close>

record height_range =
  hr_start :: u64
  hr_end :: "u64 option"

definition height_range_new :: "u64 \<Rightarrow> u64 option \<Rightarrow> height_range option" where
  "height_range_new start stop =
     (if (case stop of Some e \<Rightarrow> e \<le> start | None \<Rightarrow> False) then None
      else Some \<lparr> hr_start = start, hr_end = stop \<rparr>)"

text \<open>The conditions of the loop over the entries.\<close>

definition wanted :: "height_range \<Rightarrow> block_index_record \<Rightarrow> bool" where
  "wanted hr r \<longleftrightarrow>
     \<not> (bir_height r < sat_sub (hr_start hr) 1
        \<or> (case hr_end hr of Some e \<Rightarrow> e | None \<Rightarrow> - 1) < bir_height r)
     \<and> and (bir_status r) block_valid_mask \<noteq> 0
     \<and> and (bir_status r) block_failed_mask = 0"

text \<open>The index map keeps for every height the records in the order read.\<close>

fun add_record :: "block_index_record \<Rightarrow> (u64 \<times> block_index_record list) list \<Rightarrow>
    (u64 \<times> block_index_record list) list" where
  "add_record r [] = [(bir_height r, [r])]"
| "add_record r ((h, rs) # m) = (if h = bir_height r then (h, rs @ [r]) # m else (h, rs) # add_record r m)"

fun scan_index :: "height_range \<Rightarrow> (bytes \<times> bytes) list \<Rightarrow> (u64 \<times> block_index_record list) list \<Rightarrow>
    (u64 \<times> block_index_record list) list option" where
  "scan_index hr [] m = Some m"
| "scan_index hr ((key, val) # es) m =
     (case key of
        [] \<Rightarrow> None
      | c # key \<Rightarrow>
          if c \<noteq> 98 then Some m
          else (case index_record_from key val of
             None \<Rightarrow> None
           | Some None \<Rightarrow> scan_index hr es m
           | Some (Some r) \<Rightarrow> scan_index hr es (if wanted hr r then add_record r m else m)))"

text \<open>The \<open>batching\<close> over the groups from the greatest height down: it starts at the first height with
  one record and takes at every lower height the record the one above links to.\<close>

fun position :: "('a \<Rightarrow> bool) \<Rightarrow> 'a list \<Rightarrow> nat option" where
  "position P [] = None"
| "position P (x # xs) = (if P x then Some 0 else map_option Suc (position P xs))"

fun link_back :: "block_index_record list list \<Rightarrow> nat option \<Rightarrow> block_index_record list option" where
  "link_back [] last_pos = Some []"
| "link_back (cur # it) last_pos =
     (if last_pos = None \<and> length cur \<noteq> 1 then link_back it None
      else (let prev_hash = bir_prev_hash (cur ! (case last_pos of None \<Rightarrow> 0 | Some p \<Rightarrow> p)) in
        case it of
          [] \<Rightarrow> Some []
        | prev # _ \<Rightarrow>
            (case position (\<lambda>x. bir_block_hash x = prev_hash) prev of
               None \<Rightarrow> None
             | Some p \<Rightarrow> map_option ((#) (prev ! p)) (link_back it (Some p)))))"

definition get_block_index ::
  "height_range \<Rightarrow> (bytes \<times> bytes) list \<Rightarrow> (u64 \<rightharpoonup> block_index_small) option" where
  "get_block_index hr es =
     Option.bind (scan_index hr es []) (\<lambda>m.
       map_option (\<lambda>rs. map_of (rev (map (\<lambda>r. (bir_height r, small_record r)) rs)))
         (link_back (map snd (rev (sort_key fst m))) None))"

section \<open>Chain index and block files\<close>

record chain_index =
  ci_max_height :: u64
  ci_block_index :: "u64 \<rightharpoonup> block_index_small"
  ci_max_height_blk_index :: "u64 \<rightharpoonup> u64"

text \<open>The loop over the index, whose order is that of a hash map: \<open>hs\<close> lists its heights.\<close>

fun max_heights :: "(u64 \<rightharpoonup> block_index_small) \<Rightarrow> u64 list \<Rightarrow> (u64 \<rightharpoonup> u64) \<Rightarrow> (u64 \<rightharpoonup> u64)" where
  "max_heights idx [] m = m"
| "max_heights idx (h # hs) m =
     (case idx h of
        None \<Rightarrow> max_heights idx hs m
      | Some r \<Rightarrow> max_heights idx hs
          (case m (bis_blk_index r) of
             Some cur_height \<Rightarrow> if cur_height < h then m(bis_blk_index r \<mapsto> h) else m
           | None \<Rightarrow> m(bis_blk_index r \<mapsto> h)))"

definition chain_index_new ::
  "height_range \<Rightarrow> (bytes \<times> bytes) list option \<Rightarrow> (u64 set \<Rightarrow> u64 list) \<Rightarrow> chain_index option" where
  "chain_index_new hr es walk =
     map_option (\<lambda>idx.
       (let max_known_height = (if dom idx = {} then 0 else Max (dom idx)) in
        \<lparr> ci_max_height = (case hr_end hr of
             Some height \<Rightarrow> if height < max_known_height then height else max_known_height
           | None \<Rightarrow> max_known_height),
          ci_block_index = idx, ci_max_height_blk_index = max_heights idx (walk (dom idx)) Map.empty \<rparr>))
       (case es of None \<Rightarrow> Some Map.empty | Some es \<Rightarrow> get_block_index hr es)"

text \<open>\<open>BlkFile::read_block\<close>: the four bytes before the offset are the size.\<close>

definition blk_read_block :: "wire_ops \<Rightarrow> bytes option \<Rightarrow> bytes \<Rightarrow> u64 \<Rightarrow> block option" where
  "blk_read_block W xor_key content offset =
     Option.bind (xor_read xor_key (offset - 4) (drop (unat (offset - 4)) content)) (\<lambda>(data, _).
     Option.bind (read_le 4 data) (\<lambda>(block_size, data). map_option fst (read_block W block_size data)))"

record chain_storage =
  cs_chain_index :: chain_index
  cs_blk_files :: "(u64 \<rightharpoonup> bytes) option"
  cs_xor_key :: "bytes option"

text \<open>\<open>ChainStorage::get_block\<close>; the inner \<open>None\<close> is a height that is not stored.\<close>

definition get_block :: "wire_ops \<Rightarrow> chain_storage \<Rightarrow> u64 \<Rightarrow> block option option" where
  "get_block W C height =
     (case ci_block_index (cs_chain_index C) height of
        None \<Rightarrow> Some None
      | Some meta \<Rightarrow>
          (case cs_blk_files C of
             None \<Rightarrow> Some None
           | Some files \<Rightarrow>
               (case files (bis_blk_index meta) of
                  None \<Rightarrow> None
                | Some content \<Rightarrow>
                    map_option Some (blk_read_block W (cs_xor_key C) content (bis_data_offset meta)))))"

definition chain_complete :: "chain_storage \<Rightarrow> checkpoint option" where
  "chain_complete C =
     (let idx = ci_block_index (cs_chain_index C) in
      case from_block_ids (map (\<lambda>h. block_id_at h (bis_block_hash (the (idx h)))) (sorted_list_of_set (dom idx))) of
        Inl _ \<Rightarrow> None | Inr cp \<Rightarrow> Some cp)"

section \<open>The start of \<open>parse_blocks\<close>\<close>

text \<open>The loop over the stored blocks.  It returns when the server is cancelled or the channel is closed,
  and otherwise gives the hash of the last block sent.\<close>

datatype stored_end = StPanic | StReturn | StDone hash32

fun send_stored ::
  "(u64 \<Rightarrow> block option option) \<Rightarrow> (u64 \<Rightarrow> bool) \<Rightarrow> (u64 \<Rightarrow> bool) \<Rightarrow> u64 \<Rightarrow> u64 list \<Rightarrow> hash32 \<Rightarrow>
     block_event list \<times> stored_end"
where
  "send_stored get cancelled opened max_height [] last_hash = ([], StDone last_hash)"
| "send_stored get cancelled opened max_height (height # hs) last_hash =
     (if cancelled height then ([], StReturn)
      else case get height of
        None \<Rightarrow> ([], StPanic)
      | Some None \<Rightarrow> ([], StDone last_hash)
      | Some (Some b) \<Rightarrow>
          (let event = \<lparr> be_height = height, be_hash = hd_hash (blk_header b), be_block = b, be_reorg_len = 0,
                 be_tip = max_height \<rparr>
           in case check_ordering last_hash (blk_header b) of
                None \<Rightarrow> ([], StPanic)
              | Some last_hash \<Rightarrow>
                  if \<not> opened height then ([], StReturn)
                  else (let r = send_stored get cancelled opened max_height hs last_hash in (event # fst r, snd r))))"

definition heights_from :: "u64 \<Rightarrow> u64 \<Rightarrow> u64 list" where
  "heights_from a b = map word_of_nat [unat a ..< Suc (unat b)]"

definition first_height :: "u64 \<Rightarrow> u64" where
  "first_height last_height = (if last_height = 0 then last_height else last_height + 1)"

text \<open>The \<open>while\<close> loop that fills the checkpoint up to the last indexed height.\<close>

function fill_checkpoint :: "node \<Rightarrow> u64 \<Rightarrow> nat \<Rightarrow> checkpoint \<Rightarrow> (nat \<times> checkpoint) option" where
  "fill_checkpoint N m t cp =
     (if \<not> cp_height cp < m then Some (t, cp)
      else case nv_hash (N t) (cp_height cp + 1) of
        None \<Rightarrow> None
      | Some h \<Rightarrow>
          (case cp_insert (block_id_at (cp_height cp + 1) h) cp of
             None \<Rightarrow> None
           | Some cp \<Rightarrow> fill_checkpoint N m (t + 1) cp))"
  by pat_completeness auto

termination
  by (relation "measure (\<lambda>(N, m, t, cp). unat m - unat (cp_height cp))") (simp_all add: cp_insert_closer)

declare fill_checkpoint.simps [simp del]

definition parse_blocks ::
  "wire_ops \<Rightarrow> chain_storage \<Rightarrow> (u64 \<Rightarrow> bool) \<Rightarrow> (u64 \<Rightarrow> bool) \<Rightarrow> node \<Rightarrow> u64 \<Rightarrow> block_id \<Rightarrow> nat \<Rightarrow> follow_result"
where
  "parse_blocks W C cancelled opened N max_len last_block passes =
     (let last_height = first_height (bid_height last_block); max_height = ci_max_height (cs_chain_index C) in
      case send_stored (get_block W C) cancelled opened max_height (heights_from last_height max_height)
          (bid_hash last_block) of
        (evs, StPanic) \<Rightarrow> (evs, Inl FoPanic)
      | (evs, StReturn) \<Rightarrow> (evs, Inl FoClosed)
      | (evs, StDone last_hash) \<Rightarrow>
          (case (case chain_complete C of
                   Some cp \<Rightarrow> Some (0, cp, last_height, last_hash)
                 | None \<Rightarrow> (let last_height = sat_sub last_height 1 in
                     map_option (\<lambda>h. (1, cp_new (block_id_at last_height h), last_height, h))
                       (nv_hash (N 0) last_height))) of
             None \<Rightarrow> (evs, Inl FoPanic)
           | Some (t, cp, last_height, last_hash) \<Rightarrow>
               (case fill_checkpoint N (sat_sub last_height 1) t cp of
                  None \<Rightarrow> (evs, Inl FoPanic)
                | Some (t, cp) \<Rightarrow>
                    (let r = follow N max_len passes
                        \<lparr> fs_calls = t, fs_checkpoint = cp, fs_last_hash = last_hash \<rparr>
                     in (evs @ fst r, snd r)))))"

end
