(* ===== verification/FollowInv.thy ===== *)
theory FollowInv
  imports Follow
begin

text \<open>
  What following the chain guarantees: the blocks sent are linked to each other and to a checkpoint
  whatever the node answers, and a node that stands still is caught up with in one pass.
\<close>

section \<open>The blocks sent are linked\<close>

text \<open>A block carries the hash it is asked for by.\<close>

definition honest :: "node \<Rightarrow> bool" where
  "honest N \<longleftrightarrow> (\<forall>t h b. nv_block (N t) h = Some b \<longrightarrow> hd_hash (blk_header b) = h)"

definition linked :: "follow_state \<Rightarrow> bool" where
  "linked s \<longleftrightarrow> fs_last_hash s = cp_hash (fs_checkpoint s)"

text \<open>Events that extend a checkpoint, each by a block on the one before.\<close>

fun extends :: "checkpoint \<Rightarrow> block_event list \<Rightarrow> checkpoint \<Rightarrow> bool" where
  "extends cp [] cp' \<longleftrightarrow> cp' = cp"
| "extends cp (e # es) cp' \<longleftrightarrow> unat (be_height e) = unat (cp_height cp) + 1
     \<and> bh_prev_hash (hd_value (blk_header (be_block e))) = cp_hash cp
     \<and> be_hash e = hd_hash (blk_header (be_block e))
     \<and> extends (CheckPoint (block_id_at (be_height e) (be_hash e)) (Some cp)) es cp'"

text \<open>The first event after a rollback counts the blocks dropped, the others none.\<close>

fun counted :: "u64 \<Rightarrow> block_event list \<Rightarrow> bool" where
  "counted k [] \<longleftrightarrow> True"
| "counted k (e # es) \<longleftrightarrow> be_reorg_len e = k \<and> counted 0 es"

lemma cp_at [simp]:
  "cp_height (CheckPoint (block_id_at h x) p) = h" "cp_hash (CheckPoint (block_id_at h x) p) = x"
  by (simp_all add: cp_height_def cp_hash_def block_id_at_def)

text \<open>One round of the loop: nothing is sent, or a block on the checkpoint and then the rest.\<close>

definition sent_event :: "checkpoint \<Rightarrow> u64 \<Rightarrow> u64 \<Rightarrow> block \<Rightarrow> block_event" where
  "sent_event cp m k b = \<lparr> be_height = cp_height cp + 1, be_hash = hd_hash (blk_header b), be_block = b,
     be_reorg_len = k, be_tip = m \<rparr>"

definition grown :: "checkpoint \<Rightarrow> block \<Rightarrow> checkpoint" where
  "grown cp b = CheckPoint (block_id_at (cp_height cp + 1) (hd_hash (blk_header b))) (Some cp)"

lemma send_blocks_step:
  assumes "honest N" and "linked s" and "cp_height (fs_checkpoint s) < m"
    and "send_blocks N m k s = (es, r)"
  obtains "es = []" "\<And>s'. r = Inr s' \<Longrightarrow> fs_checkpoint s' = fs_checkpoint s \<and> linked s'"
  | b es' where "es = sent_event (fs_checkpoint s) m k b # es'"
      "bh_prev_hash (hd_value (blk_header b)) = cp_hash (fs_checkpoint s)"
      "send_blocks N m 0 \<lparr> fs_calls = fs_calls s + 2, fs_checkpoint = grown (fs_checkpoint s) b,
         fs_last_hash = hd_hash (blk_header b) \<rparr> = (es', r)"
proof -
  let ?cp = "fs_checkpoint s"
  have hash: "nv_block (N t) h = Some b \<Longrightarrow> hd_hash (blk_header b) = h" for t h b
    using assms(1) unfolding honest_def by blast
  consider "es = []" "\<forall>s'. r = Inr s' \<longrightarrow> s' = s\<lparr> fs_calls := fs_calls s + 2 \<rparr>"
    | h b where "nv_block (N (fs_calls s + 1)) h = Some b"
      "bh_prev_hash (hd_value (blk_header b)) = cp_hash ?cp"
      "es = \<lparr> be_height = cp_height ?cp + 1, be_hash = h, be_block = b, be_reorg_len = k, be_tip = m \<rparr>
         # fst (send_blocks N m 0 \<lparr> fs_calls = fs_calls s + 2,
             fs_checkpoint = CheckPoint (block_id_at (cp_height ?cp + 1) h) (Some ?cp),
             fs_last_hash = hd_hash (blk_header b) \<rparr>)"
      "r = snd (send_blocks N m 0 \<lparr> fs_calls = fs_calls s + 2,
         fs_checkpoint = CheckPoint (block_id_at (cp_height ?cp + 1) h) (Some ?cp),
         fs_last_hash = hd_hash (blk_header b) \<rparr>)"
    using assms(4) that assms(3)
    by (simp add: send_blocks.simps [of N m k s] Let_def cp_insert_next [OF assms(3)] check_ordering_def
        split: option.splits if_splits) blast+
  then show ?thesis
  proof cases
    case 1
    have "fs_checkpoint s' = fs_checkpoint s \<and> linked s'" if "r = Inr s'" for s'
      using 1(2) that assms(2) by (simp add: linked_def)
    with 1(1) show ?thesis by (rule that(1))
  next
    case (2 h b)
    with hash [OF 2(1)] show ?thesis
      by (intro that(2) [of b "fst (send_blocks N m 0 \<lparr> fs_calls = fs_calls s + 2, fs_checkpoint = grown ?cp b,
          fs_last_hash = hd_hash (blk_header b) \<rparr>)"]) (simp_all add: sent_event_def grown_def)
  qed
qed

lemma grown_simps [simp]:
  "cp_height (grown cp b) = cp_height cp + 1" "cp_hash (grown cp b) = hd_hash (blk_header b)"
  by (simp_all add: grown_def)

lemma send_blocks_linked:
  assumes "honest N" and "linked s" and "send_blocks N m k s = (es, r)"
  shows "counted k es \<and> (\<exists>cp'. extends (fs_checkpoint s) es cp'
    \<and> (\<forall>s'. r = Inr s' \<longrightarrow> fs_checkpoint s' = cp' \<and> linked s'))"
  using assms(2,3)
proof (induction "unat m - unat (cp_height (fs_checkpoint s))" arbitrary: s k es r rule: less_induct)
  case less
  let ?cp = "fs_checkpoint s"
  show ?case
  proof (cases "cp_height ?cp < m")
    case False
    with less.prems show ?thesis by (auto simp: send_blocks.simps [of N m k s] Let_def)
  next
    case True
    from assms(1) less.prems(1) True less.prems(2) show ?thesis
    proof (cases rule: send_blocks_step)
      case 1
      then show ?thesis by (cases r) auto
    next
      case (2 b es')
      let ?s = "\<lparr> fs_calls = fs_calls s + 2, fs_checkpoint = grown ?cp b, fs_last_hash = hd_hash (blk_header b) \<rparr>"
      have "unat m - unat (cp_height (fs_checkpoint ?s)) < unat m - unat (cp_height ?cp)"
        using True cp_height_next(1) [OF True] by (simp add: word_less_nat_alt)
      moreover have "linked ?s" by (simp add: linked_def)
      ultimately have "counted 0 es' \<and> (\<exists>cp'. extends (grown ?cp b) es' cp'
          \<and> (\<forall>s'. r = Inr s' \<longrightarrow> fs_checkpoint s' = cp' \<and> linked s'))"
        using less.hyps [OF _ _ 2(3)] by simp
      then show ?thesis
        using 2(1, 2) cp_height_next(1) [OF True] by (simp add: sent_event_def grown_def)
    qed
  qed
qed

section \<open>Going back\<close>

fun cp_drop :: "nat \<Rightarrow> checkpoint \<Rightarrow> checkpoint option" where
  "cp_drop 0 cp = Some cp"
| "cp_drop (Suc k) cp = (case cp_prev cp of None \<Rightarrow> None | Some p \<Rightarrow> cp_drop k p)"

lemma drop_orphans_spec:
  assumes "drop_orphans N max_len k t cp lst = Some (k', t', cp', lst')" and "lst = cp_hash cp"
    and small: "unat max_len < 2 ^ 64 - 1"
  shows "\<exists>n. k' = k + word_of_nat n \<and> unat k' = unat k + n \<and> k' \<le> max_len
    \<and> cp_drop n cp = Some cp' \<and> lst' = cp_hash cp' \<and> t' = t + n + 1
    \<and> (\<forall>i < n. \<exists>c. cp_drop i cp = Some c \<and> orphaned (N (t + i)) (cp_hash c))
    \<and> \<not> orphaned (N (t + n)) (cp_hash cp')"
  using assms(1, 2) small
proof (induction N max_len k t cp lst rule: drop_orphans.induct)
  case (1 N max_len k t b p lst)
  have k: "k \<le> max_len" "\<not> max_len < k" using 1(2) by (auto split: if_splits)
  show ?case
  proof (cases "orphaned (N t) (bid_hash b)")
    case False
    with 1(2) k(2) have "k' = k" "t' = t + 1" "cp' = CheckPoint b p" "lst' = lst" by simp_all
    with False 1(3) k(1) show ?thesis by (intro exI [of _ 0]) (simp add: cp_hash_def)
  next
    case True
    with 1(2) k(2) obtain q where q: "p = Some q"
      "drop_orphans N max_len (k + 1) (t + 1) q (cp_hash q) = Some (k', t', cp', lst')"
      by (auto split: option.splits if_splits)
    then obtain n where n: "k' = k + 1 + word_of_nat n" "unat k' = unat (k + 1) + n" "k' \<le> max_len"
      "cp_drop n q = Some cp'" "lst' = cp_hash cp'" "t' = t + 1 + n + 1"
      "\<forall>i < n. \<exists>c. cp_drop i q = Some c \<and> orphaned (N (t + 1 + i)) (cp_hash c)"
      "\<not> orphaned (N (t + 1 + n)) (cp_hash cp')"
      using 1(1) [OF k(2) True q(1) q(2) refl 1(4)] by blast
    have "unat k \<le> unat max_len" using k(1) by (simp add: word_le_nat_alt)
    then have "unat (k + 1) = unat k + 1" using 1(4) by (simp add: unat_word_ariths)
    moreover have "\<exists>c. cp_drop i (CheckPoint b p) = Some c \<and> orphaned (N (t + i)) (cp_hash c)"
      if "i < Suc n" for i
      using n(7) that True q(1) by (cases i) (simp_all add: cp_hash_def)
    ultimately show ?thesis
      using n q(1) by (intro exI [of _ "Suc n"]) simp
  qed
qed

section \<open>A node that stands still\<close>

definition hash_at :: "(nat \<Rightarrow> block) \<Rightarrow> nat \<Rightarrow> hash32" where
  "hash_at active i = hd_hash (blk_header (active i))"

text \<open>The node serves the chain of the blocks \<open>active 0, ..., active tip\<close>.\<close>

definition serves :: "node_view \<Rightarrow> (nat \<Rightarrow> block) \<Rightarrow> nat \<Rightarrow> bool" where
  "serves V active tip \<longleftrightarrow> nv_open V \<and> tip < 2 ^ 64 \<and> nv_best V = Some (hash_at active tip)
     \<and> (\<forall>i \<le> tip. nv_hash V (word_of_nat i) = Some (hash_at active i)
          \<and> nv_block V (hash_at active i) = Some (active i)
          \<and> (\<exists>c. nv_info V (hash_at active i) = Some (c, word_of_nat i) \<and> \<not> c <s 0))
     \<and> (\<forall>i < tip. bh_prev_hash (hd_value (blk_header (active (Suc i)))) = hash_at active i)"

definition chain_event :: "(nat \<Rightarrow> block) \<Rightarrow> nat \<Rightarrow> u64 \<Rightarrow> nat \<Rightarrow> block_event" where
  "chain_event active tip k i = \<lparr> be_height = word_of_nat i, be_hash = hash_at active i, be_block = active i,
     be_reorg_len = k, be_tip = word_of_nat tip \<rparr>"

text \<open>The blocks above height \<open>i\<close>, the first of them with \<open>k\<close> dropped blocks.\<close>

definition chain_events :: "(nat \<Rightarrow> block) \<Rightarrow> nat \<Rightarrow> u64 \<Rightarrow> nat \<Rightarrow> block_event list" where
  "chain_events active tip k i = (if i < tip
     then chain_event active tip k (Suc i) # map (chain_event active tip 0) [Suc (Suc i) ..< Suc tip] else [])"

lemma servesD:
  assumes "serves V active tip"
  shows "nv_open V" "tip < 2 ^ 64" "nv_best V = Some (hash_at active tip)"
    "i \<le> tip \<Longrightarrow> nv_hash V (word_of_nat i) = Some (hash_at active i)"
    "i \<le> tip \<Longrightarrow> nv_block V (hash_at active i) = Some (active i)"
    "i \<le> tip \<Longrightarrow> \<not> orphaned V (hash_at active i)"
    "\<exists>c. nv_info V (hash_at active tip) = Some (c, word_of_nat tip)"
    "i < tip \<Longrightarrow> bh_prev_hash (hd_value (blk_header (active (Suc i)))) = hash_at active i"
  using assms unfolding serves_def orphaned_def by (simp, simp, simp, simp, simp, fastforce, blast, simp)

lemma unat_height:
  assumes "i \<le> tip" and "tip < 2 ^ 64"
  shows "unat (word_of_nat i :: u64) = i"
  using assms by (simp add: unat_of_nat take_bit_nat_eq_self)

lemma send_blocks_serves:
  assumes V: "serves V active tip" and "i \<le> tip"
    and "cp_height cp = word_of_nat i" and "cp_hash cp = hash_at active i"
  shows "\<exists>t' cp'. send_blocks (\<lambda>_. V) (word_of_nat tip) k
      \<lparr> fs_calls = t, fs_checkpoint = cp, fs_last_hash = hash_at active i \<rparr>
    = (chain_events active tip k i, Inr \<lparr> fs_calls = t', fs_checkpoint = cp', fs_last_hash = hash_at active tip \<rparr>)
    \<and> cp_hash cp' = hash_at active tip \<and> (i = tip \<longrightarrow> cp' = cp)"
  using assms(2-)
proof (induction "tip - i" arbitrary: i cp k t)
  case 0
  then show ?case
    by (simp add: send_blocks.simps [of "\<lambda>_. V"] chain_events_def)
next
  case (Suc n)
  then have i: "i < tip" by simp
  note unats = unat_height [OF Suc.prems(1) servesD(2) [OF V]] unat_height [OF le_refl servesD(2) [OF V]]
  have lt: "cp_height cp < word_of_nat tip"
    using i unats Suc.prems(2) by (simp add: word_less_nat_alt)
  have next_height: "cp_height cp + 1 = word_of_nat (Suc i)"
    using Suc.prems(2) by (simp add: add.commute)
  let ?cp = "CheckPoint (block_id_at (word_of_nat (Suc i)) (hash_at active (Suc i))) (Some cp)"
  note d = servesD(4, 5) [OF V Suc_leI [OF i]] servesD(8) [OF V i] servesD(1) [OF V]
  have n: "n = tip - Suc i" using Suc.hyps(2) by simp
  from Suc.hyps(1) [OF n, of ?cp 0 "t + 2"] i obtain t' cp' where
    "send_blocks (\<lambda>_. V) (word_of_nat tip) 0
      \<lparr> fs_calls = t + 2, fs_checkpoint = ?cp, fs_last_hash = hash_at active (Suc i) \<rparr>
    = (chain_events active tip 0 (Suc i), Inr \<lparr> fs_calls = t', fs_checkpoint = cp', fs_last_hash = hash_at active tip \<rparr>)"
    "cp_hash cp' = hash_at active tip" by auto
  moreover have "chain_events active tip k i = chain_event active tip k (Suc i) # chain_events active tip 0 (Suc i)"
    using i by (cases "Suc i < tip") (simp_all add: chain_events_def upt_conv_Cons del: upt_Suc)
  ultimately show ?case
    using lt d cp_insert_next [OF lt] Suc.prems(3) i
    by (simp add: send_blocks.simps [of "\<lambda>_. V" "word_of_nat tip" k] next_height check_ordering_def chain_event_def
        hash_at_def [symmetric] del: of_nat_Suc)
qed

lemma drop_orphans_stable:
  assumes "\<forall>i < n. \<exists>c. cp_drop i cp = Some c \<and> orphaned V (cp_hash c)"
    and "cp_drop n cp = Some cp0" and "\<not> orphaned V (cp_hash cp0)"
    and "unat k + n \<le> unat max_len" and "lst = cp_hash cp"
  shows "\<exists>t'. drop_orphans (\<lambda>_. V) max_len k t cp lst = Some (k + word_of_nat n, t', cp0, cp_hash cp0)"
  using assms
proof (induction n arbitrary: cp k t lst)
  case 0
  then show ?case by (cases cp) (auto simp: cp_hash_def word_less_nat_alt)
next
  case (Suc n)
  obtain b p where cp: "cp = CheckPoint b p" by (cases cp)
  with Suc.prems(2) obtain q where q: "p = Some q" by (auto split: option.splits)
  have le: "unat k \<le> unat max_len" "\<not> max_len < k" using Suc.prems(4) by (simp_all add: word_less_nat_alt)
  have "unat (k + 1) = unat k + 1"
    using Suc.prems(4) unat_u64_less [of max_len] by (simp add: unat_word_ariths)
  moreover have "\<forall>i < n. \<exists>c. cp_drop i q = Some c \<and> orphaned V (cp_hash c)"
    using Suc.prems(1) cp q by (metis Suc_less_eq cp_drop.simps(2) cp_prev.simps option.simps(5))
  ultimately obtain t' where "drop_orphans (\<lambda>_. V) max_len (k + 1) (t + 1) q (cp_hash q)
      = Some (k + 1 + word_of_nat n, t', cp0, cp_hash cp0)"
    using Suc.IH [of q "k + 1" "cp_hash q" "t + 1"] Suc.prems(2-4) cp q by auto
  moreover have "orphaned V (bid_hash b)"
    using Suc.prems(1) cp by (auto simp: cp_hash_def dest!: spec [of _ 0])
  ultimately show ?case using cp q le by (simp add: add.assoc)
qed

lemma serves_inj:
  assumes "serves V active tip" and "i \<le> tip" and "hash_at active i = hash_at active tip"
  shows "i = tip"
proof -
  have "(word_of_nat i :: u64) = word_of_nat tip"
    using assms unfolding serves_def by (metis le_refl option.inject prod.inject)
  then show ?thesis using unat_height [OF assms(2)] unat_height [OF le_refl] servesD(2) [OF assms(1)] by metis
qed

lemma catch_up:
  assumes V: "serves V active tip" and s: "linked s" and max_len: "n \<le> unat max_len"
    and drop: "cp_drop n (fs_checkpoint s) = Some cp0"
    and gone: "\<forall>j < n. \<exists>c. cp_drop j (fs_checkpoint s) = Some c \<and> orphaned V (cp_hash c)"
    and base: "i \<le> tip" "cp_height cp0 = word_of_nat i" "cp_hash cp0 = hash_at active i"
  shows "\<exists>s'. follow_pass (\<lambda>_. V) max_len s = (chain_events active tip (word_of_nat n) i, Inr s')
    \<and> cp_hash (fs_checkpoint s') = hash_at active tip \<and> linked s'
    \<and> (i = tip \<longrightarrow> fs_checkpoint s' = cp0)"
proof -
  let ?cp = "fs_checkpoint s"
  have lst: "fs_last_hash s = cp_hash ?cp" using s by (simp add: linked_def)
  have best: "cp_hash ?cp = hash_at active tip \<longleftrightarrow> n = 0 \<and> i = tip"
  proof (cases n)
    case 0
    then have "cp_hash ?cp = hash_at active i" using drop base(3) by simp
    with 0 serves_inj [OF V base(1)] show ?thesis by metis
  next
    case (Suc m)
    then have "orphaned V (cp_hash ?cp)" using gone by force
    with Suc servesD(6) [OF V le_refl] show ?thesis by auto
  qed
  show ?thesis
  proof (cases "n = 0 \<and> i = tip")
    case True
    with best lst drop servesD(3) [OF V] show ?thesis
      by (auto simp: follow_pass_def chain_events_def linked_def)
  next
    case False
    have "\<not> orphaned V (cp_hash cp0)" using servesD(6) [OF V base(1)] base(3) by simp
    then obtain t' where d: "drop_orphans (\<lambda>_. V) max_len 0 (fs_calls s + 1) ?cp (fs_last_hash s)
        = Some (word_of_nat n, t', cp0, hash_at active i)"
      using drop_orphans_stable [OF gone drop _ _ lst, of 0 max_len "fs_calls s + 1"] max_len base(3) by auto
    obtain c where c: "nv_info V (hash_at active tip) = Some (c, word_of_nat tip)"
      using servesD(7) [OF V] by blast
    obtain t2 cp' where "send_blocks (\<lambda>_. V) (word_of_nat tip) (word_of_nat n)
        \<lparr> fs_calls = t' + 1, fs_checkpoint = cp0, fs_last_hash = hash_at active i \<rparr>
      = (chain_events active tip (word_of_nat n) i, Inr \<lparr> fs_calls = t2, fs_checkpoint = cp',
          fs_last_hash = hash_at active tip \<rparr>)"
      "cp_hash cp' = hash_at active tip" "i = tip \<longrightarrow> cp' = cp0"
      using send_blocks_serves [OF V base] by blast
    moreover have "hash_at active tip \<noteq> cp_hash ?cp" using best False by metis
    ultimately show ?thesis
      using d c servesD(3) [OF V] by (simp add: follow_pass_def linked_def)
  qed
qed

end
