(* ===== verification/FollowProps.thy ===== *)
theory FollowProps
  imports FollowInv IndexProps
begin

text \<open>
  The properties of the checkpoints and of following the chain of the node.
\<close>

section \<open>Checkpoints\<close>

text \<open>Inserting a block id into an ascending chain of checkpoints: an id it has changes nothing; an
  id at a new height goes between its neighbours; one at the height of another block replaces it and
  every block above.  It panics exactly when no block is below the new one.\<close>

lemma checkpoint_insert:
  assumes "ascending (cp_ids cp)"
  shows "map_option cp_ids (cp_insert b cp) =
      (if b \<in> set (cp_ids cp) then Some (cp_ids cp)
       else if \<forall>x \<in> set (cp_ids cp). bid_height b \<le> bid_height x then None
       else Some (filter (\<lambda>x. bid_height x < bid_height b) (cp_ids cp) @ [b] @
         (if \<exists>x \<in> set (cp_ids cp). bid_height x = bid_height b then []
          else filter (\<lambda>x. bid_height b < bid_height x) (cp_ids cp))))
    \<and> (\<forall>cp'. cp_insert b cp = Some cp' \<longrightarrow> ascending (cp_ids cp'))"
proof -
  have "lower b (cp_ids cp) = [] \<longleftrightarrow> (\<forall>x \<in> set (cp_ids cp). bid_height b \<le> bid_height x)"
    by (auto simp: lower_def filter_empty_conv)
  moreover have "conflicts b (cp_ids cp) \<longleftrightarrow> (\<exists>x \<in> set (cp_ids cp). bid_height x = bid_height b)"
    if "b \<notin> set (cp_ids cp)"
    using that block_id_eq unfolding conflicts_def by blast
  ultimately show ?thesis
    unfolding cp_insert_spec(1) [OF assms] insert_ids_def lower_def higher_def
    using cp_insert_spec(2) [OF assms] by simp
qed

section \<open>Following the node\<close>

text \<open>A chain that leaves the block \<open>[41]\<close> of height 41 for \<open>[1, 42]\<close>, and the view of a node whose tip is
  at a given height of it.\<close>

definition example_name :: "nat \<Rightarrow> bytes" where
  "example_name i = (if i \<le> 41 then [word_of_nat i] else [1, word_of_nat i])"

definition example_chain_at :: "nat \<Rightarrow> block" where
  "example_chain_at i = (example_chain_block [])\<lparr> blk_header := \<lparr> hd_hash = example_name i,
     hd_value = \<lparr> bh_version = 1, bh_prev_hash = example_name (i - 1), bh_merkle_root = [], bh_timestamp = 0,
       bh_bits = 0, bh_nonce = 0 \<rparr> \<rparr> \<rparr>"

definition example_index :: "bytes \<Rightarrow> nat" where
  "example_index x = (if x = [] then 0 else unat (last x))"

definition example_view :: "nat \<Rightarrow> node_view" where
  "example_view tip = \<lparr> nv_best = Some (example_name tip),
     nv_info = (\<lambda>x. if example_index x \<le> tip \<and> example_name (example_index x) = x
        then Some (1, word_of_nat (example_index x)) else None),
     nv_hash = (\<lambda>h. if unat h \<le> tip then Some (example_name (unat h)) else None),
     nv_block = (\<lambda>x. if example_index x \<le> tip \<and> example_name (example_index x) = x
        then Some (example_chain_at (example_index x)) else None), nv_open = True \<rparr>"

text \<open>The checkpoint is at the block \<open>[42]\<close>, which is not on the chain.\<close>

definition example_base :: checkpoint where
  "example_base = CheckPoint (block_id_at 41 [41]) (Some (cp_new (block_id_at 40 [40])))"

definition example_follow :: follow_state where
  "example_follow = \<lparr> fs_calls = 0, fs_checkpoint = CheckPoint (block_id_at 42 [42]) (Some example_base),
     fs_last_hash = [42] \<rparr>"

lemma example_hash: "hash_at example_chain_at i = example_name i"
  by (simp add: hash_at_def example_chain_at_def)

lemma example_index_name: "i < 256 \<Longrightarrow> example_index (example_name i) = i"
  by (simp add: example_index_def example_name_def unat_of_nat take_bit_nat_eq_self)

lemma example_serves:
  assumes "tip < 256"
  shows "serves (example_view tip) example_chain_at tip"
proof -
  have "example_index (example_name i) = i" "unat (word_of_nat i :: u64) = i" if "i \<le> tip" for i
    using that assms by (simp_all add: example_index_name unat_height [of i 256])
  moreover have "\<not> (1 :: i32) <s 0" by (simp add: word_sless_alt)
  ultimately show ?thesis
    using assms unfolding serves_def example_hash
    by (auto simp: example_view_def) (simp add: example_chain_at_def)
qed

lemma example_follow_facts:
  "linked example_follow" "cp_drop 1 (fs_checkpoint example_follow) = Some example_base"
  "cp_height example_base = word_of_nat 41" "cp_hash example_base = hash_at example_chain_at 41"
  by (simp_all add: linked_def example_follow_def example_base_def example_hash) (simp_all add: example_name_def)

lemma example_follow_gone:
  "\<forall>j < 1. \<exists>c. cp_drop j (fs_checkpoint example_follow) = Some c \<and> orphaned (example_view tip) (cp_hash c)"
  by (simp add: example_follow_def orphaned_def example_view_def example_index_def example_name_def)

text \<open>C18.  Whatever a node answers that returns blocks under their own hashes, the blocks sent in a pass
  are linked: the first extends a checkpoint at most \<open>max_len\<close> below the tip and its reorganisation
  length is the number of checkpoints left, every other block extends the one before and counts
  none.  The checkpoint ends at the last block sent.\<close>

theorem pass_linked:
  assumes "honest N" and "linked s" and small: "unat max_len < 2 ^ 64 - 1"
    and pass: "follow_pass N max_len s = (es, r)"
  shows "\<exists>n cp0 cp'. n \<le> unat max_len \<and> cp_drop n (fs_checkpoint s) = Some cp0
    \<and> counted (word_of_nat n) es \<and> extends cp0 es cp'
    \<and> (\<forall>s'. r = Inr s' \<longrightarrow> fs_checkpoint s' = cp' \<and> linked s')"
proof -
  let ?cp = "fs_checkpoint s"
  consider "es = []" "\<forall>s'. r = Inr s' \<longrightarrow> s' = s\<lparr> fs_calls := fs_calls s + 1 \<rparr>"
    | k t cp0 lst m where "drop_orphans N max_len 0 (fs_calls s + 1) ?cp (fs_last_hash s) = Some (k, t, cp0, lst)"
      "send_blocks N m k \<lparr> fs_calls = t + 1, fs_checkpoint = cp0, fs_last_hash = lst \<rparr> = (es, r)"
    using pass by (auto simp: follow_pass_def Let_def split: option.splits if_splits)
  then show ?thesis
  proof cases
    case 1
    have "fs_checkpoint s' = ?cp \<and> linked s'" if "r = Inr s'" for s'
    proof -
      have "s' = s\<lparr> fs_calls := fs_calls s + 1 \<rparr>" using 1(2) that by blast
      then show ?thesis using assms(2) by (simp add: linked_def)
    qed
    with 1(1) show ?thesis by (intro exI [of _ 0] exI [of _ ?cp]) simp
  next
    case (2 k t cp0 lst m)
    have "fs_last_hash s = cp_hash ?cp" using assms(2) by (simp add: linked_def)
    from drop_orphans_spec [OF 2(1) this small] obtain n where
      n: "k = 0 + word_of_nat n" "unat k = unat (0 :: u64) + n" "k \<le> max_len" "cp_drop n ?cp = Some cp0"
        "lst = cp_hash cp0"
      by (elim exE conjE) (rule that)
    have "linked \<lparr> fs_calls = t + 1, fs_checkpoint = cp0, fs_last_hash = lst \<rparr>"
      by (simp add: linked_def n(5))
    from send_blocks_linked [OF assms(1) this 2(2)] obtain cp' where
      "counted k es" "extends cp0 es cp'" "\<forall>s'. r = Inr s' \<longrightarrow> fs_checkpoint s' = cp' \<and> linked s'"
      by auto
    then show ?thesis
      using n by (intro exI [of _ n] exI [of _ cp0] exI [of _ cp']) (simp add: word_le_nat_alt)
  qed
qed

theorem pass_linked_witness:
  "\<exists>es r n cp0 cp'. follow_pass (\<lambda>_. example_view 43) 30 example_follow = (es, r)
    \<and> cp_drop n (fs_checkpoint example_follow) = Some cp0
    \<and> counted (word_of_nat n) es \<and> extends cp0 es cp'"
proof -
  have "honest (\<lambda>_. example_view 43)"
    by (auto simp: honest_def example_view_def example_chain_at_def split: if_splits)
  moreover obtain es r where "follow_pass (\<lambda>_. example_view 43) 30 example_follow = (es, r)" by fastforce
  moreover have "unat (30 :: u64) < 2 ^ 64 - 1" by simp
  ultimately show ?thesis
    using pass_linked [OF _ example_follow_facts(1), of "\<lambda>_. example_view 43" 30 es r] by blast
qed

lemma send_blocks_bound:
  "send_blocks N m k s = (es, r) \<Longrightarrow> length es \<le> unat m - unat (cp_height (fs_checkpoint s))
    \<and> (\<forall>e \<in> set es. be_tip e = m)
    \<and> (\<forall>i < length es. unat (be_height (es ! i)) = unat (cp_height (fs_checkpoint s)) + 1 + i)
    \<and> (\<forall>s'. r = Inr s' \<longrightarrow> fs_calls s' \<le> fs_calls s + 2 * length es + 2 \<and> fs_calls s \<le> fs_calls s')"
proof (induction N m k s arbitrary: es r rule: send_blocks.induct)
  case (1 N m k s)
  let ?cp = "fs_checkpoint s"
  show ?case
  proof (cases "cp_height ?cp < m")
    case False
    with 1(2) show ?thesis by (auto simp: send_blocks.simps [of N m k s] Let_def)
  next
    case True
    have up: "unat (cp_height ?cp) < unat m" "unat (cp_height ?cp + 1) = unat (cp_height ?cp) + 1"
      using True cp_height_next(1) [OF True] by (simp_all add: word_less_nat_alt)
    consider "es = []" "\<forall>s'. r = Inr s' \<longrightarrow> fs_calls s' = fs_calls s + 2"
      | h b es' where "nv_hash (N (fs_calls s)) (cp_height ?cp + 1) = Some h"
          "nv_block (N (fs_calls s + 1)) h = Some b" "bh_prev_hash (hd_value (blk_header b)) = cp_hash ?cp"
          "check_ordering (fs_last_hash s) (blk_header b) = Some (hd_hash (blk_header b))" "nv_open (N (fs_calls s + 1))"
          "send_blocks N m 0 \<lparr> fs_calls = fs_calls s + 2,
             fs_checkpoint = CheckPoint (block_id_at (cp_height ?cp + 1) h) (Some ?cp),
             fs_last_hash = hd_hash (blk_header b) \<rparr> = (es', r)"
          "es = \<lparr> be_height = cp_height ?cp + 1, be_hash = h, be_block = b, be_reorg_len = k, be_tip = m \<rparr> # es'"
      using 1(2) True
      by (simp add: send_blocks.simps [of N m k s] Let_def cp_insert_next [OF True] check_ordering_def
          split: option.splits if_splits) (fastforce simp: prod_eq_iff)+
    then show ?thesis
    proof cases
      case 1
      with up show ?thesis by fastforce
    next
      case (2 h b es')
      let ?s = "\<lparr> fs_calls = fs_calls s + 2, fs_checkpoint = CheckPoint (block_id_at (cp_height ?cp + 1) h) (Some ?cp),
        fs_last_hash = hd_hash (blk_header b) \<rparr>"
      have "length es' \<le> unat m - unat (cp_height (fs_checkpoint ?s)) \<and> (\<forall>e \<in> set es'. be_tip e = m)
          \<and> (\<forall>i < length es'. unat (be_height (es' ! i)) = unat (cp_height (fs_checkpoint ?s)) + 1 + i)
          \<and> (\<forall>s'. r = Inr s' \<longrightarrow> fs_calls s' \<le> fs_calls ?s + 2 * length es' + 2 \<and> fs_calls ?s \<le> fs_calls s')"
        by (rule "1.IH" [OF refl refl refl _ 2(1, 2) _ 2(4) _ refl _ 2(6)])
          (use True 2(3, 5) in \<open>simp_all add: cp_insert_next [OF True]\<close>)
      then show ?thesis using up 2(7) by (auto simp: nth_Cons split: nat.split)
    qed
  qed
qed

text \<open>A walk looks at the answers to so many calls only.\<close>

lemma send_blocks_local:
  "send_blocks N m k s = (es, r) \<Longrightarrow> (\<And>u. u < fs_calls s + 2 * length es + 2 \<Longrightarrow> N' u = N u)
    \<Longrightarrow> send_blocks N' m k s = (es, r)"
proof (induction N m k s arbitrary: es r rule: send_blocks.induct)
  case (1 N m k s)
  have N: "N' (fs_calls s) = N (fs_calls s)" "N' (Suc (fs_calls s)) = N (Suc (fs_calls s))" using 1(3) by simp_all
  show ?case
  proof (cases "\<exists>h b es'. cp_height (fs_checkpoint s) < m \<and> nv_hash (N (fs_calls s)) (cp_height (fs_checkpoint s) + 1) = Some h
      \<and> nv_block (N (Suc (fs_calls s))) h = Some b \<and> bh_prev_hash (hd_value (blk_header b)) = cp_hash (fs_checkpoint s)
      \<and> check_ordering (fs_last_hash s) (blk_header b) = Some (hd_hash (blk_header b)) \<and> nv_open (N (Suc (fs_calls s)))")
    case False
    then show ?thesis
      using 1(2) unfolding send_blocks.simps [of N m k s] send_blocks.simps [of N' m k s]
      by (auto simp: Let_def N check_ordering_def split: option.splits if_splits)
  next
    case True
    then obtain h b where up: "cp_height (fs_checkpoint s) < m" "nv_hash (N (fs_calls s)) (cp_height (fs_checkpoint s) + 1) = Some h"
      "nv_block (N (Suc (fs_calls s))) h = Some b" "bh_prev_hash (hd_value (blk_header b)) = cp_hash (fs_checkpoint s)"
      "check_ordering (fs_last_hash s) (blk_header b) = Some (hd_hash (blk_header b))" "nv_open (N (Suc (fs_calls s)))"
      by blast
    let ?s = "\<lparr> fs_calls = Suc (Suc (fs_calls s)), fs_checkpoint = CheckPoint (block_id_at (cp_height (fs_checkpoint s) + 1) h)
      (Some (fs_checkpoint s)), fs_last_hash = hd_hash (blk_header b) \<rparr>"
    obtain es' r' where rest: "send_blocks N m 0 ?s = (es', r')" by fastforce
    have es: "r' = r" "es = \<lparr> be_height = cp_height (fs_checkpoint s) + 1, be_hash = h, be_block = b, be_reorg_len = k,
        be_tip = m \<rparr> # es'"
      using 1(2) up rest by (simp_all add: send_blocks.simps [of N m k s] Let_def cp_insert_next [OF up(1)])
    note step = 1(1) [OF refl refl refl _ _ _ _ _ _ refl, simplified]
    have "send_blocks N' m 0 ?s = (es', r')"
      by (rule step) (use up rest es 1(3) in \<open>simp_all add: cp_insert_next [OF up(1)]\<close>)
    then show ?thesis
      using up N es by (simp add: send_blocks.simps [of N' m k s] Let_def cp_insert_next [OF up(1)])
  qed
qed

lemma drop_orphans_local:
  assumes "\<And>u. u < t + (unat max_len + 1 - unat k) \<Longrightarrow> N' u = N u" and "unat max_len < 2 ^ 64 - 1"
  shows "drop_orphans N' max_len k t cp lst = drop_orphans N max_len k t cp lst"
  using assms
proof (induction N max_len k t cp lst rule: drop_orphans.induct)
  case (1 N max_len k t b p lst)
  show ?case
  proof (cases "max_len < k")
    case False
    then have k: "unat k \<le> unat max_len" by (simp add: word_less_nat_alt)
    then have up: "unat (k + 1) = unat k + 1" using 1(3) by (simp add: unat_word_ariths)
    have "N' t = N t" using 1(2) k by simp
    moreover have "drop_orphans N' max_len (k + 1) (t + 1) q (cp_hash q) = drop_orphans N max_len (k + 1) (t + 1) q (cp_hash q)"
      if "orphaned (N t) (bid_hash b)" "p = Some q" for q
      by (rule 1(1) [OF False that _ 1(3)]) (use 1(2) k up in simp)
    ultimately show ?thesis by (simp split: option.split)
  qed simp
qed

text \<open>C38.  Every pass ends, whatever the node answers.\<close>

theorem pass_bounded:
  assumes "linked s" and small: "unat max_len < 2 ^ 64 - 1" and pass: "follow_pass N max_len s = (es, r)"
  shows "(\<forall>N'. (\<forall>u < fs_calls s + unat max_len + 2 * length es + 5. N' u = N u) \<longrightarrow> follow_pass N' max_len s = (es, r))
    \<and> (\<forall>s'. r = Inr s' \<longrightarrow> fs_calls s < fs_calls s' \<and> fs_calls s' \<le> fs_calls s + unat max_len + 2 * length es + 5)
    \<and> (es \<noteq> [] \<longrightarrow> (\<exists>n cp0 x h. n \<le> unat max_len \<and> cp_drop n (fs_checkpoint s) = Some cp0
        \<and> nv_best (N (fs_calls s)) = Some x \<and> nv_info (N (fs_calls s + n + 2)) x = Some (h, be_tip (hd es))
        \<and> length es \<le> unat (be_tip (hd es)) - unat (cp_height cp0)
        \<and> (\<forall>i < length es. unat (be_height (es ! i)) = unat (cp_height cp0) + 1 + i
            \<and> be_height (es ! i) \<le> be_tip (hd es) \<and> be_tip (es ! i) = be_tip (hd es))))"
proof -
  let ?cp = "fs_checkpoint s" and ?t = "Suc (fs_calls s)"
  have local: "follow_pass N' max_len s = (es, r)"
    if N': "\<forall>u < fs_calls s + unat max_len + 2 * length es + 5. N' u = N u" for N'
  proof -
    have drop: "drop_orphans N' max_len 0 ?t ?cp (fs_last_hash s) = drop_orphans N max_len 0 ?t ?cp (fs_last_hash s)"
      by (rule drop_orphans_local [OF _ small]) (use N' in simp)
    have start: "N' (fs_calls s) = N (fs_calls s)" using N' by simp
    consider "\<And>k t cp0 lst. nv_best (N (fs_calls s)) \<noteq> Some (cp_hash ?cp)
          \<Longrightarrow> drop_orphans N max_len 0 ?t ?cp (fs_last_hash s) \<noteq> Some (k, t, cp0, lst)"
      | "nv_best (N (fs_calls s)) = Some (cp_hash ?cp)"
      | k t cp0 lst where "drop_orphans N max_len 0 ?t ?cp (fs_last_hash s) = Some (k, t, cp0, lst)" by blast
    then show ?thesis
    proof cases
      case 1
      with pass drop start show ?thesis
        by (cases "drop_orphans N max_len 0 ?t ?cp (fs_last_hash s)")
          (auto simp: follow_pass_def Let_def split: option.splits if_splits)
    next
      case 2
      with pass drop start show ?thesis by (simp add: follow_pass_def)
    next
      case (3 k t cp0 lst)
      have "fs_last_hash s = cp_hash ?cp" using assms(1) by (simp add: linked_def)
      from drop_orphans_spec [OF 3 this small] have t: "t \<le> fs_calls s + unat max_len + 2"
        by (auto simp: word_le_nat_alt)
      have info: "N' t = N t" using N' t by simp
      have "send_blocks N' m k \<lparr> fs_calls = Suc t, fs_checkpoint = cp0, fs_last_hash = lst \<rparr> = (es, r)"
        if "send_blocks N m k \<lparr> fs_calls = Suc t, fs_checkpoint = cp0, fs_last_hash = lst \<rparr> = (es, r)" for m
        by (rule send_blocks_local [OF that]) (use N' t in simp)
      with pass drop start info 3 show ?thesis
        by (auto simp: follow_pass_def Let_def split: option.splits if_splits)
    qed
  qed
  consider "es = []" "\<forall>s'. r = Inr s' \<longrightarrow> fs_calls s' = fs_calls s + 1"
    | x h k t cp0 lst m where "drop_orphans N max_len 0 (fs_calls s + 1) ?cp (fs_last_hash s) = Some (k, t, cp0, lst)"
      "send_blocks N m k \<lparr> fs_calls = t + 1, fs_checkpoint = cp0, fs_last_hash = lst \<rparr> = (es, r)"
      "nv_best (N (fs_calls s)) = Some x" "nv_info (N t) x = Some (h, m)"
    using pass by (auto simp: follow_pass_def Let_def split: option.splits if_splits)
  then show ?thesis
  proof cases
    case 1
    have "fs_calls s < fs_calls s' \<and> fs_calls s' \<le> fs_calls s + unat max_len + 2 * length es + 5" if "r = Inr s'" for s'
    proof -
      have "fs_calls s' = fs_calls s + 1" using 1(2) that by blast
      then show ?thesis by simp
    qed
    with 1(1) local show ?thesis by blast
  next
    case (2 x h k t cp0 lst m)
    have "fs_last_hash s = cp_hash ?cp" using assms(1) by (simp add: linked_def)
    from drop_orphans_spec [OF 2(1) this small] obtain n where
      n: "unat k = unat (0 :: u64) + n" "k \<le> max_len" "cp_drop n ?cp = Some cp0" "t = fs_calls s + 1 + n + 1"
      by (elim exE conjE) (rule that)
    have le: "n \<le> unat max_len" using n(1, 2) by (simp add: word_le_nat_alt)
    note b = send_blocks_bound [OF 2(2)]
    have heights: "unat (be_height (es ! i)) = unat (cp_height cp0) + 1 + i \<and> be_height (es ! i) \<le> m \<and> be_tip (es ! i) = m"
      if "i < length es" for i
      using b that by (auto simp: word_le_nat_alt)
    have "be_tip (hd es) = m" if "es \<noteq> []" using b hd_in_set [OF that] by blast
    then have "es \<noteq> [] \<longrightarrow> (\<exists>n cp0 x h. n \<le> unat max_len \<and> cp_drop n ?cp = Some cp0
        \<and> nv_best (N (fs_calls s)) = Some x \<and> nv_info (N (fs_calls s + n + 2)) x = Some (h, be_tip (hd es))
        \<and> length es \<le> unat (be_tip (hd es)) - unat (cp_height cp0)
        \<and> (\<forall>i < length es. unat (be_height (es ! i)) = unat (cp_height cp0) + 1 + i
            \<and> be_height (es ! i) \<le> be_tip (hd es) \<and> be_tip (es ! i) = be_tip (hd es)))"
      using b n(3, 4) 2(3, 4) le heights by (intro impI exI [of _ n] exI [of _ cp0] exI [of _ x] exI [of _ h]) simp
    moreover have "\<forall>s'. r = Inr s' \<longrightarrow> fs_calls s < fs_calls s' \<and> fs_calls s' \<le> fs_calls s + unat max_len + 2 * length es + 5"
      using b n(4) le by auto
    ultimately show ?thesis using local by blast
  qed
qed

theorem pass_bounded_witness:
  "\<exists>es s'. follow_pass (\<lambda>_. example_view 43) 30 example_follow = (es, Inr s') \<and> map be_height es = [42, 43]
    \<and> fs_calls s' \<le> fs_calls example_follow + 30 + 2 * length es + 5
    \<and> (\<forall>N'. (\<forall>u < fs_calls example_follow + 39. N' u = example_view 43) \<longrightarrow> follow_pass N' 30 example_follow = (es, Inr s'))"
proof -
  have "1 \<le> unat (30 :: u64)" "41 \<le> (43 :: nat)" "(43 :: nat) < 256" by simp_all
  from catch_up [OF example_serves [OF this(3)] example_follow_facts(1) this(1) example_follow_facts(2)
      example_follow_gone this(2) example_follow_facts(3, 4)]
  obtain es s' where pass: "follow_pass (\<lambda>_. example_view 43) 30 example_follow = (es, Inr s')"
    and es: "es = chain_events example_chain_at 43 (word_of_nat 1) 41" by blast
  have "map be_height es = [42, 43]" by (simp add: es chain_events_def chain_event_def upt_rec)
  moreover from this have "length es = 2" by (metis length_map length_Cons list.size(3) numeral_2_eq_2)
  moreover have "unat (30 :: u64) < 2 ^ 64 - 1" by simp
  note pass_bounded [OF example_follow_facts(1) this pass]
  ultimately show ?thesis using pass by auto
qed

text \<open>C19.  One pass catches up with a node that stands still: when the \<open>n\<close> topmost checkpoints are not on
  the chain of the node and the one below them is its block \<open>i\<close>, the pass sends exactly the blocks
  from \<open>i + 1\<close> to the tip in order, the first with a reorganisation length of \<open>n\<close>, and leaves the
  checkpoint at the tip.\<close>

theorem pass_catches_up:
  assumes V: "serves V active tip" and s: "linked s" and max_len: "n \<le> unat max_len"
    and drop: "cp_drop n (fs_checkpoint s) = Some cp0"
    and gone: "\<forall>j < n. \<exists>c. cp_drop j (fs_checkpoint s) = Some c \<and> orphaned V (cp_hash c)"
    and base: "i \<le> tip" "cp_height cp0 = word_of_nat i" "cp_hash cp0 = hash_at active i"
  shows "\<exists>s'. follow_pass (\<lambda>_. V) max_len s = (chain_events active tip (word_of_nat n) i, Inr s')
    \<and> cp_hash (fs_checkpoint s') = hash_at active tip \<and> linked s'
    \<and> (i = tip \<longrightarrow> fs_checkpoint s' = cp0)"
  by (rule catch_up [OF assms])

theorem pass_catches_up_witness:
  "\<exists>s'. follow_pass (\<lambda>_. example_view 43) 30 example_follow = ([chain_event example_chain_at 43 1 42,
      chain_event example_chain_at 43 0 43], Inr s')"
proof -
  have "1 \<le> unat (30 :: u64)" "41 \<le> (43 :: nat)" "(43 :: nat) < 256" by simp_all
  from pass_catches_up [OF example_serves [OF this(3)] example_follow_facts(1) this(1) example_follow_facts(2)
      example_follow_gone this(2) example_follow_facts(3, 4)]
  show ?thesis by (auto simp: chain_events_def upt_rec)
qed

text \<open>C20.  The number of dropped blocks is lost when a pass has no block to send: if the best chain of the
  node ends at a checkpoint below the tip, that pass goes back and sends nothing, and the pass after
  it, when the chain has grown from there, sends the first block with reorganisation length 0.  The
  indexer, whose log still ends at the dropped blocks, stops with the error on the height.\<close>

theorem dropped_blocks_forgotten:
  assumes V1: "serves V1 active1 t1" and V2: "serves V2 active2 t2" and grows: "t1 < t2"
    and fork: "hash_at active2 t1 = hash_at active1 t1" and s: "linked s" and n: "0 < n" "n \<le> unat max_len"
    and drop: "cp_drop n (fs_checkpoint s) = Some cp0"
    and gone: "\<forall>j < n. \<exists>c. cp_drop j (fs_checkpoint s) = Some c \<and> orphaned V1 (cp_hash c)"
    and base: "cp_height cp0 = word_of_nat t1" "cp_hash cp0 = hash_at active1 t1"
    and small: "t1 + n < 2 ^ 32"
    and log: "rc_blocks (is_cache st) \<noteq> []" "unat (fst (last (rc_blocks (is_cache st)))) = t1 + n"
    and kept: "keeps_log (chain_event active2 t2 0 (Suc t1))"
  shows "\<exists>s1 s2 evs. follow_pass (\<lambda>_. V1) max_len s = ([], Inr s1)
    \<and> follow_pass (\<lambda>_. V2) max_len s1 = (chain_event active2 t2 0 (Suc t1) # evs, Inr s2)
    \<and> (\<exists>h. index_step X opened cancelled (chain_event active2 t2 0 (Suc t1)) st
        = Inl (IeReorgTip h (word_of_nat (Suc t1))))"
proof -
  obtain s1 where s1: "follow_pass (\<lambda>_. V1) max_len s = ([], Inr s1)" "linked s1" "fs_checkpoint s1 = cp0"
    using catch_up [OF V1 s n(2) drop gone le_refl base] by (auto simp: chain_events_def)
  have "cp_hash (fs_checkpoint s1) = hash_at active2 t1" "cp_height (fs_checkpoint s1) = word_of_nat t1"
    using s1(3) base fork by simp_all
  then obtain s2 where "follow_pass (\<lambda>_. V2) max_len s1 = (chain_events active2 t2 0 t1, Inr s2)"
    using catch_up [OF V2 s1(2), of 0 max_len "fs_checkpoint s1" t1] grows by auto
  moreover have "\<exists>h. index_step X opened cancelled (chain_event active2 t2 0 (Suc t1)) st
      = Inl (IeReorgTip h (word_of_nat (Suc t1)))"
  proof -
    let ?ev = "chain_event active2 t2 0 (Suc t1)" and ?k = "fst (last (rc_blocks (is_cache st)))"
    have "roll_back ?ev (drop_log ?ev st) = st"
      using kept by (simp add: roll_back_def drop_log_def chain_event_def)
    moreover have "?k + 1 \<noteq> word_of_nat (Suc t1)"
    proof
      assume "?k + 1 = word_of_nat (Suc t1)"
      then have "?k = word_of_nat t1" by simp
      then have "unat ?k = t1" using small by (simp add: unat_of_nat take_bit_nat_eq_self)
      with log(2) n(1) show False by simp
    qed
    moreover have "ucast (be_height ?ev) = (word_of_nat (Suc t1) :: u32)"
    proof -
      have "Suc t1 < 2 ^ 32" using small n(1) by simp
      then have "unat (word_of_nat (Suc t1) :: u64) = Suc t1" "unat (word_of_nat (Suc t1) :: u32) = Suc t1"
        by (simp_all only: unat_of_nat) (simp_all add: take_bit_nat_eq_self)
      with \<open>Suc t1 < 2 ^ 32\<close> ucast_u32_small [of "word_of_nat (Suc t1)"] show ?thesis
        by (simp add: chain_event_def word_unat_eq_iff del: of_nat_Suc)
    qed
    ultimately show ?thesis
      using log(1) unfolding index_step_def by (simp add: Let_def)
  qed
  ultimately show ?thesis
    using s1(1) grows by (auto simp: chain_events_def)
qed

theorem dropped_blocks_forgotten_witness:
  "\<exists>s1 s2 evs h. follow_pass (\<lambda>_. example_view 41) 30 example_follow = ([], Inr s1)
    \<and> follow_pass (\<lambda>_. example_view 43) 30 s1 = (chain_event example_chain_at 43 0 42 # evs, Inr s2)
    \<and> index_step example_index_env True False (chain_event example_chain_at 43 0 42)
        ((example_state 42)\<lparr> is_cache := reorg_new_block 42 reorg_cache_new \<rparr>) = Inl (IeReorgTip h 42)"
proof -
  let ?st = "(example_state 42)\<lparr> is_cache := reorg_new_block 42 reorg_cache_new \<rparr>"
  have "rc_blocks (is_cache ?st) \<noteq> []" "unat (fst (last (rc_blocks (is_cache ?st)))) = 41 + 1"
    by (simp_all add: reorg_new_block_def reorg_cache_new_def reorg_cache_max_len_def)
  moreover have "(41 :: nat) < 256" "(43 :: nat) < 256" "(41 :: nat) < 43" "0 < (1 :: nat)" "1 \<le> unat (30 :: u64)"
    "41 + 1 < (2 :: nat) ^ 32" by simp_all
  moreover have "keeps_log (chain_event example_chain_at 43 0 (Suc 41))"
    by (simp add: keeps_log_def chain_event_def reorg_cache_max_len_def)
  ultimately show ?thesis
    using dropped_blocks_forgotten [OF example_serves example_serves _ refl example_follow_facts(1) _ _
      example_follow_facts(2) example_follow_gone example_follow_facts(3, 4),
      of 43 30 ?st example_index_env True False] by auto
qed

end
