(* ===== verification/WireProps.thy ===== *)
theory WireProps
  imports Wire Codec
begin

text \<open>
  Properties of the wire layer: what the readers of \<open>Wire\<close> give back on the bytes the writers (or
  the node) produce.  The encoders of segwit transactions and of the block index integers are the
  node's, written here from the formats the readers follow; they are specifications, not code of
  the repository.
\<close>

section \<open>Readers on written bytes\<close>

named_theorems reads \<open>readers on the bytes they read\<close>

lemma rthen_Some [reads]: "p bs = Some (x, r) \<Longrightarrow> rthen p f bs = f x r"
  by (simp add: rthen_def)

lemma rreturn_apply [simp]: "rreturn x bs = Some (x, bs)"
  by (simp add: rreturn_def)

lemma read_exact_append [reads]: "length v = n \<Longrightarrow> read_exact n (v @ r) = Some (v, r)"
  by (simp add: read_exact_def)

lemma read_le_append:
  "length v = k \<Longrightarrow> read_le k (v @ r) = Some (word_of_nat (le_nat v), r)"
  by (simp add: read_le_def read_exact_append)

lemma read_le_u8 [reads]: "read_le (Suc 0) (v # r) = Some (v :: u8, r)"
  using read_le_append [of "[v]" 1 r, where 'a = 8] by simp

lemma read_le_u16 [reads]: "read_le 2 (u16_le w @ r) = Some (w, r)"
  using unsigned_less [of w, where 'a = nat]
  by (simp add: read_le_append u16_le_def le_nat_le_bytes)

lemma read_le_u32 [reads]: "read_le 4 (u32_le_bytes w @ r) = Some (w, r)"
  using unsigned_less [of w, where 'a = nat]
  by (simp add: read_le_append u32_le_bytes_def le_nat_le_bytes)

lemma read_le_u64 [reads]: "read_le 8 (u64_le_bytes w @ r) = Some (w, r)"
  using unsigned_less [of w, where 'a = nat]
  by (simp add: read_le_append u64_le_bytes_def le_nat_le_bytes)

text \<open>The values \<open>VarUint\<close> is built with.\<close>

definition wf_var_uint :: "var_uint \<Rightarrow> bool" where
  "wf_var_uint v \<longleftrightarrow> (\<exists>w. w \<le> 252 \<and> v = var_uint_u8 w) \<or> (\<exists>w. v = var_uint_u16 w)
     \<or> (\<exists>w. v = var_uint_u32 w) \<or> (\<exists>w. v = var_uint_u64 w)"

lemma read_var_uint_buf [reads]: "wf_var_uint v \<Longrightarrow> read_var_uint (vu_buf v @ r) = Some (v, r)"
  by (auto simp: wf_var_uint_def read_var_uint_def var_uint_u8_def var_uint_u16_def
      var_uint_u32_def var_uint_u64_def reads)

lemma rrepeat_written [reads]:
  "(\<And>x r. x \<in> set xs \<Longrightarrow> p (enc x @ r) = Some (x, r)) \<Longrightarrow> n = length xs \<Longrightarrow>
     rrepeat n p (concat (map enc xs) @ r) = Some (xs, r)"
proof (induction xs arbitrary: n r)
  case (Cons x xs)
  then show ?case by (simp add: rthen_def)
qed simp

definition wf_blob :: "var_uint \<Rightarrow> bytes \<Rightarrow> bool" where
  "wf_blob n v \<longleftrightarrow> wf_var_uint n \<and> unat (vu_value n) = length v \<and> length v < 2 ^ 32"

definition wf_tx_input :: "tx_input \<Rightarrow> bool" where
  "wf_tx_input i \<longleftrightarrow> wf_outpoint (tin_outpoint i) \<and> wf_blob (tin_script_len i) (tin_script_sig i)"

definition wf_tx_output :: "tx_output \<Rightarrow> bool" where
  "wf_tx_output ou \<longleftrightarrow> wf_blob (tout_script_len ou) (tout_script_pubkey ou)"

text \<open>A transaction with at least one input: a count of zero is the segwit marker.\<close>

definition wf_raw_tx :: "raw_tx \<Rightarrow> bool" where
  "wf_raw_tx t \<longleftrightarrow> wf_var_uint (rtx_in_count t) \<and> wf_var_uint (rtx_out_count t)
     \<and> unat (vu_value (rtx_in_count t)) = length (rtx_inputs t) \<and> rtx_inputs t \<noteq> []
     \<and> unat (vu_value (rtx_out_count t)) = length (rtx_outputs t)
     \<and> list_all wf_tx_input (rtx_inputs t) \<and> list_all wf_tx_output (rtx_outputs t)"

lemma read_u8_vec_blob [reads]:
  assumes "wf_blob n v" shows "read_u8_vec (vu_value n) (v @ r) = Some (v, r)"
proof -
  from assms have "unat (ucast (vu_value n) :: u32) = length v"
    by (simp add: wf_blob_def unsigned_ucast_eq take_bit_nat_eq_self)
  then show ?thesis by (simp add: read_u8_vec_def read_exact_append)
qed

lemma wf_blob_var_uint: "wf_blob n v \<Longrightarrow> wf_var_uint n"
  by (simp add: wf_blob_def)

text \<open>The input without its witness.\<close>

definition strip :: "tx_input \<Rightarrow> tx_input" where
  "strip i = i\<lparr> tin_witness := [] \<rparr>"

lemma strip_simps [simp]:
  "tx_input_bytes (strip i) = tx_input_bytes i" "strip (strip i) = strip i"
  "wf_tx_input (strip i) = wf_tx_input i"
  by (simp_all add: tx_input_bytes_def strip_def wf_tx_input_def)

lemma read_tx_input_bytes [reads]:
  "wf_tx_input i \<Longrightarrow> read_tx_input (tx_input_bytes i @ r) = Some (strip i, r)"
  by (simp add: strip_def wf_tx_input_def read_tx_input_def read_outpoint_def tx_input_bytes_def
      wf_outpoint_def wf_hash_def wf_blob_var_uint [of _ "tin_script_sig i"] reads)

lemma read_tx_output_bytes [reads]:
  "wf_tx_output ou \<Longrightarrow> read_tx_output (tx_output_bytes ou @ r) = Some (ou, r)"
  by (simp add: wf_tx_output_def read_tx_output_def tx_output_bytes_def
      wf_blob_var_uint [of _ "tout_script_pubkey ou"] reads)



section \<open>Transactions\<close>

text \<open>The serialisation with witnesses: marker 0, flag 1, and a witness for every input before the
  lock time; \<open>wenc\<close> encodes one witness.\<close>

definition segwit_tx_bytes :: "(bytes list \<Rightarrow> bytes) \<Rightarrow> raw_tx \<Rightarrow> bytes" where
  "segwit_tx_bytes wenc t = u32_le_bytes (rtx_version t) @ 0 # 1
     # vu_buf (rtx_in_count t) @ concat (map tx_input_bytes (rtx_inputs t))
     @ vu_buf (rtx_out_count t) @ concat (map tx_output_bytes (rtx_outputs t))
     @ concat (map (wenc \<circ> tin_witness) (rtx_inputs t)) @ u32_le_bytes (rtx_locktime t)"

definition legacy_tx_bytes :: "raw_tx \<Rightarrow> bytes" where
  "legacy_tx_bytes t = u32_le_bytes (rtx_version t)
     @ vu_buf (rtx_in_count t) @ concat (map tx_input_bytes (rtx_inputs t))
     @ vu_buf (rtx_out_count t) @ concat (map tx_output_bytes (rtx_outputs t))
     @ u32_le_bytes (rtx_locktime t)"

lemma evaluated_tx_bytes_new [simp]: "evaluated_tx_bytes (evaluated_tx_new W t) = legacy_tx_bytes t"
  by (simp add: evaluated_tx_bytes_def evaluated_tx_new_def legacy_tx_bytes_def eval_script_def comp_def)

lemma rrepeat_inputs [reads]:
  assumes "list_all wf_tx_input is" and "n = length is"
  shows "rrepeat n read_tx_input (concat (map tx_input_bytes is) @ r) = Some (map strip is, r)"
proof -
  have "rrepeat n read_tx_input (concat (map tx_input_bytes (map strip is)) @ r) = Some (map strip is, r)"
    using assms by (intro rrepeat_written) (auto simp: list_all_iff read_tx_input_bytes)
  then show ?thesis by (simp add: comp_def)
qed

lemma rrepeat_outputs [reads]:
  "list_all wf_tx_output os \<Longrightarrow> n = length os \<Longrightarrow>
     rrepeat n read_tx_output (concat (map tx_output_bytes os) @ r) = Some (os, r)"
  by (intro rrepeat_written) (auto simp: list_all_iff read_tx_output_bytes)

lemma read_witnesses_written [reads]:
  assumes "\<And>w r. wo_witness W (wenc w @ r) = Some (w, r)"
  shows "read_witnesses W (map strip is) (concat (map (wenc \<circ> tin_witness) is) @ r) = Some (is, r)"
proof (induction "is")
  case (Cons i "is")
  have "(strip i)\<lparr> tin_witness := tin_witness i \<rparr> = i" by (cases i) (simp add: strip_def)
  with Cons show ?case by (simp add: rthen_def assms)
qed simp

lemma zero_count: "wf_raw_tx t \<Longrightarrow> vu_value (rtx_in_count t) \<noteq> 0"
  by (auto simp: wf_raw_tx_def)

lemma read_tx_legacy [reads]:
  assumes "wf_raw_tx t"
  shows "read_tx W (legacy_tx_bytes t @ r) = Some (t\<lparr> rtx_inputs := map strip (rtx_inputs t) \<rparr>, r)"
  using assms zero_count [OF assms]
  by (cases t) (simp add: wf_raw_tx_def read_tx_def legacy_tx_bytes_def reads)

lemma read_tx_segwit:
  assumes "wf_raw_tx t" and "\<And>w r. wo_witness W (wenc w @ r) = Some (w, r)"
  shows "read_tx W (segwit_tx_bytes wenc t @ r) = Some (t, r)"
proof -
  have zero: "read_var_uint (0 # r) = Some (var_uint_u8 0, r)" for r
    using read_var_uint_buf [of "var_uint_u8 0" r]
    by (auto simp: wf_var_uint_def var_uint_u8_def)
  show ?thesis
    using assms(1) zero_count [OF assms(1)]
    by (cases t) (simp add: wf_raw_tx_def read_tx_def segwit_tx_bytes_def reads zero
        var_uint_u8_def read_witnesses_written [OF assms(2)])
qed

text \<open>The node writes the witnesses only when an input has one.\<close>

definition tx_bytes :: "(bytes list \<Rightarrow> bytes) \<Rightarrow> raw_tx \<Rightarrow> bytes" where
  "tx_bytes wenc t = (if list_all (\<lambda>i. tin_witness i = []) (rtx_inputs t)
     then legacy_tx_bytes t else segwit_tx_bytes wenc t)"

lemma strip_same: "list_all (\<lambda>i. tin_witness i = []) is \<Longrightarrow> map strip is = is"
  by (induction "is") (auto simp: strip_def)

lemma read_tx_bytes:
  assumes "wf_raw_tx t" and "\<And>w r. wo_witness W (wenc w @ r) = Some (w, r)"
  shows "read_tx W (tx_bytes wenc t @ r) = Some (t, r)"
  using assms by (auto simp: tx_bytes_def read_tx_legacy read_tx_segwit strip_same)

section \<open>Blocks\<close>

definition wf_header :: "block_header \<Rightarrow> bool" where
  "wf_header h \<longleftrightarrow> wf_hash (bh_prev_hash h) \<and> wf_hash (bh_merkle_root h)"

definition wf_branch :: "var_uint \<Rightarrow> merkle_branch \<Rightarrow> bool" where
  "wf_branch n b \<longleftrightarrow> wf_var_uint n \<and> unat (vu_value n) = length (mb_hashes b) \<and> list_all wf_hash (mb_hashes b)"

definition branch_bytes :: "var_uint \<Rightarrow> merkle_branch \<Rightarrow> bytes" where
  "branch_bytes n b = vu_buf n @ concat (mb_hashes b) @ u32_le_bytes (mb_side_mask b)"

lemma read_header_bytes [reads]:
  "wf_header h \<Longrightarrow> read_block_header (block_header_bytes h @ r) = Some (h, r)"
  by (cases h) (simp add: wf_header_def wf_hash_def read_block_header_def block_header_bytes_def reads)

lemma read_branch_bytes [reads]:
  assumes "wf_branch n b"
  shows "read_merkle_branch (branch_bytes n b @ r) = Some (b, r)"
proof -
  have "rrepeat (unat (vu_value n)) (read_exact 32) (concat (map (\<lambda>h. h) (mb_hashes b)) @ r)
      = Some (mb_hashes b, r)" for r
    using assms by (intro rrepeat_written) (auto simp: wf_branch_def list_all_iff wf_hash_def reads)
  then have hs: "rrepeat (unat (vu_value n)) (read_exact 32) (concat (mb_hashes b) @ r)
      = Some (mb_hashes b, r)" for r by simp
  from assms have n: "read_var_uint (vu_buf n @ r) = Some (n, r)" for r
    by (simp add: wf_branch_def read_var_uint_buf)
  show ?thesis
    by (simp add: read_merkle_branch_def branch_bytes_def rthen_def n hs read_le_u32)
qed

text \<open>The merged mining data of a block; the two counts are those of its branches.\<close>

definition wf_aux :: "var_uint \<Rightarrow> var_uint \<Rightarrow> aux_pow_extension \<Rightarrow> bool" where
  "wf_aux m n a \<longleftrightarrow> wf_raw_tx (ax_coinbase_tx a) \<and> wf_hash (ax_block_hash a)
     \<and> wf_branch m (ax_coinbase_branch a) \<and> wf_branch n (ax_blockchain_branch a)
     \<and> wf_header (ax_parent_block a)"

definition aux_bytes :: "(bytes list \<Rightarrow> bytes) \<Rightarrow> var_uint \<Rightarrow> var_uint \<Rightarrow> aux_pow_extension \<Rightarrow> bytes" where
  "aux_bytes wenc m n a = tx_bytes wenc (ax_coinbase_tx a) @ ax_block_hash a
     @ branch_bytes m (ax_coinbase_branch a) @ branch_bytes n (ax_blockchain_branch a)
     @ block_header_bytes (ax_parent_block a)"

lemma read_aux_bytes:
  assumes "wf_aux m n a" and "\<And>w r. wo_witness W (wenc w @ r) = Some (w, r)"
  shows "read_aux_pow W (aux_bytes wenc m n a @ r) = Some (a, r)"
  using assms(1) by (cases a) (simp add: wf_aux_def wf_hash_def read_aux_pow_def aux_bytes_def reads
      read_tx_bytes [OF _ assms(2)])

section \<open>Properties\<close>

definition example_hash :: hash32 where
  "example_hash = replicate 32 3"

definition example_raw_tx :: raw_tx where
  "example_raw_tx =
     \<lparr> rtx_version = 2, rtx_in_count = var_uint_u8 1,
       rtx_inputs = [\<lparr> tin_outpoint = \<lparr> op_txid = example_hash, op_vout = 1 \<rparr>,
         tin_script_len = var_uint_u8 0, tin_script_sig = [], tin_seq_no = 5, tin_witness = [[1]] \<rparr>],
       rtx_out_count = var_uint_u8 1,
       rtx_outputs = [\<lparr> tout_value = 70, tout_script_len = var_uint_u8 1, tout_script_pubkey = [81] \<rparr>],
       rtx_locktime = 0 \<rparr>"

text \<open>A witness layer: 1 opens an item, 2 announces a byte of it, 0 ends the witness.\<close>

definition marked_witness :: "bytes list \<Rightarrow> bytes" where
  "marked_witness ws = concat (map (\<lambda>w. 1 # concat (map (\<lambda>b. [2, b]) w)) ws) @ [0]"

fun read_marks :: "bytes \<Rightarrow> (bytes \<times> bytes list \<times> bytes) option" where
  "read_marks [] = None"
| "read_marks [t] = (if t = 0 then Some ([], [], []) else None)"
| "read_marks (t # b # r) =
     (if t = 0 then Some ([], [], b # r)
      else if t = 1 then map_option (\<lambda>(cur, ws, r'). ([], cur # ws, r')) (read_marks (b # r))
      else map_option (\<lambda>(cur, ws, r'). (b # cur, ws, r')) (read_marks r))"

definition example_wire :: wire_ops where
  "example_wire = \<lparr> wo_sha256d = (\<lambda>_. example_hash), wo_address = (\<lambda>_. None),
     wo_witness = (\<lambda>bs. map_option snd (read_marks bs)) \<rparr>"

lemma read_marks_item:
  "read_marks (concat (map (\<lambda>b. [2, b]) w) @ r) = map_option (\<lambda>(cur, s). (w @ cur, s)) (read_marks r)"
  by (induction w) (auto simp: option.map_comp comp_def split_def option.map_ident)

lemma read_marks_open: "r \<noteq> [] \<Longrightarrow>
    read_marks (1 # r) = map_option (\<lambda>(cur, ws, r'). ([], cur # ws, r')) (read_marks r)"
  by (cases r) auto

lemma example_wire_witness: "wo_witness example_wire (marked_witness ws @ r) = Some (ws, r)"
proof -
  have end_: "read_marks (0 # r) = Some ([], [], r)" for r by (cases r) auto
  have "read_marks (marked_witness ws @ r) = Some ([], ws, r)"
    by (induction ws) (simp_all add: marked_witness_def end_ read_marks_open read_marks_item)
  then show ?thesis by (simp add: example_wire_def)
qed

lemma word_1_le_252: "(1 :: u8) \<le> 252"
  by simp

lemma wf_example_raw_tx: "wf_raw_tx example_raw_tx"
proof -
  have "wf_var_uint (var_uint_u8 0)" "wf_var_uint (var_uint_u8 1)"
    using word_1_le_252 word_zero_le [of 252] unfolding wf_var_uint_def by blast+
  moreover have "vu_value (var_uint_u8 0) = 0" "vu_value (var_uint_u8 1) = 1"
    by (simp_all add: var_uint_u8_def)
  ultimately show ?thesis
    by (simp add: wf_raw_tx_def example_raw_tx_def wf_tx_input_def wf_tx_output_def wf_blob_def
        wf_outpoint_def wf_hash_def example_hash_def)
qed

text \<open>The bytes of a block, and what the node guarantees of its parts.\<close>

definition block_bytes ::
  "(bytes list \<Rightarrow> bytes) \<Rightarrow> var_uint \<Rightarrow> var_uint \<Rightarrow> block_header \<Rightarrow> aux_pow_extension option \<Rightarrow> var_uint \<Rightarrow>
     raw_tx list \<Rightarrow> bytes" where
  "block_bytes wenc k m h aux n ts = block_header_bytes h
     @ (case aux of None \<Rightarrow> [] | Some a \<Rightarrow> aux_bytes wenc k m a) @ vu_buf n @ concat (map (tx_bytes wenc) ts)"

definition wf_block :: "var_uint \<Rightarrow> var_uint \<Rightarrow> block_header \<Rightarrow> aux_pow_extension option \<Rightarrow> var_uint \<Rightarrow>
    raw_tx list \<Rightarrow> bool" where
  "wf_block k m h aux n ts \<longleftrightarrow> wf_header h \<and> wf_var_uint n \<and> unat (vu_value n) = length ts
     \<and> list_all wf_raw_tx ts
     \<and> (case aux of None \<Rightarrow> and (bh_version h) 256 = 0
        | Some a \<Rightarrow> and (bh_version h) 256 \<noteq> 0 \<and> wf_aux k m a)"

lemma read_block_bytes:
  assumes law: "\<And>w r. wo_witness W (wenc w @ r) = Some (w, r)" and wf: "wf_block k m h aux n ts"
  shows "read_block W size' (block_bytes wenc k m h aux n ts @ r) = Some (block_new W size' h aux n ts, r)"
proof -
  note wf = wf [unfolded wf_block_def]
  have "rrepeat (unat (vu_value n)) (read_tx W) (concat (map (tx_bytes wenc) ts) @ r) = Some (ts, r)"
    by (rule rrepeat_written) (use wf in \<open>auto simp: list_all_iff read_tx_bytes [OF _ law]\<close>)
  then show ?thesis
    using wf by (cases aux)
      (simp_all add: read_block_def rthen_def read_header_bytes read_aux_bytes [OF _ law]
        read_var_uint_buf block_new_def block_bytes_def)
qed

text \<open>C24.  A block of the node is read back exactly: the header, the merged mining data if and only if
  the version announces it, and every transaction in order, each with the id the node gives it.\<close>

theorem block_reads_back:
  assumes "\<And>w r. wo_witness W (wenc w @ r) = Some (w, r)" and "wf_block k m h aux n ts"
  shows "read_block W size' (block_bytes wenc k m h aux n ts @ r) = Some (block_new W size' h aux n ts, r)
    \<and> map hd_hash (blk_txs (block_new W size' h aux n ts))
      = map (\<lambda>t. wo_sha256d W (legacy_tx_bytes t)) ts"
  using read_block_bytes [OF assms] assms(2)
  by (auto simp: block_new_def hashed_tx_def wf_block_def list_all_iff)

definition example_header :: block_header where
  "example_header = \<lparr> bh_version = 2, bh_prev_hash = example_hash, bh_merkle_root = example_hash,
     bh_timestamp = 7, bh_bits = 1, bh_nonce = 3 \<rparr>"

lemma example_block_wf: "wf_block k m example_header None (var_uint_u8 1) [example_raw_tx]"
proof -
  have "wf_header example_header" "and (bh_version example_header) 256 = 0"
    by (simp_all add: wf_header_def example_header_def wf_hash_def example_hash_def)
  moreover have "wf_var_uint (var_uint_u8 1)" "unat (vu_value (var_uint_u8 1)) = length [example_raw_tx]"
    using word_1_le_252 unfolding wf_var_uint_def by (blast, simp add: var_uint_u8_def)
  ultimately show ?thesis using wf_example_raw_tx by (simp add: wf_block_def)
qed

theorem block_reads_back_witness:
  "read_block example_wire 100
     (block_header_bytes example_header @ vu_buf (var_uint_u8 1) @ tx_bytes marked_witness example_raw_tx)
   = Some (block_new example_wire 100 example_header None (var_uint_u8 1) [example_raw_tx], [])"
  using block_reads_back [where wenc = marked_witness and r = "[]", OF example_wire_witness example_block_wf]
  by (simp add: block_bytes_def)

text \<open>The merkle root exists exactly when there is a hash, and it does not tell a list of an odd
  number of hashes from the same list with its last hash repeated: such a block passes the check of
  \<open>verify_merkle_root\<close> with the header of the original one.\<close>

lemma merkle_repeats_last:
  "(merkle_root H hs = None \<longleftrightarrow> hs = [])
   \<and> (odd (length hs) \<and> 1 < length hs \<longrightarrow> merkle_root H (hs @ [last hs]) = merkle_root H hs)"
proof -
  have level: "odd (length hs) \<Longrightarrow> merkle_level H (hs @ [last hs]) = merkle_level H hs"
    by (induction H hs rule: merkle_level.induct) auto
  have "merkle_root H hs = None \<longleftrightarrow> hs = []"
  proof (induction H hs rule: merkle_root.induct)
    case (1 H hs)
    show ?case
    proof (cases "1 < length hs")
      case True
      have "length (merkle_level H hs) \<noteq> 0" using True by (simp add: length_merkle_level)
      with 1 [OF True] True show ?thesis by (subst merkle_root.simps) auto
    next
      case False
      then show ?thesis by (subst merkle_root.simps) (auto split: list.split)
    qed
  qed
  moreover have "odd (length hs) \<and> 1 < length hs \<longrightarrow> merkle_root H (hs @ [last hs]) = merkle_root H hs"
    by (subst (1 2) merkle_root.simps) (simp add: level)
  ultimately show ?thesis by blast
qed

text \<open>Decoding the bytes of a block file in two reads gives what one read gives, and decoding
  twice from the same position gives back the bytes, so the key position is carried correctly from
  read to read, also where the position wraps around.\<close>

lemma xor_read_pieces:
  assumes "xor_read key p a = Some (x, q)" and "xor_read key q b = Some (y, s)"
  shows "xor_read key p (a @ b) = Some (x @ y, s) \<and> xor_read key p x = Some (a, q)"
proof (cases key)
  case None
  with assms show ?thesis by (auto simp: xor_read_def)
next
  case (Some k)
  define at where "at p buf = map (\<lambda>i. xor (buf ! i) (k ! unat ((word_of_nat i + p) mod word_of_nat (length k))))
      [0..<length buf]" for p :: u64 and buf :: bytes
  have eq: "xor_read key p buf =
      (if k = [] \<and> buf \<noteq> [] then None else Some (at p buf, p + word_of_nat (length buf)))" for p buf
    using Some by (simp add: xor_read_def at_def)
  from assms have k: "k \<noteq> [] \<or> a = [] \<and> b = []" and x: "x = at p a" and q: "q = p + word_of_nat (length a)"
    and y: "y = at q b" and s: "s = q + word_of_nat (length b)"
    by (auto simp: eq split: if_splits)
  have "at p (a @ b) = at p a @ at q b"
    by (rule nth_equalityI) (auto simp: at_def nth_append q algebra_simps of_nat_diff)
  moreover have "at p (at p a) = a"
    by (rule nth_equalityI) (auto simp: at_def xor.assoc)
  moreover have "length (at p a) = length a" by (simp add: at_def)
  ultimately show ?thesis using k by (auto simp: eq x y q s)
qed

section \<open>Integers of the block index\<close>

text \<open>The encoder of the node (\<open>WriteVarInt\<close>): seven bits a byte, the top bit on all but the last,
  and one subtracted from every higher part.\<close>

function varint_high :: "nat \<Rightarrow> bytes" where
  "varint_high n = (if n < 128 then [word_of_nat (128 + n)]
     else varint_high (n div 128 - 1) @ [word_of_nat (128 + n mod 128)])"
  by pat_completeness auto
termination
  by (relation "measure id") auto

declare varint_high.simps [simp del]

definition varint_bytes :: "nat \<Rightarrow> bytes" where
  "varint_bytes n = (if n < 128 then [word_of_nat n]
     else varint_high (n div 128 - 1) @ [word_of_nat (n mod 128)])"

lemma shift_in:
  fixes n :: u64 and c :: u8
  assumes "unat n < 2 ^ 57"
  shows "unat (or (push_bit 7 n) (ucast (and c 127))) = unat n * 128 + unat c mod 128"
proof -
  have c: "and c 127 = take_bit 7 c"
    by (simp add: take_bit_eq_mask mask_eq_exp_minus_1)
  have "and (push_bit 7 n) (ucast (take_bit 7 c)) = 0"
    by (rule bit_eqI) (auto simp: bit_simps)
  then have "or (push_bit 7 n) (ucast (and c 127)) = push_bit 7 n + ucast (take_bit 7 c)"
    unfolding c by (rule disjunctive_add_eq_or [symmetric])
  moreover have "unat (push_bit 7 n) = unat n * 128"
  proof -
    have "unat (push_bit 7 n) = take_bit 64 (push_bit 7 (unat n))"
      by (simp only: unsigned_push_bit_eq) simp
    also have "\<dots> = unat n * 128" using assms by (simp add: take_bit_eq_mod push_bit_eq_mult)
    finally show ?thesis .
  qed
  moreover have "unat (ucast (take_bit 7 c) :: u64) = unat c mod 128"
  proof -
    have "unat (take_bit 7 c) = unat c mod 128"
      by (simp only: unsigned_take_bit_eq) (simp add: take_bit_eq_mod)
    then show ?thesis by (simp only: unsigned_ucast_eq) (simp add: take_bit_eq_mod)
  qed
  ultimately show ?thesis
    using assms by (simp add: unat_word_ariths)
qed

lemma high_byte: "n < 128 \<Longrightarrow> unat (word_of_nat (128 + n) :: u8) = 128 + n"
  by (simp only: unat_of_nat) simp

lemma top_bit: "0 < and (c :: u8) 128 \<longleftrightarrow> 128 \<le> unat c"
proof -
  have "and c (2 ^ 7) = 0 \<longleftrightarrow> \<not> bit c 7" by (rule and_exp_eq_0_iff_not_bit)
  then have "0 < and c 128 \<longleftrightarrow> bit c 7" by (simp add: word_gt_0)
  also have "\<dots> \<longleftrightarrow> odd (unat c div 2 ^ 7)"
  proof -
    have "bit (unat c) 7 = bit c 7" by (simp only: bit_unsigned_iff) simp
    then show ?thesis by (simp add: bit_iff_odd)
  qed
  also have "\<dots> \<longleftrightarrow> 128 \<le> unat c"
  proof -
    have "unat c div 128 = 0 \<or> unat c div 128 = 1" using unat_u8_less [of c] by linarith
    then show ?thesis by auto
  qed
  finally show ?thesis .
qed

lemma read_step:
  fixes n :: u64
  assumes "unat n < 2 ^ 57"
  shows "read_varint_from n (ch # bs) =
    (let m = or (push_bit 7 n) (ucast (and ch 127)) in
       if 128 \<le> unat ch then (if m = - 1 then None else read_varint_from (m + 1) bs) else Some (m, bs))"
proof -
  have "unat (drop_bit 7 (- 1) :: u64) = 2 ^ 57 - 1"
    by (simp add: unsigned_drop_bit_eq unsigned_minus_1_eq_mask mask_eq_exp_minus_1 drop_bit_eq_div)
  with assms have "\<not> drop_bit 7 (- 1) < n" by (simp add: word_less_nat_alt)
  then show ?thesis by (simp add: top_bit Let_def)
qed

lemma read_high:
  "n < 2 ^ 57 - 1 \<Longrightarrow> read_varint_from 0 (varint_high n @ bs) = read_varint_from (word_of_nat (n + 1)) bs"
proof (induction n arbitrary: bs rule: varint_high.induct)
  case (1 n)
  let ?m = "if n < 128 then 0 else n div 128"
  let ?n = "word_of_nat ?m :: u64" and ?c = "word_of_nat (128 + n mod 128) :: u8"
  have "read_varint_from 0 (varint_high n @ bs) = read_varint_from ?n (?c # bs)"
  proof (cases "n < 128")
    case True
    then show ?thesis by (subst varint_high.simps) simp
  next
    case False
    with 1 have "read_varint_from 0 (varint_high (n div 128 - 1) @ ?c # bs)
        = read_varint_from (word_of_nat (n div 128 - 1 + 1)) (?c # bs)" by (intro 1(1)) auto
    with False show ?thesis by (subst varint_high.simps) simp
  qed
  also have "\<dots> = read_varint_from (word_of_nat (n + 1)) bs"
  proof -
    have m: "?m < 2 ^ 50" "?m * 128 + n mod 128 = n" using 1(2) by auto
    have un: "unat ?n = ?m" using m by (simp add: unat_of_nat)
    have uc: "unat ?c = 128 + n mod 128" by (rule high_byte) simp
    let ?v = "or (push_bit 7 ?n) (ucast (and ?c 127)) :: u64"
    have "unat ?v = ?m * 128 + (128 + n mod 128) mod 128"
      using m shift_in [of ?n ?c] unfolding un uc by simp
    also have "\<dots> = n" using m by simp
    finally have v: "unat ?v = n" .
    then have w: "?v = word_of_nat n" using 1(2) by (simp only: word_unat_eq_iff unat_of_nat) simp
    have "?v \<noteq> - 1"
    proof
      assume "?v = - 1"
      then have "unat ?v = 2 ^ 64 - 1" by (simp add: unsigned_minus_1_eq_mask mask_eq_exp_minus_1)
      with v 1(2) show False by simp
    qed
    with w m show ?thesis
      by (subst read_step) (simp_all only: un uc Let_def, simp_all add: add.commute)
  qed
  finally show ?case .
qed

text \<open>The reader of the block index decodes every 64-bit integer the node writes, and leaves the
  bytes after it.\<close>

lemma varint_reads_back:
  assumes "n < 2 ^ 64"
  shows "read_varint (varint_bytes n @ r) = Some (word_of_nat n, r)"
proof -
  let ?m = "if n < 128 then 0 else n div 128"
  let ?n = "word_of_nat ?m :: u64" and ?c = "word_of_nat (n mod 128) :: u8"
  have m: "?m < 2 ^ 57" "?m * 128 + n mod 128 = n" using assms by auto
  have "read_varint (varint_bytes n @ r) = read_varint_from ?n (?c # r)"
  proof (cases "n < 128")
    case True
    then show ?thesis by (simp add: read_varint_def varint_bytes_def)
  next
    case False
    then have "n div 128 - 1 < 2 ^ 57 - 1" using m by simp
    from read_high [OF this, of "?c # r"] False show ?thesis
      by (simp add: read_varint_def varint_bytes_def)
  qed
  also have "\<dots> = Some (word_of_nat n, r)"
  proof -
    have un: "unat ?n = ?m" using m by (simp only: unat_of_nat) simp
    have uc: "unat ?c = n mod 128" by (simp only: unat_of_nat) simp
    let ?v = "or (push_bit 7 ?n) (ucast (and ?c 127)) :: u64"
    have "unat ?v = n" using m shift_in [of ?n ?c] unfolding un uc by simp
    then have "?v = word_of_nat n" using assms by (simp only: word_unat_eq_iff unat_of_nat) simp
    moreover have "\<not> 128 \<le> n mod 128" by (simp add: not_le)
    ultimately show ?thesis
      using m by (subst read_step) (simp_all only: un uc Let_def if_False)
  qed
  finally show ?thesis .
qed

lemma read_varint_word [reads]: "read_varint (varint_bytes (unat w) @ r) = Some (w, r)"
  using varint_reads_back [OF unat_u64_less [of w]] by simp

end
