(* ===== verification/ChainProps.thy ===== *)
theory ChainProps
  imports ChainStore FollowProps WireProps
begin

text \<open>
  The properties of the block index, of the block files and of the start of the chain follower.
\<close>

section \<open>Entries of the index\<close>

text \<open>The value of an entry as the node writes it: the undo position is there exactly when the status has
  its bit, the data position likewise, and the file when one of them is.\<close>

definition entry_bytes :: "u64 \<Rightarrow> u64 \<Rightarrow> u64 \<Rightarrow> u64 \<Rightarrow> u64 \<Rightarrow> u64 \<Rightarrow> u64 \<Rightarrow> block_header \<Rightarrow> bytes" where
  "entry_bytes version height status txs file data undo header =
     varint_bytes (unat version) @ varint_bytes (unat height) @ varint_bytes (unat status) @ varint_bytes (unat txs)
     @ (if and status 24 \<noteq> 0 then varint_bytes (unat file) else [])
     @ (if and status 8 \<noteq> 0 then varint_bytes (unat data) else [])
     @ (if and status 16 \<noteq> 0 then varint_bytes (unat undo) else []) @ block_header_bytes header"

lemma status_bits:
  "and (s :: u64) 24 \<noteq> 0 \<longleftrightarrow> and s 8 \<noteq> 0 \<or> and s 16 \<noteq> 0" "or block_have_data block_have_undo = 24"
proof -
  have "and s 24 = or (and s 8) (and s 16)"
    using bit.conj_disj_distrib [of s 8 16] by simp
  then show "and s 24 \<noteq> 0 \<longleftrightarrow> and s 8 \<noteq> 0 \<or> and s 16 \<noteq> 0" by (simp add: or_eq_0_iff)
qed (simp add: block_have_data_def block_have_undo_def)

lemma read_entry:
  assumes "length key = 32" and "wf_header header"
  shows "index_record_from key (entry_bytes version height status txs file data undo header @ r) =
    (if and status 24 = 0 then Some None
     else if and status 8 = 0 then None
     else Some (Some \<lparr> bir_block_hash = key, bir_blk_index = file, bir_data_offset = data, bir_height = height,
       bir_status = status, bir_prev_hash = bh_prev_hash header \<rparr>))"
  using assms status_bits
  by (simp add: index_record_from_def read_index_record_def entry_bytes_def rthen_def read_varint_word
      read_header_bytes word_gt_0 block_have_data_def block_have_undo_def)

section \<open>The index\<close>

text \<open>The wanted records among the entries, up to the first key that is not a block's.\<close>

definition entry_records :: "height_range \<Rightarrow> (bytes \<times> bytes) list \<Rightarrow> block_index_record list" where
  "entry_records hr es = filter (wanted hr) (concat (map
     (\<lambda>(key, val). case index_record_from (tl key) val of Some (Some r) \<Rightarrow> [r] | _ \<Rightarrow> [])
       (takeWhile (\<lambda>(key, val). key \<noteq> [] \<and> hd key = 98) es)))"

definition at_height :: "u64 \<Rightarrow> block_index_record list \<Rightarrow> block_index_record list" where
  "at_height h rs = filter (\<lambda>r. bir_height r = h) rs"

lemma at_height_empty: "at_height h rs = [] \<longleftrightarrow> h \<notin> bir_height ` set rs"
  by (auto simp: at_height_def filter_empty_conv)

text \<open>The map has for every height that occurs its records.\<close>

definition groups_of :: "block_index_record list \<Rightarrow> (u64 \<times> block_index_record list) list \<Rightarrow> bool" where
  "groups_of rs m \<longleftrightarrow> distinct (map fst m)
     \<and> map_of m = (\<lambda>h. if at_height h rs = [] then None else Some (at_height h rs))"

lemma add_record_keys: "fst ` set (add_record r m) = insert (bir_height r) (fst ` set m)"
  by (induction r m rule: add_record.induct) auto

lemma add_record_distinct: "distinct (map fst m) \<Longrightarrow> distinct (map fst (add_record r m))"
proof (induction r m rule: add_record.induct)
  case (2 r h rs m)
  then show ?case using add_record_keys [of r m] by auto
qed simp

lemma add_record_map: "map_of (add_record r m) = (map_of m)(bir_height r \<mapsto>
    (case map_of m (bir_height r) of None \<Rightarrow> [r] | Some g \<Rightarrow> g @ [r]))"
  by (induction r m rule: add_record.induct) (auto simp: fun_eq_iff)

lemma groups_of_add: "groups_of rs m \<Longrightarrow> groups_of (rs @ [r]) (add_record r m)"
  by (auto simp: groups_of_def add_record_distinct add_record_map at_height_def fun_eq_iff)

lemma groups_ofD:
  assumes "groups_of rs m"
  shows "distinct (map fst m)" "fst ` set m = bir_height ` set rs" "(h, g) \<in> set m \<Longrightarrow> g = at_height h rs"
proof -
  show d: "distinct (map fst m)" using assms by (simp add: groups_of_def)
  have "dom (map_of m) = bir_height ` set rs"
    using assms by (auto simp: groups_of_def at_height_empty split: if_splits)
  then show "fst ` set m = bir_height ` set rs" by (simp add: dom_map_of_conv_image_fst)
  show "(h, g) \<in> set m \<Longrightarrow> g = at_height h rs"
    using assms map_of_is_SomeI [OF d, of h g] by (simp add: groups_of_def split: if_splits)
qed

lemma scan_index_groups:
  "scan_index hr es m = Some m' \<Longrightarrow> groups_of rs m \<Longrightarrow> groups_of (rs @ entry_records hr es) m'"
proof (induction es arbitrary: m rs)
  case Nil
  then show ?case by (simp add: entry_records_def)
next
  case (Cons e es)
  obtain key val where e: "e = (key, val)" by (cases e)
  show ?case
  proof (cases "\<exists>k. key = 98 # k")
    case False
    with Cons.prems show ?thesis by (auto simp: e entry_records_def neq_Nil_conv split: list.splits if_splits)
  next
    case True
    then obtain k ro where k: "key = 98 # k" "index_record_from k val = Some ro"
      using Cons.prems(1) by (auto simp: e split: option.splits)
    show ?thesis
    proof (cases "\<exists>r. ro = Some r \<and> wanted hr r")
      case True
      then obtain r where r: "ro = Some r" "wanted hr r" by blast
      then have "groups_of ((rs @ [r]) @ entry_records hr es) m'"
        using Cons.prems k by (intro Cons.IH [of "add_record r m"]) (simp_all add: e groups_of_add)
      moreover have "entry_records hr (e # es) = r # entry_records hr es" using k r by (simp add: e entry_records_def)
      ultimately show ?thesis by simp
    next
      case False
      then have "groups_of (rs @ entry_records hr es) m'"
        using Cons.prems k by (intro Cons.IH [of m]) (auto simp: e split: option.splits)
      moreover have "entry_records hr (e # es) = entry_records hr es"
        using k False by (auto simp: e entry_records_def split: option.splits)
      ultimately show ?thesis by simp
    qed
  qed
qed

text \<open>The records that follow a hash down the groups.\<close>

fun parents :: "hash32 \<Rightarrow> block_index_record list list \<Rightarrow> block_index_record list \<Rightarrow> bool" where
  "parents h [] rs \<longleftrightarrow> rs = []"
| "parents h (g # gs) [] \<longleftrightarrow> False"
| "parents h (g # gs) (r # rs) \<longleftrightarrow> r \<in> set g \<and> bir_block_hash r = h \<and> parents (bir_prev_hash r) gs rs"

lemma position_Some: "position P xs = Some i \<Longrightarrow> i < length xs \<and> P (xs ! i)"
  by (induction xs arbitrary: i) (auto split: if_splits)

lemma link_back_parents:
  "link_back (cur # it) (Some p) = Some rs \<Longrightarrow> parents (bir_prev_hash (cur ! p)) it rs"
proof (induction it arbitrary: cur p rs)
  case (Cons g it)
  then obtain i rs' where "position (\<lambda>x. bir_block_hash x = bir_prev_hash (cur ! p)) g = Some i"
    "link_back (g # it) (Some i) = Some rs'" "rs = g ! i # rs'"
    by (auto simp del: link_back.simps simp: link_back.simps(2) [where cur = cur] Let_def split: option.splits)
  with position_Some [OF this(1)] Cons.IH [of g i rs'] show ?case by simp
qed simp

lemma link_back_spec:
  "link_back gs None = Some rs \<Longrightarrow> rs = [] \<and> (\<forall>g \<in> set gs. length g \<noteq> 1)
    \<or> (\<exists>skip r0 rest. gs = skip @ [r0] # rest \<and> (\<forall>g \<in> set skip. length g \<noteq> 1) \<and> parents (bir_prev_hash r0) rest rs)"
proof (induction gs)
  case (Cons cur it)
  show ?case
  proof (cases "length cur = 1")
    case True
    then obtain r0 where r0: "cur = [r0]" by (auto simp: length_Suc_conv)
    with Cons.prems have "link_back ([r0] # it) (Some 0) = Some rs" by simp
    from link_back_parents [OF this] r0 show ?thesis by (intro disjI2 exI [of _ "[]"]) auto
  next
    case False
    with Cons consider "rs = []" "\<forall>g \<in> set it. length g \<noteq> 1"
      | skip r0 rest where "it = skip @ [r0] # rest" "\<forall>g \<in> set skip. length g \<noteq> 1" "parents (bir_prev_hash r0) rest rs"
      by auto
    then show ?thesis
    proof cases
      case 1
      with False show ?thesis by simp
    next
      case 2
      with False show ?thesis by (intro disjI2 exI [of _ "cur # skip"]) auto
    qed
  qed
qed simp

text \<open>Records linked from the lowest to the highest.\<close>

definition linked_records :: "block_index_record list \<Rightarrow> bool" where
  "linked_records rs \<longleftrightarrow> (\<forall>i. Suc i < length rs \<longrightarrow> bir_prev_hash (rs ! Suc i) = bir_block_hash (rs ! i))"

lemma linked_records_snoc:
  "linked_records (rs @ [r]) \<longleftrightarrow> linked_records rs \<and> (rs \<noteq> [] \<longrightarrow> bir_prev_hash r = bir_block_hash (last rs))"
proof -
  have "(\<forall>i. Suc i < length (rs @ [r]) \<longrightarrow> P i) \<longleftrightarrow> (\<forall>i. Suc i < length rs \<longrightarrow> P i) \<and> (rs \<noteq> [] \<longrightarrow> P (length rs - 1))" for P
    by (cases rs) (auto simp: less_Suc_eq)
  from this [of "\<lambda>i. bir_prev_hash ((rs @ [r]) ! Suc i) = bir_block_hash ((rs @ [r]) ! i)"] show ?thesis
    by (auto simp: linked_records_def nth_append last_conv_nth)
qed

lemma parents_linked:
  assumes "parents h (map snd ps) rs" and "\<forall>(k, g) \<in> set ps. \<forall>r \<in> set g. bir_height r = k \<and> r \<in> R"
  shows "map bir_height rs = map fst ps \<and> linked_records (rev rs) \<and> set rs \<subseteq> R
    \<and> (rs \<noteq> [] \<longrightarrow> bir_block_hash (hd rs) = h)"
  using assms
proof (induction ps arbitrary: h rs)
  case Nil
  then show ?case by (simp add: linked_records_def)
next
  case (Cons p ps)
  then obtain r rs' where rs: "rs = r # rs'" "r \<in> set (snd p)" "bir_block_hash r = h"
    "parents (bir_prev_hash r) (map snd ps) rs'" by (cases rs) auto
  with Cons.IH [OF rs(4)] Cons.prems(2) show ?case
    by (cases p) (auto simp: linked_records_snoc last_rev)
qed

text \<open>C22.  The index of stored blocks.  Of the records among the node's entries that the filter accepts, the
  greatest height with exactly one record, \<open>r0\<close>, is taken, and the index has exactly the heights
  below it: at each the record of the entries that is the parent of the one above, down from \<open>r0\<close>,
  which itself is left to the node.  Without a height of one record the index is empty.\<close>

theorem index_is_chain:
  assumes "get_block_index hr es = Some idx"
  defines "recs \<equiv> entry_records hr es"
  shows "if \<forall>r \<in> set recs. length (at_height (bir_height r) recs) \<noteq> 1 then idx = Map.empty
    else \<exists>r0 rs. at_height (bir_height r0) recs = [r0]
      \<and> (\<forall>r \<in> set recs. bir_height r0 < bir_height r \<longrightarrow> length (at_height (bir_height r) recs) \<noteq> 1)
      \<and> idx = map_of (map (\<lambda>r. (bir_height r, small_record r)) rs) \<and> set rs \<subseteq> set recs
      \<and> map bir_height rs = sorted_list_of_set {h \<in> bir_height ` set recs. h < bir_height r0}
      \<and> linked_records (rs @ [r0])"
proof -
  obtain m rs where m: "scan_index hr es [] = Some m"
    and rs: "link_back (map snd (rev (sort_key fst m))) None = Some rs"
    and idx: "idx = map_of (rev (map (\<lambda>r. (bir_height r, small_record r)) rs))"
    using assms by (auto simp: get_block_index_def bind_eq_Some_conv)
  have "groups_of ([] @ recs) m"
    unfolding recs_def by (rule scan_index_groups [OF m]) (simp add: groups_of_def at_height_def)
  then have G: "groups_of recs m" by simp
  note d = groups_ofD(1) [OF G] and keys = groups_ofD(2) [OF G] and grp = groups_ofD(3) [OF G]
  have one: "(\<exists>g. (h, g) \<in> set m \<and> length g = 1) \<longleftrightarrow> (\<exists>r \<in> set recs. bir_height r = h \<and> length (at_height h recs) = 1)" for h
  proof -
    have "(\<exists>g. (h, g) \<in> set m) \<longleftrightarrow> h \<in> fst ` set m" by force
    also have "\<dots> \<longleftrightarrow> (\<exists>r \<in> set recs. bir_height r = h)" unfolding keys by auto
    finally have "(\<exists>g. (h, g) \<in> set m) \<longleftrightarrow> (\<exists>r \<in> set recs. bir_height r = h)" .
    then show ?thesis by (metis grp)
  qed
  let ?ps = "rev (sort_key fst m)"
  have sorted: "sorted_wrt (>) (map fst ?ps)"
  proof -
    have "distinct (map fst (sort_key fst m))" using d by (simp add: distinct_map)
    then have "sorted_wrt (<) (map fst (sort_key fst m))" by (simp add: strict_sorted_iff)
    then show ?thesis unfolding rev_map [symmetric] by (simp add: sorted_wrt_rev)
  qed
  show ?thesis
  proof (cases "\<forall>r \<in> set recs. length (at_height (bir_height r) recs) \<noteq> 1")
    case True
    then have "length g \<noteq> 1" if "(h, g) \<in> set m" for h g using one [of h] that by metis
    then have none: "\<forall>g \<in> set (map snd ?ps). length g \<noteq> 1" by auto
    have "rs = []"
    proof (rule ccontr)
      assume "rs \<noteq> []"
      with link_back_spec [OF rs] obtain skip r0 rest where "map snd ?ps = skip @ [r0] # rest" by blast
      then have "[r0] \<in> set (map snd ?ps)" by (simp only: set_append list.set) simp
      with none show False by fastforce
    qed
    with idx True show ?thesis by simp
  next
    case False
    then obtain h g where "(h, g) \<in> set m" "length g = 1" using one by blast
    then have "\<not> (\<forall>g \<in> set (map snd ?ps). length g \<noteq> 1)" by force
    with link_back_spec [OF rs] obtain skip h0 r0 ps where ps: "?ps = skip @ (h0, [r0]) # ps"
      "\<forall>g \<in> set (map snd skip). length g \<noteq> 1" "parents (bir_prev_hash r0) (map snd ps) rs"
      by (auto simp: map_eq_append_conv map_eq_Cons_conv simp del: set_map)
    have setm: "set m = set skip \<union> {(h0, [r0])} \<union> set ps" using arg_cong [OF ps(1), of set] by auto
    have mem: "\<forall>(k, g) \<in> set ps. \<forall>r \<in> set g. bir_height r = k \<and> r \<in> set recs"
    proof (clarify)
      fix k g r assume "(k, g) \<in> set ps" "r \<in> set g"
      moreover from this setm have "(k, g) \<in> set m" by blast
      ultimately show "bir_height r = k \<and> r \<in> set recs" using grp [of k g] by (simp add: at_height_def)
    qed
    have r0: "at_height h0 recs = [r0]" by (rule grp [symmetric]) (simp add: setm)
    then have "r0 \<in> set (at_height h0 recs)" by simp
    then have h0: "bir_height r0 = h0" by (simp add: at_height_def)
    note p = parents_linked [OF ps(3) mem]
    have desc: "sorted_wrt (>) (map fst skip @ h0 # map fst ps)" using sorted unfolding ps(1) by simp
    have below: "fst ` set ps = {h \<in> bir_height ` set recs. h < h0}"
      using desc unfolding keys [symmetric] setm by (auto simp: sorted_wrt_append)
    have "sorted_wrt (<) (map bir_height (rev rs))"
      using desc by (simp add: rev_map [symmetric] p sorted_wrt_rev sorted_wrt_append)
    moreover have "set (map bir_height (rev rs)) = {h \<in> bir_height ` set recs. h < bir_height r0}"
      unfolding h0 below [symmetric] using arg_cong [OF conjunct1 [OF p], of set] by simp
    ultimately have heights: "map bir_height (rev rs) = sorted_list_of_set {h \<in> bir_height ` set recs. h < bir_height r0}"
      by (metis sorted_list_of_set.idem_if_sorted_distinct strict_sorted_iff)
    have above: "length (at_height (bir_height r) recs) \<noteq> 1" if "r \<in> set recs" "bir_height r0 < bir_height r" for r
    proof -
      have "bir_height r \<in> fst ` set m" using that(1) unfolding keys by blast
      then obtain g where g: "(bir_height r, g) \<in> set m" by force
      then have "(bir_height r, g) \<in> set skip"
        using desc that(2) setm h0 by (auto simp: sorted_wrt_append)
      with ps(2) grp [OF g] show ?thesis by force
    qed
    have "linked_records (rev rs @ [r0])"
      using p by (auto simp: linked_records_snoc last_rev)
    moreover have "at_height (bir_height r0) recs = [r0]" using r0 h0 by simp
    moreover have "idx = map_of (map (\<lambda>r. (bir_height r, small_record r)) (rev rs))" using idx by (simp add: rev_map)
    moreover have "set (rev rs) \<subseteq> set recs" using p by simp
    ultimately show ?thesis
      unfolding if_not_P [OF False] using heights above by (intro exI [of _ r0] exI [of _ "rev rs"]) simp
  qed
qed

text \<open>Three blocks of which two branches reach the height 6.\<close>

definition example_entry :: "u8 \<Rightarrow> u64 \<Rightarrow> u8 \<Rightarrow> bytes \<times> bytes" where
  "example_entry name height prev = (98 # replicate 32 name,
     entry_bytes 1 height 13 1 0 (8 + height) 0 (example_header\<lparr> bh_prev_hash := replicate 32 prev \<rparr>))"

definition example_record :: "u8 \<Rightarrow> u64 \<Rightarrow> u8 \<Rightarrow> block_index_record" where
  "example_record name height prev = \<lparr> bir_block_hash = replicate 32 name, bir_blk_index = 0,
     bir_data_offset = 8 + height, bir_height = height, bir_status = 13, bir_prev_hash = replicate 32 prev \<rparr>"

lemma example_entry_reads:
  "index_record_from (replicate 32 name) (snd (example_entry name height prev)) = Some (Some (example_record name height prev))"
proof -
  have "wf_header (example_header\<lparr> bh_prev_hash := replicate 32 prev \<rparr>)"
    using example_block_wf by (simp add: wf_block_def wf_header_def wf_hash_def)
  from read_entry [OF _ this, of "replicate 32 name" 1 height 13 1 0 "8 + height" 0 "[]"] show ?thesis
    by (simp add: example_entry_def example_record_def)
qed

definition example_entries :: "(bytes \<times> bytes) list" where
  "example_entries = [example_entry 5 5 4, example_entry 6 6 5, example_entry 7 7 6, example_entry 8 6 4, ([99], [])]"

lemma example_index_of:
  "get_block_index \<lparr> hr_start = 0, hr_end = None \<rparr> example_entries
    = Some [6 \<mapsto> small_record (example_record 6 6 5), 5 \<mapsto> small_record (example_record 5 5 4)]"
proof -
  have step: "scan_index hr (example_entry name height prev # es) m = scan_index hr es
      (if wanted hr (example_record name height prev) then add_record (example_record name height prev) m else m)"
    for hr name height prev es m
    using example_entry_reads [of name height prev] by (simp add: example_entry_def)
  have "wanted \<lparr> hr_start = 0, hr_end = None \<rparr> (example_record name height prev)" for name height prev
    by (simp add: wanted_def sat_sub_def example_record_def block_valid_mask_def block_failed_mask_def)
  then show ?thesis
    by (simp add: get_block_index_def example_entries_def step del: scan_index.simps(2))
      (simp add: example_record_def)
qed

lemma example_entry_records:
  "entry_records \<lparr> hr_start = 0, hr_end = None \<rparr> example_entries
    = [example_record 5 5 4, example_record 6 6 5, example_record 7 7 6, example_record 8 6 4]"
proof -
  have "wanted \<lparr> hr_start = 0, hr_end = None \<rparr> (example_record name height prev)" for name height prev
    by (simp add: wanted_def sat_sub_def example_record_def block_valid_mask_def block_failed_mask_def)
  moreover have key: "fst (example_entry name height prev) = 98 # replicate 32 name" for name height prev
    by (simp add: example_entry_def)
  ultimately show ?thesis
    using example_entry_reads key by (simp add: entry_records_def example_entries_def split_def)
qed

theorem index_is_chain_witness:
  "\<exists>r0 rs. at_height (bir_height r0) (entry_records \<lparr> hr_start = 0, hr_end = None \<rparr> example_entries) = [r0]
    \<and> [6 \<mapsto> small_record (example_record 6 6 5), 5 \<mapsto> small_record (example_record 5 5 4)]
      = map_of (map (\<lambda>r. (bir_height r, small_record r)) rs) \<and> linked_records (rs @ [r0])"
proof -
  have "\<not> (\<forall>r \<in> set (entry_records \<lparr> hr_start = 0, hr_end = None \<rparr> example_entries).
      length (at_height (bir_height r) (entry_records \<lparr> hr_start = 0, hr_end = None \<rparr> example_entries)) \<noteq> 1)"
    unfolding example_entry_records by (simp add: at_height_def) (simp add: example_record_def)
  note exact = index_is_chain [OF example_index_of, unfolded if_not_P [OF this]]
  then show ?thesis by blast
qed

section \<open>Block files\<close>

text \<open>A block in a block file, which is obfuscated as a whole: the bytes before the size, the size, the block and
  the rest of the file.\<close>

definition file_bytes :: "bytes \<Rightarrow> u32 \<Rightarrow> bytes \<Rightarrow> bytes \<Rightarrow> bytes" where
  "file_bytes pre size' blk post = pre @ u32_le_bytes size' @ blk @ post"

lemma xor_read_length: "xor_read key p a = Some (x, q) \<Longrightarrow> length x = length a \<and> q = p + word_of_nat (length a)"
  by (auto simp: xor_read_def split: option.splits if_splits)

lemma xor_read_ex: "key \<noteq> Some [] \<or> a = [] \<Longrightarrow> \<exists>x q. xor_read key p a = Some (x, q)"
  by (cases key) (auto simp: xor_read_def)

lemma xor_read_Some: "xor_read key p a = Some (x, q) \<Longrightarrow> key \<noteq> Some [] \<or> a = []"
  by (cases key) (auto simp: xor_read_def split: if_splits)

lemma xor_read_split:
  assumes "xor_read key p (a @ b) = Some (c, s)"
  shows "\<exists>x y. c = x @ y \<and> length x = length a \<and> xor_read key (p + word_of_nat (length a)) b = Some (y, s)"
proof -
  have key: "key \<noteq> Some [] \<or> a = []" "key \<noteq> Some [] \<or> b = []" using xor_read_Some [OF assms] by auto
  obtain x q where x: "xor_read key p a = Some (x, q)" using xor_read_ex [OF key(1)] by blast
  obtain y s' where y: "xor_read key q b = Some (y, s')" using xor_read_ex [OF key(2)] by blast
  from xor_read_pieces [OF x y] assms have "c = x @ y" "s = s'" by simp_all
  with xor_read_length [OF x] y show ?thesis by auto
qed

lemma xor_read_back: "xor_read key p a = Some (x, q) \<Longrightarrow> xor_read key p x = Some (a, q)"
  using xor_read_pieces [of key p a x q "[]"] xor_read_ex [of key "[]" q] by blast

lemma blk_read_block_file:
  assumes law: "\<And>w r. wo_witness W (wenc w @ r) = Some (w, r)" and wf: "wf_block k m h aux n ts"
    and content: "xor_read key 0 (file_bytes pre size' (block_bytes wenc k m h aux n ts) post) = Some (content, q)"
    and small: "length pre + 4 < 2 ^ 64"
  shows "blk_read_block W key content (word_of_nat (length pre + 4)) = Some (block_new W size' h aux n ts)"
proof -
  let ?p = "word_of_nat (length pre) :: u64"
  let ?b = "u32_le_bytes size' @ block_bytes wenc k m h aux n ts @ post"
  have pos: "word_of_nat (length pre + 4) - 4 = ?p" "unat ?p = length pre"
    using small by (simp_all add: unat_of_nat take_bit_nat_eq_self)
  from xor_read_split [OF content [unfolded file_bytes_def]] obtain x y where
    xy: "content = x @ y" "length x = length pre" "xor_read key ?p ?b = Some (y, q)" by auto
  from xor_read_back [OF xy(3)] show ?thesis
    using xy(1, 2) by (simp add: blk_read_block_def pos read_le_u32 read_block_bytes [OF law wf] del: of_nat_add)
qed

text \<open>A stored block is the block of the node: if the index places a block in a block file of the node, obfuscated
  or not, and its bytes are there after their size, then reading that height gives the block, whatever
  comes before and after it in the file.\<close>

lemma stored_block_reads_back:
  assumes law: "\<And>w r. wo_witness W (wenc w @ r) = Some (w, r)" and wf: "wf_block k m h aux n ts"
    and content: "xor_read (cs_xor_key C) 0 (file_bytes pre size' (block_bytes wenc k m h aux n ts) post) = Some (content, q)"
    and small: "length pre + 4 < 2 ^ 64"
    and index: "ci_block_index (cs_chain_index C) height
      = Some \<lparr> bis_block_hash = name, bis_blk_index = i, bis_data_offset = word_of_nat (length pre + 4) \<rparr>"
    and files: "cs_blk_files C = Some files" "files i = Some content"
  shows "get_block W C height = Some (Some (block_new W size' h aux n ts))"
  using blk_read_block_file [OF law wf content small] index files by (simp add: get_block_def)

section \<open>Starting from the node\<close>

text \<open>The state of the follower that has only the block at a height.\<close>

definition started_at :: "u64 \<Rightarrow> hash32 \<Rightarrow> follow_state" where
  "started_at h x = \<lparr> fs_calls = 1, fs_checkpoint = cp_new (block_id_at h x), fs_last_hash = x \<rparr>"

lemma empty_index:
  assumes "chain_index_new hr None walk = Some (cs_chain_index C)"
  shows "ci_block_index (cs_chain_index C) = Map.empty" "ci_max_height (cs_chain_index C) = 0"
proof -
  have "cs_chain_index C = the (chain_index_new hr None walk)" using assms by simp
  then show "ci_block_index (cs_chain_index C) = Map.empty" "ci_max_height (cs_chain_index C) = 0"
    by (simp_all add: chain_index_new_def split: option.split)
qed

lemma parse_blocks_node:
  assumes index: "chain_index_new hr None walk = Some (cs_chain_index C)"
    and "\<not> cancelled 0" and "bid_height last_block \<noteq> - 1"
  shows "parse_blocks W C cancelled opened N max_len last_block passes =
    (case nv_hash (N 0) (bid_height last_block) of
       None \<Rightarrow> ([], Inl FoPanic)
     | Some x \<Rightarrow> follow N max_len passes (started_at (bid_height last_block) x))"
proof -
  let ?h = "bid_height last_block"
  have first: "sat_sub (first_height ?h) 1 = ?h"
  proof (cases "?h = 0")
    case False
    have "\<not> ?h + 1 < 1" using assms(3) by (simp add: eq_neg_iff_add_eq_0)
    with False show ?thesis by (simp add: first_height_def sat_sub_def)
  qed (simp add: first_height_def sat_sub_def)
  have sent: "send_stored (get_block W C) cancelled opened 0 (heights_from (first_height ?h) 0) l = ([], StDone l)" for l
    using assms(2, 3) unat_gt_0 [of "?h + 1"] eq_neg_iff_add_eq_0 [of ?h 1]
    by (cases "?h = 0") (auto simp: heights_from_def first_height_def get_block_def empty_index(1) [OF index])
  have none: "chain_complete C = None"
    by (simp add: chain_complete_def empty_index(1) [OF index])
  have "\<not> ?h < sat_sub ?h 1"
    by (cases "?h = 0") (simp_all add: sat_sub_def not_less word_le_nat_alt unat_minus_one)
  then have filled: "fill_checkpoint N (sat_sub ?h 1) (Suc 0) (cp_new (block_id_at ?h x)) = Some (Suc 0, cp_new (block_id_at ?h x))" for x
    by (subst fill_checkpoint.simps) (simp add: cp_new_def cp_height_def block_id_at_def)
  show ?thesis
    by (simp add: parse_blocks_def Let_def empty_index(2) [OF index] sent none first filled started_at_def
        split: option.split)
qed

text \<open>C21.  Without block files the follower starts from the block that the node has at the last indexed height,
  whatever hash was indexed there: with a node that stands still it sends exactly the blocks above that height
  to the tip, in order and without a reorganisation length, also when the last indexed block has
  left the best chain meanwhile.  For height 0 it sends the blocks from 1 on.\<close>

theorem resume_from_node:
  assumes index: "chain_index_new hr None walk = Some (cs_chain_index C)" and "\<not> cancelled 0"
    and V: "serves V active tip" and h: "bid_height last_block = word_of_nat h" "h < tip"
  shows "\<exists>s. parse_blocks W C cancelled opened (\<lambda>_. V) max_len last_block 1 = (chain_events active tip 0 h, Inr s)
    \<and> cp_hash (fs_checkpoint s) = hash_at active tip"
proof -
  have "h \<le> tip" "unat (word_of_nat h :: u64) = h" "unat (word_of_nat tip :: u64) = tip"
    using h(2) unat_height servesD(2) [OF V] by (simp, meson less_imp_le, blast)
  moreover have "(word_of_nat h :: u64) \<noteq> - 1"
  proof
    assume "(word_of_nat h :: u64) = - 1"
    then have "unat (word_of_nat tip :: u64) \<le> unat (word_of_nat h :: u64)"
      by (simp flip: word_le_nat_alt)
    with calculation h(2) show False by simp
  qed
  moreover have "linked (started_at (word_of_nat h) x)" for x
    by (simp add: linked_def started_at_def cp_new_def cp_hash_def block_id_at_def)
  moreover have "cp_height (cp_new (block_id_at k x)) = k" "cp_hash (cp_new (block_id_at k x)) = x" for k x
    by (simp_all add: cp_new_def cp_height_def cp_hash_def block_id_at_def)
  ultimately obtain s where "follow_pass (\<lambda>_. V) max_len (started_at (word_of_nat h) (hash_at active h))
      = (chain_events active tip 0 h, Inr s)" "cp_hash (fs_checkpoint s) = hash_at active tip"
    using catch_up [OF V, of "started_at (word_of_nat h) (hash_at active h)" 0 max_len
        "cp_new (block_id_at (word_of_nat h) (hash_at active h))" h]
    by (auto simp: started_at_def)
  then show ?thesis
    using parse_blocks_node [where cancelled = cancelled, OF index assms(2), of last_block] servesD(4) [OF V \<open>h \<le> tip\<close>] h(1)
      \<open>(word_of_nat h :: u64) \<noteq> - 1\<close> by simp
qed

text \<open>A start without block files cannot go back: a reorganisation that takes the starting block off the
  best chain, before the first block is sent, ends the follower with a panic, however long a
  reorganisation is accepted.\<close>

lemma start_cannot_go_back:
  assumes index: "chain_index_new hr None walk = Some (cs_chain_index C)"
    and "\<not> cancelled 0" and "bid_height last_block \<noteq> - 1"
    and "nv_hash (N 0) (bid_height last_block) = Some x" and "nv_best (N 1) = Some y" and "y \<noteq> x"
    and "orphaned (N 2) x"
  shows "parse_blocks W C cancelled opened N max_len last_block (Suc passes) = ([], Inl FoPanic)"
  using assms(4-) unfolding parse_blocks_node [where cancelled = cancelled, OF assms(1-3)]
  by (simp add: follow_pass_def started_at_def cp_new_def cp_hash_def block_id_at_def numeral_2_eq_2)

definition example_start :: chain_storage where
  "example_start = \<lparr> cs_chain_index = the (chain_index_new \<lparr> hr_start = 41, hr_end = None \<rparr> None (\<lambda>_. [])),
     cs_blk_files = None, cs_xor_key = None \<rparr>"

lemma example_start_index:
  "chain_index_new \<lparr> hr_start = 41, hr_end = None \<rparr> None (\<lambda>_. []) = Some (cs_chain_index example_start)"
  by (simp add: example_start_def chain_index_new_def)

theorem resume_from_node_witness:
  "\<exists>s. parse_blocks example_wire example_start (\<lambda>_. False) (\<lambda>_. True) (\<lambda>_. example_view 43) 30 (block_id_at 41 [99]) 1
    = (map (chain_event example_chain_at 43 0) [42, 43], Inr s)"
proof -
  have "(43 :: nat) < 256" "(41 :: nat) < 43" by simp_all
  from resume_from_node [OF example_start_index _ example_serves [OF this(1)] _ this(2),
      of "\<lambda>_. False" "block_id_at 41 [99]" example_wire "\<lambda>_. True" 30]
  show ?thesis by (auto simp: chain_events_def upt_rec block_id_at_def)
qed

end
