(* ===== verification/Texts.thy ===== *)
theory Texts
  imports DbTypes
begin

text \<open>
  Texts of the REST interface: decimal numbers as the standard library prints and parses them, and the
  identifiers of inscriptions (\<open>InscriptionId\<close> of \<open>src/tokens/structs.rs\<close>, \<open>RestInscriptionId\<close> of
  \<open>src/rest/types.rs\<close>, whose printers and parsers are the same code).  A string is its UTF-8 bytes.
  Printing and parsing a transaction id is library code, the parameter \<open>txid_text\<close>.
\<close>

section \<open>Numbers\<close>

function decimal :: "nat \<Rightarrow> bytes" where
  "decimal n = (if n < 10 then [word_of_nat (48 + n)] else decimal (n div 10) @ [word_of_nat (48 + n mod 10)])"
  by pat_completeness auto

termination
  by (relation "measure id") auto

declare decimal.simps [simp del]

definition show_u32 :: "u32 \<Rightarrow> bytes" where
  "show_u32 n = decimal (unat n)"

text \<open>\<open>from_str\<close> of unsigned numbers: an optional plus sign, at least one digit, no overflow at any digit.\<close>

definition digit :: "u8 \<Rightarrow> nat option" where
  "digit b = (if 48 \<le> b \<and> b \<le> 57 then Some (unat b - 48) else None)"

fun parse_digits :: "nat \<Rightarrow> nat \<Rightarrow> bytes \<Rightarrow> nat option" where
  "parse_digits m acc [] = Some acc"
| "parse_digits m acc (b # bs) =
     (case digit b of
        None \<Rightarrow> None
      | Some d \<Rightarrow> if m \<le> acc * 10 + d then None else parse_digits m (acc * 10 + d) bs)"

definition parse_unsigned :: "nat \<Rightarrow> bytes \<Rightarrow> nat option" where
  "parse_unsigned m s =
     (let ds = (case s of b # bs \<Rightarrow> if b = 43 then bs else s | [] \<Rightarrow> [])
      in if ds = [] then None else parse_digits m 0 ds)"

definition parse_u32 :: "bytes \<Rightarrow> u32 option" where
  "parse_u32 s = map_option word_of_nat (parse_unsigned (2 ^ 32) s)"

definition parse_u64 :: "bytes \<Rightarrow> u64 option" where
  "parse_u64 s = map_option word_of_nat (parse_unsigned (2 ^ 64) s)"

section \<open>Inscription ids\<close>

record txid_text =
  tt_show :: "hash32 \<Rightarrow> bytes"
  tt_parse :: "bytes \<Rightarrow> hash32 option"

datatype parse_error = PeCharacter | PeLength nat | PeSeparator u8 | PeTxid | PeIndex

definition show_inscription_id :: "txid_text \<Rightarrow> inscription_id \<Rightarrow> bytes" where
  "show_inscription_id X i = tt_show X (iid_txid i) @ [105] @ show_u32 (iid_index i)"

text \<open>\<open>TXID_LEN\<close> is 64, and an id has at least two bytes more.\<close>

definition parse_inscription_id :: "txid_text \<Rightarrow> bytes \<Rightarrow> parse_error + inscription_id" where
  "parse_inscription_id X s =
     (if \<exists>b \<in> set s. 128 \<le> b then Inl PeCharacter
      else if length s < 64 + 2 then Inl (PeLength (length s))
      else if s ! 64 \<noteq> 105 then Inl (PeSeparator (s ! 64))
      else (case tt_parse X (take 64 s) of
              None \<Rightarrow> Inl PeTxid
            | Some txid \<Rightarrow>
                (case parse_u32 (drop (64 + 1) s) of
                   None \<Rightarrow> Inl PeIndex
                 | Some index \<Rightarrow> Inr \<lparr> iid_txid = txid, iid_index = index \<rparr>)))"

section \<open>Locations\<close>

text \<open>\<open>Display\<close> and \<open>FromStr\<close> of \<open>Location\<close>; the error is not told apart.\<close>

definition show_location :: "txid_text \<Rightarrow> location \<Rightarrow> bytes" where
  "show_location X l = tt_show X (op_txid (loc_outpoint l)) @ [105] @ decimal (unat (op_vout (loc_outpoint l)))
     @ [105] @ decimal (unat (loc_offset l))"

fun split_at :: "u8 \<Rightarrow> bytes \<Rightarrow> bytes list" where
  "split_at c [] = [[]]"
| "split_at c (b # bs) =
     (if b = c then [] # split_at c bs
      else (case split_at c bs of p # ps \<Rightarrow> (b # p) # ps | [] \<Rightarrow> [[b]]))"

definition parse_location :: "txid_text \<Rightarrow> bytes \<Rightarrow> location option" where
  "parse_location X s =
     (case split_at 58 s of
        t # v # n # _ \<Rightarrow>
          Option.bind (tt_parse X t) (\<lambda>txid.
          Option.bind (parse_u32 v) (\<lambda>vout.
          map_option (\<lambda>offset. \<lparr> loc_outpoint = \<lparr> op_txid = txid, op_vout = vout \<rparr>, loc_offset = offset \<rparr>)
            (parse_u64 n)))
      | _ \<Rightarrow> None)"

section \<open>Round trips\<close>

lemma digit_char: "d < 10 \<Longrightarrow> digit (word_of_nat (48 + d)) = Some d"
proof -
  assume d: "d < 10"
  then have "unat (word_of_nat (48 + d) :: u8) = 48 + d" by (simp only: unat_of_nat) simp
  with d show ?thesis by (simp add: digit_def word_le_nat_alt del: of_nat_add)
qed

lemma decimal_char: "b \<in> set (decimal n) \<Longrightarrow> \<exists>d < 10. b = word_of_nat (48 + d)"
proof (induction n arbitrary: b rule: decimal.induct)
  case (1 n)
  show ?case
  proof (cases "n < 10")
    case True
    with 1(2) have "b = word_of_nat (48 + n)" by (simp add: decimal.simps [of n])
    with True show ?thesis by blast
  next
    case False
    with 1(2) have "b \<in> set (decimal (n div 10)) \<or> b = word_of_nat (48 + n mod 10)"
      by (auto simp: decimal.simps [of n])
    moreover have "n mod 10 < 10" by simp
    ultimately show ?thesis using 1(1) [OF False] by blast
  qed
qed

lemma decimal_not_Nil: "decimal n \<noteq> []"
  by (subst decimal.simps) simp

lemma parse_decimal_from:
  "n < m \<Longrightarrow> parse_digits m 0 (decimal n @ bs) = parse_digits m n bs"
proof (induction n arbitrary: bs rule: decimal.induct)
  case (1 n)
  show ?case
  proof (cases "n < 10")
    case True
    with 1(2) show ?thesis by (subst decimal.simps) (simp add: digit_char del: of_nat_add)
  next
    case False
    have "n div 10 < m" using 1(2) by (simp add: less_le_trans)
    from 1(1) [OF False this, of "word_of_nat (48 + n mod 10) # bs"] have
      "parse_digits m 0 (decimal n @ bs) = parse_digits m (n div 10) (word_of_nat (48 + n mod 10) # bs)"
      using False by (subst decimal.simps) simp
    also have "\<dots> = parse_digits m n bs"
      using 1(2) by (simp add: digit_char del: of_nat_add)
    finally show ?thesis .
  qed
qed

lemma small_char: "d < 10 \<Longrightarrow> unat (word_of_nat (48 + d) :: u8) = 48 + d"
  by (simp only: unat_of_nat) simp

lemma parse_shown: "n < m \<Longrightarrow> parse_unsigned m (decimal n @ bs) = parse_digits m n bs"
proof -
  assume n: "n < m"
  have "43 \<notin> set (decimal n)"
  proof
    assume "43 \<in> set (decimal n)"
    then obtain d where d: "d < 10" "43 = (word_of_nat (48 + d) :: u8)" using decimal_char by blast
    from arg_cong [OF d(2), of unat] small_char [OF d(1)] show False by simp
  qed
  then obtain c cs where "decimal n = c # cs" "c \<noteq> 43"
    using decimal_not_Nil [of n] by (cases "decimal n") auto
  with parse_decimal_from [OF n, of bs] show ?thesis by (simp add: parse_unsigned_def)
qed

lemma parse_show_u32: "parse_u32 (show_u32 n) = Some n"
  using parse_shown [OF unat_u32_less [of n], of "[]"] by (simp add: parse_u32_def show_u32_def)

lemma show_u32_ascii: "b \<in> set (show_u32 n) \<Longrightarrow> b < 128"
proof -
  assume "b \<in> set (show_u32 n)"
  then obtain d where d: "d < 10" "b = word_of_nat (48 + d)"
    using decimal_char unfolding show_u32_def by blast
  with small_char [OF d(1)] show ?thesis by (simp add: word_less_nat_alt del: of_nat_add)
qed

text \<open>The text of a location has no colon, so it is never read back.\<close>

lemma split_at_none: "c \<notin> set s \<Longrightarrow> split_at c s = [s]"
  by (induction s) auto

lemma location_text_unreadable:
  assumes "58 \<notin> set (tt_show X (op_txid (loc_outpoint l)))"
  shows "parse_location X (show_location X l) = None"
proof -
  have "58 \<notin> set (decimal n)" for n
  proof
    assume "58 \<in> set (decimal n)"
    then obtain d where d: "d < 10" "58 = (word_of_nat (48 + d) :: u8)" using decimal_char by blast
    from arg_cong [OF d(2), of unat] small_char [OF d(1)] d(1) show False by simp
  qed
  with assms have "58 \<notin> set (show_location X l)" by (simp add: show_location_def)
  then show ?thesis by (simp add: parse_location_def split_at_none)
qed

end
