(* ===== verification/Scan.thy ===== *)
theory Scan
  imports Codec "HOL-Library.List_Lexorder"
begin

text \<open>
  Ordered scans of the storage wrapper (\<open>RocksTable::range\<close>, \<open>iter\<close> and \<open>retain\<close> of
  \<open>packages/rocksdb-wrapper/src/storage.rs\<close>).

  The iterator of RocksDB is third party code, the parameter \<open>it\<close>: for an optional first key and a
  direction (\<open>True\<close> is backwards) the list of the entries it yields.  \<open>iterates\<close> is what its
  documentation promises for a column family.  As for the point operations of \<open>Storage\<close>, the handlers work on
  typed tables, with the scan \<open>tbl_range\<close>; \<open>scan_range\<close> shows that the code implements it.
\<close>

section \<open>The operations\<close>

datatype 'k bound = Included 'k | Excluded 'k | Unbounded

type_synonym raw_iterator = "bytes option \<Rightarrow> bool \<Rightarrow> (bytes \<times> bytes) list"

fun bound_key :: "'k bound \<Rightarrow> 'k option" where
  "bound_key (Included k) = Some k"
| "bound_key (Excluded k) = Some k"
| "bound_key Unbounded = None"

definition decode_entry ::
  "(bytes \<Rightarrow> 'k option) \<Rightarrow> (bytes \<Rightarrow> 'v option) \<Rightarrow> bytes \<times> bytes \<Rightarrow> ('k \<times> 'v) option" where
  "decode_entry kdec vdec e = Option.bind (kdec (fst e)) (\<lambda>k. map_option (Pair k) (vdec (snd e)))"

text \<open>\<open>RocksTable::range\<close>; an element \<open>None\<close> is the panic on bytes that do not decode, which happens when
  the consumer reaches it.\<close>

definition raw_range ::
  "raw_iterator \<Rightarrow> ('k \<Rightarrow> bytes) \<Rightarrow> (bytes \<Rightarrow> 'k option) \<Rightarrow> (bytes \<Rightarrow> 'v option) \<Rightarrow>
     'k bound \<Rightarrow> 'k bound \<Rightarrow> bool \<Rightarrow> ('k \<times> 'v) option list"
where
  "raw_range it kenc kdec vdec start_bound end_bound reversed =
     (let lo = map_bound kenc start_bound; hi = map_bound kenc end_bound;
          start = (if reversed then hi else lo); stop = (if reversed then lo else hi)
      in map (decode_entry kdec vdec)
        (takeWhile (\<lambda>(k, _). case stop of
             Unbounded \<Rightarrow> True
           | Included e \<Rightarrow> if reversed then e \<le> k else k \<le> e
           | Excluded e \<Rightarrow> if reversed then e < k else k < e)
          (dropWhile (\<lambda>(k, _). case start of Excluded s \<Rightarrow> k = s | _ \<Rightarrow> False)
            (it (bound_key start) reversed))))"

definition raw_iter ::
  "raw_iterator \<Rightarrow> (bytes \<Rightarrow> 'k option) \<Rightarrow> (bytes \<Rightarrow> 'v option) \<Rightarrow> ('k \<times> 'v) option list" where
  "raw_iter it kdec vdec = map (decode_entry kdec vdec) (it None False)"

text \<open>\<open>RocksTable::retain\<close> skips the entries that do not decode.\<close>

definition raw_retain ::
  "raw_iterator \<Rightarrow> (bytes \<Rightarrow> 'k option) \<Rightarrow> (bytes \<Rightarrow> 'v option) \<Rightarrow> ('k \<Rightarrow> 'v \<Rightarrow> bool) \<Rightarrow> raw_table \<Rightarrow> raw_table"
where
  "raw_retain it kdec vdec f t =
     foldl (\<lambda>t k. t(k := None)) t
       (map fst (filter (\<lambda>e. case decode_entry kdec vdec e of None \<Rightarrow> False | Some (k, v) \<Rightarrow> \<not> f k v) (it None False)))"

section \<open>The contract of the iterator\<close>

definition iterates :: "raw_iterator \<Rightarrow> raw_table \<Rightarrow> bool" where
  "iterates it t \<longleftrightarrow> (\<forall>from.
     sorted_wrt (\<lambda>a b. fst a < fst b) (it from False) \<and> sorted_wrt (\<lambda>a b. fst b < fst a) (it from True)
     \<and> set (it from False) = {(k, v). t k = Some v \<and> (\<forall>s. from = Some s \<longrightarrow> s \<le> k)}
     \<and> set (it from True) = {(k, v). t k = Some v \<and> (\<forall>s. from = Some s \<longrightarrow> k \<le> s)})"

section \<open>Scans of typed tables\<close>

definition above :: "('k \<Rightarrow> bytes) \<Rightarrow> 'k bound \<Rightarrow> 'k \<Rightarrow> bool" where
  "above enc b k = (case b of Unbounded \<Rightarrow> True | Included s \<Rightarrow> enc s \<le> enc k | Excluded s \<Rightarrow> enc s < enc k)"

definition below :: "('k \<Rightarrow> bytes) \<Rightarrow> 'k bound \<Rightarrow> 'k \<Rightarrow> bool" where
  "below enc b k = (case b of Unbounded \<Rightarrow> True | Included s \<Rightarrow> enc k \<le> enc s | Excluded s \<Rightarrow> enc k < enc s)"

definition tbl_iter :: "('k \<Rightarrow> bytes) \<Rightarrow> ('k \<rightharpoonup> 'v) \<Rightarrow> ('k \<times> 'v) list" where
  "tbl_iter enc t = map (\<lambda>k. (k, the (t k))) (sorted_key_list_of_set enc (dom t))"

definition tbl_range ::
  "('k \<Rightarrow> bytes) \<Rightarrow> ('k \<rightharpoonup> 'v) \<Rightarrow> 'k bound \<Rightarrow> 'k bound \<Rightarrow> bool \<Rightarrow> ('k \<times> 'v) list"
where
  "tbl_range enc t lo hi reversed =
     (let es = filter (\<lambda>(k, _). above enc lo k \<and> below enc hi k) (tbl_iter enc t)
      in if reversed then rev es else es)"

lemma sorted_unique:
  fixes f :: "'a \<Rightarrow> 'b::linorder"
  assumes "sorted_wrt (\<lambda>a b. f a < f b) xs" and "sorted_wrt (\<lambda>a b. f a < f b) ys" and "set xs = set ys"
  shows "xs = ys"
proof -
  have s: "sorted_wrt (<) (map f xs)" "sorted_wrt (<) (map f ys)"
    using assms(1, 2) by (simp_all add: sorted_wrt_map)
  then have "map f xs = map f ys"
    using strict_sorted_equal assms(3) by (metis list.set_map)
  moreover have "distinct (map f xs)" using s(1) by (simp add: strict_sorted_iff)
  ultimately show ?thesis using assms(3) by (simp add: distinct_map inj_on_map_eq_map)
qed

lemma takeWhile_sorted:
  assumes "sorted_wrt R xs" and "\<And>a b. a \<in> set xs \<Longrightarrow> R a b \<Longrightarrow> P b \<Longrightarrow> P a"
  shows "takeWhile P xs = filter P xs"
  using assms
proof (induction xs)
  case (Cons a xs)
  show ?case
  proof (cases "P a")
    case False
    with Cons.prems have "filter P xs = []" by (auto simp: filter_empty_conv)
    with False show ?thesis by simp
  qed (use Cons in simp)
qed simp

lemma dropWhile_sorted:
  assumes "sorted_wrt R xs" and "\<And>a b. a \<in> set xs \<Longrightarrow> R a b \<Longrightarrow> P b \<Longrightarrow> P a"
  shows "dropWhile P xs = filter (\<lambda>x. \<not> P x) xs"
  using assms
proof (induction xs)
  case (Cons a xs)
  show ?case
  proof (cases "P a")
    case False
    with Cons.prems have "filter (\<lambda>x. \<not> P x) xs = xs" by (auto simp: filter_id_conv)
    with False show ?thesis by simp
  qed (use Cons in simp)
qed simp

section \<open>The code implements the scans\<close>

lemma fst_unique:
  fixes xs :: "(bytes \<times> bytes) list"
  assumes "sorted_wrt (\<lambda>a b. fst a < fst b) xs" and "sorted_wrt (\<lambda>a b. fst a < fst b) ys" and "set xs = set ys"
  shows "xs = ys"
  using sorted_unique [OF assms] .

text \<open>What the iterator gives, cut at the bounds, is the entries of the table within them.\<close>

lemma iterates_range:
  assumes it: "iterates it t" and t: "es = it None False"
  shows "takeWhile (\<lambda>(k, _). case stop of
             Unbounded \<Rightarrow> True
           | Included e \<Rightarrow> if reversed then e \<le> k else k \<le> e
           | Excluded e \<Rightarrow> if reversed then e < k else k < e)
          (dropWhile (\<lambda>(k, _). case start of Excluded s \<Rightarrow> k = s | _ \<Rightarrow> False) (it (bound_key start) reversed))
    = (if reversed then rev else id) (filter (\<lambda>(k, _).
         above (\<lambda>k. k) (if reversed then stop else start) k \<and> below (\<lambda>k. k) (if reversed then start else stop) k) es)"
proof -
  note i = it [unfolded iterates_def, rule_format, of "bound_key start"]
    it [unfolded iterates_def, rule_format, of None]
  show ?thesis
  proof (cases reversed)
    case False
    let ?xs = "it (bound_key start) False"
    have "dropWhile (\<lambda>(k, _). case start of Excluded s \<Rightarrow> k = s | _ \<Rightarrow> False) ?xs
        = filter (\<lambda>(k, _). above (\<lambda>k. k) start k) ?xs"
      using i(1) by (subst dropWhile_sorted [where R = "\<lambda>a b. fst a < fst b"])
        (auto simp: above_def intro!: filter_cong split: bound.splits)
    moreover have "takeWhile (\<lambda>(k, _). case stop of Unbounded \<Rightarrow> True | Included e \<Rightarrow> k \<le> e | Excluded e \<Rightarrow> k < e) ys
        = filter (\<lambda>(k, _). below (\<lambda>k. k) stop k) ys" if "sorted_wrt (\<lambda>a b. fst a < fst b) ys" for ys :: "(bytes \<times> bytes) list"
      using that by (subst takeWhile_sorted [where R = "\<lambda>a b. fst a < fst b"])
        (auto simp: below_def intro!: filter_cong split: bound.splits)
    moreover have "filter (\<lambda>(k, _). below (\<lambda>k. k) stop k) (filter (\<lambda>(k, _). above (\<lambda>k. k) start k) ?xs)
        = filter (\<lambda>(k, _). above (\<lambda>k. k) start k \<and> below (\<lambda>k. k) stop k) es"
      unfolding t using i by (intro fst_unique sorted_wrt_filter)
        (auto simp: above_def split: bound.splits)
    moreover have "reversed = False" using False by simp
    ultimately show ?thesis
      unfolding \<open>reversed = False\<close> if_False using i(1) by (simp add: sorted_wrt_filter)
  next
    case True
    let ?xs = "it (bound_key start) True"
    have "dropWhile (\<lambda>(k, _). case start of Excluded s \<Rightarrow> k = s | _ \<Rightarrow> False) ?xs
        = filter (\<lambda>(k, _). below (\<lambda>k. k) start k) ?xs"
      using i(1) by (subst dropWhile_sorted [where R = "\<lambda>a b. fst b < fst a"])
        (auto simp: below_def intro!: filter_cong split: bound.splits)
    moreover have "takeWhile (\<lambda>(k, _). case stop of Unbounded \<Rightarrow> True | Included e \<Rightarrow> e \<le> k | Excluded e \<Rightarrow> e < k) ys
        = filter (\<lambda>(k, _). above (\<lambda>k. k) stop k) ys" if "sorted_wrt (\<lambda>a b. fst b < fst a) ys" for ys :: "(bytes \<times> bytes) list"
      using that by (subst takeWhile_sorted [where R = "\<lambda>a b. fst b < fst a"])
        (auto simp: above_def intro!: filter_cong split: bound.splits)
    moreover have "rev (filter (\<lambda>(k, _). above (\<lambda>k. k) stop k) (filter (\<lambda>(k, _). below (\<lambda>k. k) start k) ?xs))
        = filter (\<lambda>(k, _). above (\<lambda>k. k) stop k \<and> below (\<lambda>k. k) start k) es"
      unfolding t using i by (intro fst_unique)
        (auto simp: below_def sorted_wrt_rev sorted_wrt_filter split: bound.splits)
    moreover have "reversed = True" using True by simp
    ultimately show ?thesis
      unfolding \<open>reversed = True\<close> if_True using i(1) by (simp add: sorted_wrt_filter rev_swap)
  qed
qed

text \<open>The entries of a typed table in the order of their encoded keys.\<close>

lemma insort_key_locale: "inj_on f S \<Longrightarrow> folding_insort_key (\<le>) ((<) :: bytes \<Rightarrow> bytes \<Rightarrow> bool) S f"
  by unfold_locales

lemma sorted_keys_class: "linorder.sorted_key_list_of_set (\<le>) = (sorted_key_list_of_set :: ('k \<Rightarrow> bytes) \<Rightarrow> 'k set \<Rightarrow> 'k list)"
proof -
  have "linorder.insort_key (\<le>) f x xs = insort_key f x xs" for f :: "'k \<Rightarrow> bytes" and x xs
    by (induction xs) (simp_all add: linorder.insort_key.simps [OF linorder_class.linorder_axioms])
  then have "linorder.insort_key (\<le>) = (insort_key :: ('k \<Rightarrow> bytes) \<Rightarrow> 'k \<Rightarrow> 'k list \<Rightarrow> 'k list)" by blast
  then show ?thesis
    unfolding linorder.sorted_key_list_of_set_def [OF linorder_class.linorder_axioms]
    by (intro ext) (simp add: sorted_key_list_of_set_def)
qed

lemma tbl_iter_spec:
  assumes "finite (dom t)" and "inj_on enc (dom t)"
  shows "sorted_wrt (\<lambda>a b. enc (fst a) < enc (fst b)) (tbl_iter enc t)"
    "set (tbl_iter enc t) = {(k, v). t k = Some v}"
proof -
  note l = insort_key_locale [OF assms(2)]
  show "sorted_wrt (\<lambda>a b. enc (fst a) < enc (fst b)) (tbl_iter enc t)"
    using folding_insort_key.strict_sorted_key_list_of_set [OF l order_refl, unfolded sorted_keys_class]
    by (simp add: tbl_iter_def sorted_wrt_map)
  show "set (tbl_iter enc t) = {(k, v). t k = Some v}"
    using folding_insort_key.set_sorted_key_list_of_set [OF l order_refl assms(1), unfolded sorted_keys_class]
    by (auto simp: tbl_iter_def)
qed

lemma tbl_iter_eq:
  assumes "finite (dom t)" and "inj_on enc (dom t)"
    and "sorted_wrt (\<lambda>a b. enc (fst a) < enc (fst b)) es" and "set es = {(k, v). t k = Some v}"
  shows "tbl_iter enc t = es"
  using sorted_unique [of "\<lambda>a. enc (fst a)"] tbl_iter_spec [OF assms(1, 2)] assms(3, 4) by metis

lemma tbl_range_spec:
  assumes "finite (dom t)" and "inj_on enc (dom t)"
  shows "set (tbl_range enc t lo hi r) = {(k, v). t k = Some v \<and> above enc lo k \<and> below enc hi k}"
    "sorted_wrt (\<lambda>a b. enc (fst a) < enc (fst b)) ((if r then rev else id) (tbl_range enc t lo hi r))"
  using tbl_iter_spec [OF assms] by (auto simp: tbl_range_def Let_def sorted_wrt_filter)

context rocks_table
begin

definition clean :: "raw_table \<Rightarrow> bool" where
  "clean t \<longleftrightarrow> finite (dom t) \<and> (\<forall>b c. t b = Some c \<longrightarrow> (\<exists>k v. kwf k \<and> vwf v \<and> b = kenc k \<and> c = venc v))"

lemma view_clean:
  assumes "clean t"
  shows "view t k = Some v \<longleftrightarrow> kwf k \<and> vwf v \<and> t (kenc k) = Some (venc v)"
proof
  assume "view t k = Some v"
  then obtain c where c: "kwf k" "t (kenc k) = Some c" "vdec c = Some v"
    by (auto simp: view_def bind_eq_Some_conv split: if_splits)
  with assms obtain v' where "vwf v'" "c = venc v'" unfolding clean_def by blast
  with c show "kwf k \<and> vwf v \<and> t (kenc k) = Some (venc v)" by (simp add: V.dec_enc)
qed (simp add: view_def V.dec_enc)

lemma view_finite: "clean t \<Longrightarrow> finite (dom (view t))"
proof -
  assume t: "clean t"
  have "kenc ` dom (view t) \<subseteq> dom t" using view_clean [OF t] by auto
  then have "finite (kenc ` dom (view t))" using t finite_subset unfolding clean_def by blast
  moreover have "inj_on kenc (dom (view t))" using view_clean [OF t] by (auto simp: inj_on_def K.enc_inj)
  ultimately show ?thesis by (rule finite_imageD)
qed

lemma view_inj: "clean t \<Longrightarrow> inj_on kenc (dom (view t))"
  using view_clean by (auto simp: inj_on_def K.enc_inj)

lemma entries_view:
  assumes t: "clean t" and it: "iterates it t"
  shows "it None False = map (\<lambda>(k, v). (kenc k, venc v)) (tbl_iter kenc (view t))"
proof (rule fst_unique)
  note i = it [unfolded iterates_def, rule_format, of None]
  note s = tbl_iter_spec [OF view_finite [OF t] view_inj [OF t]]
  show "sorted_wrt (\<lambda>a b. fst a < fst b) (it None False)" using i by blast
  show "sorted_wrt (\<lambda>a b. fst a < fst b) (map (\<lambda>(k, v). (kenc k, venc v)) (tbl_iter kenc (view t)))"
    using s(1) by (simp add: sorted_wrt_map split_def)
  have "set (it None False) = {(b, c). t b = Some c}" using i by auto
  also have "\<dots> = (\<lambda>(k, v). (kenc k, venc v)) ` {(k, v). view t k = Some v}"
    using view_clean [OF t] t unfolding clean_def by (auto simp: image_iff) blast
  finally show "set (it None False) = set (map (\<lambda>(k, v). (kenc k, venc v)) (tbl_iter kenc (view t)))"
    by (simp add: s(2))
qed

lemma decode_view:
  assumes "clean t" and "set es \<subseteq> {(k, v). view t k = Some v}"
  shows "map (decode_entry kdec vdec \<circ> (\<lambda>(k, v). (kenc k, venc v))) es = map Some es"
  using assms view_clean [OF assms(1)] by (auto simp: decode_entry_def K.dec_enc V.dec_enc)

lemma iter_view:
  assumes t: "clean t" and it: "iterates it t"
  shows "raw_iter it kdec vdec = map Some (tbl_iter kenc (view t))"
  using decode_view [OF t, of "tbl_iter kenc (view t)"] tbl_iter_spec(2) [OF view_finite [OF t] view_inj [OF t]]
  by (simp add: raw_iter_def entries_view [OF assms])

lemma range_view:
  assumes t: "clean t" and it: "iterates it t"
  shows "raw_range it kenc kdec vdec lo hi r = map Some (tbl_range kenc (view t) lo hi r)"
proof -
  let ?es = "tbl_iter kenc (view t)" and ?e = "\<lambda>(k, v). (kenc k, venc v)"
  have "above (\<lambda>k. k) (map_bound kenc b) (kenc k) = above kenc b k"
    "below (\<lambda>k. k) (map_bound kenc b) (kenc k) = below kenc b k" for b k
    by (cases b; simp add: above_def below_def)+
  then have f: "filter (\<lambda>(k, _). above (\<lambda>k. k) (map_bound kenc lo) k \<and> below (\<lambda>k. k) (map_bound kenc hi) k) (map ?e ?es)
      = map ?e (filter (\<lambda>(k, _). above kenc lo k \<and> below kenc hi k) ?es)"
    by (simp add: filter_map comp_def split_def)
  have d: "map (decode_entry kdec vdec) (map ?e xs) = map Some xs" if "set xs \<subseteq> set ?es" for xs
    using decode_view [OF t, of xs] tbl_iter_spec(2) [OF view_finite [OF t] view_inj [OF t]] that by simp
  show ?thesis
    unfolding raw_range_def Let_def
      iterates_range [OF it refl, unfolded entries_view [OF t it]]
    by (cases r) (simp_all only: if_True if_False f id_apply rev_map [symmetric] tbl_range_def Let_def, (subst d; auto)+)
qed

lemma removed_keys: "foldl (\<lambda>t k. t(k := None)) t ks = t |` (- set ks)"
  by (induction ks arbitrary: t) (auto simp: restrict_map_def fun_eq_iff)

lemma retain_view:
  assumes t: "clean t" and it: "iterates it t"
  shows "view (raw_retain it kdec vdec f t) = (\<lambda>k. Option.bind (view t k) (\<lambda>v. if f k v then Some v else None))"
proof -
  have d: "decode_entry kdec vdec (kenc k, venc v) = Some (k, v)" if "view t k = Some v" for k v
    using that view_clean [OF t] by (simp add: decode_entry_def K.dec_enc V.dec_enc)
  have mem: "b \<in> fst ` set (filter (\<lambda>e. case decode_entry kdec vdec e of None \<Rightarrow> False | Some (k, v) \<Rightarrow> \<not> f k v)
      (it None False)) \<longleftrightarrow> (\<exists>k v. view t k = Some v \<and> b = kenc k \<and> \<not> f k v)" for b
    unfolding entries_view [OF t it]
    using tbl_iter_spec(2) [OF view_finite [OF t] view_inj [OF t]] by (force simp: d image_iff)
  have "view (raw_retain it kdec vdec f t) k = Option.bind (view t k) (\<lambda>v. if f k v then Some v else None)" for k
  proof (cases "view t k")
    case None
    then show ?thesis by (simp add: raw_retain_def removed_keys view_def restrict_map_def split: if_splits)
  next
    case (Some v)
    then show ?thesis
      using view_clean [OF t] mem
      by (auto simp: raw_retain_def removed_keys restrict_map_def view_def K.enc_inj V.enc_inj V.dec_enc)
  qed
  then show ?thesis by blast
qed

lemma clean_empty: "clean Map.empty"
  by (simp add: clean_def)

lemma clean_extend: "clean t \<Longrightarrow> list_all (\<lambda>(k, v). kwf k \<and> vwf v) kvs \<Longrightarrow> clean (raw_extend kenc venc t kvs)"
proof (induction kvs arbitrary: t)
  case (Cons kv kvs)
  obtain k v where kv: "kv = (k, v)" by (cases kv)
  have "clean (raw_set kenc venc t k v)"
    using Cons.prems kv by (auto simp: clean_def raw_set_def)
  with Cons kv show ?case by (simp add: raw_extend_def)
qed (simp add: raw_extend_def)

lemma clean_remove_batch: "clean t \<Longrightarrow> clean (raw_remove_batch kenc t ks)"
proof (induction ks arbitrary: t)
  case (Cons k ks)
  have "clean (raw_remove kenc t k)"
    using Cons.prems finite_subset [of "dom (raw_remove kenc t k)" "dom t"]
    by (auto simp: clean_def raw_remove_def split: if_splits)
  with Cons show ?case by (simp add: raw_remove_batch_def)
qed (simp add: raw_remove_batch_def)

lemma clean_typed: "clean t \<Longrightarrow> typed t"
  unfolding clean_def typed_def by blast

end

section \<open>Orders of encoded keys\<close>

lemma append_less:
  fixes as bs :: "'a::linorder list"
  assumes "length as = length bs"
  shows "as @ x < bs @ y \<longleftrightarrow> as < bs \<or> as = bs \<and> x < y"
  using assms by (induction as bs rule: list_induct2) auto

lemma append_le:
  fixes as bs :: "'a::linorder list"
  assumes "length as = length bs"
  shows "as @ x \<le> bs @ y \<longleftrightarrow> as < bs \<or> as = bs \<and> x \<le> y"
  using append_less [OF assms, of x y] assms by (auto simp: order_le_less)

lemma be_nat_snoc: "be_nat (as @ [a]) = be_nat as * 256 + unat a"
  by (simp add: be_nat_def)

lemma be_nat_order: "length as = length bs \<Longrightarrow> as < bs \<longleftrightarrow> be_nat as < be_nat bs"
proof (induction as arbitrary: bs rule: rev_induct)
  case (snoc a as)
  then obtain bs' b where bs: "bs = bs' @ [b]" by (cases bs rule: rev_cases) auto
  with snoc.prems have len: "length as = length bs'" by simp
  have "be_nat as = be_nat bs' \<longleftrightarrow> as = bs'"
    using len be_bytes_be_nat by metis
  moreover have "unat a < 256" "unat b < 256" by (rule unat_u8_less)+
  ultimately show ?case
    using snoc.IH [OF len] unfolding bs append_less [OF len] be_nat_snoc by (auto simp: word_less_nat_alt)
qed simp

lemma u64_be_order: "u64_be a < u64_be b \<longleftrightarrow> a < b"
  using be_nat_order [of "u64_be a" "u64_be b"] unat_u64_less [of a] unat_u64_less [of b]
  by (simp add: u64_be_def be_nat_be_bytes word_less_nat_alt)

lemma u32_be_order: "u32_be a < u32_be b \<longleftrightarrow> a < b"
  using be_nat_order [of "u32_be a" "u32_be b"] unat_u32_less [of a] unat_u32_less [of b]
  by (simp add: u32_be_def be_nat_be_bytes word_less_nat_alt)

section \<open>An iterator over a finite map\<close>

definition map_iterator :: "raw_table \<Rightarrow> raw_iterator" where
  "map_iterator t from reversed =
     (let ks = sorted_list_of_set (dom t);
          es = map (\<lambda>k. (k, the (t k))) (filter (\<lambda>k. case from of None \<Rightarrow> True
            | Some s \<Rightarrow> if reversed then k \<le> s else s \<le> k) ks)
      in if reversed then rev es else es)"

lemma map_iterator_iterates: "finite (dom t) \<Longrightarrow> iterates (map_iterator t) t"
  by (auto simp: iterates_def map_iterator_def Let_def sorted_wrt_map sorted_wrt_rev image_iff
      strict_sorted_iff sorted_wrt_filter split: option.splits)

end
