(* ===== verification/Rest.thy ===== *)
theory Rest
  imports Texts Scan Events Holders "HOL-Library.Product_Lexorder" "HOL-Library.Option_ord"
begin

text \<open>
  The REST interface (\<open>src/rest\<close>): every handler as a function from the database, the holders and the
  arguments of the request to its response.  The web framework, JSON and the checks of the argument
  types are outside the program; \<open>validate\<close>, which tests the ranges, is modelled.  An error is the status of
  the response, \<open>HandlerPanic\<close> a panic of the task.

  \<open>re_script_hash\<close> is \<open>Indexer::to_scripthash\<close> with the script type \<open>address\<close>, the first segment of every
  path that has an address.  A vector collected from a scan is the list of the scan (\<open>Scan\<close>).
\<close>

section \<open>Responses\<close>

datatype rest_error = BadRequest | NotFound | InternalError | ServiceUnavailable | HandlerPanic

type_synonym 'a response = "rest_error + 'a"

definition ok_or :: "rest_error \<Rightarrow> 'a option \<Rightarrow> 'a response" where
  "ok_or e x = (case x of None \<Rightarrow> Inl e | Some v \<Rightarrow> Inr v)"

definition require :: "bool \<Rightarrow> rest_error \<Rightarrow> unit response" where
  "require c e = (if c then Inr () else Inl e)"

record rest_env =
  re_sha :: "bytes \<Rightarrow> hash32"
  re_lower :: "bytes \<Rightarrow> bytes"
  re_lossy :: "bytes \<Rightarrow> bytes"
  re_script_hash :: "bytes \<Rightarrow> hash32 option"
  re_consensus :: consensus
  re_text :: txid_text
  re_div :: "fixed128 \<Rightarrow> fixed128 \<Rightarrow> fixed128 option"
  re_mul :: "fixed128 \<Rightarrow> fixed128 \<Rightarrow> fixed128 option"
  re_times :: "fixed128 \<Rightarrow> nat \<Rightarrow> fixed128 option"
  re_fixed :: fixed_ops
  re_show :: "fixed128 \<Rightarrow> bytes"
  re_show_hash :: "hash32 \<Rightarrow> bytes"

text \<open>\<open>Display\<close> of a tick.\<close>

definition show_tick :: "rest_env \<Rightarrow> tick \<Rightarrow> bytes" where
  "show_tick E t = re_lossy E (trim_tick_bytes t)"

text \<open>\<open>OriginalTokenTickRest::deserialize\<close> of a text.\<close>

definition rest_tick_de :: "bytes \<Rightarrow> tick option" where
  "rest_tick_de b =
     (if b = [] \<or> tick_storage_len < length b then None
      else Some (b @ replicate (tick_storage_len - length b) 0))"

definition starts_with :: "bytes \<Rightarrow> bytes \<Rightarrow> bool" where
  "starts_with s p \<longleftrightarrow> take (length p) s = p"

definition u64_max :: u64 where "u64_max = - 1"
definition u32_max :: u32 where "u32_max = - 1"

section \<open>History\<close>

record rest_address_history =
  rah_history :: rest_history
  rah_created :: u32

definition address_history_new ::
  "rest_env \<Rightarrow> db \<Rightarrow> address_token_id \<times> history_value \<Rightarrow> rest_address_history option" where
  "address_history_new E d = (\<lambda>(k, v). map_option (\<lambda>b. \<lparr>
     rah_history = rest_history_new (re_sha E) d (hv_height v) (hv_action v) k, rah_created = bi_created b \<rparr>)
       (db_block_info d (hv_height v)))"

record history_args =
  ha_offset :: "u64 option"
  ha_limit :: u64
  ha_tick :: tick

definition address_token_history ::
  "rest_env \<Rightarrow> db \<Rightarrow> bytes \<Rightarrow> history_args \<Rightarrow> rest_address_history list response" where
  "address_token_history E d script_str query =
     rbind (require (1 \<le> ha_limit query \<and> ha_limit query \<le> 100) BadRequest) (\<lambda>_.
     rbind (ok_or BadRequest (re_script_hash E script_str)) (\<lambda>scripthash.
       let from = \<lparr> ati_address = scripthash, ati_token = ha_tick query, ati_id = 0 \<rparr>;
           to = \<lparr> ati_address = scripthash, ati_token = ha_tick query,
             ati_id = (case ha_offset query of Some n \<Rightarrow> n | None \<Rightarrow> u64_max) \<rparr>
       in ok_or InternalError (option_list (map (address_history_new E d)
            (take (unat (ha_limit query))
              (tbl_range address_token_id_enc (db_history d) (Included from) (Excluded to) True))))))"

text \<open>\<open>events_by_height\<close> and \<open>token_events\<close> read two tables whose codecs do not decode what they encode, so
  these are read as bytes here; the result of a scan stops at the first entry that panics.\<close>

definition events_by_height :: "rest_env \<Rightarrow> db \<Rightarrow> raw_table \<Rightarrow> u32 \<Rightarrow> rest_history list response" where
  "events_by_height E d block_events height =
     rbind (ok_or HandlerPanic (raw_get u32_be (vec_dec address_token_id_fixed_size address_token_id_dec)
         block_events height)) (\<lambda>keys.
     rbind (ok_or HandlerPanic (tbl_multi_get_kv (db_history d) True (case keys of None \<Rightarrow> [] | Some ks \<Rightarrow> ks))) (\<lambda>kvs.
       Inr (map (\<lambda>(k, v). rest_history_new (re_sha E) d (hv_height v) (hv_action v) k) kvs)))"

record rest_proof =
  rp_height :: u32
  rp_hash :: bytes

record page_args =
  pg_offset :: "u32 option"
  pg_limit :: u64

definition proof_of_history :: "rest_env \<Rightarrow> db \<Rightarrow> page_args \<Rightarrow> rest_proof list response" where
  "proof_of_history E d query =
     rbind (require (1 \<le> pg_limit query \<and> pg_limit query \<le> 100) BadRequest) (\<lambda>_.
       Inr (take (unat (pg_limit query)) (map (\<lambda>(height, hash). \<lparr> rp_height = height, rp_hash = re_show_hash E hash \<rparr>)
         (tbl_range u32_be (db_proof_of_history d) Unbounded
           (Excluded (case pg_offset query of Some n \<Rightarrow> n | None \<Rightarrow> u32_max)) True))))"

definition txid_events :: "rest_env \<Rightarrow> db \<Rightarrow> hash32 \<Rightarrow> rest_history list response" where
  "txid_events E d txid =
     (let keys = map snd (tbl_range (cs_outpoint (re_consensus E)) (db_outpoint_to_event d)
        (Included \<lparr> op_txid = txid, op_vout = 0 \<rparr>) (Excluded \<lparr> op_txid = txid, op_vout = u32_max \<rparr>) False)
      in rbind (ok_or HandlerPanic (tbl_multi_get_kv (db_history d) False keys)) (\<lambda>kvs.
           Inr (sort_key (\<lambda>x. ra_id (rh_address_token x))
             (map (\<lambda>(k, v). rest_history_new (re_sha E) d (hv_height v) (hv_action v) k) kvs))))"

text \<open>The event stream: what is sent for the events received, until the channel is closed or has dropped events
  for this receiver.\<close>

datatype stream_poll = StreamEvent server_event | StreamLagged | StreamClosed | StreamEmpty

datatype stream_data = SdHistory rest_history | SdReorg u32 u32 | SdNewBlock u32 hash32 hash32

definition stream_event ::
  "rest_env \<Rightarrow> bytes set \<Rightarrow> tick set \<Rightarrow> server_event \<Rightarrow> stream_data option" where
  "stream_event E addresses tokens event =
     (let tokens = lower_of_rest_tick (re_lower E) ` tokens in
      case event of
        SeNewHistory k v \<Rightarrow>
          if addresses \<noteq> {} \<and> ae_address k \<notin> addresses then None
          else if tokens \<noteq> {} \<and> lower_of_rest_tick (re_lower E) (ae_token k) \<notin> tokens then None
          else Some (SdHistory (rest_of_server_event k v))
      | SeReorg blocks_count new_height \<Rightarrow> Some (SdReorg blocks_count new_height)
      | SeNewBlock height poh blockhash \<Rightarrow> Some (SdNewBlock height poh blockhash))"

fun subscribe ::
  "rest_env \<Rightarrow> bytes set \<Rightarrow> tick set \<Rightarrow> stream_poll list \<Rightarrow> stream_data list" where
  "subscribe E addresses tokens [] = []"
| "subscribe E addresses tokens (StreamEvent e # ps) =
     (case stream_event E addresses tokens e of
        None \<Rightarrow> subscribe E addresses tokens ps
      | Some x \<Rightarrow> x # subscribe E addresses tokens ps)"
| "subscribe E addresses tokens (StreamEmpty # ps) = subscribe E addresses tokens ps"
| "subscribe E addresses tokens (StreamLagged # ps) = []"
| "subscribe E addresses tokens (StreamClosed # ps) = []"

section \<open>Addresses\<close>

text \<open>\<open>AddressLocation::search_with_offset\<close> and \<open>search\<close>.\<close>

definition al_at :: "hash32 \<Rightarrow> outpoint \<Rightarrow> u64 \<Rightarrow> address_location" where
  "al_at address p offset = \<lparr> al_address = address, al_location = \<lparr> loc_outpoint = p, loc_offset = offset \<rparr> \<rparr>"

definition last_outpoint :: outpoint where
  "last_outpoint = \<lparr> op_txid = replicate 32 255, op_vout = u32_max \<rparr>"

definition al_search_with_offset :: "hash32 \<Rightarrow> outpoint \<Rightarrow> address_location \<times> address_location" where
  "al_search_with_offset address p = (al_at address p 0, al_at address p u64_max)"

definition al_search :: "hash32 \<Rightarrow> outpoint option \<Rightarrow> address_location \<times> address_location" where
  "al_search address offset =
     (al_at address (case offset of Some p \<Rightarrow> p | None \<Rightarrow> \<lparr> op_txid = replicate 32 0, op_vout = 0 \<rparr>) 0,
      al_at address last_outpoint u64_max)"

record token_transfer =
  tt_outpoint :: outpoint
  tt_amount :: fixed128

definition address_token_transfers ::
  "consensus \<Rightarrow> db \<Rightarrow> hash32 \<Rightarrow> tick \<Rightarrow> outpoint option \<Rightarrow> u64 \<Rightarrow> token_transfer list" where
  "address_token_transfers C d scripthash tick offset limit =
     (let (from, to) = al_search scripthash offset
      in take (unat limit) (drop (if offset = None then 0 else 1)
           (map (\<lambda>(k, v). \<lparr> tt_outpoint = loc_outpoint (al_location k), tt_amount = tp_amt v \<rparr>)
             (filter (\<lambda>(_, v). tp_tick v = tick)
               (tbl_range (address_location_enc C) (db_transfers d) (Included from) (Excluded to) False)))))"

record rest_balance =
  rb_tick :: tick
  rb_balance :: fixed128
  rb_transferable_balance :: fixed128
  rb_transfers_count :: u64
  rb_transfers :: "token_transfer list"

record tokens_args =
  ta_offset :: "tick option"
  ta_limit :: u64
  ta_search :: "bytes option"

text \<open>The scan that \<open>address_tokens_tick\<close> and \<open>address_tokens\<close> share.\<close>

definition address_token_rows ::
  "rest_env \<Rightarrow> db \<Rightarrow> hash32 \<Rightarrow> tokens_args \<Rightarrow> (address_token \<times> token_balance) list" where
  "address_token_rows E d scripthash params =
     (let token = Option.bind (ta_offset params) (\<lambda>t.
            map_option (\<lambda>m. dp_tick (tm_proto m)) (db_token_to_meta d (lower_of_rest_tick (re_lower E) t)))
      in take (unat (ta_limit params)) (drop (if ta_offset params = None then 0 else 1)
           (filter (\<lambda>(k, _). case ta_search params of
                None \<Rightarrow> True
              | Some x \<Rightarrow> starts_with (re_lower E (show_tick E (at_token k))) (re_lower E x))
             (tbl_range address_token_enc (db_balances d)
               (Included \<lparr> at_address = scripthash, at_token = (case token of Some t \<Rightarrow> t | None \<Rightarrow> replicate 8 0) \<rparr>)
               (Included \<lparr> at_address = scripthash, at_token = replicate 8 255 \<rparr>) False))))"

definition address_tokens_tick :: "rest_env \<Rightarrow> db \<Rightarrow> bytes \<Rightarrow> tokens_args \<Rightarrow> bytes list response" where
  "address_tokens_tick E d script_str params =
     rbind (require (1 \<le> ta_limit params \<and> ta_limit params \<le> 100) BadRequest) (\<lambda>_.
     rbind (ok_or BadRequest (re_script_hash E script_str)) (\<lambda>scripthash.
       Inr (map (\<lambda>(k, _). show_tick E (at_token k)) (address_token_rows E d scripthash params))))"

record balance_args =
  ba_offset :: "outpoint option"
  ba_limit :: u64

definition address_token_balance ::
  "rest_env \<Rightarrow> db \<Rightarrow> bytes \<Rightarrow> tick \<Rightarrow> balance_args \<Rightarrow> rest_balance response" where
  "address_token_balance E d script_str token params =
     rbind (require (1 \<le> ba_limit params \<and> ba_limit params \<le> 300) BadRequest) (\<lambda>_.
     rbind (ok_or BadRequest (re_script_hash E script_str)) (\<lambda>scripthash.
     rbind (ok_or NotFound (db_balances d \<lparr> at_address = scripthash, at_token = token \<rparr>)) (\<lambda>balance.
       Inr \<lparr> rb_tick = token, rb_balance = tb_balance balance,
         rb_transferable_balance = tb_transferable_balance balance, rb_transfers_count = tb_transfers_count balance,
         rb_transfers = address_token_transfers (re_consensus E) d scripthash token (ba_offset params) (ba_limit params) \<rparr>)))"

definition address_tokens :: "rest_env \<Rightarrow> db \<Rightarrow> bytes \<Rightarrow> tokens_args \<Rightarrow> rest_balance list response" where
  "address_tokens E d script_str params =
     rbind (require (1 \<le> ta_limit params \<and> ta_limit params \<le> 100) BadRequest) (\<lambda>_.
     rbind (ok_or BadRequest (re_script_hash E script_str)) (\<lambda>scripthash.
       Inr (map (\<lambda>(k, v). \<lparr> rb_tick = at_token k, rb_balance = tb_balance v,
            rb_transferable_balance = tb_transferable_balance v, rb_transfers_count = tb_transfers_count v,
            rb_transfers = (if 0 < tb_transfers_count v
              then address_token_transfers (re_consensus E) d scripthash (at_token k) None
                (min (tb_transfers_count v) (ta_limit params))
              else []) \<rparr>)
         (address_token_rows E d scripthash params))))"

section \<open>Holders\<close>

record holders_args =
  hq_page_size :: u64
  hq_page :: u64
  hq_tick :: tick

record rest_holder =
  rhd_rank :: nat
  rhd_address :: bytes
  rhd_balance :: bytes
  rhd_percent :: bytes

record rest_holders =
  rhs_pages :: nat
  rhs_count :: nat
  rhs_max_percent :: bytes
  rhs_holders :: "rest_holder list"

definition div_ceil :: "nat \<Rightarrow> nat \<Rightarrow> nat" where
  "div_ceil a b = (a + b - 1) div b"

text \<open>The elements of a page; the product of the first index wraps.\<close>

definition page_of :: "u64 \<Rightarrow> u64 \<Rightarrow> 'a list \<Rightarrow> 'a list" where
  "page_of page page_size xs = take (unat page_size) (drop (unat ((page - 1) * page_size)) xs)"

definition percent_of :: "rest_env \<Rightarrow> fixed128 \<Rightarrow> fixed128 \<Rightarrow> fixed128 response" where
  "percent_of E x supply = rbind (ok_or HandlerPanic (re_div E x supply)) (\<lambda>q.
     ok_or HandlerPanic (re_mul E q (fx_from_u64 (re_fixed E) 100)))"

fun map_response :: "('a \<Rightarrow> 'b response) \<Rightarrow> 'a list \<Rightarrow> 'b list response" where
  "map_response f [] = Inr []"
| "map_response f (x # xs) = rbind (f x) (\<lambda>y. rbind (map_response f xs) (\<lambda>ys. Inr (y # ys)))"

definition rest_holder_of :: "rest_env \<Rightarrow> db \<Rightarrow> fixed128 \<Rightarrow> nat \<times> sorted_by_balance \<Rightarrow> rest_holder response" where
  "rest_holder_of E d supply = (\<lambda>(rank, balance, h).
     rbind (percent_of E balance supply) (\<lambda>percent.
       Inr \<lparr> rhd_rank = rank + 1, rhd_address = fullhash_to_address_str (re_sha E) h (db_addresses d h),
         rhd_balance = re_show E balance, rhd_percent = re_show E percent \<rparr>))"

text \<open>The default of \<open>Holders\<close> is empty.\<close>

definition rest_holders :: "rest_env \<Rightarrow> db \<Rightarrow> holders \<Rightarrow> holders_args \<Rightarrow> rest_holders response" where
  "rest_holders E d H query =
     rbind (require (1 \<le> hq_page_size query \<and> hq_page_size query \<le> 20 \<and> 1 \<le> hq_page query) BadRequest) (\<lambda>_.
     rbind (ok_or NotFound (db_token_to_meta d (lower_of_rest_tick (re_lower E) (hq_tick query)))) (\<lambda>meta.
       let proto = tm_proto meta in
       case get_holders H (dp_tick proto) of
         None \<Rightarrow> Inr \<lparr> rhs_pages = 0, rhs_count = 0, rhs_max_percent = [], rhs_holders = [] \<rparr>
       | Some data \<Rightarrow>
           (let ranking = rev (sorted_list_of_set data) in
            rbind (if ranking = [] then Inr 0 else percent_of E (fst (hd ranking)) (dp_supply proto)) (\<lambda>max_percent.
            rbind (map_response (rest_holder_of E d (dp_supply proto))
                (page_of (hq_page query) (hq_page_size query) (enumerate 0 ranking))) (\<lambda>hs.
              Inr \<lparr> rhs_pages = div_ceil (card data) (unat (hq_page_size query)), rhs_count = card data,
                rhs_max_percent = re_show E max_percent, rhs_holders = hs \<rparr>)))))"

text \<open>\<open>holders_stats\<close>: the balances in groups of 100, 100, 300 and 500, and what is left of the supply.\<close>

fun sum_fixed :: "rest_env \<Rightarrow> fixed128 list \<Rightarrow> fixed128 \<Rightarrow> fixed128 response" where
  "sum_fixed E [] acc = Inr acc"
| "sum_fixed E (x # xs) acc = (if acc + x \<le> fx_cap (re_fixed E) then sum_fixed E xs (acc + x) else Inl HandlerPanic)"

fun stats_groups :: "rest_env \<Rightarrow> fixed128 \<Rightarrow> nat list \<Rightarrow> fixed128 list \<Rightarrow> fixed128 \<Rightarrow>
    (fixed128 list \<times> fixed128) response" where
  "stats_groups E supply [] bs tot = Inr ([], tot)"
| "stats_groups E supply (limit # ls) bs tot =
     rbind (sum_fixed E (take limit bs) 0) (\<lambda>v.
     rbind (sum_fixed E [v] tot) (\<lambda>tot.
     rbind (percent_of E v supply) (\<lambda>percent.
     rbind (stats_groups E supply ls (drop limit bs) tot) (\<lambda>(ps, tot). Inr (percent # ps, tot)))))"

definition holders_stats :: "rest_env \<Rightarrow> db \<Rightarrow> holders \<Rightarrow> tick \<Rightarrow> fixed128 list response" where
  "holders_stats E d H tick =
     rbind (ok_or NotFound (db_token_to_meta d (lower_of_rest_tick (re_lower E) tick))) (\<lambda>meta.
       let proto = tm_proto meta in
       case get_holders H (dp_tick proto) of
         None \<Rightarrow> Inr []
       | Some data \<Rightarrow>
           rbind (stats_groups E (dp_supply proto) [100, 100, 300, 500] (map fst (rev (sorted_list_of_set data))) 0)
             (\<lambda>(result, total_value).
           rbind (if total_value \<le> dp_supply proto then percent_of E (dp_supply proto - total_value) (dp_supply proto)
               else Inl HandlerPanic) (\<lambda>left.
             Inr (result @ [left]))))"

section \<open>Tokens\<close>

datatype token_sort_by = DeployTimeAsc | DeployTimeDesc | HoldersAsc | HoldersDesc | TransactionsAsc | TransactionsDesc

datatype token_filter_by = FilterAll | FilterCompleted | FilterInProgress

record list_args =
  la_page_size :: u64
  la_page :: u64
  la_sort_by :: token_sort_by
  la_filter_by :: token_filter_by
  la_search :: "bytes option"

record rest_token =
  rt_height :: u32
  rt_created :: u32
  rt_tick :: tick
  rt_genesis :: inscription_id
  rt_deployer :: bytes
  rt_transactions :: u32
  rt_mint_count :: u64
  rt_holders :: u32
  rt_supply :: fixed128
  rt_mint_percent :: bytes
  rt_completed :: bool
  rt_max :: fixed128
  rt_lim :: fixed128
  rt_dec :: u8

record rest_tokens =
  rts_pages :: nat
  rts_count :: nat
  rts_tokens :: "rest_token list"

text \<open>\<open>DeployProtoDB::mint_percent\<close>\<close>

definition mint_percent :: "rest_env \<Rightarrow> deploy_proto_db \<Rightarrow> fixed128 response" where
  "mint_percent E p = rbind (ok_or HandlerPanic (re_times E (dp_supply p) 100)) (\<lambda>x.
     ok_or HandlerPanic (re_div E x (dp_max p)))"

definition rest_token_of :: "rest_env \<Rightarrow> db \<Rightarrow> holders \<Rightarrow> token_meta \<Rightarrow> rest_token response" where
  "rest_token_of E d H v =
     (let p = tm_proto v in rbind (mint_percent E p) (\<lambda>percent. Inr
        \<lparr> rt_height = dp_height p, rt_created = dp_created p, rt_tick = dp_tick p, rt_genesis = tm_genesis v,
          rt_deployer = fullhash_to_address_str (re_sha E) (dp_deployer p) (db_addresses d (dp_deployer p)),
          rt_transactions = dp_transactions p, rt_mint_count = dp_mint_count p,
          rt_holders = ucast (case holders_by_tick H (dp_tick p) of Some n \<Rightarrow> n | None \<Rightarrow> 0),
          rt_supply = dp_supply p, rt_mint_percent = re_show E percent, rt_completed = is_completed p,
          rt_max = dp_max p, rt_lim = dp_lim p, rt_dec = dp_dec p \<rparr>))"

definition sort_tokens ::
  "holders \<Rightarrow> token_sort_by \<Rightarrow> (lower_tick \<times> token_meta) list \<Rightarrow> (lower_tick \<times> token_meta) list" where
  "sort_tokens H s xs =
     (let created = (\<lambda>(_ :: lower_tick, v). dp_created (tm_proto v));
          holders = (\<lambda>(_ :: lower_tick, v). ho_stats H (dp_tick (tm_proto v)));
          transactions = (\<lambda>(_ :: lower_tick, v). dp_transactions (tm_proto v))
      in case s of
           DeployTimeAsc \<Rightarrow> sort_key created xs
         | DeployTimeDesc \<Rightarrow> rev (sort_key created xs)
         | HoldersAsc \<Rightarrow> sort_key holders xs
         | HoldersDesc \<Rightarrow> rev (sort_key holders xs)
         | TransactionsAsc \<Rightarrow> sort_key transactions xs
         | TransactionsDesc \<Rightarrow> rev (sort_key transactions xs))"

definition listed :: "rest_env \<Rightarrow> list_args \<Rightarrow> lower_tick \<times> token_meta \<Rightarrow> bool" where
  "listed E args x \<longleftrightarrow>
     (case la_filter_by args of
        FilterAll \<Rightarrow> True
      | FilterCompleted \<Rightarrow> is_completed (tm_proto (snd x))
      | FilterInProgress \<Rightarrow> \<not> is_completed (tm_proto (snd x)))
     \<and> (case la_search args of None \<Rightarrow> True | Some tick \<Rightarrow> starts_with (fst x) (re_lower E tick))"

definition list_tokens :: "rest_env \<Rightarrow> db \<Rightarrow> holders \<Rightarrow> list_args \<Rightarrow> rest_tokens response" where
  "list_tokens E d H args =
     rbind (require (1 \<le> la_page_size args \<and> la_page_size args \<le> 100 \<and> 1 \<le> la_page args) BadRequest) (\<lambda>_.
       let all = sort_tokens H (la_sort_by args) (filter (listed E args) (tbl_iter lower_tick_enc (db_token_to_meta d)))
       in rbind (map_response (\<lambda>(_, v). rest_token_of E d H v) (page_of (la_page args) (la_page_size args) all)) (\<lambda>ts.
            Inr \<lparr> rts_pages = div_ceil (length all) (unat (la_page_size args)), rts_count = length all, rts_tokens = ts \<rparr>))"

definition one_token :: "rest_env \<Rightarrow> db \<Rightarrow> holders \<Rightarrow> tick \<Rightarrow> rest_token response" where
  "one_token E d H tick =
     (case db_token_to_meta d (lower_of_rest_tick (re_lower E) tick) of
        None \<Rightarrow> Inl NotFound
      | Some v \<Rightarrow> rest_token_of E d H v)"

definition token_supplies :: "rest_env \<Rightarrow> db \<Rightarrow> tick list \<Rightarrow> bytes list response" where
  "token_supplies E d ticks =
     ok_or NotFound (option_list (map (map_option (\<lambda>m. re_show E (dp_supply (tm_proto m))))
       (tbl_multi_get (db_token_to_meta d) (map (lower_of_rest_tick (re_lower E)) ticks))))"

record transfer_proof =
  trp_amt :: fixed128
  trp_tick :: tick
  trp_height :: u32

text \<open>\<open>token_transfer_proof\<close> on what the node and the database are at each turn of its loop, which ends after
  five seconds.\<close>

fun transfer_proof_loop ::
  "consensus \<Rightarrow> hash32 \<Rightarrow> outpoint \<Rightarrow> (hash32 option \<times> db) list \<Rightarrow> transfer_proof list response" where
  "transfer_proof_loop C scripthash outp [] = Inl ServiceUnavailable"
| "transfer_proof_loop C scripthash outp ((best, d) # turns) =
     rbind (ok_or InternalError best) (\<lambda>best_block_hash.
     rbind (ok_or InternalError (db_last_block d)) (\<lambda>last_block.
     rbind (ok_or InternalError (db_block_info d last_block)) (\<lambda>info.
       if best_block_hash = bi_hash info
       then (let (from, to) = al_search_with_offset scripthash outp
             in Inr (map (\<lambda>(_, v). \<lparr> trp_amt = tp_amt v, trp_tick = tp_tick v, trp_height = tp_height v \<rparr>)
                  (tbl_range (address_location_enc C) (db_transfers d) (Included from) (Excluded to) False)))
       else transfer_proof_loop C scripthash outp turns)))"

definition token_transfer_proof ::
  "rest_env \<Rightarrow> bytes \<Rightarrow> outpoint \<Rightarrow> (hash32 option \<times> db) list \<Rightarrow> transfer_proof list response" where
  "token_transfer_proof E address outp turns =
     rbind (ok_or BadRequest (re_script_hash E address)) (\<lambda>scripthash.
       transfer_proof_loop (re_consensus E) scripthash outp turns)"

text \<open>A slice of a string panics inside a character.\<close>

definition is_char_boundary :: "bytes \<Rightarrow> nat \<Rightarrow> bool" where
  "is_char_boundary s i \<longleftrightarrow> i = length s \<or> (i < length s \<and> \<not> (128 \<le> s ! i \<and> s ! i < 192))"

record events_args =
  ea_offset :: "u64 option"
  ea_limit :: u64
  ea_search :: "bytes option"

definition token_events ::
  "rest_env \<Rightarrow> db \<Rightarrow> raw_iterator \<Rightarrow> tick \<Rightarrow> events_args \<Rightarrow> rest_address_history list response" where
  "token_events E d it token args =
     (case ea_search args of
        Some s \<Rightarrow>
          (let n = min 64 (length s) in
           rbind (require (is_char_boundary s n) HandlerPanic) (\<lambda>_.
           rbind (ok_or BadRequest (tt_parse (re_text E) (take n s))) (\<lambda>txid.
           rbind (if 65 < length s
               then rbind (require (is_char_boundary s 65) HandlerPanic) (\<lambda>_.
                 rbind (ok_or BadRequest (parse_u32 (drop 65 s))) (\<lambda>v. Inr (Some v)))
               else Inr None) (\<lambda>vout.
             let from = \<lparr> op_txid = txid, op_vout = (case vout of Some v \<Rightarrow> v | None \<Rightarrow> 0) \<rparr>;
                 to = \<lparr> op_txid = txid, op_vout = (case vout of Some v \<Rightarrow> v | None \<Rightarrow> u32_max) \<rparr>;
                 keys = map snd (take (unat (ea_limit args)) (tbl_range (cs_outpoint (re_consensus E))
                   (db_outpoint_to_event d) (Included from) (Included to) False))
             in ok_or InternalError (option_list (map (address_history_new E d) (tbl_found (db_history d) keys)))))))
      | None \<Rightarrow>
          (let from = \<lparr> ti_token = token, ti_id = 0 \<rparr>;
               to = \<lparr> ti_token = token, ti_id = (case ea_offset args of Some n \<Rightarrow> n | None \<Rightarrow> u64_max) \<rparr>
           in rbind (ok_or HandlerPanic (option_list (take (unat (ea_limit args))
                (raw_range it token_id_enc token_id_dec address_token_id_dec (Included from) (Excluded to) True)))) (\<lambda>es.
                ok_or InternalError (option_list (map (address_history_new E d) (tbl_found (db_history d) (map snd es)))))))"

text \<open>\<open>all_tickers\<close>: what is sent before the client leaves.\<close>

definition all_tickers :: "rest_env \<Rightarrow> db \<Rightarrow> raw_table \<Rightarrow> u32 option \<Rightarrow> bytes list response" where
  "all_tickers E d block_events block_height =
     (case block_height of
        None \<Rightarrow> Inr (map (\<lambda>(_, m). show_tick E (dp_tick (tm_proto m))) (tbl_iter lower_tick_enc (db_token_to_meta d)))
      | Some height \<Rightarrow>
          rbind (ok_or HandlerPanic (raw_get u32_be (vec_dec address_token_id_fixed_size address_token_id_dec)
              block_events height)) (\<lambda>events.
          rbind (ok_or HandlerPanic (tbl_multi_get_kv (db_history d) True (case events of None \<Rightarrow> [] | Some ks \<Rightarrow> ks))) (\<lambda>kvs.
            Inr (map (\<lambda>(k, _). show_tick E (ati_token k))
              (filter (\<lambda>(_, v). case hv_action v of ThDeploy _ _ _ _ _ \<Rightarrow> True | _ \<Rightarrow> False) kvs)))))"

section \<open>Status\<close>

record rest_status =
  rs_height :: u32
  rs_proof :: bytes
  rs_blockhash :: bytes

text \<open>The version and the time since the start are left out.\<close>

definition status :: "rest_env \<Rightarrow> db \<Rightarrow> rest_status response" where
  "status E d =
     rbind (ok_or InternalError (db_last_block d)) (\<lambda>last_height.
     rbind (ok_or InternalError (db_proof_of_history d last_height)) (\<lambda>last_poh.
     rbind (ok_or InternalError (db_block_info d last_height)) (\<lambda>info.
       Inr \<lparr> rs_height = last_height, rs_proof = re_show_hash E last_poh, rs_blockhash = re_show_hash E (bi_hash info) \<rparr>)))"

fun all_addresses_loop :: "(hash32 \<rightharpoonup> bytes) \<Rightarrow> hash32 option \<Rightarrow> hash32 list \<Rightarrow> bytes list" where
  "all_addresses_loop as last_address [] = []"
| "all_addresses_loop as last_address (h # hs) =
     (if last_address = Some h then all_addresses_loop as last_address hs
      else case as h of
        None \<Rightarrow> all_addresses_loop as last_address hs
      | Some a \<Rightarrow> a # all_addresses_loop as (Some h) hs)"

definition all_addresses :: "db \<Rightarrow> bytes list" where
  "all_addresses d = all_addresses_loop (db_addresses d) None
     (map (\<lambda>(k, _). at_address k) (tbl_iter address_token_enc (db_balances d)))"

end
