(* ===== verification/RestProps.thy ===== *)
theory RestProps
  imports Rest DataProps ReorgProps
begin

text \<open>
  Properties of the REST handlers and of the scans under them.
\<close>

section \<open>An environment and a database for the examples\<close>

text \<open>Transaction ids as hexadecimal digits, the last byte first.\<close>

definition hex_digit :: "nat \<Rightarrow> u8" where
  "hex_digit n = word_of_nat (if n < 10 then 48 + n else 87 + n)"

definition hex_value :: "u8 \<Rightarrow> nat" where
  "hex_value b = (if unat b < 58 then unat b - 48 else unat b - 87)"

definition hex_show :: "hash32 \<Rightarrow> bytes" where
  "hex_show t = concat (map (\<lambda>b. [hex_digit (unat b div 16), hex_digit (unat b mod 16)]) (rev t))"

fun hex_bytes :: "bytes \<Rightarrow> bytes" where
  "hex_bytes (a # b # s) = word_of_nat (hex_value a * 16 + hex_value b) # hex_bytes s"
| "hex_bytes _ = []"

definition hex_text :: txid_text where
  "hex_text = \<lparr> tt_show = hex_show, tt_parse = (\<lambda>s. Some (rev (hex_bytes s))) \<rparr>"

lemma hex_digit_unat: "n < 16 \<Longrightarrow> unat (hex_digit n) = (if n < 10 then 48 + n else 87 + n)"
  by (auto simp: hex_digit_def unat_of_nat simp del: of_nat_add)

lemma hex_digit_value: "n < 16 \<Longrightarrow> hex_value (hex_digit n) = n"
  by (simp add: hex_value_def hex_digit_unat)

lemma hex_bytes_show: "hex_bytes (concat (map (\<lambda>b. [hex_digit (unat b div 16), hex_digit (unat b mod 16)]) t)) = t"
proof (induction t)
  case (Cons b t)
  have "unat b < 256" by (rule unat_u8_less)
  then have "unat b div 16 < 16" "unat b mod 16 < 16" by simp_all
  with Cons show ?case by (simp add: hex_digit_value del: of_nat_add of_nat_mult)
qed simp

lemma hex_show_length: "length (hex_show t) = 2 * length t"
  unfolding hex_show_def by (induction t) simp_all

lemma hex_show_ascii: "b \<in> set (hex_show t) \<Longrightarrow> b < 128"
proof -
  assume "b \<in> set (hex_show t)"
  then have "\<exists>c :: u8. b = hex_digit (unat c div 16) \<or> b = hex_digit (unat c mod 16)"
    by (auto simp: hex_show_def)
  then obtain c :: u8 where "b = hex_digit (unat c div 16) \<or> b = hex_digit (unat c mod 16)" by blast
  moreover have "unat c < 256" by (rule unat_u8_less)
  then have "unat c div 16 < 16" "unat c mod 16 < 16" by simp_all
  ultimately show "b < 128" by (auto simp: word_less_nat_alt hex_digit_unat)
qed

definition example_rest :: rest_env where
  "example_rest = \<lparr> re_sha = (\<lambda>_. replicate 32 9), re_lower = ascii_lower, re_lossy = (\<lambda>s. s),
     re_script_hash = (\<lambda>s. if s = [] then None else Some example_owner), re_consensus = wire_consensus,
     re_text = hex_text, re_div = (\<lambda>a b. if b = 0 then None else Some (a * 100 div b)),
     re_mul = (\<lambda>a b. Some (a * b div 100)), re_times = (\<lambda>a n. Some (a * n)),
     re_fixed = example_fx, re_show = (\<lambda>n. decimal n), re_show_hash = hex_show \<rparr>"

definition rest_db :: db where
  "rest_db = db_empty\<lparr>
     db_history := [\<lparr> ati_address = example_owner, ati_token = example_tick, ati_id = 0 \<rparr>
         \<mapsto> \<lparr> hv_height = 7, hv_action = ThMint 4 [] 0 \<rparr>,
       \<lparr> ati_address = example_owner, ati_token = example_tick, ati_id = 1 \<rparr>
         \<mapsto> \<lparr> hv_height = 7, hv_action = ThMint 5 [] 0 \<rparr>],
     db_block_info := [7 \<mapsto> \<lparr> bi_hash = [], bi_created = 3 \<rparr>] \<rparr>"

lemma rest_example_wf: "wf_tick example_tick" "wf_hash example_owner"
  by (simp_all add: example_tick_def example_owner_def wf_tick_def wf_hash_def tick_storage_len_def)

section \<open>The history of an address\<close>

text \<open>The rows of an address and a token, the latest first.\<close>

definition history_rows :: "db \<Rightarrow> hash32 \<Rightarrow> tick \<Rightarrow> (address_token_id \<times> history_value) list" where
  "history_rows d h t = map (\<lambda>i. (\<lparr> ati_address = h, ati_token = t, ati_id = i \<rparr>,
       the (db_history d \<lparr> ati_address = h, ati_token = t, ati_id = i \<rparr>)))
     (rev (sorted_list_of_set {i. \<lparr> ati_address = h, ati_token = t, ati_id = i \<rparr> \<in> dom (db_history d)}))"

definition history_keys_ok :: "db \<Rightarrow> bool" where
  "history_keys_ok d \<longleftrightarrow> finite (dom (db_history d)) \<and> (\<forall>k \<in> dom (db_history d). wf_address_token_id k)"

lemma address_token_id_surj [simp]:
  "\<lparr> ati_address = ati_address k, ati_token = ati_token k, ati_id = ati_id k \<rparr> = k"
  by (cases k) simp

lemma address_token_id_inj: "(\<And>k. k \<in> S \<Longrightarrow> wf_address_token_id k) \<Longrightarrow> inj_on address_token_id_enc S"
  by (rule inj_onI) (metis address_token_id_roundtrip option.inject)

lemma address_token_id_order:
  assumes "wf_hash h" and "wf_tick t"
  shows "address_token_id_enc \<lparr> ati_address = h, ati_token = t, ati_id = i \<rparr>
      < address_token_id_enc \<lparr> ati_address = h, ati_token = t, ati_id = j \<rparr> \<longleftrightarrow> i < j"
  using append_less [of "h @ t" "h @ t" "u64_be i" "u64_be j"]
  by (simp add: address_token_id_enc_def u64_be_order)

lemma history_key_between:
  assumes k: "wf_address_token_id k" and "wf_hash h" and "wf_tick t"
  shows "address_token_id_enc \<lparr> ati_address = h, ati_token = t, ati_id = 0 \<rparr> \<le> address_token_id_enc k
    \<and> address_token_id_enc k < address_token_id_enc \<lparr> ati_address = h, ati_token = t, ati_id = n \<rparr>
    \<longleftrightarrow> ati_address k = h \<and> ati_token k = t \<and> ati_id k < n"
proof -
  let ?p = "h @ t" and ?q = "ati_address k @ ati_token k"
  have len: "length ?p = length ?q" "length ?q = length ?p" "length h = length (ati_address k)"
    using assms by (simp_all add: wf_address_token_id_def)
  have "u64_be 0 \<le> u64_be (ati_id k)"
    using u64_be_order [of "ati_id k" 0] by (simp add: not_less [symmetric])
  then show ?thesis
    using append_le [OF len(1), of "u64_be 0" "u64_be (ati_id k)"] append_less [OF len(2), of "u64_be (ati_id k)" "u64_be n"]
      len(3) by (auto simp: address_token_id_enc_def u64_be_order)
qed

lemma finite_history_ids:
  assumes "history_keys_ok d"
  shows "finite {i. \<lparr> ati_address = h, ati_token = t, ati_id = i \<rparr> \<in> dom (db_history d)}"
proof -
  have "{i. \<lparr> ati_address = h, ati_token = t, ati_id = i \<rparr> \<in> dom (db_history d)} \<subseteq> ati_id ` dom (db_history d)"
    by (force simp: image_iff)
  then show ?thesis using assms finite_surj unfolding history_keys_ok_def by blast
qed

lemma history_rows_spec:
  assumes "history_keys_ok d"
  shows "set (history_rows d h t) = {(k, v). db_history d k = Some v \<and> ati_address k = h \<and> ati_token k = t}"
    "sorted_wrt (\<lambda>a b. ati_id (fst b) < ati_id (fst a)) (history_rows d h t)"
proof -
  note f = finite_history_ids [OF assms, of h t]
  show "set (history_rows d h t) = {(k, v). db_history d k = Some v \<and> ati_address k = h \<and> ati_token k = t}"
    using f unfolding history_rows_def by (auto simp: image_iff) (rename_tac a b, rule_tac x = "ati_id a" in exI, simp add: domIff)
  show "sorted_wrt (\<lambda>a b. ati_id (fst b) < ati_id (fst a)) (history_rows d h t)"
    unfolding history_rows_def by (simp add: sorted_wrt_map sorted_wrt_rev)
qed

lemma history_range:
  assumes d: "history_keys_ok d" and h: "wf_hash h" and t: "wf_tick t"
  shows "tbl_range address_token_id_enc (db_history d)
      (Included \<lparr> ati_address = h, ati_token = t, ati_id = 0 \<rparr>)
      (Excluded \<lparr> ati_address = h, ati_token = t, ati_id = n \<rparr>) True
    = filter (\<lambda>(k, _). ati_id k < n) (history_rows d h t)"
    (is "?r = ?f")
proof -
  have f: "finite (dom (db_history d))" and inj: "inj_on address_token_id_enc (dom (db_history d))"
    using d unfolding history_keys_ok_def by (simp, intro address_token_id_inj) simp
  note r = tbl_range_spec [OF f inj, where r = True]
  have "rev ?r = rev ?f"
  proof (rule sorted_unique [where f = "\<lambda>a. address_token_id_enc (fst a)"])
    show "sorted_wrt (\<lambda>a b. address_token_id_enc (fst a) < address_token_id_enc (fst b)) (rev ?r)"
      using r(2) by simp
    have "sorted_wrt (\<lambda>a b. ati_id (fst b) < ati_id (fst a)) ?f"
      using history_rows_spec(2) [OF d] by (rule sorted_wrt_filter)
    moreover have "address_token_id_enc (fst b) < address_token_id_enc (fst a)"
      if ab: "a \<in> set ?f" "b \<in> set ?f" "ati_id (fst b) < ati_id (fst a)" for a b
    proof -
      obtain i v j w where "a = (\<lparr> ati_address = h, ati_token = t, ati_id = i \<rparr>, v)"
        "b = (\<lparr> ati_address = h, ati_token = t, ati_id = j \<rparr>, w)"
        using ab(1, 2) by (auto simp: history_rows_def)
      with ab(3) show ?thesis by (simp add: address_token_id_order [OF h t])
    qed
    ultimately have "sorted_wrt (\<lambda>a b. address_token_id_enc (fst b) < address_token_id_enc (fst a)) ?f"
      by (rule sorted_wrt_mono_rel [rotated])
    then show "sorted_wrt (\<lambda>a b. address_token_id_enc (fst a) < address_token_id_enc (fst b)) (rev ?f)"
      by (simp add: sorted_wrt_rev)
    show "set (rev ?r) = set (rev ?f)"
      using d history_key_between [OF _ h t] unfolding history_keys_ok_def
      by (auto simp: r(1) history_rows_spec(1) [OF d] above_def below_def)
  qed
  then show ?thesis by (simp only: rev_is_rev_conv)
qed

text \<open>A client that asks for pages, each from the last event of the page before on.\<close>

fun history_walk ::
  "rest_env \<Rightarrow> db \<Rightarrow> bytes \<Rightarrow> tick \<Rightarrow> u64 \<Rightarrow> nat \<Rightarrow> u64 option \<Rightarrow> rest_address_history list response" where
  "history_walk E d s t limit 0 offset = Inr []"
| "history_walk E d s t limit (Suc k) offset =
     rbind (address_token_history E d s \<lparr> ha_offset = offset, ha_limit = limit, ha_tick = t \<rparr>) (\<lambda>page.
       if page = [] then Inr []
       else rbind (history_walk E d s t limit k (Some (ra_id (rh_address_token (rah_history (last page)))))) (\<lambda>r.
         Inr (page @ r)))"

lemma next_page:
  fixes g :: "'a \<Rightarrow> 'b::linorder"
  assumes xs: "sorted_wrt (\<lambda>a b. g b < g a) xs" and ys: "ys = take n (drop j xs)" "ys \<noteq> []"
  shows "filter (\<lambda>x. g x < g (last ys)) xs = drop (j + n) xs"
proof -
  let ?a = "take j xs @ butlast ys" and ?y = "last ys" and ?b = "drop (j + n) xs"
  have "xs = take j xs @ ys @ ?b"
    unfolding ys(1) by (metis append_take_drop_id drop_drop add.commute)
  moreover have "ys = butlast ys @ [?y]" using ys(2) by simp
  ultimately have split: "xs = ?a @ [?y] @ ?b" by (metis append.assoc)
  then have "sorted_wrt (\<lambda>a b. g b < g a) (?a @ [?y] @ ?b)" using xs by simp
  then have "\<forall>x \<in> set ?a. g ?y < g x" "\<forall>x \<in> set ?b. g x < g ?y"
    by (auto simp: sorted_wrt_append)
  then have "filter (\<lambda>x. g x < g ?y) (?a @ [?y] @ ?b) = ?b"
    by (auto simp: filter_empty_conv filter_id_conv dest: less_asym)
  then show ?thesis by (simp only: split [symmetric])
qed

lemma address_history_id: "address_history_new E d e = Some a \<Longrightarrow>
    ra_id (rh_address_token (rah_history a)) = ati_id (fst e)"
  by (auto simp: address_history_new_def rest_history_new_def rest_entry_def split_def)

text \<open>C33.  Walking through the history of an address and a token page by page, with the id of the last event as the
  next offset, shows every event once, the latest first: after \<open>k\<close> pages the first \<open>k\<close> times the limit of
  them.\<close>

theorem history_pages:
  assumes d: "history_keys_ok d" and s: "re_script_hash E s = Some h" and h: "wf_hash h" and t: "wf_tick t"
    and limit: "1 \<le> limit" "limit \<le> 100"
    and blocks: "\<And>k v. db_history d k = Some v \<Longrightarrow> db_block_info d (hv_height v) \<noteq> None \<and> ati_id k \<noteq> u64_max"
  shows "history_walk E d s t limit k None
    = Inr (map (\<lambda>e. the (address_history_new E d e)) (take (k * unat limit) (history_rows d h t)))"
proof -
  let ?xs = "history_rows d h t" and ?f = "\<lambda>e. the (address_history_new E d e)" and ?n = "unat limit"
  have f: "address_history_new E d e = Some (?f e)" if e: "e \<in> set ?xs" for e
  proof -
    have "db_history d (fst e) = Some (snd e)" using e history_rows_spec(1) [OF d] by auto
    then obtain b where "db_block_info d (hv_height (snd e)) = Some b" using blocks by blast
    then show ?thesis by (simp add: address_history_new_def split_def)
  qed
  have page: "address_token_history E d s \<lparr> ha_offset = offset, ha_limit = limit, ha_tick = t \<rparr>
      = Inr (map ?f (take ?n (filter (\<lambda>(k, _). ati_id k < (case offset of Some n \<Rightarrow> n | None \<Rightarrow> u64_max)) ?xs)))"
    for offset
  proof -
    have "option_list (map (address_history_new E d) ys) = Some (map ?f ys)" if "set ys \<subseteq> set ?xs" for ys
      using f that by (intro option_list_map_total) blast
    moreover have "set (take n (filter P ?xs)) \<subseteq> set ?xs" for n P
      using set_take_subset [of n "filter P ?xs"] by auto
    ultimately show ?thesis
      using limit s by (simp add: address_token_history_def require_def ok_or_def history_range [OF d h t])
  qed
  have walk: "history_walk E d s t limit k offset = Inr (map ?f (take (k * ?n) (drop j ?xs)))"
    if "filter (\<lambda>(k, _). ati_id k < (case offset of Some n \<Rightarrow> n | None \<Rightarrow> u64_max)) ?xs = drop j ?xs" for j offset
    using that
  proof (induction k arbitrary: j offset)
    case (Suc k)
    let ?page = "take ?n (drop j ?xs)"
    show ?case
    proof (cases "?page = []")
      case True
      moreover have "?n \<noteq> 0" using limit(1) by (simp add: word_le_nat_alt)
      ultimately show ?thesis using page [of offset] Suc.prems by simp
    next
      case False
      then have "last ?page \<in> set ?xs" by (meson in_set_dropD in_set_takeD last_in_set)
      then have "ra_id (rh_address_token (rah_history (?f (last ?page)))) = ati_id (fst (last ?page))"
        using address_history_id f by blast
      moreover have "filter (\<lambda>(k, _). ati_id k < ati_id (fst (last ?page))) ?xs = drop (j + ?n) ?xs"
        using next_page [OF history_rows_spec(2) [OF d] refl False] by (simp add: split_def)
      ultimately show ?thesis
        using page [of offset] Suc.prems False
          Suc.IH [of "Some (ati_id (fst (last ?page)))" "j + ?n"]
        by (simp add: last_map take_add add.commute flip: map_append)
    qed
  qed simp
  have "filter (\<lambda>(k, _). ati_id k < u64_max) ?xs = ?xs"
    using blocks history_rows_spec(1) [OF d] by (auto simp: filter_id_conv u64_max_def order_less_le)
  then show ?thesis using walk [of None 0] by simp
qed

theorem history_pages_witness:
  "history_walk example_rest rest_db [1] example_tick 1 2 None
    = Inr (map (\<lambda>e. the (address_history_new example_rest rest_db e))
        [(\<lparr> ati_address = example_owner, ati_token = example_tick, ati_id = 1 \<rparr>, \<lparr> hv_height = 7, hv_action = ThMint 5 [] 0 \<rparr>),
         (\<lparr> ati_address = example_owner, ati_token = example_tick, ati_id = 0 \<rparr>, \<lparr> hv_height = 7, hv_action = ThMint 4 [] 0 \<rparr>)])"
proof -
  have "{i. \<lparr> ati_address = example_owner, ati_token = example_tick, ati_id = i \<rparr> \<in> dom (db_history rest_db)} = {0, 1}"
    by (auto simp: rest_db_def)
  then have "history_rows rest_db example_owner example_tick
      = [(\<lparr> ati_address = example_owner, ati_token = example_tick, ati_id = 1 \<rparr>, \<lparr> hv_height = 7, hv_action = ThMint 5 [] 0 \<rparr>),
         (\<lparr> ati_address = example_owner, ati_token = example_tick, ati_id = 0 \<rparr>, \<lparr> hv_height = 7, hv_action = ThMint 4 [] 0 \<rparr>)]"
    by (simp add: history_rows_def) (simp add: rest_db_def)
  moreover have "history_keys_ok rest_db"
    using rest_example_wf by (auto simp: history_keys_ok_def rest_db_def wf_address_token_id_def db_empty_def)
  moreover have "db_block_info rest_db (hv_height v) \<noteq> None \<and> ati_id k \<noteq> u64_max"
    if "db_history rest_db k = Some v" for k v
    using that by (auto simp: rest_db_def u64_max_def split: if_splits)
  moreover have "re_script_hash example_rest [1] = Some example_owner" by (simp add: example_rest_def)
  ultimately show ?thesis
    using history_pages [of rest_db example_rest "[1]" example_owner example_tick 1 2] rest_example_wf by simp
qed

section \<open>The open transfers of an address\<close>

definition transfer_keys_ok :: "db \<Rightarrow> bool" where
  "transfer_keys_ok d \<longleftrightarrow> finite (dom (db_transfers d))
     \<and> (\<forall>k \<in> dom (db_transfers d). wf_address_location k \<and> loc_outpoint (al_location k) \<noteq> last_outpoint)"

lemma replicate_least: "length xs = n \<Longrightarrow> replicate n (0 :: u8) \<le> xs"
proof (induction n arbitrary: xs)
  case (Suc n)
  then obtain x ys where "xs = x # ys" "length ys = n" by (cases xs) auto
  with Suc.IH [of ys] show ?case by (auto simp: order_le_less word_gt_0)
qed simp

lemma replicate_greatest: "length xs = n \<Longrightarrow> xs \<le> replicate n (255 :: u8)"
proof (induction n arbitrary: xs)
  case (Suc n)
  then obtain x ys where xs: "xs = x # ys" "length ys = n" by (cases xs) auto
  have "x \<le> 255" using unat_u8_less [of x] by (simp add: word_le_nat_alt)
  with xs Suc.IH [of ys] show ?case by (auto simp: order_le_less)
qed simp

lemma outpoint_bytes_inj: "wf_outpoint p \<Longrightarrow> wf_outpoint q \<Longrightarrow> outpoint_bytes p = outpoint_bytes q \<longleftrightarrow> p = q"
  by (rule outpoint_codec.enc_inj)

lemma length_outpoint_bytes [simp]: "wf_outpoint p \<Longrightarrow> length (outpoint_bytes p) = 36"
  by (simp add: outpoint_bytes_def wf_outpoint_def)

lemma end_outpoints:
  "outpoint_bytes \<lparr> op_txid = replicate 32 0, op_vout = 0 \<rparr> = replicate 36 0"
  "outpoint_bytes last_outpoint = replicate 36 255"
  "wf_outpoint last_outpoint" "wf_outpoint \<lparr> op_txid = replicate 32 0, op_vout = 0 \<rparr>"
proof -
  have four: "(4 :: nat) = Suc (Suc (Suc (Suc 0)))" by simp
  have "le_bytes 4 0 = replicate 4 0" "le_bytes 4 4294967295 = replicate 4 255"
    unfolding four by simp_all
  moreover have "unat (- 1 :: u32) = 4294967295" by (simp add: unsigned_minus_1_eq_mask mask_eq_exp_minus_1)
  ultimately have "u32_le 0 = replicate 4 0" "u32_le (- 1) = replicate 4 255"
    unfolding u32_le_def by simp_all
  then show "outpoint_bytes \<lparr> op_txid = replicate 32 0, op_vout = 0 \<rparr> = replicate 36 0"
    "outpoint_bytes last_outpoint = replicate 36 255"
    by (simp_all add: outpoint_bytes_def last_outpoint_def u32_max_def flip: replicate_add)
qed (simp_all add: wf_outpoint_def wf_hash_def last_outpoint_def)

definition outpoint_key :: "address_location \<times> 'v \<Rightarrow> bytes" where
  "outpoint_key e = outpoint_bytes (loc_outpoint (al_location (fst e)))"

lemma address_location_bytes:
  "address_location_enc wire_consensus k = al_address k @ outpoint_bytes (loc_outpoint (al_location k)) @ u64_be (loc_offset (al_location k))"
  by (simp add: address_location_enc_def wire_consensus_def)

lemma u64_be_least: "u64_be 0 \<le> u64_be n"
  using u64_be_order [of n 0] by (simp add: not_less [symmetric])

lemma transfer_key_between:
  assumes k: "wf_address_location k" "loc_outpoint (al_location k) \<noteq> last_outpoint"
    and h: "wf_hash h" and p: "wf_outpoint p"
  shows "address_location_enc wire_consensus (al_at h p 0) \<le> address_location_enc wire_consensus k
      \<and> address_location_enc wire_consensus k < address_location_enc wire_consensus (al_at h last_outpoint u64_max)
    \<longleftrightarrow> al_address k = h \<and> outpoint_bytes p \<le> outpoint_bytes (loc_outpoint (al_location k))"
proof -
  let ?q = "loc_outpoint (al_location k)"
  have q: "wf_outpoint ?q" "length h = length (al_address k)" "length (al_address k) = length h"
    using k h by (simp_all add: wf_address_location_def)
  have lens: "length (outpoint_bytes p) = length (outpoint_bytes ?q)"
    "length (outpoint_bytes ?q) = length (outpoint_bytes last_outpoint)"
    using q(1) p end_outpoints(3) by simp_all
  have "outpoint_bytes ?q < outpoint_bytes last_outpoint"
    using replicate_greatest [of "outpoint_bytes ?q" 36] q(1) k(2) outpoint_bytes_inj [OF q(1) end_outpoints(3)]
    by (simp add: end_outpoints(2) order_le_less)
  then show ?thesis
    using order_le_less [of "outpoint_bytes p" "outpoint_bytes ?q"]
    unfolding address_location_bytes al_at_def
    by (auto simp: append_le [OF q(2)] append_less [OF q(3)] append_le [OF lens(1)] append_less [OF lens(2)]
        u64_be_least)
qed

text \<open>The open transfers of an address and a tick in the order of their keys.\<close>

definition transfer_rows :: "db \<Rightarrow> hash32 \<Rightarrow> tick \<Rightarrow> (address_location \<times> transfer_proto_db) list" where
  "transfer_rows d h t = filter (\<lambda>(k, v). al_address k = h \<and> tp_tick v = t)
     (tbl_iter (address_location_enc wire_consensus) (db_transfers d))"

definition shown_transfer :: "address_location \<times> transfer_proto_db \<Rightarrow> token_transfer" where
  "shown_transfer e = \<lparr> tt_outpoint = loc_outpoint (al_location (fst e)), tt_amount = tp_amt (snd e) \<rparr>"

lemma transfer_iter:
  assumes "transfer_keys_ok d"
  shows "sorted_wrt (\<lambda>a b. address_location_enc wire_consensus (fst a) < address_location_enc wire_consensus (fst b))
      (tbl_iter (address_location_enc wire_consensus) (db_transfers d))"
    "set (tbl_iter (address_location_enc wire_consensus) (db_transfers d)) = {(k, v). db_transfers d k = Some v}"
proof -
  have "inj_on (address_location_enc wire_consensus) (dom (db_transfers d))"
    using assms unfolding transfer_keys_ok_def
    by (intro inj_onI) (metis wire.address_location_roundtrip option.inject)
  from tbl_iter_spec [OF _ this] show
    "sorted_wrt (\<lambda>a b. address_location_enc wire_consensus (fst a) < address_location_enc wire_consensus (fst b))
      (tbl_iter (address_location_enc wire_consensus) (db_transfers d))"
    "set (tbl_iter (address_location_enc wire_consensus) (db_transfers d)) = {(k, v). db_transfers d k = Some v}"
    using assms unfolding transfer_keys_ok_def by blast+
qed

lemma transfers_from:
  assumes d: "transfer_keys_ok d" and h: "wf_hash h" and p: "wf_outpoint p"
  shows "filter (\<lambda>(_, v). tp_tick v = t) (tbl_range (address_location_enc wire_consensus) (db_transfers d)
      (Included (al_at h p 0)) (Excluded (al_at h last_outpoint u64_max)) False)
    = filter (\<lambda>e. outpoint_bytes p \<le> outpoint_key e) (transfer_rows d h t)"
proof -
  let ?it = "tbl_iter (address_location_enc wire_consensus) (db_transfers d)"
  let ?P = "\<lambda>k. above (address_location_enc wire_consensus) (Included (al_at h p 0)) k
      \<and> below (address_location_enc wire_consensus) (Excluded (al_at h last_outpoint u64_max)) k"
  have "?P k \<longleftrightarrow> al_address k = h \<and> outpoint_bytes p \<le> outpoint_bytes (loc_outpoint (al_location k))"
    if "db_transfers d k = Some v" for k v
    unfolding above_def below_def bound.case
    by (rule transfer_key_between [OF _ _ h p]) (use d that in \<open>auto simp: transfer_keys_ok_def dom_def\<close>)
  then have "filter (\<lambda>(k, _). ?P k) ?it = filter (\<lambda>e. al_address (fst e) = h \<and> outpoint_bytes p \<le> outpoint_key e) ?it"
    unfolding outpoint_key_def by (intro filter_cong refl) (simp add: transfer_iter(2) [OF d] split_def)
  then show ?thesis
    by (simp add: tbl_range_def transfer_rows_def split_def conj_ac)
qed

lemma filter_from:
  fixes g :: "'a \<Rightarrow> 'b::linorder"
  shows "sorted_wrt (\<lambda>a b. g a \<le> g b) xs \<Longrightarrow>
    filter (\<lambda>x. c \<le> g x) xs = filter (\<lambda>x. g x = c) xs @ filter (\<lambda>x. c < g x) xs"
proof (induction xs)
  case (Cons x xs)
  show ?case
  proof (cases "c < g x")
    case True
    with Cons.prems have "filter (\<lambda>x. g x = c) xs = []" by (auto simp: filter_empty_conv)
    with True Cons show ?thesis by auto
  qed (use Cons in auto)
qed simp

lemma transfer_rows_spec:
  assumes d: "transfer_keys_ok d"
  shows "set (transfer_rows d h t) = {(k, v). db_transfers d k = Some v \<and> al_address k = h \<and> tp_tick v = t}"
    "sorted_wrt (\<lambda>a b. outpoint_key a \<le> outpoint_key b) (transfer_rows d h t)"
proof -
  show rows: "set (transfer_rows d h t) = {(k, v). db_transfers d k = Some v \<and> al_address k = h \<and> tp_tick v = t}"
    using transfer_iter(2) [OF d] by (auto simp: transfer_rows_def)
  have "sorted_wrt (\<lambda>a b. address_location_enc wire_consensus (fst a) < address_location_enc wire_consensus (fst b))
      (transfer_rows d h t)"
    unfolding transfer_rows_def using transfer_iter(1) [OF d] by (rule sorted_wrt_filter)
  moreover have "outpoint_key a \<le> outpoint_key b"
    if ab: "a \<in> set (transfer_rows d h t)" "b \<in> set (transfer_rows d h t)"
      "address_location_enc wire_consensus (fst a) < address_location_enc wire_consensus (fst b)" for a b
  proof -
    have "al_address (fst a) = al_address (fst b)" "wf_outpoint (loc_outpoint (al_location (fst a)))"
      "wf_outpoint (loc_outpoint (al_location (fst b)))"
      using ab(1, 2) d unfolding rows transfer_keys_ok_def by (force simp: wf_address_location_def)+
    then show ?thesis
      using ab(3) append_less [of "outpoint_bytes (loc_outpoint (al_location (fst a)))"
          "outpoint_bytes (loc_outpoint (al_location (fst b)))"]
      by (auto simp: address_location_bytes append_less outpoint_key_def)
  qed
  ultimately show "sorted_wrt (\<lambda>a b. outpoint_key a \<le> outpoint_key b) (transfer_rows d h t)"
    by (rule sorted_wrt_mono_rel [rotated])
qed

text \<open>The transfers at an outpoint, and those after it.\<close>

definition rows_at :: "outpoint \<Rightarrow> (address_location \<times> transfer_proto_db) list \<Rightarrow> token_transfer list" where
  "rows_at p es = map shown_transfer (filter (\<lambda>e. loc_outpoint (al_location (fst e)) = p) es)"

definition rows_after :: "outpoint \<Rightarrow> (address_location \<times> transfer_proto_db) list \<Rightarrow> token_transfer list" where
  "rows_after p es = map shown_transfer (filter (\<lambda>e. outpoint_bytes p < outpoint_key e) es)"

lemma transfers_page_rows:
  assumes d: "transfer_keys_ok d" and h: "wf_hash h"
  shows "address_token_transfers wire_consensus d h t None limit
      = take (unat limit) (map shown_transfer (transfer_rows d h t))"
    "wf_outpoint p \<Longrightarrow> address_token_transfers wire_consensus d h t (Some p) limit
      = take (unat limit) (tl (rows_at p (transfer_rows d h t) @ rows_after p (transfer_rows d h t)))"
proof -
  have show_eq: "(\<lambda>(k, v). \<lparr> tt_outpoint = loc_outpoint (al_location k), tt_amount = tp_amt v \<rparr>) = shown_transfer"
    by (auto simp: shown_transfer_def)
  have ok: "wf_outpoint (loc_outpoint (al_location (fst e)))" if "e \<in> set (transfer_rows d h t)" for e
    using that d unfolding transfer_rows_spec(1) [OF d] transfer_keys_ok_def by (force simp: wf_address_location_def)
  have "filter (\<lambda>e. outpoint_bytes \<lparr> op_txid = replicate 32 0, op_vout = 0 \<rparr> \<le> outpoint_key e) (transfer_rows d h t)
      = transfer_rows d h t"
    unfolding filter_id_conv end_outpoints(1) outpoint_key_def
    using ok by (simp add: replicate_least del: replicate.simps)
  then show "address_token_transfers wire_consensus d h t None limit
      = take (unat limit) (map shown_transfer (transfer_rows d h t))"
    using transfers_from [OF d h end_outpoints(4), of t]
    by (simp add: address_token_transfers_def al_search_def show_eq)
  assume p: "wf_outpoint p"
  have "filter (\<lambda>e. outpoint_key e = outpoint_bytes p) (transfer_rows d h t)
      = filter (\<lambda>e. loc_outpoint (al_location (fst e)) = p) (transfer_rows d h t)"
    using ok outpoint_bytes_inj [OF _ p] by (intro filter_cong) (auto simp: outpoint_key_def)
  then have "filter (\<lambda>e. outpoint_bytes p \<le> outpoint_key e) (transfer_rows d h t)
      = filter (\<lambda>e. loc_outpoint (al_location (fst e)) = p) (transfer_rows d h t)
        @ filter (\<lambda>e. outpoint_bytes p < outpoint_key e) (transfer_rows d h t)"
    using filter_from [OF transfer_rows_spec(2) [OF d], of "outpoint_bytes p"] by simp
  then show "address_token_transfers wire_consensus d h t (Some p) limit
      = take (unat limit) (tl (rows_at p (transfer_rows d h t) @ rows_after p (transfer_rows d h t)))"
    using transfers_from [OF d h p, of t]
    by (simp add: address_token_transfers_def al_search_def show_eq rows_at_def rows_after_def drop_Suc map_tl)
qed

text \<open>C35.  The page of open transfers after an outpoint leaves out one transfer, the first at or after it.  With
  one transfer at the outpoint this is the next page.  If the outpoint holds more transfers than the limit, every
  transfer of the page is at the same outpoint again, so a client that goes on from the last one never gets
  further; if its transfer has been sent meanwhile, the first transfer after it is never shown.\<close>

theorem transfers_page:
  assumes "transfer_keys_ok d" and "wf_hash h" and "wf_outpoint p"
  shows "address_token_transfers wire_consensus d h t None limit
      = take (unat limit) (map shown_transfer (transfer_rows d h t))
    \<and> (length (rows_at p (transfer_rows d h t)) = 1 \<longrightarrow>
        address_token_transfers wire_consensus d h t (Some p) limit
          = take (unat limit) (rows_after p (transfer_rows d h t)))
    \<and> (unat limit < length (rows_at p (transfer_rows d h t)) \<longrightarrow>
        length (address_token_transfers wire_consensus d h t (Some p) limit) = unat limit
        \<and> (\<forall>x \<in> set (address_token_transfers wire_consensus d h t (Some p) limit). tt_outpoint x = p))
    \<and> (rows_at p (transfer_rows d h t) = [] \<longrightarrow>
        address_token_transfers wire_consensus d h t (Some p) limit
          = take (unat limit) (tl (rows_after p (transfer_rows d h t))))"
proof (intro conjI impI)
  let ?at = "rows_at p (transfer_rows d h t)" and ?after = "rows_after p (transfer_rows d h t)"
  note page = transfers_page_rows [OF assms(1, 2)] transfers_page_rows(2) [OF assms(1, 2, 3)]
  show "address_token_transfers wire_consensus d h t None limit
      = take (unat limit) (map shown_transfer (transfer_rows d h t))" by (rule page(1))
  show "address_token_transfers wire_consensus d h t (Some p) limit = take (unat limit) ?after"
    if "length ?at = 1"
    using that page(3) by (cases ?at) auto
  show "address_token_transfers wire_consensus d h t (Some p) limit = take (unat limit) (tl ?after)" if "?at = []"
    using that page(3) by simp
  assume long: "unat limit < length ?at"
  then have "address_token_transfers wire_consensus d h t (Some p) limit = take (unat limit) (tl ?at)"
    using page(3) by (cases ?at) auto
  moreover have "\<forall>x \<in> set (tl ?at). tt_outpoint x = p"
  proof -
    have "\<forall>x \<in> set ?at. tt_outpoint x = p" by (auto simp: rows_at_def shown_transfer_def)
    moreover have "set (tl ?at) \<subseteq> set ?at" by (cases ?at) auto
    ultimately show ?thesis by blast
  qed
  ultimately show "length (address_token_transfers wire_consensus d h t (Some p) limit) = unat limit"
    "\<forall>x \<in> set (address_token_transfers wire_consensus d h t (Some p) limit). tt_outpoint x = p"
    using long by (auto dest: in_set_takeD)
qed

text \<open>An inscription that puts two open transfers into one output.\<close>

definition two_transfers :: db where
  "two_transfers = db_empty\<lparr> db_transfers :=
     [al_at example_owner \<lparr> op_txid = replicate 32 1, op_vout = 0 \<rparr> 0 \<mapsto> \<lparr> tp_tick = example_tick, tp_amt = 4, tp_height = 7 \<rparr>,
      al_at example_owner \<lparr> op_txid = replicate 32 1, op_vout = 0 \<rparr> 9 \<mapsto> \<lparr> tp_tick = example_tick, tp_amt = 5, tp_height = 7 \<rparr>] \<rparr>"

lemma two_transfers_rows:
  "length (rows_at \<lparr> op_txid = replicate 32 1, op_vout = 0 \<rparr> (transfer_rows two_transfers example_owner example_tick)) = 2"
proof -
  let ?p = "\<lparr> op_txid = replicate 32 1, op_vout = 0 \<rparr>"
  let ?es = "[(al_at example_owner ?p 0, \<lparr> tp_tick = example_tick, tp_amt = 4, tp_height = 7 \<rparr>),
    (al_at example_owner ?p 9, \<lparr> tp_tick = example_tick, tp_amt = 5, tp_height = 7 \<rparr>)]"
  have less: "address_location_enc wire_consensus (al_at example_owner ?p 0) < address_location_enc wire_consensus (al_at example_owner ?p 9)"
    by (simp add: address_location_bytes al_at_def append_less u64_be_order)
  have dom: "dom (db_transfers two_transfers) = {al_at example_owner ?p 0, al_at example_owner ?p 9}"
    by (auto simp: two_transfers_def db_empty_def)
  have "tbl_iter (address_location_enc wire_consensus) (db_transfers two_transfers) = ?es"
    by (rule tbl_iter_eq) (use less in \<open>auto simp: dom, auto simp: two_transfers_def al_at_def db_empty_def split: if_splits\<close>)
  then show ?thesis by (simp add: rows_at_def transfer_rows_def al_at_def)
qed

theorem transfers_page_witness:
  "map tt_outpoint (address_token_transfers wire_consensus two_transfers example_owner example_tick
      (Some \<lparr> op_txid = replicate 32 1, op_vout = 0 \<rparr>) 1) = [\<lparr> op_txid = replicate 32 1, op_vout = 0 \<rparr>]"
proof -
  have "wf_outpoint \<lparr> op_txid = replicate 32 1, op_vout = 0 \<rparr>" by (simp add: wf_outpoint_def wf_hash_def)
  moreover have "transfer_keys_ok two_transfers"
    using rest_example_wf
    by (auto simp: transfer_keys_ok_def two_transfers_def db_empty_def wf_address_location_def al_at_def
        wf_outpoint_def wf_hash_def last_outpoint_def u32_max_def)
  moreover have "map tt_outpoint xs = [p]" if "length xs = 1" "\<forall>x \<in> set xs. tt_outpoint x = p"
    for xs :: "token_transfer list" and p
    using that by (cases xs) auto
  ultimately show ?thesis
    using transfers_page [of two_transfers example_owner "\<lparr> op_txid = replicate 32 1, op_vout = 0 \<rparr>" example_tick 1]
      rest_example_wf two_transfers_rows by simp
qed

section \<open>Short ticks\<close>

lemma last_trim_tick: "trim_tick_bytes t \<noteq> [] \<Longrightarrow> last (trim_tick_bytes t) \<noteq> 0"
proof -
  assume "trim_tick_bytes t \<noteq> []"
  then obtain i where i: "rposition (\<lambda>b. b \<noteq> 0) t = Some i" "trim_tick_bytes t = take (Suc i) t"
    by (cases "rposition (\<lambda>b. b \<noteq> 0) t") (auto simp: trim_tick_bytes_def)
  with rposition_less [OF i(1)] show ?thesis by (simp add: take_Suc_conv_app_nth)
qed

lemma last_ascii_lower: "v \<noteq> [] \<Longrightarrow> last (ascii_lower v) = 0 \<longleftrightarrow> last v = 0"
proof -
  have "(b :: u8) + 32 \<noteq> 0" if "65 \<le> b" "b \<le> 90" for b
  proof
    assume "b + 32 = 0"
    then have "b = - 32" by (simp add: eq_neg_iff_add_eq_0)
    with that(2) show False by simp
  qed
  moreover assume "v \<noteq> []"
  ultimately show ?thesis by (auto simp: ascii_lower_def last_map)
qed

text \<open>The key of every token is the trimmed tick, so no key ends in a zero byte.\<close>

definition token_keys_ok :: "db \<Rightarrow> bool" where
  "token_keys_ok d \<longleftrightarrow> (\<forall>k m. db_token_to_meta d k = Some m \<longrightarrow> k = lower_of_tick ascii_lower (dp_tick (tm_proto m)))"

lemma short_tick_missing:
  assumes "token_keys_ok d" and "wf_tick t" and "last t = 0"
  shows "db_token_to_meta d (lower_of_rest_tick ascii_lower t) = None"
proof (rule ccontr)
  assume "db_token_to_meta d (lower_of_rest_tick ascii_lower t) \<noteq> None"
  then obtain u where u: "ascii_lower t = ascii_lower (trim_tick_bytes u)"
    using assms(1) unfolding token_keys_ok_def lower_of_rest_tick_def lower_of_tick_def by blast
  have "t \<noteq> []" using assms(2) by (auto simp: wf_tick_def tick_storage_len_def)
  moreover have "length t = length (trim_tick_bytes u)" using arg_cong [OF u, of length] by simp
  ultimately have "trim_tick_bytes u \<noteq> []" by auto
  with last_trim_tick [of u] have "last (ascii_lower t) \<noteq> 0" unfolding u by (simp add: last_ascii_lower)
  with \<open>t \<noteq> []\<close> assms(3) show False by (simp add: last_ascii_lower)
qed

text \<open>C36.  No token with a tick shorter than eight bytes is found by the handlers that look it up: \<open>/token\<close>,
  \<open>/holders\<close>, \<open>/holders-stats\<close> and \<open>/token-supplies\<close> given such a tick answer that it does not exist, whatever is
  stored.  A page of the tokens of an address after such a tick is the second to the last element of the first page one
  longer, so a client never gets beyond it.\<close>

theorem short_ticks_unreachable:
  assumes d: "token_keys_ok d" and v: "rest_tick_de v = Some t" "length v < 8" and E: "re_lower E = ascii_lower"
  shows "one_token E d H t = Inl NotFound
    \<and> (hq_tick q = t \<and> 1 \<le> hq_page_size q \<and> hq_page_size q \<le> 20 \<and> 1 \<le> hq_page q \<longrightarrow> rest_holders E d H q = Inl NotFound)
    \<and> holders_stats E d H t = Inl NotFound
    \<and> token_supplies E d (t # ts) = Inl NotFound
    \<and> (limit < 2 ^ 63 \<longrightarrow> address_token_rows E d h \<lparr> ta_offset = Some t, ta_limit = limit, ta_search = search \<rparr>
      = tl (address_token_rows E d h \<lparr> ta_offset = None, ta_limit = limit + 1, ta_search = search \<rparr>))"
proof -
  have "wf_tick t" "last t = 0"
    using v by (auto simp: rest_tick_de_def wf_tick_def tick_storage_len_def split: if_splits)
  note lookup = short_tick_missing [OF d this]
  have "unat (limit + 1) = Suc (unat limit)" if "limit < 2 ^ 63"
    using that unat_u64_less [of limit] by (simp add: unat_word_ariths word_less_nat_alt)
  moreover have "take n (tl xs) = tl (take (Suc n) xs)" for n and xs :: "(address_token \<times> token_balance) list"
    by (cases xs) simp_all
  ultimately show ?thesis
    using lookup E
    by (auto simp: one_token_def rest_holders_def holders_stats_def token_supplies_def tbl_multi_get_def require_def
        ok_or_def address_token_rows_def Let_def drop_Suc)
qed

definition one_token_db :: db where
  "one_token_db = db_empty\<lparr> db_token_to_meta := [lower_of_tick ascii_lower example_tick \<mapsto> example_meta] \<rparr>"

theorem short_ticks_unreachable_witness:
  "db_token_to_meta one_token_db (lower_of_tick ascii_lower example_tick) \<noteq> None
   \<and> rest_tick_de [119, 111, 106, 97, 107] = Some example_tick
   \<and> one_token example_rest one_token_db holders_empty example_tick = Inl NotFound"
proof -
  have "token_keys_ok one_token_db"
    by (auto simp: token_keys_ok_def one_token_db_def example_meta_def db_empty_def split: if_splits)
  moreover have "rest_tick_de [119, 111, 106, 97, 107] = Some example_tick" "re_lower example_rest = ascii_lower"
    by (simp_all add: example_tick_def rest_tick_de_def tick_storage_len_def example_rest_def numeral_3_eq_3)
  ultimately show ?thesis
    using short_ticks_unreachable [of one_token_db "[119, 111, 106, 97, 107]" example_tick example_rest holders_empty]
    by (simp add: one_token_db_def)
qed

section \<open>Events\<close>

lemma raw_range_first:
  assumes it: "iterates it t" and k: "t (kenc k) = Some c"
    and lo: "above kenc lo k" and hi: "below kenc hi k"
  shows "raw_range it kenc kdec vdec lo hi r \<noteq> []"
proof -
  have "above (\<lambda>k. k) (map_bound kenc lo) (kenc k)" "below (\<lambda>k. k) (map_bound kenc hi) (kenc k)"
    using lo hi by (cases lo; cases hi; simp add: above_def below_def)+
  moreover have "(kenc k, c) \<in> set (it None False)"
    using it [unfolded iterates_def, rule_format, of None] k by simp
  ultimately have "filter (\<lambda>(k, _). above (\<lambda>k. k) (map_bound kenc lo) k \<and> below (\<lambda>k. k) (map_bound kenc hi) k)
      (it None False) \<noteq> []"
    by (force simp: filter_empty_conv)
  then show ?thesis
    unfolding raw_range_def Let_def iterates_range [OF it refl] by (cases r) simp_all
qed

lemma token_id_order:
  "token_id_enc \<lparr> ti_token = t, ti_id = i \<rparr> < token_id_enc \<lparr> ti_token = t, ti_id = j \<rparr> \<longleftrightarrow> i < j"
  using append_less [of t t "u64_be i" "u64_be j"] by (simp add: token_id_enc_def u64_be_order)

text \<open>C37.  The tables that list the events of a block and of a token cannot be read back, so the handlers over
  them panic as soon as there is an event: \<open>/events/{height}\<close> and \<open>/all-tickers\<close> with a height on every block with
  an event, and \<open>/token-events/{tick}\<close> without a search on every token with an event before the offset.\<close>

theorem event_handlers_panic:
  assumes block: "block_events (u32_be height) = Some (vec_enc address_token_id_enc (e # es))"
      "list_all wf_address_token_id (e # es)"
    and token: "iterates it token_events_table" "token_events_table (token_id_enc \<lparr> ti_token = tick, ti_id = i \<rparr>) = Some c"
      "i < (case ea_offset args of Some n \<Rightarrow> n | None \<Rightarrow> u64_max)" "ea_search args = None" "0 < ea_limit args"
  shows "events_by_height E d block_events height = Inl HandlerPanic
    \<and> all_tickers E d block_events (Some height) = Inl HandlerPanic
    \<and> token_events E d it tick args = Inl HandlerPanic"
proof -
  have "vec_dec address_token_id_fixed_size address_token_id_dec (vec_enc address_token_id_enc (e # es)) = None"
    using event_list_unreadable [OF block(2)] .
  then have b: "raw_get u32_be (vec_dec address_token_id_fixed_size address_token_id_dec) block_events height = None"
    using block(1) by (simp add: raw_get_def)
  let ?lo = "Included \<lparr> ti_token = tick, ti_id = 0 \<rparr>"
  let ?hi = "Excluded \<lparr> ti_token = tick, ti_id = (case ea_offset args of Some n \<Rightarrow> n | None \<Rightarrow> u64_max) \<rparr>"
  let ?r = "raw_range it token_id_enc token_id_dec address_token_id_dec ?lo ?hi True"
  have "above token_id_enc ?lo \<lparr> ti_token = tick, ti_id = i \<rparr>" "below token_id_enc ?hi \<lparr> ti_token = tick, ti_id = i \<rparr>"
    using token(3) token_id_order [of tick i 0]
    by (simp_all add: above_def below_def token_id_order not_less [symmetric])
  then have "?r \<noteq> []" by (rule raw_range_first [where kenc = token_id_enc, OF token(1) token(2)])
  moreover have "\<forall>x \<in> set ?r. x = None"
    by (auto simp: raw_range_def Let_def decode_entry_def token_id_never_decodes)
  moreover have "unat (ea_limit args) \<noteq> 0" using token(5) by (simp add: word_less_nat_alt)
  ultimately have "option_list (take (unat (ea_limit args)) ?r) = None"
    by (cases ?r; cases "unat (ea_limit args)") auto
  with b token(4) show ?thesis
    by (simp add: events_by_height_def all_tickers_def token_events_def ok_or_def Let_def)
qed

theorem event_handlers_panic_witness:
  "events_by_height example_rest rest_db [u32_be 7 \<mapsto> vec_enc address_token_id_enc [example_address_token_id]] 7
     = Inl HandlerPanic
   \<and> token_events example_rest rest_db (map_iterator [token_id_enc \<lparr> ti_token = example_tick, ti_id = 0 \<rparr> \<mapsto> []])
       example_tick \<lparr> ea_offset = None, ea_limit = 10, ea_search = None \<rparr> = Inl HandlerPanic"
proof -
  have "iterates (map_iterator [token_id_enc \<lparr> ti_token = example_tick, ti_id = 0 \<rparr> \<mapsto> []])
      [token_id_enc \<lparr> ti_token = example_tick, ti_id = 0 \<rparr> \<mapsto> []]"
    by (rule map_iterator_iterates) simp
  moreover have "(0 :: u64) < u64_max" by (simp add: u64_max_def word_greater_zero_iff)
  moreover have "wf_address_token_id example_address_token_id"
    by (simp add: wf_address_token_id_def wf_hash_def wf_tick_def example_address_token_id_def tick_storage_len_def)
  ultimately show ?thesis
    using event_handlers_panic [of "[u32_be 7 \<mapsto> vec_enc address_token_id_enc [example_address_token_id]]" 7
        example_address_token_id "[]" _ "[token_id_enc \<lparr> ti_token = example_tick, ti_id = 0 \<rparr> \<mapsto> []]" example_tick 0 "[]"
        "\<lparr> ea_offset = None, ea_limit = 10, ea_search = None \<rparr>" example_rest rest_db]
    by simp
qed

section \<open>All addresses\<close>

lemma all_addresses_loop_spec:
  assumes "sorted hs" and "\<And>a. last_address = Some a \<Longrightarrow> \<forall>h \<in> set hs. a \<le> h"
  shows "all_addresses_loop as last_address hs
    = map (\<lambda>h. the (as h)) (sorted_list_of_set ({h \<in> set hs. as h \<noteq> None} - set_option last_address))"
  using assms
proof (induction as last_address hs rule: all_addresses_loop.induct)
  case (2 as last_address h hs)
  let ?S = "{h \<in> set hs. as h \<noteq> None}"
  show ?case
  proof (cases "last_address = Some h")
    case True
    have "{h' \<in> set (h # hs). as h' \<noteq> None} - {h} = ?S - {h}" by auto
    with True 2 show ?thesis by simp
  next
    case new: False
    show ?thesis
    proof (cases "as h")
      case None
      then have "{h' \<in> set (h # hs). as h' \<noteq> None} = ?S" by auto
      with new None 2 show ?thesis by simp
    next
      case (Some b)
      let ?A = "{h' \<in> set (h # hs). as h' \<noteq> None} - set_option last_address"
      have "a < h \<and> (\<forall>x \<in> set hs. a < x)" if "last_address = Some a" for a
        using "2.prems"(2) [of a] "2.prems"(1) that new by (auto simp: order_le_less)
      then have "h \<in> ?A" "?A - {h} = ?S - {h}" using Some by (auto split: option.splits)
      moreover have "\<forall>x \<in> ?A. h \<le> x" using "2.prems"(1) by auto
      ultimately have "Min ?A = h" by (intro Min_eqI) auto
      with \<open>h \<in> ?A\<close> \<open>?A - {h} = ?S - {h}\<close> have "sorted_list_of_set ?A = h # sorted_list_of_set (?S - {h})"
        using sorted_list_of_set_nonempty [of ?A] by fastforce
      moreover have "all_addresses_loop as (Some h) hs = map (\<lambda>h. the (as h)) (sorted_list_of_set (?S - {h}))"
        using "2.IH"(3) [OF new Some] "2.prems"(1) by simp
      ultimately show ?thesis using new Some by simp
    qed
  qed
qed simp

lemma address_token_less:
  "wf_address_token a \<Longrightarrow> wf_address_token b \<Longrightarrow> address_token_enc a < address_token_enc b \<Longrightarrow> at_address a \<le> at_address b"
  using append_less [of "at_address a" "at_address b" "at_token a" "at_token b"]
  by (auto simp: address_token_enc_def wf_address_token_def)

text \<open>\<open>/all-addresses\<close> lists every address with a token balance once, in the order of the script hashes, and
  leaves out the script hashes that have no known address.\<close>

lemma all_addresses_once:
  assumes "finite (dom (db_balances d))" and "\<And>k. k \<in> dom (db_balances d) \<Longrightarrow> wf_address_token k"
  shows "all_addresses d = map (\<lambda>h. the (db_addresses d h))
    (sorted_list_of_set {h. \<exists>k \<in> dom (db_balances d). at_address k = h \<and> db_addresses d h \<noteq> None})"
proof -
  let ?it = "tbl_iter address_token_enc (db_balances d)"
  have "inj_on address_token_enc (dom (db_balances d))"
    by (rule inj_onI) (metis assms(2) address_token_roundtrip option.inject)
  note it = tbl_iter_spec [OF assms(1) this]
  have "sorted_wrt (\<lambda>a b. at_address (fst a) \<le> at_address (fst b)) ?it"
    by (rule sorted_wrt_mono_rel [OF _ it(1)])
      (use it(2) in \<open>auto intro!: address_token_less assms(2) intro: domI\<close>)
  then have "sorted (map (\<lambda>(k, _). at_address k) ?it)" by (simp add: sorted_wrt_map split_def)
  moreover have "{h \<in> set (map (\<lambda>(k, _). at_address k) ?it). db_addresses d h \<noteq> None}
      = {h. \<exists>k \<in> dom (db_balances d). at_address k = h \<and> db_addresses d h \<noteq> None}"
    by (force simp: it(2))
  ultimately show ?thesis
    using all_addresses_loop_spec [of "map (\<lambda>(k, _). at_address k) ?it" None "db_addresses d"]
    by (simp add: all_addresses_def)
qed

end
