(* ===== verification/ScanProps.thy ===== *)
theory ScanProps
  imports RestProps
begin

text \<open>
  The scans and batches of the storage wrapper against the typed tables the rest of the development
  works on (\<open>Scan\<close>, \<open>Storage\<close>).
\<close>

section \<open>Batches and scans of a table\<close>

text \<open>The writes of a table: a batch of keys to remove, then a batch of entries, as the undo log and
  \<open>ProcessedData::write\<close> issue them.\<close>

definition raw_writes ::
  "('k \<Rightarrow> bytes) \<Rightarrow> ('v \<Rightarrow> bytes) \<Rightarrow> ('k list \<times> ('k \<times> 'v) list) list \<Rightarrow> raw_table" where
  "raw_writes kenc venc ws =
     foldl (\<lambda>t (ks, kvs). raw_extend kenc venc (raw_remove_batch kenc t ks) kvs) Map.empty ws"

definition tbl_writes :: "('k list \<times> ('k \<times> 'v) list) list \<Rightarrow> ('k \<rightharpoonup> 'v)" where
  "tbl_writes ws = foldl (\<lambda>t (ks, kvs). tbl_extend (tbl_remove_batch t ks) kvs) Map.empty ws"

definition writes_ok ::
  "('k \<Rightarrow> bool) \<Rightarrow> ('v \<Rightarrow> bool) \<Rightarrow> ('k list \<times> ('k \<times> 'v) list) list \<Rightarrow> bool" where
  "writes_ok kwf vwf ws \<longleftrightarrow>
     list_all (\<lambda>(ks, kvs). list_all kwf ks \<and> list_all (\<lambda>(k, v). kwf k \<and> vwf v) kvs) ws"

context rocks_table
begin

lemma writes_view:
  "writes_ok kwf vwf ws \<Longrightarrow> clean (raw_writes kenc venc ws) \<and> view (raw_writes kenc venc ws) = tbl_writes ws"
proof (induction ws rule: rev_induct)
  case Nil
  then show ?case by (auto simp: raw_writes_def tbl_writes_def clean_empty view_def fun_eq_iff)
next
  case (snoc w ws)
  obtain ks kvs where w: "w = (ks, kvs)" by (cases w)
  let ?t = "raw_writes kenc venc ws"
  have IH: "clean ?t" "view ?t = tbl_writes ws" and ok: "list_all kwf ks" "list_all (\<lambda>(k, v). kwf k \<and> vwf v) kvs"
    using snoc w by (simp_all add: writes_ok_def)
  have "clean (raw_remove_batch kenc ?t ks)" by (rule clean_remove_batch [OF IH(1)])
  moreover have "view (raw_remove_batch kenc ?t ks) = tbl_remove_batch (tbl_writes ws) ks"
    using remove_batch_view [OF clean_typed [OF IH(1)] ok(1)] IH(2) by simp
  ultimately show ?case
    using clean_extend [OF _ ok(2)] extend_view [OF clean_typed ok(2)]
    by (simp add: raw_writes_def tbl_writes_def w)
qed

lemma writes_read:
  assumes "writes_ok kwf vwf ws" and "iterates it (raw_writes kenc venc ws)" and "list_all kwf ks"
  shows "raw_multi_get kenc vdec (raw_writes kenc venc ws) ks = Some (tbl_multi_get (tbl_writes ws) ks)
    \<and> raw_range it kenc kdec vdec lo hi r = map Some (tbl_range kenc (tbl_writes ws) lo hi r)
    \<and> raw_iter it kdec vdec = map Some (tbl_iter kenc (tbl_writes ws))
    \<and> view (raw_retain it kdec vdec f (raw_writes kenc venc ws))
        = (\<lambda>k. Option.bind (tbl_writes ws k) (\<lambda>v. if f k v then Some v else None))"
proof -
  have w: "clean (raw_writes kenc venc ws)" "view (raw_writes kenc venc ws) = tbl_writes ws"
    using writes_view [OF assms(1)] by simp_all
  show ?thesis
    using multi_get_view [OF clean_typed [OF w(1)] assms(3)] range_view [OF w(1) assms(2)]
      iter_view [OF w(1) assms(2)] retain_view [OF w(1) assms(2)] unfolding w(2) by blast
qed

end

text \<open>C31.  The table from outpoints to events, kept as bytes and read through the iterator of the engine,
  behaves as a finite map from outpoints to events: after any sequence of batches of removals and insertions a
  batch of lookups, a range scan in either direction and a full scan return what the map holds, decoded, without a
  panic, a scan in the order of the key bytes, and removing the entries that fail a test removes just these.\<close>

theorem table_refines:
  assumes "writes_ok wf_outpoint wf_address_token_id ws"
    and "iterates it (raw_writes outpoint_bytes address_token_id_enc ws)" and "list_all wf_outpoint ks"
  shows "raw_multi_get outpoint_bytes address_token_id_dec (raw_writes outpoint_bytes address_token_id_enc ws) ks
      = Some (tbl_multi_get (tbl_writes ws) ks)
    \<and> raw_range it outpoint_bytes outpoint_of_bytes address_token_id_dec lo hi r
      = map Some (tbl_range outpoint_bytes (tbl_writes ws) lo hi r)
    \<and> raw_iter it outpoint_of_bytes address_token_id_dec = map Some (tbl_iter outpoint_bytes (tbl_writes ws))
    \<and> token_event_table.view
        (raw_retain it outpoint_of_bytes address_token_id_dec f (raw_writes outpoint_bytes address_token_id_enc ws))
      = (\<lambda>k. Option.bind (tbl_writes ws k) (\<lambda>v. if f k v then Some v else None))"
  by (rule token_event_table.writes_read [OF assms])

definition example_writes :: "(outpoint list \<times> (outpoint \<times> address_token_id) list) list" where
  "example_writes = [([], [(\<lparr> op_txid = replicate 32 1, op_vout = 0 \<rparr>, example_address_token_id),
     (\<lparr> op_txid = replicate 32 1, op_vout = 1 \<rparr>, example_address_token_id)]),
     ([\<lparr> op_txid = replicate 32 1, op_vout = 0 \<rparr>], [])]"

theorem table_refines_witness:
  "raw_multi_get outpoint_bytes address_token_id_dec (raw_writes outpoint_bytes address_token_id_enc example_writes)
      [\<lparr> op_txid = replicate 32 1, op_vout = 0 \<rparr>, \<lparr> op_txid = replicate 32 1, op_vout = 1 \<rparr>]
    = Some [None, Some example_address_token_id]"
proof -
  have ok: "writes_ok wf_outpoint wf_address_token_id example_writes"
    using example_address_token_id_wf by (simp add: writes_ok_def example_writes_def wf_outpoint_def wf_hash_def)
  have "finite (dom (raw_writes outpoint_bytes address_token_id_enc example_writes))"
    using token_event_table.writes_view [OF ok] by (simp add: token_event_table.clean_def)
  note it = map_iterator_iterates [OF this]
  have "list_all wf_outpoint [\<lparr> op_txid = replicate 32 1, op_vout = 0 \<rparr>, \<lparr> op_txid = replicate 32 1, op_vout = 1 \<rparr>]"
    by (simp add: wf_outpoint_def wf_hash_def)
  note table_refines [OF ok it this, THEN conjunct1]
  then show ?thesis by (simp add: tbl_multi_get_def tbl_writes_def example_writes_def)
qed

section \<open>The transfers that a block may spend\<close>

text \<open>\<open>DB::load_transfers\<close> on the keys \<open>TokenCache::load\<close> makes.\<close>

definition scan_transfers ::
  "consensus \<Rightarrow> (address_location \<rightharpoonup> transfer_proto_db) \<Rightarrow> address_outpoint list \<Rightarrow>
     (location \<times> hash32 \<times> transfer_proto_db) list"
where
  "scan_transfers C tbl keys = concat (map (\<lambda>x.
     let (from, to) = al_search_with_offset (ao_address x) (ao_outpoint x)
     in map (\<lambda>(k, v). (al_location k, al_address k, v))
          (tbl_range (address_location_enc C) tbl (Included from) (Included to) False)) keys)"

lemma location_key_between:
  assumes k: "wf_address_location k" and h: "wf_hash h" and p: "wf_outpoint p"
  shows "address_location_enc wire_consensus (al_at h p 0) \<le> address_location_enc wire_consensus k
      \<and> address_location_enc wire_consensus k \<le> address_location_enc wire_consensus (al_at h p u64_max)
    \<longleftrightarrow> al_address k = h \<and> loc_outpoint (al_location k) = p"
proof -
  let ?q = "loc_outpoint (al_location k)"
  have q: "wf_outpoint ?q" "length h = length (al_address k)" "length (al_address k) = length h"
    using k h by (simp_all add: wf_address_location_def)
  have lens: "length (outpoint_bytes p) = length (outpoint_bytes ?q)"
    "length (outpoint_bytes ?q) = length (outpoint_bytes p)"
    using q(1) p by simp_all
  have "u64_be n \<le> u64_be u64_max" for n
    using u64_be_order [of u64_max n] by (simp add: u64_max_def not_less [symmetric])
  then show ?thesis
    unfolding address_location_bytes al_at_def
    using outpoint_bytes_inj [OF p q(1)]
    by (auto simp: append_le [OF q(2)] append_le [OF q(3)] append_le [OF lens(1)] append_le [OF lens(2)] u64_be_least)
qed

lemma address_location_surj: "\<lparr> al_address = al_address k, al_location = al_location k \<rparr> = k"
  by (cases k) simp

lemma transfer_image:
  "(\<lambda>(k, v). (al_location k, al_address k, v)) ` {(k, v). tbl k = Some v \<and> al_address k = a \<and> loc_outpoint (al_location k) = p}
    = {(l, h, v). tbl \<lparr> al_address = h, al_location = l \<rparr> = Some v \<and> h = a \<and> loc_outpoint l = p}"
    (is "?l = ?r")
proof
  show "?l \<subseteq> ?r" by (auto simp: address_location_surj)
  show "?r \<subseteq> ?l"
  proof clarify
    fix l v
    assume "tbl \<lparr> al_address = a, al_location = l \<rparr> = Some v" "p = loc_outpoint l"
    then show "(l, a, v) \<in> (\<lambda>(k, v). (al_location k, al_address k, v)) ` {(k, v). tbl k = Some v \<and> al_address k = a
        \<and> loc_outpoint (al_location k) = loc_outpoint l}"
      by (intro image_eqI [of _ _ "(\<lparr> al_address = a, al_location = l \<rparr>, v)"]) simp_all
  qed
qed

lemma in_concat_map: "e \<in> set (concat (map g xs)) \<longleftrightarrow> (\<exists>x \<in> set xs. e \<in> set (g x))"
  by simp

lemma option_pair_eqI: "(\<And>a b. x = Some (a, b) \<longleftrightarrow> y = Some (a, b)) \<Longrightarrow> x = y"
  by (cases x; cases y) auto

lemma sorted_distinct:
  fixes f :: "'a \<Rightarrow> 'b::order"
  shows "sorted_wrt (\<lambda>a b. f (fst a) < f (fst b)) xs \<Longrightarrow> distinct (map fst xs)"
  by (induction xs) auto

lemma distinct_concat_map:
  assumes "distinct xs" and "\<And>x. x \<in> set xs \<Longrightarrow> distinct (g x)"
    and "\<And>x y. x \<in> set xs \<Longrightarrow> y \<in> set xs \<Longrightarrow> x \<noteq> y \<Longrightarrow> set (g x) \<inter> set (g y) = {}"
  shows "distinct (concat (map g xs))"
  using assms by (induction xs) (auto; blast)+

text \<open>The entries one key of the scan gives, as the loop lists them.\<close>

definition scan_row ::
  "(address_location \<rightharpoonup> transfer_proto_db) \<Rightarrow> address_outpoint \<Rightarrow> (location \<times> hash32 \<times> transfer_proto_db) list" where
  "scan_row tbl x = map (\<lambda>(k, v). (al_location k, al_address k, v)) (tbl_range (address_location_enc wire_consensus) tbl
     (Included (al_at (ao_address x) (ao_outpoint x) 0)) (Included (al_at (ao_address x) (ao_outpoint x) u64_max)) False)"

lemma scan_row_spec:
  assumes tbl: "finite (dom tbl)" "\<And>k. k \<in> dom tbl \<Longrightarrow> wf_address_location k"
    and x: "wf_hash (ao_address x)" "wf_outpoint (ao_outpoint x)"
  shows "set (scan_row tbl x) = {(l, h, v). tbl \<lparr> al_address = h, al_location = l \<rparr> = Some v
      \<and> h = ao_address x \<and> loc_outpoint l = ao_outpoint x}"
    and "distinct (map fst (scan_row tbl x))"
proof -
  have inj: "inj_on (address_location_enc wire_consensus) (dom tbl)"
    using tbl(2) by (intro inj_onI) (metis wire.address_location_roundtrip option.inject)
  let ?r = "tbl_range (address_location_enc wire_consensus) tbl (Included (al_at (ao_address x) (ao_outpoint x) 0))
    (Included (al_at (ao_address x) (ao_outpoint x) u64_max)) False"
  note spec = tbl_range_spec [OF tbl(1) inj, where r = False]
  have r: "set ?r = {(k, v). tbl k = Some v \<and> al_address k = ao_address x \<and> loc_outpoint (al_location k) = ao_outpoint x}"
    using location_key_between [of _ "ao_address x" "ao_outpoint x"] tbl(2) x
    by (auto simp: spec(1) above_def below_def dom_def)
  show "set (scan_row tbl x) = {(l, h, v). tbl \<lparr> al_address = h, al_location = l \<rparr> = Some v
      \<and> h = ao_address x \<and> loc_outpoint l = ao_outpoint x}"
    unfolding scan_row_def set_map r by (rule transfer_image)
  have "distinct (map fst ?r)"
    by (rule sorted_distinct [where f = "address_location_enc wire_consensus"]) (use spec(2) in simp)
  moreover have "inj_on al_location (set (map fst ?r))"
    using r by (auto simp: inj_on_def)
  ultimately have "distinct (map al_location (map fst ?r))" by (simp only: distinct_map simp_thms)
  then show "distinct (map fst (scan_row tbl x))" by (simp add: scan_row_def comp_def split_def)
qed

text \<open>Keys of different outputs list different locations.\<close>

lemma scan_rows_distinct:
  assumes keys: "distinct keys" "inj_on ao_outpoint (set keys)"
    and row: "\<And>x. x \<in> set keys \<Longrightarrow> set (f x) \<subseteq> {(l, h, v). loc_outpoint l = ao_outpoint x}"
      "\<And>x. x \<in> set keys \<Longrightarrow> distinct (map fst (f x))"
  shows "distinct (map fst (concat (map f keys)))"
  unfolding map_concat map_map
proof (rule distinct_concat_map [OF keys(1)])
  show "distinct ((map fst \<circ> f) x)" if "x \<in> set keys" for x using row(2) [OF that] by simp
  fix x y
  assume xy: "x \<in> set keys" "y \<in> set keys" "x \<noteq> y"
  then have neq: "ao_outpoint x \<noteq> ao_outpoint y" using keys(2) by (auto simp: inj_on_def)
  have at: "loc_outpoint l = ao_outpoint x" if "l \<in> set ((map fst \<circ> f) x)" "x \<in> set keys" for l x
    using that(1) row(1) [OF that(2)] by auto
  show "set ((map fst \<circ> f) x) \<inter> set ((map fst \<circ> f) y) = {}"
  proof (rule equals0I)
    fix l
    assume "l \<in> set ((map fst \<circ> f) x) \<inter> set ((map fst \<circ> f) y)"
    from at [OF IntD1 [OF this] xy(1)] at [OF IntD2 [OF this] xy(2)] neq show False by simp
  qed
qed

text \<open>C32.  The range scans that load the open transfers of the outputs a block spends find exactly the transfers
  that the lookup by owner and location finds, each once, whatever offset they have.\<close>

theorem transfers_scanned:
  assumes tbl: "finite (dom tbl)" "\<And>k. k \<in> dom tbl \<Longrightarrow> wf_address_location k"
    and keys: "distinct keys" "set keys = {\<lparr> ao_address = pv_script_hash p, ao_outpoint = q \<rparr> | p q. prevouts q = Some p}"
    and prevouts: "\<And>p q. prevouts q = Some p \<Longrightarrow> wf_outpoint q \<and> wf_hash (pv_script_hash p)"
  shows "map_of (scan_transfers wire_consensus tbl keys) = load_transfers tbl prevouts
    \<and> distinct (map fst (scan_transfers wire_consensus tbl keys))"
proof -
  have scan: "scan_transfers wire_consensus tbl keys = concat (map (scan_row tbl) keys)"
    by (simp add: scan_transfers_def al_search_with_offset_def scan_row_def [abs_def])
  have row: "set (scan_row tbl x) = {(l, h, v). tbl \<lparr> al_address = h, al_location = l \<rparr> = Some v
      \<and> h = ao_address x \<and> loc_outpoint l = ao_outpoint x}" "distinct (map fst (scan_row tbl x))" if "x \<in> set keys" for x
    using scan_row_spec [of tbl x] tbl prevouts that keys(2) by auto
  have "inj_on ao_outpoint (set keys)" unfolding keys(2) by (auto simp: inj_on_def)
  from scan_rows_distinct [OF keys(1) this, of "scan_row tbl"] row
  have distinct: "distinct (map fst (concat (map (scan_row tbl) keys)))" by blast
  have "map_of (concat (map (scan_row tbl) keys)) l = Some (h, v) \<longleftrightarrow> load_transfers tbl prevouts l = Some (h, v)" for l h v
  proof -
    have "map_of (concat (map (scan_row tbl) keys)) l = Some (h, v) \<longleftrightarrow> (\<exists>x \<in> set keys. (l, h, v) \<in> set (scan_row tbl x))"
      unfolding map_of_eq_Some_iff [OF distinct] by (rule in_concat_map)
    also have "\<dots> \<longleftrightarrow> (\<exists>x \<in> set keys. tbl \<lparr> al_address = h, al_location = l \<rparr> = Some v
        \<and> h = ao_address x \<and> loc_outpoint l = ao_outpoint x)"
      using row(1) by blast
    also have "\<dots> \<longleftrightarrow> load_transfers tbl prevouts l = Some (h, v)"
      unfolding keys(2) by (auto simp: load_transfers_def split: option.splits) (metis address_outpoint.select_convs)
    finally show ?thesis .
  qed
  then have "map_of (concat (map (scan_row tbl) keys)) l = load_transfers tbl prevouts l" for l
    by (rule option_pair_eqI)
  with distinct show ?thesis unfolding scan by blast
qed

theorem transfers_scanned_witness:
  "map_of (scan_transfers wire_consensus (db_transfers two_transfers)
      [\<lparr> ao_address = example_owner, ao_outpoint = \<lparr> op_txid = replicate 32 1, op_vout = 0 \<rparr> \<rparr>])
      \<lparr> loc_outpoint = \<lparr> op_txid = replicate 32 1, op_vout = 0 \<rparr>, loc_offset = 9 \<rparr>
    = Some (example_owner, \<lparr> tp_tick = example_tick, tp_amt = 5, tp_height = 7 \<rparr>)"
proof -
  let ?p = "\<lparr> op_txid = replicate 32 1, op_vout = 0 \<rparr>"
  let ?v = "[?p \<mapsto> \<lparr> pv_script_hash = example_owner, pv_value = 50 \<rparr>]"
  have p: "wf_outpoint ?p" by (simp add: wf_outpoint_def wf_hash_def)
  have tbl: "finite (dom (db_transfers two_transfers))"
    "\<And>k. k \<in> dom (db_transfers two_transfers) \<Longrightarrow> wf_address_location k"
    using rest_example_wf p
    by (auto simp: two_transfers_def db_empty_def wf_address_location_def al_at_def split: if_splits)
  have "map_of (scan_transfers wire_consensus (db_transfers two_transfers) [\<lparr> ao_address = example_owner, ao_outpoint = ?p \<rparr>])
      = load_transfers (db_transfers two_transfers) ?v"
    by (rule transfers_scanned [OF tbl, THEN conjunct1]) (use rest_example_wf p in \<open>auto split: if_splits\<close>)
  then show ?thesis by (simp add: load_transfers_def two_transfers_def al_at_def)
qed

end
