(* ===== verification/PageProps.thy ===== *)
theory PageProps
  imports RestProps
begin

text \<open>
  The pages of the holders of a token, and the text of an inscription id.
\<close>

section \<open>Pages\<close>

lemma concat_chunks: "concat (map (\<lambda>p. take n (drop (p * n) xs)) [0..<k]) = take (k * n) xs"
proof (induction k)
  case (Suc k)
  then show ?case using take_add [of "k * n" n xs] by (simp add: add.commute)
qed simp

lemma div_ceil_covers: "0 < n \<Longrightarrow> m \<le> div_ceil m n * n"
proof -
  assume n: "0 < n"
  have "(m + n - 1) div n * n = m + n - 1 - (m + n - 1) mod n" by (simp add: minus_mod_eq_div_mult)
  moreover have "(m + n - 1) mod n < n" using n by simp
  ultimately show ?thesis unfolding div_ceil_def by linarith
qed

lemma div_ceil_before: "0 < n \<Longrightarrow> p < div_ceil m n \<Longrightarrow> p * n < m"
proof -
  assume n: "0 < n" and p: "p < div_ceil m n"
  then have "Suc p * n \<le> (m + n - 1) div n * n" unfolding div_ceil_def by (intro mult_right_mono) simp_all
  also have "\<dots> \<le> m + n - 1" by simp
  finally show ?thesis using n by simp
qed

lemma page_of_word:
  assumes "p * unat n < 2 ^ 64"
  shows "page_of (word_of_nat (Suc p)) n xs = take (unat n) (drop (p * unat n) xs)"
proof -
  have n: "(word_of_nat (Suc p) - 1) * n = word_of_nat (p * unat n)" by simp
  have "unat (word_of_nat (p * unat n) :: u64) = p * unat n"
    unfolding unat_of_nat using assms by (intro mod_less) simp
  then show ?thesis unfolding page_of_def n by simp
qed

lemma pages_cover:
  assumes "0 < n" and "length xs < 2 ^ 64"
  shows "concat (map (\<lambda>p. page_of (word_of_nat (Suc p)) n xs) [0..<div_ceil (length xs) (unat n)]) = xs"
proof -
  have n: "0 < unat n" using assms(1) by (simp add: word_less_nat_alt)
  have "page_of (word_of_nat (Suc p)) n xs = take (unat n) (drop (p * unat n) xs)"
    if "p \<in> set [0..<div_ceil (length xs) (unat n)]" for p
    using div_ceil_before [OF n, of p "length xs"] that assms(2) by (intro page_of_word) simp
  then have "map (\<lambda>p. page_of (word_of_nat (Suc p)) n xs) [0..<div_ceil (length xs) (unat n)]
      = map (\<lambda>p. take (unat n) (drop (p * unat n) xs)) [0..<div_ceil (length xs) (unat n)]"
    by (rule map_cong [OF refl])
  then show ?thesis using div_ceil_covers [OF n, of "length xs"] by (simp only: concat_chunks take_all)
qed

lemma map_response_total:
  "(\<And>x. x \<in> set xs \<Longrightarrow> f x = Inr (g x)) \<Longrightarrow> map_response f xs = Inr (map g xs)"
  by (induction xs) simp_all

section \<open>The pages of the holders\<close>

text \<open>A client that asks for all the pages the first answer announces.\<close>

definition all_pages :: "rest_env \<Rightarrow> db \<Rightarrow> holders \<Rightarrow> u64 \<Rightarrow> tick \<Rightarrow> rest_holder list response" where
  "all_pages E d H page_size t =
     rbind (rest_holders E d H \<lparr> hq_page_size = page_size, hq_page = 1, hq_tick = t \<rparr>) (\<lambda>first.
     rbind (map_response (\<lambda>p. rbind (rest_holders E d H
         \<lparr> hq_page_size = page_size, hq_page = word_of_nat (Suc p), hq_tick = t \<rparr>) (\<lambda>r. Inr (rhs_holders r)))
       [0..<rhs_pages first]) (\<lambda>ps. Inr (concat ps)))"

text \<open>C34.  The pages of the holders of a token together show every address with a balance of the token once, ranked
  from one by decreasing balance, equal balances by decreasing script hash, as the account table has them.\<close>

theorem holders_pages:
  assumes meta: "db_token_to_meta d (lower_of_rest_tick (re_lower E) t) = Some m"
    and H: "holders_ok (db_balances d) H" "ho_balances H (dp_tick (tm_proto m)) \<noteq> None"
    and fin: "finite (dom (db_balances d))" "card (holders_of (db_balances d) (dp_tick (tm_proto m))) < 2 ^ 64 - 1"
    and page_size: "1 \<le> page_size" "page_size \<le> 20"
    and percent: "\<And>x. percent_of E x (dp_supply (tm_proto m)) = Inr (pct x)"
  shows "\<exists>rs. distinct rs \<and> set rs = holders_of (db_balances d) (dp_tick (tm_proto m)) \<and> sorted_wrt (\<lambda>a b. b < a) rs
    \<and> all_pages E d H page_size t = Inr (map (\<lambda>(i, n, h). \<lparr> rhd_rank = i + 1,
        rhd_address = fullhash_to_address_str (re_sha E) h (db_addresses d h),
        rhd_balance = re_show E n, rhd_percent = re_show E (pct n) \<rparr>) (enumerate 0 rs))"
proof -
  let ?t = "dp_tick (tm_proto m)"
  let ?S = "holders_of (db_balances d) ?t"
  let ?rs = "rev (sorted_list_of_set ?S)" and ?f = "\<lambda>(i :: nat, n, h). \<lparr> rhd_rank = i + 1,
        rhd_address = fullhash_to_address_str (re_sha E) h (db_addresses d h),
        rhd_balance = re_show E n, rhd_percent = re_show E (pct n) \<rparr>"
  obtain s where s: "ho_balances H ?t = Some s" using H(2) by blast
  with H(1) have "s = ?S" unfolding holders_ok_def by (metis option.simps(5))
  with s have data: "get_holders H ?t = Some ?S" by (simp add: get_holders_def)
  note f = finite_holders_of [OF fin(1), of ?t]
  have page: "rest_holders E d H \<lparr> hq_page_size = page_size, hq_page = p, hq_tick = t \<rparr>
      = Inr \<lparr> rhs_pages = div_ceil (card ?S) (unat page_size), rhs_count = card ?S,
          rhs_max_percent = re_show E (if ?rs = [] then 0 else pct (fst (hd ?rs))),
          rhs_holders = map ?f (page_of p page_size (enumerate 0 ?rs)) \<rparr>" if "1 \<le> p" for p
  proof -
    have "map_response (rest_holder_of E d (dp_supply (tm_proto m))) xs = Inr (map ?f xs)" for xs
      by (rule map_response_total) (auto simp: rest_holder_of_def percent)
    then show ?thesis
      using that page_size by (simp add: rest_holders_def require_def ok_or_def meta data Let_def percent)
  qed
  have len: "length (enumerate 0 ?rs) = card ?S" by simp
  have "all_pages E d H page_size t
      = Inr (concat (map (\<lambda>p. map ?f (page_of (word_of_nat (Suc p)) page_size (enumerate 0 ?rs)))
          [0..<div_ceil (card ?S) (unat page_size)]))"
  proof -
    have "1 \<le> (word_of_nat (Suc p) :: u64)" if "p < div_ceil (card ?S) (unat page_size)" for p
    proof -
      have "p * unat page_size < card ?S" "0 < unat page_size"
        using div_ceil_before [OF _ that] page_size(1) by (simp_all add: word_le_nat_alt)
      then have "p < card ?S" by (metis less_le_trans mult.right_neutral mult_le_mono2 Suc_leI One_nat_def not_less)
      then have "unat (word_of_nat (Suc p) :: u64) = Suc p" using fin(2) by (simp add: unat_of_nat del: of_nat_Suc)
      then show ?thesis by (simp add: word_le_nat_alt del: of_nat_Suc)
    qed
    then have "map_response (\<lambda>p. rbind (rest_holders E d H \<lparr> hq_page_size = page_size, hq_page = word_of_nat (Suc p), hq_tick = t \<rparr>)
          (\<lambda>r. Inr (rhs_holders r))) [0..<div_ceil (card ?S) (unat page_size)]
        = Inr (map (\<lambda>p. map ?f (page_of (word_of_nat (Suc p)) page_size (enumerate 0 ?rs))) [0..<div_ceil (card ?S) (unat page_size)])"
      by (intro map_response_total) (simp add: page del: of_nat_Suc)
    then show ?thesis by (simp add: all_pages_def page del: of_nat_Suc)
  qed
  also have "\<dots> = Inr (map ?f (enumerate 0 ?rs))"
    using arg_cong [OF pages_cover [of page_size "enumerate 0 ?rs"], of "map ?f"] page_size(1) fin(2)
    by (simp add: map_concat comp_def word_le_nat_alt word_less_nat_alt len del: of_nat_Suc)
  finally show ?thesis
    using f by (intro exI [of _ ?rs]) (simp add: sorted_wrt_rev)
qed

definition long_tick :: tick where
  "long_tick = [119, 111, 106, 97, 107, 99, 111, 105]"

definition held_db :: db where
  "held_db = db_empty\<lparr>
     db_token_to_meta := [long_tick \<mapsto> example_meta\<lparr> tm_proto := (tm_proto example_meta)\<lparr> dp_tick := long_tick \<rparr> \<rparr>],
     db_balances := [\<lparr> at_address = example_owner, at_token = long_tick \<rparr> \<mapsto> example_account] \<rparr>"

definition held_holders :: holders where
  "held_holders = \<lparr> ho_balances = [long_tick \<mapsto> {(10, example_owner)}], ho_stats = [long_tick \<mapsto> 1] \<rparr>"

theorem holders_pages_witness:
  "\<exists>r. all_pages example_rest held_db held_holders 5 long_tick = Inr [r] \<and> rhd_rank r = 1 \<and> rhd_balance r = decimal 10"
proof -
  let ?m = "example_meta\<lparr> tm_proto := (tm_proto example_meta)\<lparr> dp_tick := long_tick \<rparr> \<rparr>"
  have meta: "db_token_to_meta held_db (lower_of_rest_tick (re_lower example_rest) long_tick) = Some ?m"
    by (simp add: held_db_def lower_of_rest_tick_def example_rest_def long_tick_def ascii_lower_def)
  have of: "holders_of (db_balances held_db) t = (if t = long_tick then {(10, example_owner)} else {})" for t
    by (auto simp: holders_of_def held_db_def example_account_def holding_def split: if_splits)
  then have ok: "holders_ok (db_balances held_db) held_holders"
    by (simp add: holders_ok_def held_holders_def)
  have tick: "dp_tick (tm_proto ?m) = long_tick" by simp
  have "percent_of example_rest x (dp_supply (tm_proto ?m)) = Inr (x * 100 div 10 * 100 div 100)" for x
    by (simp add: percent_of_def ok_or_def example_rest_def example_fx_def example_meta_def)
  from holders_pages [OF meta ok _ _ _ _ _ this, of 5, unfolded tick of]
  obtain rs where rs: "distinct rs" "set rs = {(10, example_owner)}"
    "all_pages example_rest held_db held_holders 5 long_tick = Inr (map (\<lambda>(i, n, h). \<lparr> rhd_rank = i + 1,
        rhd_address = fullhash_to_address_str (re_sha example_rest) h (db_addresses held_db h),
        rhd_balance = re_show example_rest n, rhd_percent = re_show example_rest (n * 100 div 10 * 100 div 100) \<rparr>) (enumerate 0 rs))"
    by (auto simp: held_holders_def held_db_def)
  from rs(1, 2) have "rs = [(10, example_owner)]"
    by (cases rs; cases "tl rs") auto
  with rs(3) show ?thesis by (simp add: example_rest_def)
qed

section \<open>Inscription ids\<close>

text \<open>What the library promises of transaction ids: 64 ASCII characters, which it parses back.\<close>

definition txid_text_ok :: "txid_text \<Rightarrow> bool" where
  "txid_text_ok X \<longleftrightarrow> (\<forall>t. wf_hash t \<longrightarrow> length (tt_show X t) = 64 \<and> (\<forall>b \<in> set (tt_show X t). b < 128)
     \<and> tt_parse X (tt_show X t) = Some t)"

text \<open>An inscription id is read back from its text; a text without the separator at its place, or with more than
  an index after it, is refused.\<close>

lemma inscription_id_roundtrip:
  assumes "txid_text_ok X" and "wf_hash (iid_txid i)"
  shows "parse_inscription_id X (show_inscription_id X i) = Inr i
    \<and> parse_inscription_id X (tt_show X (iid_txid i) @ [105] @ show_u32 (iid_index i) @ [105]) = Inl PeIndex
    \<and> (b < 128 \<and> b \<noteq> 105 \<longrightarrow>
        parse_inscription_id X (tt_show X (iid_txid i) @ [b] @ show_u32 (iid_index i)) = Inl (PeSeparator b))"
proof -
  let ?t = "tt_show X (iid_txid i)" and ?n = "show_u32 (iid_index i)"
  have t: "length ?t = 64" "\<forall>b \<in> set ?t. \<not> 128 \<le> b" "tt_parse X ?t = Some (iid_txid i)"
    using assms by (simp_all add: txid_text_ok_def not_le)
  have n: "\<forall>b \<in> set ?n. \<not> 128 \<le> b" "?n \<noteq> []"
    using show_u32_ascii by (auto simp: not_le show_u32_def decimal_not_Nil)
  then have len: "1 \<le> length ?n" by (cases ?n) simp_all
  have cut: "(?t @ c # y) ! 64 = c" "take 64 (?t @ c # y) = ?t" "drop 65 (?t @ c # y) = y" for c y
    using t(1) by (simp_all add: nth_append)
  have "\<not> (\<exists>b \<in> set (?t @ c # y). 128 \<le> b)" if "c < 128" "\<forall>b \<in> set y. \<not> 128 \<le> b" for c y
    using that t(2) by (auto simp: not_le)
  then have parse: "parse_inscription_id X (?t @ c # y) = (if c \<noteq> 105 then Inl (PeSeparator c)
      else (case parse_u32 y of None \<Rightarrow> Inl PeIndex | Some n \<Rightarrow> Inr \<lparr> iid_txid = iid_txid i, iid_index = n \<rparr>))"
    if "c < 128" "\<forall>b \<in> set y. \<not> 128 \<le> b" "y \<noteq> []" for c y
    using that t(1, 3) cut by (simp add: parse_inscription_id_def)
  have "parse_u32 (?n @ [105]) = None"
    using parse_shown [OF unat_u32_less [of "iid_index i"], of "[105]"]
    by (simp add: parse_u32_def show_u32_def digit_def)
  then have "parse_inscription_id X (?t @ 105 # ?n @ [105]) = Inl PeIndex"
    using parse [of 105 "?n @ [105]"] n by simp
  moreover have "parse_inscription_id X (?t @ 105 # ?n) = Inr i"
    using parse [of 105 ?n] n len by (simp add: parse_show_u32)
  moreover have "parse_inscription_id X (?t @ b # ?n) = Inl (PeSeparator b)" if "b < 128 \<and> b \<noteq> 105"
    using parse [of b ?n] that n len by simp
  ultimately show ?thesis by (simp add: show_inscription_id_def)
qed

end
