(* ===== verification/Address.thy ===== *)
theory Address
  imports Scripts
begin

text \<open>
  Addresses (\<open>packages/new-blk-parser/src/blockchain/proto/script.rs\<close>): the pattern and the address of an output
  script, and the script hash an address stands for.

  The tests on scripts, the payloads of addresses and their encodings are the script library's, the parameter
  \<open>address_lib\<close>.  Texts are their UTF-8 bytes.
\<close>

section \<open>The library\<close>

text \<open>\<open>Payload\<close>, with a witness program as its version and its bytes.\<close>

datatype payload = PubkeyHash bytes | ScriptHash bytes | WitnessProgram nat bytes

record address_lib =
  al_is_op_return :: "bytes \<Rightarrow> bool"
  al_return_or_illegal :: "u8 \<Rightarrow> bool"
  al_is_p2pk :: "bytes \<Rightarrow> bool"
  al_is_p2pkh :: "bytes \<Rightarrow> bool"
  al_is_p2sh :: "bytes \<Rightarrow> bool"
  al_is_p2wpkh :: "bytes \<Rightarrow> bool"
  al_is_p2wsh :: "bytes \<Rightarrow> bool"
  al_is_p2tr :: "bytes \<Rightarrow> bool"
  al_is_witness_program :: "bytes \<Rightarrow> bool"
  al_instructions :: "bytes \<Rightarrow> instruction option list"
  al_key_payload :: "bytes \<Rightarrow> payload option"
  al_from_script :: "bytes \<Rightarrow> payload option"
  al_script_pubkey :: "payload \<Rightarrow> bytes"
  al_encode :: "payload \<Rightarrow> u8 \<Rightarrow> u8 \<Rightarrow> bytes \<Rightarrow> bytes"
  al_bech32_decode :: "bytes \<Rightarrow> (u8 list \<times> bool) option"
  al_witness_version :: "u8 \<Rightarrow> nat option"
  al_from_base32 :: "u8 list \<Rightarrow> bytes option"
  al_program_ok :: "nat \<Rightarrow> bytes \<Rightarrow> bool"
  al_variant :: "nat \<Rightarrow> bool"
  al_base58_check :: "bytes \<Rightarrow> bytes option"
  al_sha256 :: "bytes \<Rightarrow> hash32"
  al_hex :: "bytes \<Rightarrow> bytes option"

section \<open>The address of a script\<close>

datatype script_error = UnexpectedEof | InvalidFormat

datatype script_pattern =
    OpReturn bytes
  | Pay2MultiSig
  | Pay2PublicKey
  | Pay2PublicKeyHash
  | Pay2ScriptHash
  | Pay2WitnessPublicKeyHash
  | Pay2WitnessScriptHash
  | WitnessProgramPattern
  | Pay2Taproot
  | Unspendable
  | NotRecognised
  | ScriptError script_error

text \<open>\<open>Display\<close>\<close>

definition script_error_text :: "script_error \<Rightarrow> string" where
  "script_error_text e =
     (case e of UnexpectedEof \<Rightarrow> ''Unexpected EOF'' | InvalidFormat \<Rightarrow> ''Invalid Script format'')"

definition script_pattern_text :: "script_pattern \<Rightarrow> string" where
  "script_pattern_text p =
     (case p of
        OpReturn _ \<Rightarrow> ''OpReturn''
      | Pay2MultiSig \<Rightarrow> ''Pay2MultiSig''
      | Pay2PublicKey \<Rightarrow> ''Pay2PublicKey''
      | Pay2PublicKeyHash \<Rightarrow> ''Pay2PublicKeyHash''
      | Pay2ScriptHash \<Rightarrow> ''Pay2ScriptHash''
      | Pay2WitnessPublicKeyHash \<Rightarrow> ''Pay2WitnessPublicKeyHash''
      | Pay2WitnessScriptHash \<Rightarrow> ''Pay2WitnessScriptHash''
      | WitnessProgramPattern \<Rightarrow> ''WitnessProgram''
      | Pay2Taproot \<Rightarrow> ''Pay2Taproot''
      | Unspendable \<Rightarrow> ''Unspendable''
      | NotRecognised \<Rightarrow> ''NotRecognised''
      | ScriptError e \<Rightarrow> ''ScriptError: '' @ script_error_text e)"

record evaluated_script =
  es_address :: "bytes option"
  es_pattern :: script_pattern

definition is_provable_unspendable :: "address_lib \<Rightarrow> bytes \<Rightarrow> bool" where
  "is_provable_unspendable A script =
     (case script of [] \<Rightarrow> False | b # _ \<Rightarrow> al_return_or_illegal A b)"

definition payload_to_address_str :: "address_lib \<Rightarrow> payload \<Rightarrow> coin_type \<Rightarrow> bytes" where
  "payload_to_address_str A p coin =
     al_encode A p (ct_pubkey_address coin) (ct_script_address coin) (str_bytes (ct_bech32 coin))"

definition script_to_address_str :: "address_lib \<Rightarrow> bytes \<Rightarrow> coin_type \<Rightarrow> bytes option" where
  "script_to_address_str A script coin =
     map_option (\<lambda>p. payload_to_address_str A p coin) (al_from_script A script)"

text \<open>The outer \<open>None\<close> is the \<open>unreachable!()\<close> on a script that does not start with a push.\<close>

definition p2pk_to_string :: "address_lib \<Rightarrow> bytes \<Rightarrow> coin_type \<Rightarrow> bytes option option" where
  "p2pk_to_string A script coin =
     (case al_instructions A script of
        Some (PushBytes pk) # _ \<Rightarrow> Some (map_option (\<lambda>p. payload_to_address_str A p coin) (al_key_payload A pk))
      | None # _ \<Rightarrow> Some None
      | _ \<Rightarrow> None)"

definition eval_from_bytes :: "address_lib \<Rightarrow> bytes \<Rightarrow> coin_type \<Rightarrow> evaluated_script option" where
  "eval_from_bytes A script coin =
     (let script_new = (\<lambda>a p. Some \<lparr> es_address = a, es_pattern = p \<rparr>);
          address = script_to_address_str A script coin in
      if al_is_op_return A script
      then (let data = drop 2 script in script_new None (OpReturn (if valid_utf8 data then data else [])))
      else if is_provable_unspendable A script then script_new None Unspendable
      else if al_is_p2pk A script
      then Option.bind (p2pk_to_string A script coin) (\<lambda>a. script_new a Pay2PublicKey)
      else if al_is_p2pkh A script then script_new address Pay2PublicKeyHash
      else if al_is_p2sh A script then script_new address Pay2ScriptHash
      else if al_is_p2wpkh A script then script_new address Pay2WitnessPublicKeyHash
      else if al_is_p2wsh A script then script_new address Pay2WitnessScriptHash
      else if al_is_p2tr A script then script_new address Pay2Taproot
      else if al_is_witness_program A script then script_new address WitnessProgramPattern
      else script_new address NotRecognised)"

section \<open>The script hash of an address\<close>

datatype address_error =
    AeBech32
  | AeEmptyPayload
  | AeWitnessVersion
  | AeBase32
  | AeWitnessProgram
  | AeVariant
  | AeLength
  | AeBase58
  | AeVersion
  | AeHex
  | AeHashLength

text \<open>\<open>address.rfind('1')\<close>\<close>

definition is_bech32 :: "bytes \<Rightarrow> coin_type \<Rightarrow> bool" where
  "is_bech32 address coin =
     (case rposition (\<lambda>b. b = 49) address of
        None \<Rightarrow> False | Some i \<Rightarrow> take i address = str_bytes (ct_bech32 coin))"

definition address_to_payload :: "address_lib \<Rightarrow> bytes \<Rightarrow> coin_type \<Rightarrow> address_error + payload" where
  "address_to_payload A address coin =
     (if is_bech32 address coin
      then (case al_bech32_decode A address of
          None \<Rightarrow> Inl AeBech32
        | Some ([], variant) \<Rightarrow> Inl AeEmptyPayload
        | Some (v # p5, variant) \<Rightarrow>
            (case al_witness_version A v of
               None \<Rightarrow> Inl AeWitnessVersion
             | Some version \<Rightarrow>
            (case al_from_base32 A p5 of
               None \<Rightarrow> Inl AeBase32
             | Some program \<Rightarrow>
                 if \<not> al_program_ok A version program then Inl AeWitnessProgram
                 else if al_variant A version \<noteq> variant then Inl AeVariant
                 else Inr (WitnessProgram version program))))
      else if 50 < length address then Inl AeLength
      else (case al_base58_check A address of
          None \<Rightarrow> Inl AeBase58
        | Some data \<Rightarrow>
            if length data \<noteq> 21 then Inl AeLength
            else if hd data = ct_pubkey_address coin then Inr (PubkeyHash (tl data))
            else if hd data = ct_script_address coin then Inr (ScriptHash (tl data))
            else Inl AeVersion))"

datatype script_type = AddressType | ScriptHashType

definition address_to_fullhash ::
  "address_lib \<Rightarrow> bytes \<Rightarrow> script_type \<Rightarrow> coin_type \<Rightarrow> address_error + hash32" where
  "address_to_fullhash A address t coin =
     (case t of
        AddressType \<Rightarrow> Sum_Type.map_sum id (\<lambda>p. al_sha256 A (al_script_pubkey A p)) (address_to_payload A address coin)
      | ScriptHashType \<Rightarrow>
          (case al_hex A address of
             None \<Rightarrow> Inl AeHex
           | Some b \<Rightarrow> if length b \<noteq> 32 then Inl AeHashLength else Inr b))"

text \<open>\<open>Indexer::to_scripthash\<close>\<close>

definition to_scripthash :: "address_lib \<Rightarrow> coin_type \<Rightarrow> bytes \<Rightarrow> script_type \<Rightarrow> address_error + hash32" where
  "to_scripthash A coin address t = address_to_fullhash A address t coin"

section \<open>What the library promises\<close>

text \<open>The payload of a script gives the script back.  The address of a key or script hash is base58 with a
  checksum, decodes to the prefix and the 20 bytes of the hash, and does not look like a bech32 address of
  the coin.  The address of a witness program is the human readable part, a separator, and characters other
  than the separator; it decodes to the version, the program in groups of five bits and the encoding of the
  version.\<close>

definition address_lib_ok :: "address_lib \<Rightarrow> coin_type \<Rightarrow> payload \<Rightarrow> bool" where
  "address_lib_ok A coin p \<longleftrightarrow>
     (case p of
        PubkeyHash h \<Rightarrow> length h = 20
          \<and> \<not> is_bech32 (payload_to_address_str A p coin) coin \<and> length (payload_to_address_str A p coin) \<le> 50
          \<and> al_base58_check A (payload_to_address_str A p coin) = Some (ct_pubkey_address coin # h)
      | ScriptHash h \<Rightarrow> length h = 20 \<and> ct_script_address coin \<noteq> ct_pubkey_address coin
          \<and> \<not> is_bech32 (payload_to_address_str A p coin) coin \<and> length (payload_to_address_str A p coin) \<le> 50
          \<and> al_base58_check A (payload_to_address_str A p coin) = Some (ct_script_address coin # h)
      | WitnessProgram v b \<Rightarrow>
          (\<exists>chars w p5. payload_to_address_str A p coin = str_bytes (ct_bech32 coin) @ [49] @ chars \<and> 49 \<notin> set chars
             \<and> al_bech32_decode A (payload_to_address_str A p coin) = Some (w # p5, al_variant A v)
             \<and> al_witness_version A w = Some v \<and> al_from_base32 A p5 = Some b \<and> al_program_ok A v b))"

lemma rposition_none: "(\<forall>x \<in> set xs. \<not> p x) \<Longrightarrow> rposition p xs = None"
  by (induction xs) auto

lemma rposition_append: "(\<forall>x \<in> set ys. \<not> p x) \<Longrightarrow> p y \<Longrightarrow> rposition p (xs @ y # ys) = Some (length xs)"
  by (induction xs) (simp_all add: rposition_none)

lemma bech32_address: "49 \<notin> set chars \<Longrightarrow> is_bech32 (str_bytes (ct_bech32 coin) @ [49] @ chars) coin"
proof -
  assume "49 \<notin> set chars"
  then have "\<forall>x \<in> set chars. \<not> x = 49" by auto
  from rposition_append [OF this refl] show ?thesis by (simp add: is_bech32_def)
qed

text \<open>An address is decoded to the payload it was made of.\<close>

lemma address_payload:
  assumes "address_lib_ok A coin p"
  shows "address_to_payload A (payload_to_address_str A p coin) coin = Inr p"
proof (cases p)
  case (WitnessProgram v b)
  with assms obtain chars w p5 where a: "payload_to_address_str A p coin = str_bytes (ct_bech32 coin) @ [49] @ chars"
    "49 \<notin> set chars" "al_bech32_decode A (payload_to_address_str A p coin) = Some (w # p5, al_variant A v)"
    "al_witness_version A w = Some v" "al_from_base32 A p5 = Some b" "al_program_ok A v b"
    by (auto simp: address_lib_ok_def)
  from bech32_address [OF a(2)] have "is_bech32 (payload_to_address_str A p coin) coin" unfolding a(1) .
  with a(3-6) WitnessProgram show ?thesis by (simp add: address_to_payload_def)
qed (use assms in \<open>simp_all add: address_lib_ok_def address_to_payload_def\<close>)

end
