(* ===== verification/AddressProps.thy ===== *)
theory AddressProps
  imports Address RestProps
begin

text \<open>
  The address under which an owner is shown leads back to the owner.
\<close>

lemma eval_from_bytes_address:
  assumes "eval_from_bytes A s coin = Some \<lparr> es_address = Some a, es_pattern = pat \<rparr>"
  shows "(pat \<noteq> Pay2PublicKey \<longrightarrow> (\<exists>p. al_from_script A s = Some p \<and> a = payload_to_address_str A p coin))
    \<and> (pat = Pay2PublicKey \<longrightarrow> (\<exists>pk r p. al_instructions A s = Some (PushBytes pk) # r \<and> al_key_payload A pk = Some p
        \<and> a = payload_to_address_str A p coin))"
proof -
  have "p2pk_to_string A s coin = Some (Some a) \<Longrightarrow> \<exists>pk r p. al_instructions A s = Some (PushBytes pk) # r
      \<and> al_key_payload A pk = Some p \<and> a = payload_to_address_str A p coin"
    by (auto simp: p2pk_to_string_def split: list.splits option.splits instruction.splits)
  with assms show ?thesis
    by (auto simp: eval_from_bytes_def Let_def script_to_address_str_def bind_eq_Some_conv split: if_splits)
qed

text \<open>A balance of the owner in the table, as the handler looks it up.\<close>

lemma balance_lookup:
  assumes "re_script_hash E a = Some h" and "1 \<le> ba_limit q" and "ba_limit q \<le> 300"
  shows "(case db_balances d \<lparr> at_address = h, at_token = t \<rparr> of
      None \<Rightarrow> address_token_balance E d a t q = Inl NotFound
    | Some b \<Rightarrow> \<exists>r. address_token_balance E d a t q = Inr r \<and> rb_balance r = tb_balance b)"
  using assms by (auto simp: address_token_balance_def require_def ok_or_def split: option.splits)

text \<open>C39.  The address stored for an output script leads back to it: looked up by that address, the REST interface
  shows the balance that the owner of the script has, and says that there is none otherwise.  The exception
  is an output to a public key: its address is the one of the hash of the key, so the balance shown is the
  one of the script that pays to this hash.\<close>

theorem owner_found_by_address:
  assumes eval: "eval_from_bytes A s coin = Some \<lparr> es_address = Some a, es_pattern = pat \<rparr>"
    and script: "\<And>p. al_from_script A s = Some p \<Longrightarrow> al_script_pubkey A p = s \<and> address_lib_ok A coin p"
    and key: "\<And>pk p. al_key_payload A pk = Some p \<Longrightarrow> address_lib_ok A coin p"
    and E: "re_script_hash E = (\<lambda>x. case to_scripthash A coin x AddressType of Inl _ \<Rightarrow> None | Inr h \<Rightarrow> Some h)"
    and q: "1 \<le> ba_limit q" "ba_limit q \<le> 300"
  shows "\<exists>s'. (pat \<noteq> Pay2PublicKey \<longrightarrow> s' = s)
    \<and> (pat = Pay2PublicKey \<longrightarrow> (\<exists>pk r p. al_instructions A s = Some (PushBytes pk) # r \<and> al_key_payload A pk = Some p
        \<and> s' = al_script_pubkey A p))
    \<and> to_scripthash A coin a AddressType = Inr (al_sha256 A s')
    \<and> (case db_balances d \<lparr> at_address = al_sha256 A s', at_token = t \<rparr> of
          None \<Rightarrow> address_token_balance E d a t q = Inl NotFound
        | Some b \<Rightarrow> \<exists>r. address_token_balance E d a t q = Inr r \<and> rb_balance r = tb_balance b)"
proof -
  have found: "to_scripthash A coin (payload_to_address_str A p coin) AddressType = Inr (al_sha256 A (al_script_pubkey A p))"
    if "address_lib_ok A coin p" for p
    using address_payload [OF that] by (simp add: to_scripthash_def address_to_fullhash_def)
  note e = eval_from_bytes_address [OF eval]
  show ?thesis
  proof (cases "pat = Pay2PublicKey")
    case True
    with e obtain pk r p where p: "al_instructions A s = Some (PushBytes pk) # r" "al_key_payload A pk = Some p"
      "a = payload_to_address_str A p coin" by blast
    have h: "to_scripthash A coin a AddressType = Inr (al_sha256 A (al_script_pubkey A p))"
      unfolding p(3) by (rule found [OF key [OF p(2)]])
    then have "re_script_hash E a = Some (al_sha256 A (al_script_pubkey A p))" by (simp add: E)
    from balance_lookup [OF this q] h p True show ?thesis
      by (intro exI [of _ "al_script_pubkey A p"]) simp
  next
    case False
    with e obtain p where p: "al_from_script A s = Some p" "a = payload_to_address_str A p coin" by blast
    have h: "to_scripthash A coin a AddressType = Inr (al_sha256 A s)"
      unfolding p(2) using found script [OF p(1)] by metis
    then have "re_script_hash E a = Some (al_sha256 A s)" by (simp add: E)
    from balance_lookup [OF this q] h False show ?thesis by (intro exI [of _ s]) simp
  qed
qed

text \<open>A library that knows scripts that pay to the hash of a key, with an address that is its own checksum.\<close>

definition pays_key_hash :: "bytes \<Rightarrow> bool" where
  "pays_key_hash s \<longleftrightarrow> length s = 25 \<and> take 3 s = [118, 169, 20] \<and> drop 23 s = [136, 172]"

definition example_lib :: address_lib where
  "example_lib = \<lparr> al_is_op_return = (\<lambda>_. False), al_return_or_illegal = (\<lambda>_. False), al_is_p2pk = (\<lambda>_. False),
     al_is_p2pkh = pays_key_hash, al_is_p2sh = (\<lambda>_. False), al_is_p2wpkh = (\<lambda>_. False), al_is_p2wsh = (\<lambda>_. False),
     al_is_p2tr = (\<lambda>_. False), al_is_witness_program = (\<lambda>_. False), al_instructions = (\<lambda>_. []),
     al_key_payload = (\<lambda>_. None),
     al_from_script = (\<lambda>s. if pays_key_hash s then Some (PubkeyHash (take 20 (drop 3 s))) else None),
     al_script_pubkey = (\<lambda>p. case p of PubkeyHash h \<Rightarrow> [118, 169, 20] @ h @ [136, 172] | _ \<Rightarrow> []),
     al_encode = (\<lambda>p pk sc hrp. case p of PubkeyHash h \<Rightarrow> pk # h | _ \<Rightarrow> []),
     al_bech32_decode = (\<lambda>_. None), al_witness_version = (\<lambda>_. None), al_from_base32 = (\<lambda>_. None),
     al_program_ok = (\<lambda>_ _. False), al_variant = (\<lambda>_. False), al_base58_check = Some,
     al_sha256 = (\<lambda>_. example_owner), al_hex = (\<lambda>_. None) \<rparr>"

lemma example_lib_ok:
  assumes "al_from_script example_lib s = Some p"
  shows "al_script_pubkey example_lib p = s \<and> address_lib_ok example_lib (coin_type_from CWojakcoin) p"
proof -
  from assms have s: "pays_key_hash s" "p = PubkeyHash (take 20 (drop 3 s))"
    by (auto simp: example_lib_def split: if_splits)
  then have "s = [118, 169, 20] @ take 20 (drop 3 s) @ [136, 172]"
    using append_take_drop_id [of 3 s] append_take_drop_id [of 20 "drop 3 s"] by (simp add: pays_key_hash_def)
  moreover have "\<not> is_bech32 (73 # h) (coin_type_from CWojakcoin)" for h
    by (auto simp: is_bech32_def coin_type_from_def str_bytes_def take_Cons split: option.splits nat.splits)
  ultimately show ?thesis
    using s by (simp add: address_lib_ok_def payload_to_address_str_def example_lib_def coin_type_from_def pays_key_hash_def)
qed

theorem owner_found_by_address_witness:
  "\<exists>r. address_token_balance
      (example_rest\<lparr> re_script_hash := (\<lambda>x. case to_scripthash example_lib (coin_type_from CWojakcoin) x AddressType of
          Inl _ \<Rightarrow> None | Inr h \<Rightarrow> Some h) \<rparr>)
      (db_empty\<lparr> db_balances := [example_key \<mapsto> example_account] \<rparr>) (73 # replicate 20 7) example_tick
      \<lparr> ba_offset = None, ba_limit = 10 \<rparr> = Inr r
    \<and> rb_balance r = 6"
proof -
  let ?s = "[118, 169, 20] @ replicate 20 7 @ [136, 172]"
  let ?E = "example_rest\<lparr> re_script_hash := (\<lambda>x. case to_scripthash example_lib (coin_type_from CWojakcoin) x AddressType of
    Inl _ \<Rightarrow> None | Inr h \<Rightarrow> Some h) \<rparr>"
  have "pays_key_hash ?s" by (simp add: pays_key_hash_def)
  then have eval: "eval_from_bytes example_lib ?s (coin_type_from CWojakcoin)
      = Some \<lparr> es_address = Some (73 # replicate 20 7), es_pattern = Pay2PublicKeyHash \<rparr>"
    by (simp add: eval_from_bytes_def example_lib_def is_provable_unspendable_def script_to_address_str_def
        payload_to_address_str_def coin_type_from_def)
  have key: "address_lib_ok example_lib (coin_type_from CWojakcoin) p" if "al_key_payload example_lib pk = Some p" for pk p
    using that by (simp add: example_lib_def)
  have "re_script_hash ?E = (\<lambda>x. case to_scripthash example_lib (coin_type_from CWojakcoin) x AddressType of
    Inl _ \<Rightarrow> None | Inr h \<Rightarrow> Some h)" by simp
  note owner_found_by_address [OF eval example_lib_ok key this, where q = "\<lparr> ba_offset = None, ba_limit = 10 \<rparr>"
      and d = "db_empty\<lparr> db_balances := [example_key \<mapsto> example_account] \<rparr>" and t = example_tick]
  moreover have "al_sha256 example_lib x = example_owner" for x by (simp add: example_lib_def)
  ultimately show ?thesis by (auto simp: example_key_def example_account_def)
qed

end
