(* ===== verification/NodeClient.thy ===== *)
theory NodeClient
  imports Follow
begin

text \<open>
  The client of the node (\<open>packages/new-blk-parser/src/utils/client.rs\<close>) and the follower of \<open>lib.rs\<close> over it.

  The node is outside the program: a \<open>daemon\<close> gives its reply to the \<open>n\<close>-th request.  A reply is a value, an
  error of the node or of the decoding of its result, or a request that was not sent or not answered.  The
  client counts the requests and holds the token of the server, which it cancels when it gives up.
\<close>

section \<open>Credentials\<close>

datatype auth = AuthNone | UserPass bytes bytes | CookieFile string

datatype client_error =
    CeFileDoesntExists
  | CeInvalidCookieFile
  | CeClient
  | CeInvalidParams
  | CeFailedRequest
  | CeInvalidBlockHex
  | CeDeserializeBlock
  | CeCancelled

text \<open>\<open>BufRead::lines\<close>: up to the first line feed, without it and a carriage return before it; a line that is
  not UTF-8 is an error of the reader.\<close>

definition first_line :: "bytes \<Rightarrow> bytes option option" where
  "first_line content =
     (if content = [] then None
      else (let line = takeWhile (\<lambda>b. b \<noteq> 10) content;
                line = (if 10 \<in> set content \<and> line \<noteq> [] \<and> last line = 13 then butlast line else line)
            in Some (if valid_utf8 line then Some line else None)))"

text \<open>\<open>Auth::get_user_pass\<close>, over the contents of the files that can be opened.\<close>

definition get_user_pass ::
  "(string \<rightharpoonup> bytes) \<Rightarrow> auth \<Rightarrow> client_error + (bytes option \<times> bytes option)" where
  "get_user_pass files a =
     (case a of
        AuthNone \<Rightarrow> Inr (None, None)
      | UserPass u p \<Rightarrow> Inr (Some u, Some p)
      | CookieFile path \<Rightarrow>
          (case files path of
             None \<Rightarrow> Inl CeFileDoesntExists
           | Some content \<Rightarrow>
               (case first_line content of
                  None \<Rightarrow> Inl CeInvalidCookieFile
                | Some None \<Rightarrow> Inl CeFileDoesntExists
                | Some (Some line) \<Rightarrow>
                    if 58 \<in> set line
                    then (let colon = length (takeWhile (\<lambda>b. b \<noteq> 58) line)
                          in Inr (Some (take colon line), Some (drop (colon + 1) line)))
                    else Inl CeInvalidCookieFile)))"

section \<open>Requests\<close>

datatype 'a reply = Answer 'a | Refused | Unsent

text \<open>\<open>GetBlockResult\<close>; the difficulty is the bits of the number.\<close>

record get_block_result =
  gb_hash :: hash32
  gb_confirmations :: i32
  gb_size :: u64
  gb_strippedsize :: "u64 option"
  gb_weight :: "u64 option"
  gb_height :: u64
  gb_version :: i32
  gb_time :: u64
  gb_mediantime :: "u64 option"
  gb_nonce :: u32
  gb_bits :: bytes
  gb_difficulty :: u64
  gb_previousblockhash :: "hash32 option"
  gb_nextblockhash :: "hash32 option"

record daemon =
  dm_block :: "nat \<Rightarrow> hash32 \<Rightarrow> bytes reply"
  dm_info :: "nat \<Rightarrow> hash32 \<Rightarrow> get_block_result reply"
  dm_hash :: "nat \<Rightarrow> u64 \<Rightarrow> hash32 reply"
  dm_best :: "nat \<Rightarrow> hash32 reply"

record client =
  cl_requests :: nat
  cl_cancelled :: bool

text \<open>\<open>Client::new\<close>; \<open>accepts\<close> tells whether the HTTP library takes the address and the credentials.\<close>

definition client_new ::
  "(bytes \<Rightarrow> bytes option \<times> bytes option \<Rightarrow> bool) \<Rightarrow> (string \<rightharpoonup> bytes) \<Rightarrow> bytes \<Rightarrow> auth \<Rightarrow> bool \<Rightarrow>
     client_error + client" where
  "client_new accepts files url a token =
     (case get_user_pass files a of
        Inl e \<Rightarrow> Inl e
      | Inr user_pass \<Rightarrow>
          if accepts url user_pass then Inr \<lparr> cl_requests = 0, cl_cancelled = token \<rparr> else Inl CeClient)"

text \<open>\<open>Client::call\<close>: the \<open>for\<close> loop and what follows it.\<close>

fun tries :: "nat \<Rightarrow> (nat \<Rightarrow> 'a reply) \<Rightarrow> client \<Rightarrow> (client_error + 'a) \<times> client" where
  "tries 0 send_request c = (Inl CeCancelled, c\<lparr> cl_cancelled := True \<rparr>)"
| "tries (Suc n) send_request c =
     (let sent = c\<lparr> cl_requests := cl_requests c + 1 \<rparr> in
      case send_request (cl_requests c) of
        Answer v \<Rightarrow> (Inr v, sent)
      | Refused \<Rightarrow> tries n send_request sent
      | Unsent \<Rightarrow> tries n send_request sent)"

definition client_call :: "(nat \<Rightarrow> 'a reply) \<Rightarrow> client \<Rightarrow> (client_error + 'a) \<times> client" where
  "client_call send_request c = tries 10 send_request c"

text \<open>The client decodes the hexadecimal digits with library code, \<open>dc_hex\<close>, and the block with the coin.\<close>

record decoding =
  dc_wire :: wire_ops
  dc_hex :: "bytes \<Rightarrow> bytes option"

definition client_get_block ::
  "decoding \<Rightarrow> daemon \<Rightarrow> hash32 \<Rightarrow> client \<Rightarrow> (client_error + block) \<times> client" where
  "client_get_block C D h c =
     (case client_call (\<lambda>n. dm_block D n h) c of
        (Inl e, c) \<Rightarrow> (Inl e, c)
      | (Inr block_hex, c) \<Rightarrow>
          (case dc_hex C block_hex of
             None \<Rightarrow> (Inl CeInvalidBlockHex, c)
           | Some block_bytes \<Rightarrow>
               (case read_block (dc_wire C) 0 block_bytes of
                  None \<Rightarrow> (Inl CeDeserializeBlock, c)
                | Some (b, _) \<Rightarrow> (Inr b, c))))"

definition client_get_block_info ::
  "daemon \<Rightarrow> hash32 \<Rightarrow> client \<Rightarrow> (client_error + get_block_result) \<times> client" where
  "client_get_block_info D h c = client_call (\<lambda>n. dm_info D n h) c"

definition client_get_block_hash :: "daemon \<Rightarrow> u64 \<Rightarrow> client \<Rightarrow> (client_error + hash32) \<times> client" where
  "client_get_block_hash D height c = client_call (\<lambda>n. dm_hash D n height) c"

definition client_get_best_block_hash :: "daemon \<Rightarrow> client \<Rightarrow> (client_error + hash32) \<times> client" where
  "client_get_best_block_hash D c = client_call (dm_best D) c"

section \<open>Following over the client\<close>

text \<open>The loops of \<open>Follow\<close> with the calls as the client makes them.  \<open>opened\<close> tells whether the receiver of the
  blocks is still there after so many requests; a walk that ends with \<open>None\<close> goes on.\<close>

record walk =
  wk_client :: client
  wk_checkpoint :: checkpoint
  wk_last_hash :: hash32

type_synonym walk_result = "block_event list \<times> follow_end option \<times> walk"

function client_send :: "decoding \<Rightarrow> daemon \<Rightarrow> (nat \<Rightarrow> bool) \<Rightarrow> u64 \<Rightarrow> u64 \<Rightarrow> walk \<Rightarrow> walk_result" where
  "client_send C D opened best_height reorg_counter w =
     (let cp = wk_checkpoint w; next_height = cp_height cp + 1 in
      if \<not> cp_height cp < best_height then ([], None, w)
      else case client_get_block_hash D next_height (wk_client w) of
        (Inl _, c) \<Rightarrow> ([], Some FoPanic, w\<lparr> wk_client := c \<rparr>)
      | (Inr next_hash, c) \<Rightarrow>
      (case client_get_block C D next_hash c of
         (Inl _, c) \<Rightarrow> ([], Some FoPanic, w\<lparr> wk_client := c \<rparr>)
       | (Inr b, c) \<Rightarrow>
           if bh_prev_hash (hd_value (blk_header b)) \<noteq> cp_hash cp
           then ([], None, w\<lparr> wk_client := c \<rparr>)
           else (case check_ordering (wk_last_hash w) (blk_header b) of
             None \<Rightarrow> ([], Some FoPanic, w\<lparr> wk_client := c \<rparr>)
           | Some last_hash \<Rightarrow>
               if \<not> opened (cl_requests c) then ([], Some FoClosed, w\<lparr> wk_client := c \<rparr>)
               else (let event = \<lparr> be_height = next_height, be_hash = next_hash, be_block = b,
                           be_reorg_len = reorg_counter, be_tip = best_height \<rparr>
                     in case cp_insert (block_id_at next_height next_hash) cp of
                          None \<Rightarrow> ([event], Some FoPanic, w\<lparr> wk_client := c \<rparr>)
                        | Some cp' \<Rightarrow>
                            (let r = client_send C D opened best_height 0
                               \<lparr> wk_client = c, wk_checkpoint = cp', wk_last_hash = last_hash \<rparr>
                             in (event # fst r, snd r))))))"
  by pat_completeness auto

termination
  by (relation "measure (\<lambda>(C, D, opened, m, r, w). unat m - unat (cp_height (wk_checkpoint w)))")
    (simp_all add: cp_insert_closer)

declare client_send.simps [simp del]

fun client_drop ::
  "daemon \<Rightarrow> u64 \<Rightarrow> u64 \<Rightarrow> client \<Rightarrow> checkpoint \<Rightarrow> hash32 \<Rightarrow> client \<times> (u64 \<times> checkpoint \<times> hash32) option"
where
  "client_drop D max_len reorg_counter c (CheckPoint b p) last_hash =
     (if max_len < reorg_counter then (c, None)
      else (case client_get_block_info D (bid_hash b) c of
        (r, c) \<Rightarrow>
          if (case r of Inl _ \<Rightarrow> True | Inr v \<Rightarrow> gb_confirmations v <s 0)
          then (case p of
                  None \<Rightarrow> (c, None)
                | Some cp \<Rightarrow> client_drop D max_len (reorg_counter + 1) c cp (cp_hash cp))
          else (c, Some (reorg_counter, CheckPoint b p, last_hash))))"

definition client_pass :: "decoding \<Rightarrow> daemon \<Rightarrow> (nat \<Rightarrow> bool) \<Rightarrow> u64 \<Rightarrow> walk \<Rightarrow> walk_result" where
  "client_pass C D opened max_len w =
     (case client_get_best_block_hash D (wk_client w) of
        (Inl _, c) \<Rightarrow> ([], Some FoPanic, w\<lparr> wk_client := c \<rparr>)
      | (Inr best_hash, c) \<Rightarrow>
          if best_hash = cp_hash (wk_checkpoint w) then ([], None, w\<lparr> wk_client := c \<rparr>)
          else (case client_drop D max_len 0 c (wk_checkpoint w) (wk_last_hash w) of
            (c, None) \<Rightarrow> ([], Some FoPanic, w\<lparr> wk_client := c \<rparr>)
          | (c, Some (reorg_counter, cp, last_hash)) \<Rightarrow>
              (case client_get_block_info D best_hash c of
                 (Inl _, c) \<Rightarrow> ([], Some FoPanic, \<lparr> wk_client = c, wk_checkpoint = cp, wk_last_hash = last_hash \<rparr>)
               | (Inr v, c) \<Rightarrow> client_send C D opened (gb_height v) reorg_counter
                   \<lparr> wk_client = c, wk_checkpoint = cp, wk_last_hash = last_hash \<rparr>)))"

text \<open>The outer loop, for a number of passes; \<open>signalled\<close> tells whether the token was cancelled from outside.\<close>

fun client_follow ::
  "decoding \<Rightarrow> daemon \<Rightarrow> (nat \<Rightarrow> bool) \<Rightarrow> (nat \<Rightarrow> bool) \<Rightarrow> u64 \<Rightarrow> nat \<Rightarrow> walk \<Rightarrow> walk_result"
where
  "client_follow C D opened signalled max_len 0 w = ([], None, w)"
| "client_follow C D opened signalled max_len (Suc passes) w =
     (if cl_cancelled (wk_client w) \<or> signalled (cl_requests (wk_client w)) then ([], None, w)
      else (case client_pass C D opened max_len w of
        (evs, Some e, w) \<Rightarrow> (evs, Some e, w)
      | (evs, None, w) \<Rightarrow>
          (let r = client_follow C D opened signalled max_len passes w in (evs @ fst r, snd r))))"

end
