(* ===== verification/NodeProps.thy ===== *)
theory NodeProps
  imports NodeClient FollowProps WireProps
begin

text \<open>
  What the client of the node guarantees, and the follower over the client as the follower over a node.
\<close>

section \<open>Requests\<close>

lemma tries_answered:
  "tries n f c = (Inr v, c') \<Longrightarrow> cl_cancelled c' = cl_cancelled c
    \<and> (\<exists>i < n. f (cl_requests c + i) = Answer v \<and> cl_requests c' = cl_requests c + i + 1)"
proof (induction n arbitrary: c)
  case (Suc n)
  let ?sent = "c\<lparr> cl_requests := cl_requests c + 1 \<rparr>"
  show ?case
  proof (cases "\<exists>w. f (cl_requests c) = Answer w")
    case True
    with Suc.prems show ?thesis by (auto simp: Let_def intro!: exI [of _ 0])
  next
    case False
    with Suc.prems have "tries n f ?sent = (Inr v, c')" by (cases "f (cl_requests c)") (simp_all add: Let_def)
    from Suc.IH [OF this] obtain i where "i < n" "f (cl_requests c + Suc i) = Answer v"
      "cl_requests c' = cl_requests c + Suc i + 1" "cl_cancelled c' = cl_cancelled c" by auto
    then show ?thesis by (auto intro!: exI [of _ "Suc i"])
  qed
qed simp

lemma tries_failed:
  "tries n f c = (Inl e, c') \<Longrightarrow> e = CeCancelled \<and> cl_cancelled c' \<and> cl_requests c' = cl_requests c + n"
  by (induction n arbitrary: c) (fastforce simp: Let_def split: reply.splits)+

lemma tries_unanswered:
  "(\<And>j v. j < n \<Longrightarrow> f (cl_requests c + j) \<noteq> Answer v)
    \<Longrightarrow> tries n f c = (Inl CeCancelled, \<lparr> cl_requests = cl_requests c + n, cl_cancelled = True \<rparr>)"
proof (induction n arbitrary: c)
  case 0
  then show ?case by (cases c) simp
next
  case (Suc n)
  let ?sent = "c\<lparr> cl_requests := cl_requests c + 1 \<rparr>"
  have "tries n f ?sent = (Inl CeCancelled, \<lparr> cl_requests = cl_requests ?sent + n, cl_cancelled = True \<rparr>)"
    by (rule Suc.IH) (use Suc.prems [of "Suc j" for j] in simp)
  moreover have "f (cl_requests c) \<noteq> Answer v" for v using Suc.prems [of 0] by simp
  ultimately show ?case by (cases "f (cl_requests c)") (auto simp: Let_def)
qed

lemma call_answered:
  assumes "client_call f c = (Inr v, c')"
  shows "cl_cancelled c' = cl_cancelled c" and "cl_requests c < cl_requests c'" and "cl_requests c' \<le> cl_requests c + 10"
  using tries_answered [OF assms [unfolded client_call_def]] by auto

lemma call_failed:
  assumes "client_call f c = (Inl e, c')"
  shows "cl_cancelled c'" and "e = CeCancelled" and "cl_requests c' = cl_requests c + 10"
  using tries_failed [OF assms [unfolded client_call_def]] by auto

lemma call_unanswered:
  assumes "\<And>j v. j < 10 \<Longrightarrow> f (cl_requests c + j) \<noteq> Answer v"
  shows "client_call f c = (Inl CeCancelled, \<lparr> cl_requests = cl_requests c + 10, cl_cancelled = True \<rparr>)"
  unfolding client_call_def by (rule tries_unanswered) (rule assms)

lemma call_at_once:
  "f (cl_requests c) = Answer v \<Longrightarrow> client_call f c = (Inr v, c\<lparr> cl_requests := cl_requests c + 1 \<rparr>)"
proof -
  assume "f (cl_requests c) = Answer v"
  then have "tries (Suc n) f c = (Inr v, c\<lparr> cl_requests := cl_requests c + 1 \<rparr>)" for n by (simp add: Let_def)
  from this [of 9] show ?thesis by (simp add: client_call_def)
qed

lemmas client_calls =
  client_get_block_info_def client_get_block_hash_def client_get_best_block_hash_def client_get_block_def

text \<open>Once cancelled, the token stays so.\<close>

lemma call_keeps_cancelled: "client_call f c = (r, c') \<Longrightarrow> cl_cancelled c \<Longrightarrow> cl_cancelled c'"
  using call_answered(1) call_failed(1) by (cases r) fastforce+

lemma get_block_result:
  assumes "client_get_block C D h c = (r, c')"
  obtains e where "client_call (\<lambda>n. dm_block D n h) c = (Inl e, c')" "r = Inl e"
    | x where "client_call (\<lambda>n. dm_block D n h) c = (Inr x, c')"
  using assms by (auto simp: client_get_block_def split: prod.splits sum.splits option.splits)

lemma get_block_keeps_cancelled: "client_get_block C D h c = (r, c') \<Longrightarrow> cl_cancelled c \<Longrightarrow> cl_cancelled c'"
  by (erule get_block_result) (auto dest: call_keeps_cancelled)

section \<open>The node the follower sees\<close>

text \<open>The calls of the follower, what one of them does to the client, and a log of them.\<close>

datatype call = BestCall | InfoCall hash32 | HashCall u64 | BlockCall hash32

definition answer :: "(client_error + 'a) \<times> client \<Rightarrow> 'a option" where
  "answer r = (case fst r of Inl _ \<Rightarrow> None | Inr v \<Rightarrow> Some v)"

definition failure :: "(client_error + 'a) \<times> client \<Rightarrow> client_error option" where
  "failure r = (case fst r of Inl e \<Rightarrow> Some e | Inr _ \<Rightarrow> None)"

lemma answer_simps [simp]: "answer (Inr v, c) = Some v" "answer (Inl e, c) = None"
  by (simp_all add: answer_def)

lemma failure_simps [simp]: "failure (Inr v, c) = None" "failure (Inl e, c) = Some e"
  by (simp_all add: failure_def)

fun call_result :: "decoding \<Rightarrow> daemon \<Rightarrow> call \<Rightarrow> client \<Rightarrow> client_error option \<times> client" where
  "call_result C D BestCall c = (let r = client_get_best_block_hash D c in (failure r, snd r))"
| "call_result C D (InfoCall h) c = (let r = client_get_block_info D h c in (failure r, snd r))"
| "call_result C D (HashCall k) c = (let r = client_get_block_hash D k c in (failure r, snd r))"
| "call_result C D (BlockCall h) c = (let r = client_get_block C D h c in (failure r, snd r))"

fun after_calls :: "decoding \<Rightarrow> daemon \<Rightarrow> call list \<Rightarrow> client \<Rightarrow> client" where
  "after_calls C D [] c = c"
| "after_calls C D (q # qs) c = after_calls C D qs (snd (call_result C D q c))"

fun answered :: "decoding \<Rightarrow> daemon \<Rightarrow> call list \<Rightarrow> client \<Rightarrow> bool" where
  "answered C D [] c \<longleftrightarrow> True"
| "answered C D (q # qs) c \<longleftrightarrow> fst (call_result C D q c) \<noteq> Some CeCancelled \<and> answered C D qs (snd (call_result C D q c))"

text \<open>The node: call number \<open>u\<close> is answered with what the client gives for it, whatever its argument, after the calls of
  the log before that one.\<close>

definition view_of :: "decoding \<Rightarrow> daemon \<Rightarrow> client \<Rightarrow> bool \<Rightarrow> node_view" where
  "view_of C D c open =
     \<lparr> nv_best = answer (client_get_best_block_hash D c),
       nv_info = (\<lambda>h. map_option (\<lambda>v. (gb_confirmations v, gb_height v)) (answer (client_get_block_info D h c))),
       nv_hash = (\<lambda>k. answer (client_get_block_hash D k c)),
       nv_block = (\<lambda>h. answer (client_get_block C D h c)), nv_open = open \<rparr>"

definition client_node :: "decoding \<Rightarrow> daemon \<Rightarrow> (nat \<Rightarrow> bool) \<Rightarrow> client \<Rightarrow> nat \<Rightarrow> call list \<Rightarrow> node" where
  "client_node C D opened c t qs u =
     view_of C D (after_calls C D (take (u - t) qs) c) (opened (cl_requests (after_calls C D (take (Suc u - t) qs) c)))"

lemma client_node_now [simp]:
  "client_node C D opened c t (q # qs) t = view_of C D c (opened (cl_requests (snd (call_result C D q c))))"
  by (simp add: client_node_def)

lemma client_node_later:
  "t < u \<Longrightarrow> client_node C D opened c t (q # qs) u = client_node C D opened (snd (call_result C D q c)) (Suc t) qs u"
  by (simp add: client_node_def Suc_diff_le Suc_diff_Suc [of t u, symmetric])

lemma client_node_next [simp]:
  "client_node C D opened c t (q # q' # qs) (Suc t)
    = view_of C D (snd (call_result C D q c)) (opened (cl_requests (snd (call_result C D q' (snd (call_result C D q c))))))"
  by (simp add: client_node_later)

lemma after_calls_append [simp]: "after_calls C D (qs @ qs') c = after_calls C D qs' (after_calls C D qs c)"
  by (induction qs arbitrary: c) simp_all

lemma view_of_simps [simp]:
  "nv_best (view_of C D c open) = answer (client_get_best_block_hash D c)"
  "nv_info (view_of C D c open) h = map_option (\<lambda>v. (gb_confirmations v, gb_height v)) (answer (client_get_block_info D h c))"
  "nv_hash (view_of C D c open) k = answer (client_get_block_hash D k c)"
  "nv_block (view_of C D c open) h = answer (client_get_block C D h c)" "nv_open (view_of C D c open) = open"
  by (simp_all add: view_of_def)

lemma orphaned_view_of:
  "orphaned (view_of C D c open) h
    \<longleftrightarrow> (case fst (client_get_block_info D h c) of Inl _ \<Rightarrow> True | Inr v \<Rightarrow> gb_confirmations v <s 0)"
  by (simp add: orphaned_def answer_def split: sum.split)

text \<open>A log with a call that the client gave up leaves the token cancelled.\<close>

lemma call_result_keeps: "cl_cancelled c \<Longrightarrow> cl_cancelled (snd (call_result C D q c))"
  by (cases q)
    (auto simp: Let_def client_get_block_info_def client_get_block_hash_def client_get_best_block_hash_def
      intro: call_keeps_cancelled get_block_keeps_cancelled prod.collapse [symmetric])

lemma call_result_given_up: "fst (call_result C D q c) = Some CeCancelled \<Longrightarrow> cl_cancelled (snd (call_result C D q c))"
proof -
  have call: "failure (client_call f c) \<noteq> None \<Longrightarrow> cl_cancelled (snd (client_call f c))" for f :: "nat \<Rightarrow> 'a reply"
    using call_failed(1) [of f c] by (cases "client_call f c") (auto simp: failure_def split: sum.splits)
  assume "fst (call_result C D q c) = Some CeCancelled"
  then show ?thesis
  proof (cases q)
    case (BlockCall h)
    obtain r c' where block: "client_get_block C D h c = (r, c')" by fastforce
    with \<open>fst _ = _\<close> BlockCall have "r = Inl CeCancelled" by (auto simp: failure_def Let_def split: sum.splits)
    with block have "client_call (\<lambda>n. dm_block D n h) c = (Inl CeCancelled, c')"
      by (auto simp: client_get_block_def split: prod.splits sum.splits option.splits)
    with call_failed(1) BlockCall block show ?thesis by simp
  qed (simp_all add: Let_def client_get_block_info_def client_get_block_hash_def client_get_best_block_hash_def call)
qed

lemma after_calls_keeps: "cl_cancelled c \<Longrightarrow> cl_cancelled (after_calls C D qs c)"
  by (induction qs arbitrary: c) (simp_all add: call_result_keeps)

lemma answered_or_cancelled: "answered C D qs c \<or> cl_cancelled (after_calls C D qs c)"
  by (induction qs arbitrary: c) (auto intro: after_calls_keeps call_result_given_up)

text \<open>A node program whose blocks carry the hash they are asked for by.\<close>

definition honest_daemon :: "decoding \<Rightarrow> daemon \<Rightarrow> bool" where
  "honest_daemon C D \<longleftrightarrow> (\<forall>n h x bs b rest. dm_block D n h = Answer x \<longrightarrow> dc_hex C x = Some bs \<longrightarrow>
     read_block (dc_wire C) 0 bs = Some (b, rest) \<longrightarrow> hd_hash (blk_header b) = h)"

lemma honest_block:
  assumes "honest_daemon C D" and "client_get_block C D h c = (Inr b, c')"
  shows "hd_hash (blk_header b) = h"
proof -
  from assms(2) obtain x bs rest where call: "client_call (\<lambda>n. dm_block D n h) c = (Inr x, c')"
    and b: "dc_hex C x = Some bs" "read_block (dc_wire C) 0 bs = Some (b, rest)"
    by (auto simp: client_get_block_def split: prod.splits sum.splits option.splits)
  from tries_answered [OF call [unfolded client_call_def]] obtain i where "dm_block D (cl_requests c + i) h = Answer x" by auto
  with b assms(1) show ?thesis unfolding honest_daemon_def by blast
qed

text \<open>The state of the follower that a walk has after so many calls, and the result of a walk.\<close>

definition walk_state :: "nat \<Rightarrow> walk \<Rightarrow> follow_state" where
  "walk_state t w = \<lparr> fs_calls = t, fs_checkpoint = wk_checkpoint w, fs_last_hash = wk_last_hash w \<rparr>"

lemma walk_state_simps [simp]:
  "fs_calls (walk_state t w) = t" "fs_checkpoint (walk_state t w) = wk_checkpoint w"
  "fs_last_hash (walk_state t w) = wk_last_hash w" "(walk_state t w)\<lparr> fs_calls := u \<rparr> = walk_state u w"
  "walk_state t (w\<lparr> wk_client := c \<rparr>) = walk_state t w"
  "walk_state t \<lparr> wk_client = c, wk_checkpoint = cp, wk_last_hash = lh \<rparr>
    = \<lparr> fs_calls = t, fs_checkpoint = cp, fs_last_hash = lh \<rparr>"
  by (simp_all add: walk_state_def)

definition outcome :: "nat \<Rightarrow> follow_end option \<Rightarrow> walk \<Rightarrow> follow_end + follow_state" where
  "outcome t e w = (case e of Some x \<Rightarrow> Inl x | None \<Rightarrow> Inr (walk_state t w))"

lemma client_node_honest:
  assumes "honest_daemon C D" shows "honest (client_node C D opened c t qs)"
  unfolding honest_def client_node_def
proof (intro allI impI)
  fix u h b
  let ?c = "after_calls C D (take (u - t) qs) c"
  assume "nv_block (view_of C D ?c (opened (cl_requests (after_calls C D (take (Suc u - t) qs) c)))) h = Some b"
  then obtain c' where "client_get_block C D h ?c = (Inr b, c')"
    by (cases "client_get_block C D h ?c") (auto simp: answer_def split: sum.splits)
  with honest_block [OF assms] show "hd_hash (blk_header b) = h" by blast
qed

text \<open>A run from some call on depends on the answers from there on only.\<close>

lemma send_blocks_cong:
  "(\<And>u. fs_calls s \<le> u \<Longrightarrow> N u = M u) \<Longrightarrow> send_blocks N m k s = send_blocks M m k s"
proof (induction N m k s rule: send_blocks.induct)
  case (1 N m k s)
  have N: "N (fs_calls s) = M (fs_calls s)" "N (Suc (fs_calls s)) = M (Suc (fs_calls s))" using 1(2) by simp_all
  have rec: "send_blocks N m 0 \<lparr> fs_calls = Suc (Suc (fs_calls s)), fs_checkpoint = cp', fs_last_hash = lh \<rparr>
      = send_blocks M m 0 \<lparr> fs_calls = Suc (Suc (fs_calls s)), fs_checkpoint = cp', fs_last_hash = lh \<rparr>"
    if "cp_height (fs_checkpoint s) < m" "nv_hash (M (fs_calls s)) (cp_height (fs_checkpoint s) + 1) = Some h"
      "nv_block (M (Suc (fs_calls s))) h = Some b" "bh_prev_hash (hd_value (blk_header b)) = cp_hash (fs_checkpoint s)"
      "check_ordering (fs_last_hash s) (blk_header b) = Some lh" "nv_open (M (Suc (fs_calls s)))"
      "cp_insert (block_id_at (cp_height (fs_checkpoint s) + 1) h) (fs_checkpoint s) = Some cp'" for h b lh cp'
  proof -
    note rec = 1(1) [OF refl refl refl _ _ _ _ _ _ refl, simplified]
    show ?thesis by (rule rec) (use that N 1(2) in simp_all)
  qed
  show ?case
  proof (cases "cp_height (fs_checkpoint s) < m")
    case True
    then show ?thesis
      unfolding send_blocks.simps [of N m k s] send_blocks.simps [of M m k s]
      by (auto simp: Let_def N split: option.split intro: arg_cong [OF rec, of _ _ _ _ fst] arg_cong [OF rec, of _ _ _ _ snd])
  qed (simp add: send_blocks.simps)
qed

lemma drop_orphans_cong:
  "(\<And>u. t \<le> u \<Longrightarrow> N u = M u) \<Longrightarrow> drop_orphans N m k t cp lh = drop_orphans M m k t cp lh"
  by (induction N m k t cp lh rule: drop_orphans.induct) (simp split: option.split)

section \<open>The follower over the client\<close>

lemma client_send_cases:
  assumes "client_send C D opened m k w = (es, e, w')"
  obtains "\<not> cp_height (wk_checkpoint w) < m" "es = []" "e = None" "w' = w"
  | c where "cp_height (wk_checkpoint w) < m"
      "client_get_block_hash D (cp_height (wk_checkpoint w) + 1) (wk_client w) = (Inl CeCancelled, c)"
      "es = []" "e = Some FoPanic" "w' = w\<lparr> wk_client := c \<rparr>"
  | h c x c' where "cp_height (wk_checkpoint w) < m"
      "client_get_block_hash D (cp_height (wk_checkpoint w) + 1) (wk_client w) = (Inr h, c)"
      "client_get_block C D h c = (Inl x, c')" "es = []" "e = Some FoPanic" "w' = w\<lparr> wk_client := c' \<rparr>"
  | h c b c' where "cp_height (wk_checkpoint w) < m"
      "client_get_block_hash D (cp_height (wk_checkpoint w) + 1) (wk_client w) = (Inr h, c)"
      "client_get_block C D h c = (Inr b, c')"
      "bh_prev_hash (hd_value (blk_header b)) \<noteq> cp_hash (wk_checkpoint w)"
      "es = []" "e = None" "w' = w\<lparr> wk_client := c' \<rparr>"
  | h c b c' where "cp_height (wk_checkpoint w) < m"
      "client_get_block_hash D (cp_height (wk_checkpoint w) + 1) (wk_client w) = (Inr h, c)"
      "client_get_block C D h c = (Inr b, c')"
      "bh_prev_hash (hd_value (blk_header b)) = cp_hash (wk_checkpoint w)"
      "check_ordering (wk_last_hash w) (blk_header b) = None"
      "es = []" "e = Some FoPanic" "w' = w\<lparr> wk_client := c' \<rparr>"
  | h c b c' lh where "cp_height (wk_checkpoint w) < m"
      "client_get_block_hash D (cp_height (wk_checkpoint w) + 1) (wk_client w) = (Inr h, c)"
      "client_get_block C D h c = (Inr b, c')"
      "bh_prev_hash (hd_value (blk_header b)) = cp_hash (wk_checkpoint w)"
      "check_ordering (wk_last_hash w) (blk_header b) = Some lh" "\<not> opened (cl_requests c')"
      "es = []" "e = Some FoClosed" "w' = w\<lparr> wk_client := c' \<rparr>"
  | h c b c' lh es' where "cp_height (wk_checkpoint w) < m"
      "client_get_block_hash D (cp_height (wk_checkpoint w) + 1) (wk_client w) = (Inr h, c)"
      "client_get_block C D h c = (Inr b, c')"
      "bh_prev_hash (hd_value (blk_header b)) = cp_hash (wk_checkpoint w)"
      "check_ordering (wk_last_hash w) (blk_header b) = Some lh" "opened (cl_requests c')"
      "es = \<lparr> be_height = cp_height (wk_checkpoint w) + 1, be_hash = h, be_block = b, be_reorg_len = k, be_tip = m \<rparr> # es'"
      "client_send C D opened m 0 \<lparr> wk_client = c', wk_checkpoint = CheckPoint (block_id_at (cp_height (wk_checkpoint w) + 1) h)
         (Some (wk_checkpoint w)), wk_last_hash = lh \<rparr> = (es', e, w')"
proof (cases "cp_height (wk_checkpoint w) < m")
  case True
  note step = assms [unfolded client_send.simps [of C D opened m k w]]
  obtain r c where call: "client_get_block_hash D (cp_height (wk_checkpoint w) + 1) (wk_client w) = (r, c)"
    by fastforce
  show ?thesis
  proof (cases r)
    case (Inl x)
    then have "x = CeCancelled" using call call_failed(2) by (auto simp: client_get_block_hash_def)
    with True call step Inl that(2) show ?thesis by (simp add: Let_def)
  next
    case (Inr h)
    obtain r2 c' where block: "client_get_block C D h c = (r2, c')" by fastforce
    show ?thesis
    proof (cases r2)
      case (Inl x)
      with True call step \<open>r = Inr h\<close> block that(3) show ?thesis by (simp add: Let_def)
    next
      case (Inr b)
      note facts = True call [unfolded \<open>r = Inr h\<close>] block [unfolded Inr]
      note step = step [unfolded Let_def call \<open>r = Inr h\<close> block Inr prod.case sum.case]
      consider "bh_prev_hash (hd_value (blk_header b)) \<noteq> cp_hash (wk_checkpoint w)"
        | "bh_prev_hash (hd_value (blk_header b)) = cp_hash (wk_checkpoint w)"
          "check_ordering (wk_last_hash w) (blk_header b) = None"
        | lh where "bh_prev_hash (hd_value (blk_header b)) = cp_hash (wk_checkpoint w)"
          "check_ordering (wk_last_hash w) (blk_header b) = Some lh" "\<not> opened (cl_requests c')"
        | lh where "bh_prev_hash (hd_value (blk_header b)) = cp_hash (wk_checkpoint w)"
          "check_ordering (wk_last_hash w) (blk_header b) = Some lh" "opened (cl_requests c')"
        by (cases "check_ordering (wk_last_hash w) (blk_header b)") auto
      then show ?thesis
      proof cases
        case 1
        with step True that(4) [OF facts 1] show ?thesis by simp
      next
        case 2
        with step True that(5) [OF facts 2] show ?thesis by simp
      next
        case (3 lh)
        with step True that(6) [OF facts 3] show ?thesis by simp
      next
        case (4 lh)
        obtain es' e' v where rest: "client_send C D opened m 0 \<lparr> wk_client = c',
            wk_checkpoint = CheckPoint (block_id_at (cp_height (wk_checkpoint w) + 1) h) (Some (wk_checkpoint w)),
            wk_last_hash = lh \<rparr> = (es', e', v)" by (metis prod.exhaust)
        have es: "e' = e" "v = w'"
          "es = \<lparr> be_height = cp_height (wk_checkpoint w) + 1, be_hash = h, be_block = b, be_reorg_len = k, be_tip = m \<rparr> # es'"
          using step
          by (simp_all only: 4 True cp_insert_next [OF True] rest if_True if_False not_True_eq_False option.case fst_conv snd_conv
              prod.inject simp_thms)
        show ?thesis by (rule that(7) [OF facts 4 es(3) rest [unfolded es(1,2)]])
      qed
    qed
  qed
next
  case False
  then show ?thesis
    using assms unfolding client_send.simps [of C D opened m k w] by (intro that(1)) simp_all
qed

lemma send_blocks_after:
  assumes "fs_calls s = Suc t"
  shows "send_blocks (client_node C D opened c t (q # qs)) m k s
    = send_blocks (client_node C D opened (snd (call_result C D q c)) (Suc t) qs) m k s"
  by (rule send_blocks_cong) (simp add: assms client_node_later)

text \<open>The loop forward: the calls of a round are one for the hash and one for the block.\<close>

lemma client_send_calls:
  "client_send C D opened m k w = (es, e, w') \<Longrightarrow> \<exists>qs. after_calls C D qs (wk_client w) = wk_client w'
    \<and> send_blocks (client_node C D opened (wk_client w) t qs) m k (walk_state t w) = (es, outcome (t + length qs) e w')"
proof (induction "unat m - unat (cp_height (wk_checkpoint w))" arbitrary: w k t es rule: less_induct)
  case less
  note unroll = send_blocks.simps [where s = "walk_state t w"] Let_def outcome_def
  let ?k = "cp_height (wk_checkpoint w) + 1"
  from less.prems show ?case
  proof (cases rule: client_send_cases)
    case 1
    then show ?thesis by (intro exI [of _ "[]"]) (simp add: unroll)
  next
    case (2 c)
    then show ?thesis by (intro exI [of _ "[HashCall ?k]"]) (simp add: unroll)
  next
    case (3 h c x c')
    then show ?thesis by (intro exI [of _ "[HashCall ?k, BlockCall h]"]) (simp add: unroll)
  next
    case (4 h c b c')
    then show ?thesis by (intro exI [of _ "[HashCall ?k, BlockCall h]"]) (simp add: unroll)
  next
    case (5 h c b c')
    then show ?thesis by (intro exI [of _ "[HashCall ?k, BlockCall h]"]) (simp add: unroll)
  next
    case (6 h c b c' lh)
    then show ?thesis by (intro exI [of _ "[HashCall ?k, BlockCall h]"]) (simp add: unroll)
  next
    case (7 h c b c' lh es')
    let ?next = "\<lparr> wk_client = c', wk_checkpoint = CheckPoint (block_id_at ?k h)
      (Some (wk_checkpoint w)), wk_last_hash = lh \<rparr>"
    have "unat m - unat (cp_height (wk_checkpoint ?next)) < unat m - unat (cp_height (wk_checkpoint w))"
      using cp_height_next(1) [OF 7(1)] 7(1) by (simp add: word_less_nat_alt)
    from less.hyps [OF this 7(8), of "Suc (Suc t)"] obtain qs where qs: "after_calls C D qs c' = wk_client w'"
      "send_blocks (client_node C D opened c' (Suc (Suc t)) qs) m 0 (walk_state (Suc (Suc t)) ?next)
        = (es', outcome (Suc (Suc t) + length qs) e w')" by auto
    let ?N = "client_node C D opened (wk_client w) t (HashCall ?k # BlockCall h # qs)"
    have "send_blocks ?N m 0 (walk_state (Suc (Suc t)) ?next)
        = send_blocks (client_node C D opened c' (Suc (Suc t)) qs) m 0 (walk_state (Suc (Suc t)) ?next)"
      by (rule send_blocks_cong) (use 7(2,3) in \<open>simp add: client_node_later\<close>)
    with qs 7 show ?thesis
      by (intro exI [of _ "HashCall ?k # BlockCall h # qs"]) (simp add: unroll cp_insert_next [OF 7(1)])
  qed
qed

text \<open>The loop back: a call for every checkpoint looked at.\<close>

lemma client_drop_calls:
  "client_drop D m k c cp lh = (c', res) \<Longrightarrow> \<exists>qs. after_calls C D qs c = c'
    \<and> (\<forall>rest. drop_orphans (client_node C D opened c t (qs @ rest)) m k t cp lh
        = map_option (\<lambda>(k, cp, lh). (k, t + length qs, cp, lh)) res)"
proof (induction D m k c cp lh arbitrary: t rule: client_drop.induct)
  case (1 D m k c b p lh)
  note IH = 1(1) and run = 1(2)
  show ?case
  proof (cases "m < k")
    case True
    with run show ?thesis by (intro exI [of _ "[]"]) auto
  next
    case False
    obtain r c1 where call: "client_get_block_info D (bid_hash b) c = (r, c1)" by fastforce
    let ?orphan = "case r of Inl _ \<Rightarrow> True | Inr v \<Rightarrow> gb_confirmations v <s 0"
    consider "\<not> ?orphan" | "?orphan" "p = None" | cp where "?orphan" "p = Some cp" by (cases p) blast+
    then show ?thesis
    proof cases
      case 1
      then have "c' = c1" "res = Some (k, CheckPoint b p, lh)" using run call False by simp_all
      with 1 call False show ?thesis
        by (intro exI [of _ "[InfoCall (bid_hash b)]"]) (simp add: orphaned_view_of)
    next
      case 2
      with run call False show ?thesis
        by (intro exI [of _ "[InfoCall (bid_hash b)]"]) (simp add: orphaned_view_of)
    next
      case (3 cp)
      then have "client_drop D m (k + 1) c1 cp (cp_hash cp) = (c', res)" using run call False by simp
      from IH [OF False call [symmetric] 3 this, of "Suc t"] obtain qs where qs: "after_calls C D qs c1 = c'"
        "\<And>rest. drop_orphans (client_node C D opened c1 (Suc t) (qs @ rest)) m (k + 1) (Suc t) cp (cp_hash cp)
          = map_option (\<lambda>(k, cp, lh). (k, Suc t + length qs, cp, lh)) res" by blast
      have "drop_orphans (client_node C D opened c t ((InfoCall (bid_hash b) # qs) @ rest)) m (k + 1) (Suc t) cp (cp_hash cp)
          = map_option (\<lambda>(k, cp, lh). (k, Suc t + length qs, cp, lh)) res" for rest
        unfolding qs(2) [of rest, symmetric]
        by (rule drop_orphans_cong) (use call in \<open>simp add: client_node_later\<close>)
      with qs(1) 3 False call show ?thesis
        by (intro exI [of _ "InfoCall (bid_hash b) # qs"]) (simp add: orphaned_view_of split_def)
    qed
  qed
qed

text \<open>What comes after the calls of a part of a pass.\<close>

lemma client_node_append:
  "t + length qs \<le> u \<Longrightarrow>
    client_node C D opened c t (qs @ qs') u = client_node C D opened (after_calls C D qs c) (t + length qs) qs' u"
proof (induction qs arbitrary: c t)
  case (Cons q qs)
  then show ?case using Cons.IH [of "Suc t" "snd (call_result C D q c)"] by (simp add: client_node_later)
qed simp

lemma client_pass_calls:
  assumes "client_pass C D opened max_len w = (es, e, w')"
  shows "\<exists>qs. after_calls C D qs (wk_client w) = wk_client w'
    \<and> follow_pass (client_node C D opened (wk_client w) t qs) max_len (walk_state t w) = (es, outcome (t + length qs) e w')"
proof -
  obtain r c where best: "client_get_best_block_hash D (wk_client w) = (r, c)" by fastforce
  note pass = assms [unfolded client_pass_def best prod.case]
  show ?thesis
  proof (cases "\<exists>h. r = Inr h \<and> h \<noteq> cp_hash (wk_checkpoint w)")
    case False
    with pass best show ?thesis
      by (intro exI [of _ "[BestCall]"]) (auto simp: follow_pass_def Let_def outcome_def split: sum.splits if_splits)
  next
    case True
    then obtain h where h: "r = Inr h" "h \<noteq> cp_hash (wk_checkpoint w)" by blast
    obtain c1 res where drop: "client_drop D max_len 0 c (wk_checkpoint w) (wk_last_hash w) = (c1, res)" by fastforce
    from client_drop_calls [OF drop, of C opened "Suc t"] obtain qs where qs: "after_calls C D qs c = c1"
      "\<And>rest. drop_orphans (client_node C D opened c (Suc t) (qs @ rest)) max_len 0 (Suc t) (wk_checkpoint w) (wk_last_hash w)
        = map_option (\<lambda>(k, cp, lh). (k, Suc t + length qs, cp, lh)) res" by blast
    let ?N = "\<lambda>rest. client_node C D opened (wk_client w) t (BestCall # qs @ rest)"
    have dropped: "drop_orphans (?N rest) max_len 0 (Suc t) (wk_checkpoint w) (wk_last_hash w)
        = map_option (\<lambda>(k, cp, lh). (k, Suc t + length qs, cp, lh)) res" for rest
      unfolding qs(2) [of rest, symmetric] by (rule drop_orphans_cong) (use best in \<open>simp add: client_node_later\<close>)
    have later: "?N rest u = client_node C D opened c1 (Suc t + length qs) rest u" if "Suc t + length qs \<le> u" for rest u
      using that best qs(1) client_node_append [of "Suc t" qs u C D opened c rest] by (simp add: client_node_later)
    note pass = pass [unfolded h sum.case drop prod.case]
    show ?thesis
    proof (cases res)
      case None
      with pass h best qs(1) dropped [of "[]"] show ?thesis
        by (intro exI [of _ "BestCall # qs"]) (auto simp: follow_pass_def Let_def outcome_def)
    next
      case (Some a)
      obtain k cp lh where a: "a = (k, cp, lh)" by (cases a)
      obtain r2 c2 where info: "client_get_block_info D h c1 = (r2, c2)" by fastforce
      let ?t = "Suc t + length qs"
      show ?thesis
      proof (cases r2)
        case (Inl x)
        with pass h best qs(1) dropped [of "[InfoCall h]"] later [of ?t "[InfoCall h]"] Some a info show ?thesis
          by (intro exI [of _ "BestCall # qs @ [InfoCall h]"]) (auto simp: follow_pass_def Let_def outcome_def)
      next
        case (Inr v)
        have "client_send C D opened (gb_height v) k \<lparr> wk_client = c2, wk_checkpoint = cp, wk_last_hash = lh \<rparr> = (es, e, w')"
          using pass h Some a info Inr by simp
        from client_send_calls [OF this, of "Suc ?t"] obtain qs' where qs': "after_calls C D qs' c2 = wk_client w'"
          "send_blocks (client_node C D opened c2 (Suc ?t) qs') (gb_height v) k
            \<lparr> fs_calls = Suc ?t, fs_checkpoint = cp, fs_last_hash = lh \<rparr> = (es, outcome (Suc ?t + length qs') e w')" by auto
        let ?M = "?N (InfoCall h # qs')"
        have "send_blocks ?M (gb_height v) k \<lparr> fs_calls = Suc ?t, fs_checkpoint = cp, fs_last_hash = lh \<rparr>
            = (es, outcome (Suc ?t + length qs') e w')"
          unfolding qs'(2) [symmetric]
          by (rule send_blocks_cong)
            (use later client_node_later [of ?t _ C D opened c1 "InfoCall h" qs'] info in \<open>simp del: append_Cons\<close>)
        then show ?thesis
          using h best qs(1) qs'(1) dropped [of "InfoCall h # qs'"] later [of ?t "InfoCall h # qs'"] Some a info Inr
          by (intro exI [of _ "BestCall # qs @ InfoCall h # qs'"]) (simp add: follow_pass_def Let_def algebra_simps)
      qed
    qed
  qed
qed

lemma client_drop_keeps: "client_drop D m k c cp lh = (c', res) \<Longrightarrow> cl_cancelled c \<Longrightarrow> cl_cancelled c'"
  using client_drop_calls after_calls_keeps by metis

lemma client_send_keeps: "client_send C D opened m k w = (es, e, w') \<Longrightarrow> cl_cancelled (wk_client w) \<Longrightarrow> cl_cancelled (wk_client w')"
  using client_send_calls after_calls_keeps by metis

text \<open>The client gives up on the block of the checkpoint: the token is cancelled at the end of the pass.\<close>

lemma client_drop_unknown:
  assumes "\<And>n v. dm_info D n (cp_hash cp) \<noteq> Answer v" and "client_drop D m 0 c cp lh = (c1, res)"
  shows "cl_cancelled c1"
proof (cases cp)
  case (CheckPoint b p)
  let ?c = "\<lparr> cl_requests = cl_requests c + 10, cl_cancelled = True \<rparr>"
  have "client_get_block_info D (bid_hash b) c = (Inl CeCancelled, ?c)"
    unfolding client_get_block_info_def by (rule call_unanswered) (use assms(1) CheckPoint in \<open>simp add: cp_hash_def\<close>)
  with assms(2) CheckPoint have "(case p of None \<Rightarrow> (?c, None) | Some cp \<Rightarrow> client_drop D m (0 + 1) ?c cp (cp_hash cp)) = (c1, res)"
    by simp
  then show ?thesis
    using client_drop_keeps [of D m "0 + 1" ?c] by (auto split: option.splits)
qed

lemma client_pass_unknown:
  assumes "client_pass C D opened max_len w = (es, e, w')"
    and best: "client_get_best_block_hash D (wk_client w) = (Inr h, c)" "h \<noteq> cp_hash (wk_checkpoint w)"
    and unknown: "\<And>n v. dm_info D n (cp_hash (wk_checkpoint w)) \<noteq> Answer v"
  shows "cl_cancelled (wk_client w')"
proof -
  obtain c1 res where drop: "client_drop D max_len 0 c (wk_checkpoint w) (wk_last_hash w) = (c1, res)" by fastforce
  note cancelled = client_drop_unknown [OF unknown drop]
  show ?thesis
  proof (cases res)
    case None
    with assms(1) best drop cancelled show ?thesis by (auto simp: client_pass_def)
  next
    case (Some a)
    obtain k cp lh where a: "a = (k, cp, lh)" by (cases a)
    obtain r2 c2 where info: "client_get_block_info D h c1 = (r2, c2)" by fastforce
    have "cl_cancelled c2"
      using info cancelled call_keeps_cancelled by (simp add: client_get_block_info_def)
    then show ?thesis
      using assms(1) best drop Some a info by (cases r2) (auto simp: client_pass_def dest: client_send_keeps)
  qed
qed

text \<open>C40.  A pass over the client is the same pass over \<open>client_node\<close>: the node that answers call number \<open>u\<close> with what
  the client gets for it, retries and decoding included, after the calls of a log before that one.  The log begins at
  the client of the pass and leads to the client it ends with, and its length is the number of calls made, so
  whatever holds of passes over nodes holds of the program, with these answers.  The node is honest if the blocks
  of the node program are the ones asked for.  Unless the pass ends with the token of the server cancelled, the
  client gave up on no call of the log, so that a checkpoint was left only because the node has it off its best
  chain.  When the node does not know the block of the checkpoint, the pass does end with the token cancelled, and
  no other follows: the arm that takes an error for an orphaned block is never reached by a server that goes on.\<close>

theorem client_refines_node:
  assumes pass: "client_pass C D opened max_len w = (es, e, w')"
  shows "(\<exists>qs. after_calls C D qs (wk_client w) = wk_client w'
      \<and> follow_pass (client_node C D opened (wk_client w) t qs) max_len (walk_state t w) = (es, outcome (t + length qs) e w')
      \<and> (honest_daemon C D \<longrightarrow> honest (client_node C D opened (wk_client w) t qs))
      \<and> (cl_cancelled (wk_client w') \<or> answered C D qs (wk_client w)))
    \<and> (client_get_best_block_hash D (wk_client w) = (Inr h, c) \<longrightarrow> h \<noteq> cp_hash (wk_checkpoint w)
      \<longrightarrow> (\<forall>n v. dm_info D n (cp_hash (wk_checkpoint w)) \<noteq> Answer v)
      \<longrightarrow> \<not> cl_cancelled (wk_client w) \<longrightarrow> \<not> signalled (cl_requests (wk_client w))
      \<longrightarrow> client_follow C D opened signalled max_len (Suc passes) w = (es, e, w') \<and> cl_cancelled (wk_client w'))"
proof (intro conjI impI)
  from client_pass_calls [OF pass, of t] obtain qs where qs: "after_calls C D qs (wk_client w) = wk_client w'"
    "follow_pass (client_node C D opened (wk_client w) t qs) max_len (walk_state t w) = (es, outcome (t + length qs) e w')"
    by blast
  then show "\<exists>qs. after_calls C D qs (wk_client w) = wk_client w'
      \<and> follow_pass (client_node C D opened (wk_client w) t qs) max_len (walk_state t w) = (es, outcome (t + length qs) e w')
      \<and> (honest_daemon C D \<longrightarrow> honest (client_node C D opened (wk_client w) t qs))
      \<and> (cl_cancelled (wk_client w') \<or> answered C D qs (wk_client w))"
    using client_node_honest answered_or_cancelled [of C D qs "wk_client w"] by auto
next
  assume best: "client_get_best_block_hash D (wk_client w) = (Inr h, c)" "h \<noteq> cp_hash (wk_checkpoint w)"
    and unknown: "\<forall>n v. dm_info D n (cp_hash (wk_checkpoint w)) \<noteq> Answer v"
    and running: "\<not> cl_cancelled (wk_client w)" "\<not> signalled (cl_requests (wk_client w))"
  show cancelled: "cl_cancelled (wk_client w')" using client_pass_unknown [OF pass best] unknown by blast
  then have "client_follow C D opened signalled max_len passes w' = ([], None, w')" by (cases passes) simp_all
  with pass running show "client_follow C D opened signalled max_len (Suc passes) w = (es, e, w')"
    by (cases e) simp_all
qed

text \<open>A node that has lost the block at height 5 and is at another block at height 4.\<close>

definition example_info :: get_block_result where
  "example_info = \<lparr> gb_hash = [3], gb_confirmations = 1, gb_size = 80, gb_strippedsize = None, gb_weight = None, gb_height = 4,
     gb_version = 1, gb_time = 0, gb_mediantime = None, gb_nonce = 0, gb_bits = [], gb_difficulty = 0,
     gb_previousblockhash = None, gb_nextblockhash = None \<rparr>"

definition example_daemon :: daemon where
  "example_daemon = \<lparr> dm_block = (\<lambda>_ _. Unsent), dm_info = (\<lambda>_ h. if h = [2] then Refused else Answer example_info),
     dm_hash = (\<lambda>_ _. Unsent), dm_best = (\<lambda>_. Answer [3]) \<rparr>"

definition example_decoding :: decoding where
  "example_decoding = \<lparr> dc_wire = \<lparr> wo_sha256d = (\<lambda>_. []), wo_address = (\<lambda>_. None), wo_witness = (\<lambda>_. None) \<rparr>,
     dc_hex = (\<lambda>_. None) \<rparr>"

definition example_walk :: "client \<Rightarrow> walk" where
  "example_walk c = \<lparr> wk_client = c,
     wk_checkpoint = CheckPoint (block_id_at 5 [2]) (Some (CheckPoint (block_id_at 4 [1]) None)), wk_last_hash = [2] \<rparr>"

text \<open>A node one block ahead of the checkpoint that knows only the hash of that height, and does not answer its first request.\<close>

definition tip_hash :: hash32 where
  "tip_hash = replicate 32 4"

definition ahead_decoding :: decoding where
  "ahead_decoding = \<lparr> dc_wire = example_wire\<lparr> wo_sha256d := (\<lambda>_. tip_hash) \<rparr>, dc_hex = Some \<rparr>"

definition ahead_daemon :: daemon where
  "ahead_daemon = \<lparr> dm_block = (\<lambda>_ h. if h = tip_hash then Answer (block_bytes marked_witness (var_uint_u8 0) (var_uint_u8 0)
       example_header None (var_uint_u8 1) [example_raw_tx]) else Refused),
     dm_info = (\<lambda>_ _. Answer (example_info\<lparr> gb_height := 6 \<rparr>)),
     dm_hash = (\<lambda>_ k. if k = 6 then Answer tip_hash else Refused),
     dm_best = (\<lambda>n. if n = 0 then Unsent else Answer tip_hash) \<rparr>"

definition ahead_walk :: walk where
  "ahead_walk = \<lparr> wk_client = \<lparr> cl_requests = 0, cl_cancelled = False \<rparr>,
     wk_checkpoint = CheckPoint (block_id_at 5 example_hash) None, wk_last_hash = example_hash \<rparr>"

definition ahead_block :: block where
  "ahead_block = block_new (dc_wire ahead_decoding) 0 example_header None (var_uint_u8 1) [example_raw_tx]"

lemma ahead_answers:
  "client_get_best_block_hash ahead_daemon \<lparr> cl_requests = 0, cl_cancelled = False \<rparr>
    = (Inr tip_hash, \<lparr> cl_requests = 2, cl_cancelled = False \<rparr>)"
  "client_get_block_info ahead_daemon h c = (Inr (example_info\<lparr> gb_height := 6 \<rparr>), c\<lparr> cl_requests := cl_requests c + 1 \<rparr>)"
  "client_get_block_hash ahead_daemon 6 c = (Inr tip_hash, c\<lparr> cl_requests := cl_requests c + 1 \<rparr>)"
  "client_get_block ahead_decoding ahead_daemon tip_hash c = (Inr ahead_block, c\<lparr> cl_requests := cl_requests c + 1 \<rparr>)"
proof -
  have "wo_witness (dc_wire ahead_decoding) (marked_witness ws @ r) = Some (ws, r)" for ws r
    using example_wire_witness by (simp add: ahead_decoding_def)
  from read_block_bytes [OF this example_block_wf, where size' = 0 and r = "[]"]
  have "read_block (dc_wire ahead_decoding) 0 (block_bytes marked_witness k m example_header None (var_uint_u8 1) [example_raw_tx])
      = Some (ahead_block, [])" for k m
    by (simp add: ahead_block_def)
  then show "client_get_block ahead_decoding ahead_daemon tip_hash c = (Inr ahead_block, c\<lparr> cl_requests := cl_requests c + 1 \<rparr>)"
    by (simp add: client_calls call_at_once ahead_daemon_def) (simp add: ahead_decoding_def)
  have "tries (Suc (Suc n)) (dm_best ahead_daemon) \<lparr> cl_requests = 0, cl_cancelled = False \<rparr>
      = (Inr tip_hash, \<lparr> cl_requests = 2, cl_cancelled = False \<rparr>)" for n
    by (simp add: ahead_daemon_def)
  from this [of 8] show "client_get_best_block_hash ahead_daemon \<lparr> cl_requests = 0, cl_cancelled = False \<rparr>
      = (Inr tip_hash, \<lparr> cl_requests = 2, cl_cancelled = False \<rparr>)"
    by (simp add: client_get_best_block_hash_def client_call_def)
qed (simp_all add: client_calls call_at_once ahead_daemon_def)

lemma ahead_pass:
  "client_pass ahead_decoding ahead_daemon (\<lambda>_. True) 30 ahead_walk
    = ([\<lparr> be_height = 6, be_hash = tip_hash, be_block = ahead_block, be_reorg_len = 0, be_tip = 6 \<rparr>], None,
       \<lparr> wk_client = \<lparr> cl_requests = 6, cl_cancelled = False \<rparr>,
         wk_checkpoint = CheckPoint (block_id_at 6 tip_hash) (Some (wk_checkpoint ahead_walk)), wk_last_hash = tip_hash \<rparr>)"
proof -
  let ?cp = "CheckPoint (block_id_at 5 example_hash) None"
  have hashes: "tip_hash \<noteq> example_hash" by (simp add: tip_hash_def example_hash_def)
  have cp: "cp_height ?cp = 5" "cp_hash ?cp = example_hash" by (simp_all add: cp_height_def cp_hash_def block_id_at_def)
  have block: "bh_prev_hash (hd_value (blk_header ahead_block)) = example_hash" "hd_hash (blk_header ahead_block) = tip_hash"
    by (simp_all add: ahead_block_def block_new_def ahead_decoding_def example_header_def)
  have step: "cp_insert (block_id_at 6 tip_hash) ?cp = Some (CheckPoint (block_id_at 6 tip_hash) (Some ?cp))"
    using cp_insert_next [of ?cp 6 tip_hash] by (simp add: cp)
  have ids: "bid_hash (block_id_at k h) = h" "bid_height (block_id_at k h) = k" for k h by (simp_all add: block_id_at_def)
  let ?w = "\<lparr> wk_client = \<lparr> cl_requests = 6, cl_cancelled = False \<rparr>, wk_checkpoint = CheckPoint (block_id_at 6 tip_hash) (Some ?cp),
    wk_last_hash = tip_hash \<rparr>"
  have done_: "client_send ahead_decoding ahead_daemon (\<lambda>_. True) 6 0 ?w = ([], None, ?w)"
    by (subst client_send.simps) (simp add: cp_height_def ids)
  have "client_send ahead_decoding ahead_daemon (\<lambda>_. True) 6 0 \<lparr> wk_client = \<lparr> cl_requests = 4, cl_cancelled = False \<rparr>,
      wk_checkpoint = ?cp, wk_last_hash = example_hash \<rparr>
    = ([\<lparr> be_height = 6, be_hash = tip_hash, be_block = ahead_block, be_reorg_len = 0, be_tip = 6 \<rparr>], None, ?w)"
    by (subst client_send.simps) (simp add: Let_def cp ahead_answers block step check_ordering_def done_)
  then show ?thesis
    using hashes by (simp add: client_pass_def ahead_walk_def ahead_answers cp ids example_info_def word_sless_alt)
qed

lemma lost_pass:
  "client_get_best_block_hash example_daemon \<lparr> cl_requests = 0, cl_cancelled = False \<rparr>
    = (Inr [3], \<lparr> cl_requests = 1, cl_cancelled = False \<rparr>)"
  "client_pass example_decoding example_daemon (\<lambda>_. True) 30 (example_walk \<lparr> cl_requests = 0, cl_cancelled = False \<rparr>)
      = ([], None, \<lparr> wk_client = \<lparr> cl_requests = 13, cl_cancelled = True \<rparr>, wk_checkpoint = CheckPoint (block_id_at 4 [1]) None,
         wk_last_hash = [1] \<rparr>)"
proof -
  let ?c = "\<lparr> cl_requests = 0, cl_cancelled = False \<rparr>"
  show best: "client_get_best_block_hash example_daemon ?c = (Inr [3], \<lparr> cl_requests = 1, cl_cancelled = False \<rparr>)"
    by (simp add: client_calls call_at_once example_daemon_def)
  have lost: "client_get_block_info example_daemon [2] \<lparr> cl_requests = 1, cl_cancelled = False \<rparr>
      = (Inl CeCancelled, \<lparr> cl_requests = 11, cl_cancelled = True \<rparr>)"
    unfolding client_calls by (subst call_unanswered) (simp_all add: example_daemon_def)
  have known: "h \<noteq> [2] \<Longrightarrow> client_get_block_info example_daemon h c = (Inr example_info, c\<lparr> cl_requests := cl_requests c + 1 \<rparr>)"
    for h c by (simp add: client_calls call_at_once example_daemon_def)
  show "client_pass example_decoding example_daemon (\<lambda>_. True) 30 (example_walk ?c)
      = ([], None, \<lparr> wk_client = \<lparr> cl_requests = 13, cl_cancelled = True \<rparr>, wk_checkpoint = CheckPoint (block_id_at 4 [1]) None,
         wk_last_hash = [1] \<rparr>)"
    by (simp add: client_pass_def example_walk_def best lost [simplified] known client_send.simps [where reorg_counter = 1]
        cp_hash_def cp_height_def block_id_at_def example_info_def
        word_sless_alt)
qed

theorem client_refines_node_witness:
  "(\<exists>qs. after_calls ahead_decoding ahead_daemon qs (wk_client ahead_walk) = \<lparr> cl_requests = 6, cl_cancelled = False \<rparr>
      \<and> follow_pass (client_node ahead_decoding ahead_daemon (\<lambda>_. True) (wk_client ahead_walk) 0 qs) 30 (walk_state 0 ahead_walk)
        = ([\<lparr> be_height = 6, be_hash = tip_hash, be_block = ahead_block, be_reorg_len = 0, be_tip = 6 \<rparr>],
           Inr \<lparr> fs_calls = length qs, fs_checkpoint = CheckPoint (block_id_at 6 tip_hash) (Some (wk_checkpoint ahead_walk)),
             fs_last_hash = tip_hash \<rparr>)
      \<and> answered ahead_decoding ahead_daemon qs (wk_client ahead_walk))
   \<and> client_follow example_decoding example_daemon (\<lambda>_. True) (\<lambda>_. False) 30 100 (example_walk \<lparr> cl_requests = 0, cl_cancelled = False \<rparr>)
     = ([], None, \<lparr> wk_client = \<lparr> cl_requests = 13, cl_cancelled = True \<rparr>, wk_checkpoint = CheckPoint (block_id_at 4 [1]) None,
         wk_last_hash = [1] \<rparr>)"
proof
  show "\<exists>qs. after_calls ahead_decoding ahead_daemon qs (wk_client ahead_walk) = \<lparr> cl_requests = 6, cl_cancelled = False \<rparr>
      \<and> follow_pass (client_node ahead_decoding ahead_daemon (\<lambda>_. True) (wk_client ahead_walk) 0 qs) 30 (walk_state 0 ahead_walk)
        = ([\<lparr> be_height = 6, be_hash = tip_hash, be_block = ahead_block, be_reorg_len = 0, be_tip = 6 \<rparr>],
           Inr \<lparr> fs_calls = length qs, fs_checkpoint = CheckPoint (block_id_at 6 tip_hash) (Some (wk_checkpoint ahead_walk)),
             fs_last_hash = tip_hash \<rparr>)
      \<and> answered ahead_decoding ahead_daemon qs (wk_client ahead_walk)"
    using conjunct1 [OF client_refines_node [OF ahead_pass, of 0 "[]" "wk_client ahead_walk" "\<lambda>_. False" 0]]
    by (auto simp: outcome_def)
next
  have "cp_hash (wk_checkpoint (example_walk c)) = [2]" "wk_client (example_walk c) = c" for c
    by (simp_all add: example_walk_def cp_hash_def block_id_at_def)
  then show "client_follow example_decoding example_daemon (\<lambda>_. True) (\<lambda>_. False) 30 100
      (example_walk \<lparr> cl_requests = 0, cl_cancelled = False \<rparr>)
     = ([], None, \<lparr> wk_client = \<lparr> cl_requests = 13, cl_cancelled = True \<rparr>, wk_checkpoint = CheckPoint (block_id_at 4 [1]) None,
         wk_last_hash = [1] \<rparr>)"
    using client_refines_node [OF lost_pass(2), of 0 "[3]" _ "\<lambda>_. False" 99] lost_pass(1)
    by (simp add: example_daemon_def)
qed

end
