(* ===== verification/ParserCalls.thy ===== *)
theory ParserCalls
  imports ParserInv
begin

text \<open>
  The calls \<open>parse_block\<close> makes to the token cache, as an interface: what every call keeps of a cache, the parser
  keeps, whatever the block, whenever it does not panic.
\<close>

text \<open>A script hash the parser can give for an owner.\<close>

definition script_owner :: "parser_env \<Rightarrow> hash32 \<Rightarrow> bool" where
  "script_owner P h \<longleftrightarrow> h = e_op_return (pe_env P) \<or> (\<exists>s. h = so_sha256 (pe_script P) s)"

definition template_of :: "parser_env \<Rightarrow> evaluated_tx hashed \<Rightarrow> inscription_template \<Rightarrow> bool" where
  "template_of P tx t \<longleftrightarrow> op_txid (loc_outpoint (it_location t)) = hd_hash tx \<and> script_owner P (it_owner t)"

lemma number_templates_of: "list_all (template_of P tx) (number_templates n ts) = list_all (template_of P tx) ts"
  by (induction n ts rule: number_templates.induct) (simp_all add: template_of_def)

lemma convert_of:
  "convert_to_template P prevouts tx cum i pa insc lk = Some (Some t, lk') \<Longrightarrow> template_of P tx t"
  by (auto simp: convert_to_template_def Let_def template_of_def script_owner_def
      split: sum.splits prod.splits option.splits if_splits)

lemma convert_all_of:
  assumes "convert_all f is lk = Some (ts, lk')" and "\<And>insc lk t lk'. f insc lk = Some (Some t, lk') \<Longrightarrow> template_of P tx t"
  shows "list_all (template_of P tx) ts"
  using assms(1)
proof (induction "is" arbitrary: lk ts lk')
  case (Cons i "is")
  then obtain t lk1 ts1 where f: "f i lk = Some (t, lk1)" "convert_all f is lk1 = Some (ts1, lk')"
    "ts = (case t of None \<Rightarrow> ts1 | Some t \<Rightarrow> t # ts1)" by (auto simp: bind_eq_Some_conv)
  with Cons.IH [OF f(2)] assms(2) show ?case by (cases t) auto
qed simp

fun result_of :: "parser_env \<Rightarrow> evaluated_tx hashed \<Rightarrow> parsed_result \<Rightarrow> bool" where
  "result_of P tx (ResSingle t) = template_of P tx t"
| "result_of P tx (ResMany ts) = list_all (template_of P tx) ts"
| "result_of P tx _ = True"

lemma parse_inscription_of:
  assumes "parse_inscription P prevouts tx cum i pa lk = Some (res, lk')"
  shows "result_of P tx res"
proof (cases "from_parts (so_instructions (pe_script P)) (hd (pa_parts pa)) (tl (pa_parts pa)) (word_of_nat i)")
  case (ParsedSingle insc)
  with assms obtain t where "convert_to_template P prevouts tx cum i pa insc lk = Some (t, lk')"
    "res = (case t of None \<Rightarrow> ResNone | Some t \<Rightarrow> ResSingle t)" by (auto simp: parse_inscription_def)
  then show ?thesis using convert_of by (cases t) auto
next
  case (ParsedMany "is")
  with assms obtain ts where ts: "convert_all (convert_to_template P prevouts tx cum i pa) is lk = Some (ts, lk')"
    "res = ResMany ts" by (auto simp: parse_inscription_def)
  from convert_all_of [OF ts(1)] convert_of ts(2) show ?thesis by auto
qed (use assms in \<open>auto simp: parse_inscription_def\<close>)

text \<open>The interface: the calls, and what a cache keeps under each.\<close>

locale parser_calls =
  fixes P :: parser_env
    and txs :: "evaluated_tx hashed list"
    and prevouts :: "outpoint \<rightharpoonup> tx_prevout"
    and keeps :: "token_cache \<Rightarrow> bool"
  assumes moved: "keeps c \<Longrightarrow> keeps (transferred loc (so_sha256 (pe_script P) s) txid vout c)"
    and burned: "keeps c \<Longrightarrow> keeps (burned_transfer (pe_env P) loc txid vout c)"
    and returned: "keeps c \<Longrightarrow> prevouts k = Some p \<Longrightarrow> keeps (transferred loc (pv_script_hash p) txid 0 c)"
    and created: "keeps c \<Longrightarrow> tx \<in> set txs \<Longrightarrow> template_of P tx t \<Longrightarrow>
      keeps (fst (parse_token_action (pe_env P) (pe_json P) t height timestamp c))"
begin

lemma move_inscription_keeps:
  assumes "move_inscription P prevouts tx cum i txin off s = Some s'" and "keeps (ps_cache s)"
  shows "keeps (ps_cache s')"
  using assms
  by (auto simp: move_inscription_def Let_def bind_eq_Some_conv moved burned returned
      split: sum.splits prod.splits option.splits if_splits)

lemma move_inscriptions_keeps:
  assumes "move_inscriptions P prevouts tx cum i txin s = Some s'" and "keeps (ps_cache s)"
  shows "keeps (ps_cache s')"
proof (cases "ps_offsets s (tin_outpoint txin)")
  case None
  with assms show ?thesis by (simp add: move_inscriptions_def)
next
  case (Some offsets)
  then have "fold_option (move_inscription P prevouts tx cum i txin) (so_walk (pe_script P) offsets)
      (s\<lparr> ps_offsets := (ps_offsets s)(tin_outpoint txin := None) \<rparr>) = Some s'"
    using assms(1) by (simp add: move_inscriptions_def)
  then show ?thesis
    by (rule fold_option_inv [where I = "\<lambda>s. keeps (ps_cache s)"]) (use assms(2) move_inscription_keeps in auto)
qed

lemma place_template_keeps:
  "keeps (ps_cache s) \<Longrightarrow> tx \<in> set txs \<Longrightarrow> template_of P tx t \<Longrightarrow>
    keeps (ps_cache (place_template P height timestamp t s))"
  by (simp add: place_template_def Let_def created)

lemma place_templates_keeps:
  "keeps (ps_cache s) \<Longrightarrow> tx \<in> set txs \<Longrightarrow> list_all (template_of P tx) ts \<Longrightarrow>
    keeps (ps_cache (fold (place_template P height timestamp) ts s))"
  by (rule fold_inv [where I = "\<lambda>s. keeps (ps_cache s)"]) (auto simp: list_all_iff intro: place_template_keeps)

lemma create_inscriptions_keeps:
  assumes run: "create_inscriptions P height timestamp prevouts tx cum i txin (n, s) = Some (n', s')"
    and s: "keeps (ps_cache s)" and tx: "tx \<in> set txs"
  shows "keeps (ps_cache s')"
proof -
  define pa where "pa = (case ps_partials s (tin_outpoint txin) of Some pa \<Rightarrow> pa
    | None \<Rightarrow> \<lparr> pa_inscription_index = 0, pa_genesis_txid = hd_hash tx, pa_parts = [] \<rparr>)"
  define qa where "qa = pa\<lparr> pa_parts := pa_parts pa @ [input_part P txin] \<rparr>"
  from run obtain lk res lk' where res: "parse_inscription P prevouts tx cum i qa lk = Some (res, lk')"
    and lk: "ps_leaked s = Some lk"
    by (auto simp: create_inscriptions_def Let_def bind_eq_Some_conv pa_def [symmetric] qa_def [symmetric])
  define s1 where "s1 = s\<lparr> ps_partials := (ps_partials s)(tin_outpoint txin := None), ps_leaked := Some lk' \<rparr>"
  have s1: "ps_cache s1 = ps_cache s" by (simp add: s1_def)
  have s': "ps_cache s' = ps_cache s1 \<or> (\<exists>ts. (res = ResMany ts \<or> (\<exists>t. res = ResSingle t \<and> ts = [t]))
      \<and> (s' = fold (place_template P height timestamp) ts s1
        \<or> s' = fold (place_template P height timestamp) (number_templates n ts) s1))"
    using run res lk
    by (cases res) (auto simp: create_inscriptions_def Let_def pa_def [symmetric] qa_def [symmetric] s1_def [symmetric]
        simp del: number_templates.simps split: if_splits)
  have k1: "keeps (ps_cache s1)" using s s1 by simp
  have placed: "keeps (ps_cache (fold (place_template P height timestamp) ts s1))"
    "keeps (ps_cache (fold (place_template P height timestamp) (number_templates n ts) s1))"
    if "res = ResMany ts \<or> (\<exists>t. res = ResSingle t \<and> ts = [t])" for ts
  proof -
    have "list_all (template_of P tx) ts" using parse_inscription_of [OF res] that by auto
    then show "keeps (ps_cache (fold (place_template P height timestamp) ts s1))"
      "keeps (ps_cache (fold (place_template P height timestamp) (number_templates n ts) s1))"
      using place_templates_keeps [OF k1 tx] number_templates_of by blast+
  qed
  show ?thesis using s' k1 placed by (elim disjE exE conjE) simp_all
qed

lemma parse_input_keeps:
  assumes "parse_input P height timestamp prevouts tx cum x r = Some r'" and "keeps (ps_cache (snd r))" and "tx \<in> set txs"
  shows "keeps (ps_cache (snd r'))"
proof -
  obtain i txin n s where xr: "x = (i, txin)" "r = (n, s)" by (cases x; cases r)
  with assms(1) obtain s1 where s1: "move_inscriptions P prevouts tx cum i txin s = Some s1"
    and r': "create_inscriptions P height timestamp prevouts tx cum i txin (n, s1) = Some r' \<or> r' = (n, s1)"
    by (auto simp: parse_input_def bind_eq_Some_conv split: if_splits)
  have "keeps (ps_cache s1)" using move_inscriptions_keeps [OF s1] assms(2) xr by simp
  with r' assms(3) show ?thesis by (cases r') (auto dest: create_inscriptions_keeps)
qed

lemma parse_tx_keeps:
  assumes "parse_tx P height timestamp prevouts tx s = Some s'" and "keeps (ps_cache s)" and "tx \<in> set txs"
  shows "keeps (ps_cache s')"
proof (cases "is_coinbase (hd_value tx)")
  case (Some c)
  show ?thesis
  proof (cases c)
    case True
    with assms Some show ?thesis by (auto simp: parse_tx_def)
  next
    case False
    with assms(1) Some obtain lk cum n where
      "fold_option (parse_input P height timestamp prevouts tx cum) (List.enumerate 0 (etx_inputs (hd_value tx)))
        (0, s\<lparr> ps_leaked := Some lk \<rparr>) = Some (n, s')"
      by (auto simp: parse_tx_def bind_eq_Some_conv)
    from fold_option_inv [where I = "\<lambda>r. keeps (ps_cache (snd r))", OF this] show ?thesis
      using assms(2,3) parse_input_keeps by auto
  qed
qed (use assms(1) in \<open>simp add: parse_tx_def\<close>)

lemma parse_block_keeps:
  assumes "parse_block P d height b prevouts c = Some (c', out)" and "keeps c" and "blk_txs b = txs"
  shows "keeps c'"
proof -
  from assms(1) obtain s partials offsets where
    s: "fold_option (parse_tx P height (bh_timestamp (hd_value (blk_header b))) prevouts) txs
      \<lparr> ps_partials = partials, ps_offsets = offsets, ps_leaked = None, ps_cache = c \<rparr> = Some s"
    and c': "c' = ps_cache s" by (auto simp: parse_block_def Let_def bind_eq_Some_conv assms(3))
  from fold_option_inv [where I = "\<lambda>s. keeps (ps_cache s)", OF s] show ?thesis
    using assms(2) parse_tx_keeps c' by auto
qed

end

end
