(* ===== verification/TypeProps.thy ===== *)
theory TypeProps
  imports ParserCalls IndexProps RestProps
begin

text \<open>
  The records of the database stay well-typed: hashes have 32 bytes and ticks their eight, every token is stored
  under its own key, and the key tables are finite.  This is what the ordered scans of the REST interface and the
  codecs rest on.
\<close>

section \<open>Types of the ledger\<close>

definition wf_place :: "location \<Rightarrow> bool" where
  "wf_place loc \<longleftrightarrow> wf_outpoint (loc_outpoint loc) \<and> loc_outpoint loc \<noteq> last_outpoint"

definition typed_tokens :: "env \<Rightarrow> (lower_tick \<rightharpoonup> token_meta) \<Rightarrow> bool" where
  "typed_tokens E T \<longleftrightarrow> (\<forall>k m. T k = Some m \<longrightarrow>
     k = tick_key E (dp_tick (tm_proto m)) \<and> wf_tick (dp_tick (tm_proto m)))"

definition typed_accounts :: "(address_token \<rightharpoonup> token_balance) \<Rightarrow> bool" where
  "typed_accounts A \<longleftrightarrow> (\<forall>k \<in> dom A. wf_address_token k)"

definition typed_valid :: "(location \<rightharpoonup> hash32 \<times> transfer_proto_db) \<Rightarrow> bool" where
  "typed_valid V \<longleftrightarrow> finite (dom V) \<and> (\<forall>loc a t. V loc = Some (a, t) \<longrightarrow> wf_hash a \<and> wf_place loc)"

definition typed_ledger :: "env \<Rightarrow> token_cache \<Rightarrow> bool" where
  "typed_ledger E c \<longleftrightarrow> typed_tokens E (tc_tokens c) \<and> typed_accounts (tc_accounts c) \<and> typed_valid (tc_valid c)"

fun typed_action :: "token_action \<Rightarrow> bool" where
  "typed_action (TaDeploy genesis p owner) \<longleftrightarrow> wf_tick (dp_tick p) \<and> wf_hash owner"
| "typed_action (TaMint owner w txid vout) \<longleftrightarrow> wf_hash owner"
| "typed_action (TaTransfer loc owner w txid vout) \<longleftrightarrow> wf_hash owner \<and> wf_place loc"
| "typed_action (TaTransferred loc recipient txid vout) \<longleftrightarrow> wf_hash recipient"

definition typed_event :: "history_token_action \<Rightarrow> bool" where
  "typed_event a \<longleftrightarrow> wf_tick (history_tick a) \<and> wf_hash (history_recipient a)
     \<and> (case history_sender a of None \<Rightarrow> True | Some s \<Rightarrow> wf_hash s)"

lemma typed_tokens_upd:
  "typed_tokens E T \<Longrightarrow> k = tick_key E (dp_tick (tm_proto m)) \<Longrightarrow> wf_tick (dp_tick (tm_proto m)) \<Longrightarrow>
    typed_tokens E (T(k \<mapsto> m))"
  by (simp add: typed_tokens_def)

lemma typed_accounts_upd: "typed_accounts A \<Longrightarrow> wf_address_token k \<Longrightarrow> typed_accounts (A(k \<mapsto> b))"
  by (simp add: typed_accounts_def)

lemma typed_valid_upd: "typed_valid V \<Longrightarrow> wf_hash a \<Longrightarrow> wf_place loc \<Longrightarrow> typed_valid (V(loc \<mapsto> (a, t)))"
  by (simp add: typed_valid_def)

lemma typed_valid_del: "typed_valid V \<Longrightarrow> typed_valid (V(loc := None))"
  by (simp add: typed_valid_def)

lemma typed_tokensD:
  "typed_tokens E T \<Longrightarrow> T k = Some m \<Longrightarrow> k = tick_key E (dp_tick (tm_proto m)) \<and> wf_tick (dp_tick (tm_proto m))"
  by (simp add: typed_tokens_def)

section \<open>Every action keeps the types\<close>

text \<open>The contract of an operation on typed states: given a typed argument it leaves a typed state and gives typed
  output, whenever it does not panic.\<close>

locale typed_steps =
  fixes step :: "'a \<Rightarrow> 's \<Rightarrow> 'e + ('s \<times> 'o list)"
    and typed :: "'s \<Rightarrow> bool" and arg :: "'a \<Rightarrow> bool" and out :: "'o \<Rightarrow> bool"
  assumes step_typed: "step a s = Inr (s', os) \<Longrightarrow> typed s \<Longrightarrow> arg a \<Longrightarrow> typed s' \<and> list_all out os"
begin

lemma run_typed: "run step as s = Inr (s', os) \<Longrightarrow> typed s \<Longrightarrow> list_all arg as \<Longrightarrow> typed s' \<and> list_all out os"
proof (induction as arbitrary: s os)
  case (Cons a as)
  then obtain s1 o1 o2 where s1: "step a s = Inr (s1, o1)" "run step as s1 = Inr (s', o2)" "os = o1 @ o2"
    by (auto split: sum.splits prod.splits)
  with Cons.prems step_typed have "typed s1" "list_all out o1" by auto
  with Cons.IH [OF s1(2)] Cons.prems(3) s1(3) show ?case by simp
qed auto

end

lemmas typed_defs = typed_ledger_def typed_event_def wf_address_token_def

lemma typed_deploy:
  assumes "process_deploy E genesis p owner (c, h) = Inr ((c', h'), evs)" and "typed_ledger E c"
    and "wf_tick (dp_tick p)" and "wf_hash owner"
  shows "typed_ledger E c' \<and> list_all typed_event evs"
  using assms by (auto simp: process_deploy_def typed_defs typed_tokens_upd split: option.splits)

lemma typed_mint:
  assumes "process_mint E owner w txid vout (c, h) = Inr ((c', h'), evs)" and "typed_ledger E c" and "wf_hash owner"
  shows "typed_ledger E c' \<and> list_all typed_event evs"
  using assms typed_tokensD [of E "tc_tokens c" "tick_key E (mw_tick w)"]
  by (auto simp: process_mint_def typed_defs Let_def rbind_Inr_iff typed_tokens_upd typed_accounts_upd
      split: option.splits if_splits)

lemma typed_transfer:
  assumes "process_transfer E loc owner w txid vout (c, h) = Inr ((c', h'), evs)" and "typed_ledger E c"
    and "wf_hash owner" and "wf_place loc"
  shows "typed_ledger E c' \<and> list_all typed_event evs"
  using assms typed_tokensD [of E "tc_tokens c" "tick_key E (mw_tick w)"]
  by (auto simp: process_transfer_def typed_defs Let_def rbind_Inr_iff typed_tokens_upd typed_accounts_upd
      typed_valid_upd split: option.splits if_splits)

lemma typed_transferred:
  assumes "process_transferred E loc recipient txid vout (c, h) = Inr ((c', h'), evs)" and "typed_ledger E c"
    and "wf_hash recipient"
  shows "typed_ledger E c' \<and> list_all typed_event evs"
proof (cases "tc_valid c loc")
  case None
  with assms show ?thesis by (simp add: process_transferred_def)
next
  case (Some v)
  obtain sender t where v: "v = (sender, t)" by (cases v)
  have "wf_hash sender" using assms(2) Some v unfolding typed_ledger_def typed_valid_def by blast
  with assms Some v typed_tokensD [of E "tc_tokens c" "tick_key E (tp_tick t)"] show ?thesis
    by (auto simp: process_transferred_def typed_defs Let_def rbind_Inr_iff typed_tokens_upd typed_accounts_upd
        typed_valid_del split: option.splits if_splits)
qed

lemma typed_token_action:
  assumes "process_token_action E a (c, h) = Inr ((c', h'), evs)" and "typed_ledger E c" and "typed_action a"
  shows "typed_ledger E c' \<and> list_all typed_event evs"
  using assms by (cases a) (auto dest: typed_deploy typed_mint typed_transfer typed_transferred)

interpretation typed_run: typed_steps "process_token_action E" "\<lambda>(c, h). typed_ledger E c" typed_action typed_event
  for E
  by unfold_locales (auto dest: typed_token_action)

section \<open>The tables\<close>

definition typed_db :: "env \<Rightarrow> db \<Rightarrow> bool" where
  "typed_db E d \<longleftrightarrow> typed_tokens E (db_token_to_meta d) \<and> typed_accounts (db_balances d)
     \<and> transfer_keys_ok d \<and> history_keys_ok d \<and> (\<forall>k p. db_prevouts d k = Some p \<longrightarrow> wf_hash (pv_script_hash p))"

text \<open>The hash function gives 32 bytes, and so do the messages of the chain their ticks; no transaction id consists
  of ones only.\<close>

definition typed_env :: "parser_env \<Rightarrow> bool" where
  "typed_env P \<longleftrightarrow> (\<forall>s. wf_hash (so_sha256 (pe_script P) s)) \<and> wf_hash (e_op_return (pe_env P))
     \<and> (\<forall>data p v. js_brc4 (pe_json P) data = Inr (Brc4Deploy p) \<longrightarrow> deploy_value (e_chain (pe_env P)) p = Some v
          \<longrightarrow> wf_tick (dw_tick v))"

definition typed_block :: "block \<Rightarrow> bool" where
  "typed_block b \<longleftrightarrow> (\<forall>tx \<in> set (blk_txs b). wf_hash (hd_hash tx) \<and> hd_hash tx \<noteq> replicate 32 255)"

lemma typed_owner: "typed_env P \<Longrightarrow> script_owner P h \<Longrightarrow> wf_hash h"
  by (auto simp: typed_env_def script_owner_def)

text \<open>Loading the transfers of the spent outputs, and what the actions touch.\<close>

lemma typed_load:
  assumes "transfer_keys_ok d"
  shows "typed_valid (tc_valid (token_cache_load prevouts (db_transfers d)))"
proof -
  let ?V = "load_transfers (db_transfers d) prevouts"
  have key: "\<exists>k \<in> dom (db_transfers d). al_address k = a \<and> al_location k = loc" if "?V loc = Some (a, t)" for loc a t
    using that by (auto simp: load_transfers_def split: option.splits) (metis address_location.select_convs domI)
  then have "dom ?V \<subseteq> al_location ` dom (db_transfers d)" by fastforce
  moreover have "finite (dom (db_transfers d))" using assms by (simp add: transfer_keys_ok_def)
  ultimately have "finite (dom ?V)" using finite_surj by blast
  moreover have "wf_hash a \<and> wf_place loc" if "?V loc = Some (a, t)" for loc a t
    using key [OF that] assms by (auto simp: transfer_keys_ok_def wf_address_location_def wf_place_def)
  ultimately show ?thesis by (simp add: token_cache_load_def typed_valid_def Let_def token_cache_empty_def)
qed

lemma typed_load_tokens:
  assumes "typed_tokens E metas" and "typed_accounts balances" and "typed_valid (tc_valid c)"
  shows "typed_ledger E ((load_tokens_data E metas balances c)\<lparr> tc_actions := as \<rparr>)"
  using assms
  by (auto simp: typed_ledger_def typed_tokens_def typed_accounts_def load_tokens_data_def Let_def map_of_tbl_found
      split: prod.splits if_splits)

text \<open>The cache the parser fills: typed actions, and the transfers it was loaded with.\<close>

definition typed_calls :: "(location \<rightharpoonup> hash32 \<times> transfer_proto_db) \<Rightarrow> token_cache \<Rightarrow> bool" where
  "typed_calls V c \<longleftrightarrow> tc_valid c = V \<and> list_all typed_action (tc_actions c)"

lemma typed_push: "typed_calls V c \<Longrightarrow> typed_action a \<Longrightarrow> typed_calls V (push_action a c)"
  by (simp add: typed_calls_def push_action_def)

lemma typed_parse:
  assumes P: "typed_env P" and c: "typed_calls V c" and t: "wf_hash (it_owner t)" "wf_place (it_location t)"
  shows "typed_calls V (fst (parse_token_action (pe_env P) (pe_json P) t height timestamp c))"
proof -
  have tick: "wf_tick (dw_tick v)"
    if "try_parse (e_chain (pe_env P)) (pe_json P) ct content = Inr (Brc4Deploy p)" "deploy_value (e_chain (pe_env P)) p = Some v"
    for ct content p v
    using that P by (auto simp: try_parse_def typed_env_def split: if_splits option.splits sum.splits)
  have upd: "typed_calls V (x\<lparr> tc_all := m \<rparr>) = typed_calls V x" for x m by (simp add: typed_calls_def)
  show ?thesis
    using c t by (auto simp: parse_token_action_def Let_def upd typed_push tick
        split: option.splits sum.splits brc4.splits)
qed

definition typed_input :: "parser_env \<Rightarrow> evaluated_tx hashed list \<Rightarrow> (outpoint \<rightharpoonup> tx_prevout) \<Rightarrow> bool" where
  "typed_input P txs prevouts \<longleftrightarrow> typed_env P
     \<and> (\<forall>tx \<in> set txs. wf_hash (hd_hash tx) \<and> hd_hash tx \<noteq> replicate 32 255)
     \<and> (\<forall>k p. prevouts k = Some p \<longrightarrow> wf_hash (pv_script_hash p))"

interpretation typed_parser: parser_calls P txs prevouts "\<lambda>c. typed_input P txs prevouts \<longrightarrow> typed_calls V c"
  for P txs prevouts V
proof unfold_locales
  fix c tx t height timestamp
  assume c: "typed_input P txs prevouts \<longrightarrow> typed_calls V c" and t: "tx \<in> set txs" "template_of P tx t"
  show "typed_input P txs prevouts \<longrightarrow> typed_calls V (fst (parse_token_action (pe_env P) (pe_json P) t height timestamp c))"
  proof
    assume i: "typed_input P txs prevouts"
    then have P: "typed_env P" and tx: "wf_hash (hd_hash tx)" "hd_hash tx \<noteq> replicate 32 255"
      using t(1) by (simp_all add: typed_input_def)
    from t(2) tx have "wf_place (it_location t)"
      by (auto simp: template_of_def wf_place_def wf_outpoint_def last_outpoint_def)
    with typed_parse [OF P, of V c t] typed_owner [OF P] c i t(2)
    show "typed_calls V (fst (parse_token_action (pe_env P) (pe_json P) t height timestamp c))"
      by (simp add: template_of_def)
  qed
qed (auto simp: transferred_def burned_transfer_def typed_input_def typed_env_def intro: typed_push)

section \<open>The writes of a block\<close>

fun typed_data :: "env \<Rightarrow> processed_data \<Rightarrow> bool" where
  "typed_data E (PdTokens metas balances to_write to_remove) \<longleftrightarrow> typed_tokens E metas \<and> typed_accounts balances
     \<and> finite (dom to_write)
     \<and> (\<forall>k \<in> dom to_write. wf_address_location k \<and> loc_outpoint (al_location k) \<noteq> last_outpoint)"
| "typed_data E (PdHistory height last_id history) \<longleftrightarrow> (\<forall>e \<in> set history. wf_address_token_id (fst e))"
| "typed_data E (PdPrevouts to_write to_remove) \<longleftrightarrow> (\<forall>k p. to_write k = Some p \<longrightarrow> wf_hash (pv_script_hash p))"
| "typed_data E _ \<longleftrightarrow> True"

lemma write_processed_written:
  "write_processed p (d, l) = Some (d', l') \<Longrightarrow> d' = written p d"
  by (cases p) (auto simp: written_def Let_def bind_eq_Some_conv log_tokens_def log_ordinals_def split: option.splits if_splits)

lemma dom_tbl_extend: "dom (tbl_extend t kvs) = dom t \<union> fst ` set kvs"
  by (induction kvs arbitrary: t) (auto simp: tbl_extend_def)

lemma tbl_remove_batch_sub: "tbl_remove_batch t ks k = Some v \<Longrightarrow> t k = Some v"
proof (induction ks arbitrary: t)
  case (Cons a ks)
  have "tbl_remove_batch (t(a := None)) ks k = Some v" using Cons.prems by (simp add: tbl_remove_batch_def)
  from Cons.IH [OF this] show ?case by (simp split: if_splits)
qed simp

lemma typed_written:
  assumes d: "typed_db E d" and p: "typed_data E p"
  shows "typed_db E (written p d)"
proof (cases p)
  case (PdTokens metas balances tw tr)
  have "dom (db_transfers d |` (- tr) ++ tw) \<subseteq> dom (db_transfers d) \<union> dom tw" by auto
  moreover have "finite (dom (db_transfers d) \<union> dom tw)" using d p PdTokens by (simp add: typed_db_def transfer_keys_ok_def)
  ultimately have "finite (dom (db_transfers d |` (- tr) ++ tw))" by (rule finite_subset)
  with d p PdTokens show ?thesis
    by (auto simp: typed_db_def written_simps typed_tokens_def typed_accounts_def transfer_keys_ok_def history_keys_ok_def
        map_add_Some_iff)
next
  case (PdHistory height last_id history)
  with d p show ?thesis
    by (auto simp: typed_db_def written_history transfer_keys_ok_def history_keys_ok_def dom_tbl_extend)
next
  case (PdPrevouts tw ks)
  with d p show ?thesis
    by (auto simp: typed_db_def written_simps transfer_keys_ok_def history_keys_ok_def map_add_Some_iff
        dest: tbl_remove_batch_sub)
qed (use d in \<open>simp_all add: typed_db_def written_simps transfer_keys_ok_def history_keys_ok_def\<close>)

lemma typed_history:
  "block_history height as n = Some (m, es) \<Longrightarrow> list_all typed_event as \<Longrightarrow> e \<in> set es \<Longrightarrow> wf_address_token_id (fst e)"
proof (induction as arbitrary: n es)
  case (Cons a as)
  then obtain m1 es1 es2 where s: "history_entries height a n = Some (m1, es1)"
    "block_history height as m1 = Some (m, es2)" "es = es1 @ es2"
    by (auto simp: bind_eq_Some_conv)
  have "wf_address_token_id (fst e)" if "e \<in> set es1"
    using s(1) that Cons.prems(2)
    by (cases a) (auto simp: history_entries_def Let_def typed_event_def wf_address_token_id_def split: if_splits)
  with Cons.IH [OF s(2)] Cons.prems s(3) show ?case by auto
qed simp

lemma typed_outputs: "typed_env P \<Longrightarrow> block_outputs P b k = Some p \<Longrightarrow> wf_hash (pv_script_hash p)"
  by (auto simp: block_outputs_def tx_outputs_def typed_env_def dest!: map_of_SomeD)

lemma fill_prevouts_values:
  "fill_prevouts tbl own ks r = Inr r' \<Longrightarrow> r' k = Some v \<Longrightarrow> r k = Some v \<or> tbl k = Some v \<or> own k = Some v"
proof (induction ks arbitrary: r)
  case (Cons k' ks)
  then show ?case
    by (cases "tbl k'"; cases "own k'") (auto split: if_splits, (fastforce split: if_splits)+)
qed simp

lemma typed_prevouts:
  assumes "process_prevouts P d b = Inr (prevouts, pd)" and "typed_env P" and "typed_db E d"
  shows "(\<forall>k p. prevouts k = Some p \<longrightarrow> wf_hash (pv_script_hash p)) \<and> typed_data E' pd"
proof -
  from assms(1) obtain ks where f: "fill_prevouts (db_prevouts d) (block_outputs P b) ks Map.empty = Inr prevouts"
    and pd: "pd = PdPrevouts (block_outputs P b) ks"
    by (auto simp: process_prevouts_def split: option.splits sum.splits)
      (cases "fill_prevouts (db_prevouts d) (block_outputs P b) (the (spent_outpoints b)) Map.empty"; auto)
  have "wf_hash (pv_script_hash p)" if "prevouts k = Some p" for k p
    using fill_prevouts_values [OF f that] typed_outputs [OF assms(2)] assms(3) by (auto simp: typed_db_def)
  with pd typed_outputs [OF assms(2)] show ?thesis by auto
qed

section \<open>A block\<close>

lemma typed_tokens_run:
  assumes d: "typed_db E d" and c: "typed_calls (tc_valid (token_cache_load prevouts (db_transfers d))) c"
    and run: "process_token_actions E (load_tokens_data E (db_token_to_meta d) (db_balances d) c, h) = Inr ((c', h'), evs)"
  shows "typed_ledger E c' \<and> list_all typed_event evs"
proof -
  let ?l = "load_tokens_data E (db_token_to_meta d) (db_balances d) c"
  have "typed_valid (tc_valid c)" using typed_load d c by (simp add: typed_db_def typed_calls_def)
  then have "typed_ledger E (?l\<lparr> tc_actions := [] \<rparr>)" using d by (intro typed_load_tokens) (simp_all add: typed_db_def)
  moreover have "tc_actions ?l = tc_actions c" by (simp add: load_tokens_data_def Let_def split: prod.splits)
  moreover have "list_all typed_action (tc_actions c)" using c by (simp add: typed_calls_def)
  ultimately show ?thesis
    using run typed_run.run_typed [of E "tc_actions c" "(?l\<lparr> tc_actions := [] \<rparr>, h)"]
    by (simp add: process_token_actions_def)
qed

lemma typed_transfers_to_write:
  assumes "typed_valid (tc_valid c)"
  shows "finite (dom (transfers_to_write c))
    \<and> (\<forall>k \<in> dom (transfers_to_write c). wf_address_location k \<and> loc_outpoint (al_location k) \<noteq> last_outpoint)"
proof -
  have key: "tc_valid c (al_location k) \<noteq> None \<and> al_address k = fst (the (tc_valid c (al_location k)))"
    if "k \<in> dom (transfers_to_write c)" for k
    using that by (auto simp: transfers_to_write_def split: option.splits prod.splits if_splits)
  have "dom (transfers_to_write c) \<subseteq> (\<lambda>l. \<lparr> al_address = fst (the (tc_valid c l)), al_location = l \<rparr>) ` dom (tc_valid c)"
  proof
    fix k assume "k \<in> dom (transfers_to_write c)"
    from key [OF this] show "k \<in> (\<lambda>l. \<lparr> al_address = fst (the (tc_valid c l)), al_location = l \<rparr>) ` dom (tc_valid c)"
      by (intro image_eqI [of _ _ "al_location k"]) auto
  qed
  moreover have "finite (dom (tc_valid c))" using assms by (simp add: typed_valid_def)
  ultimately have "finite (dom (transfers_to_write c))" using finite_surj by blast
  moreover have "wf_address_location k \<and> loc_outpoint (al_location k) \<noteq> last_outpoint"
    if k: "k \<in> dom (transfers_to_write c)" for k
  proof -
    obtain a t where "tc_valid c (al_location k) = Some (a, t)" "al_address k = a" using key [OF k] by auto
    with assms show ?thesis unfolding typed_valid_def wf_address_location_def wf_place_def by blast
  qed
  ultimately show ?thesis by blast
qed

lemma typed_handle_tokens:
  assumes run: "handle_tokens X d h height b prevouts processed = Inr (w, h')"
    and P: "typed_env (ie_parser X)" and b: "typed_block b" and d: "typed_db (pe_env (ie_parser X)) d"
    and pre: "\<forall>k p. prevouts k = Some p \<longrightarrow> wf_hash (pv_script_hash p)"
    and ps: "list_all (typed_data (pe_env (ie_parser X))) processed"
  shows "list_all (typed_data (pe_env (ie_parser X))) (dw_processed w)"
proof -
  let ?E = "pe_env (ie_parser X)" and ?c = "token_cache_load prevouts (db_transfers d)"
  from run obtain c parsed c' h1 evs last_id es pf info where
    parse: "parse_block (ie_parser X) d height b prevouts ?c = Some (c, parsed)"
    and exec: "process_token_actions ?E (load_tokens_data ?E (db_token_to_meta d) (db_balances d) c, h) = Inr ((c', h1), evs)"
    and hist: "block_history height evs (history_id d) = Some (last_id, es)"
    and w: "dw_processed w = processed @ parsed @ [PdHistory height last_id es,
      PdTokens (tc_tokens c') (tc_accounts c') (transfers_to_write c') (transfers_to_remove ?c), PdInfo height info pf]"
    by (auto simp: handle_tokens_def Let_def split: option.splits sum.splits prod.splits)
  have "typed_input (ie_parser X) (blk_txs b) prevouts" using P b pre by (simp add: typed_input_def typed_block_def)
  moreover have "typed_calls (tc_valid ?c) ?c" by (simp add: typed_calls_def token_cache_load_def token_cache_empty_def Let_def)
  ultimately have "typed_calls (tc_valid ?c) c"
    using typed_parser.parse_block_keeps [OF parse _ refl, of "tc_valid ?c"] by blast
  from typed_tokens_run [OF d this exec] have c': "typed_ledger ?E c'" and evs: "list_all typed_event evs" by blast+
  have "list_all (typed_data ?E) parsed" using parse by (auto simp: parse_block_def Let_def bind_eq_Some_conv)
  moreover have "typed_data ?E (PdHistory height last_id es)" using typed_history [OF hist evs] by simp
  moreover have "typed_data ?E (PdTokens (tc_tokens c') (tc_accounts c') (transfers_to_write c') (transfers_to_remove ?c))"
    using c' typed_transfers_to_write [of c'] by (simp add: typed_ledger_def)
  ultimately show ?thesis using ps w by simp
qed

lemma typed_handle_block:
  assumes run: "handle_block X d h height b = Inr (w, h')"
    and P: "typed_env (ie_parser X)" and b: "typed_block b" and d: "typed_db (pe_env (ie_parser X)) d"
  shows "list_all (typed_data (pe_env (ie_parser X))) (dw_processed w)"
proof -
  from run obtain prevouts pd where pre: "process_prevouts (ie_parser X) d b = Inr (prevouts, pd)"
    by (auto simp: handle_block_def Let_def split: sum.splits)
  note typed = typed_prevouts [OF pre P d]
  from run pre consider "dw_processed w = [pd, PdFullHash (block_addresses (ie_parser X) b)]"
    | info pf where "dw_processed w = [pd, PdFullHash (block_addresses (ie_parser X) b), PdInfo height info pf]"
    | "handle_tokens X d h height b prevouts [pd, PdFullHash (block_addresses (ie_parser X) b)] = Inr (w, h')"
    by (auto simp: handle_block_def Let_def split: if_splits option.splits)
  then show ?thesis
  proof cases
    case 3
    show ?thesis by (rule typed_handle_tokens [OF 3 P b d]) (use typed in simp_all)
  qed (use typed in simp_all)
qed

section \<open>The undo log\<close>

text \<open>What an entry of the log puts back is typed; what it only removes needs nothing.\<close>

fun typed_token_entry :: "env \<Rightarrow> token_history_entry \<Rightarrow> bool" where
  "typed_token_entry E (DeploysToRestore items) \<longleftrightarrow> typed_tokens E items"
| "typed_token_entry E (BalancesBefore items) \<longleftrightarrow> typed_accounts items"
| "typed_token_entry E (RestoreTransfers items) \<longleftrightarrow> finite (dom items)
     \<and> (\<forall>k \<in> dom items. wf_address_location k \<and> loc_outpoint (al_location k) \<noteq> last_outpoint)"
| "typed_token_entry E _ \<longleftrightarrow> True"

fun typed_ordinals_entry :: "ordinals_entry \<Rightarrow> bool" where
  "typed_ordinals_entry (RestorePrevouts items) \<longleftrightarrow> (\<forall>k p. items k = Some p \<longrightarrow> wf_hash (pv_script_hash p))"
| "typed_ordinals_entry _ \<longleftrightarrow> True"

definition typed_entries :: "env \<Rightarrow> reorg_history_block \<Rightarrow> bool" where
  "typed_entries E b \<longleftrightarrow> list_all (typed_token_entry E) (rb_token_history b)
     \<and> list_all typed_ordinals_entry (rb_ordinals_history b)"

definition typed_log :: "env \<Rightarrow> reorg_cache \<Rightarrow> bool" where
  "typed_log E r \<longleftrightarrow> (\<forall>x \<in> set (rc_blocks r). typed_entries E (snd x))"

definition typed_state :: "env \<Rightarrow> index_state \<Rightarrow> bool" where
  "typed_state E s \<longleftrightarrow> typed_db E (is_db s) \<and> typed_log E (is_cache s)"

text \<open>Undoing.\<close>

lemma typed_undo_token: "typed_token_entry E e \<Longrightarrow> typed_db E d \<Longrightarrow> typed_db E (token_entry_proceed e d)"
proof (cases e)
  case (RemoveHistory keys last_id outpoints height ids)
  assume "typed_db E d"
  moreover have "dom (tbl_remove_batch (db_history d) keys) \<subseteq> dom (db_history d)" by (auto dest: tbl_remove_batch_sub)
  ultimately show ?thesis
    unfolding RemoveHistory
    by (auto simp: typed_db_def transfer_keys_ok_def history_keys_ok_def domIff intro: finite_subset)
next
  case (RemoveTransfers ks)
  then show "typed_db E d \<Longrightarrow> ?thesis" by (auto simp: typed_db_def transfer_keys_ok_def history_keys_ok_def)
qed (auto simp: typed_db_def typed_tokens_def typed_accounts_def transfer_keys_ok_def history_keys_ok_def map_add_Some_iff
    restrict_map_def split: if_splits)

lemma typed_undo_ordinals: "typed_ordinals_entry e \<Longrightarrow> typed_db E d \<Longrightarrow> typed_db E (ordinals_entry_proceed e d)"
  by (cases e) (auto simp: typed_db_def transfer_keys_ok_def history_keys_ok_def map_add_Some_iff)

lemma typed_fold:
  assumes "\<And>e d. ok e \<Longrightarrow> P d \<Longrightarrow> P (f e d)"
  shows "list_all ok es \<Longrightarrow> P d \<Longrightarrow> P (fold f es d)"
  by (induction es arbitrary: d) (simp_all add: assms)

lemma typed_undo_block: "typed_entries E b \<Longrightarrow> typed_db E d \<Longrightarrow> typed_db E (undo_block h b d)"
proof -
  assume b: "typed_entries E b" and d: "typed_db E d"
  let ?d = "d\<lparr> db_last_block := Some (h - 1), db_block_info := (db_block_info d)(h := None) \<rparr>"
  have "typed_db E ?d" using d by (simp add: typed_db_def transfer_keys_ok_def history_keys_ok_def)
  then have "typed_db E (fold token_entry_proceed (rev (rb_token_history b)) ?d)"
    by (intro typed_fold [where ok = "typed_token_entry E" and P = "typed_db E"] typed_undo_token) (use b in \<open>auto simp: typed_entries_def\<close>)
  then have "typed_db E (fold ordinals_entry_proceed (rev (rb_ordinals_history b)) (fold token_entry_proceed (rev (rb_token_history b)) ?d))"
    by (intro typed_fold [where ok = typed_ordinals_entry and P = "typed_db E"] typed_undo_ordinals) (use b in \<open>auto simp: typed_entries_def\<close>)
  then show ?thesis by (simp add: undo_block_def)
qed

lemma typed_restore:
  "reorg_restore h (r, d) = (r', d') \<Longrightarrow> typed_log E r \<Longrightarrow> typed_db E d \<Longrightarrow> typed_log E r' \<and> typed_db E d'"
proof (induction h "(r, d)" arbitrary: r d rule: reorg_restore.induct)
  case (1 h r d)
  show ?case
  proof (cases "rc_blocks r \<noteq> [] \<and> h < fst (last (rc_blocks r))")
    case True
    let ?r = "r\<lparr> rc_blocks := butlast (rc_blocks r) \<rparr>"
    have "typed_log E ?r" using "1.prems"(2) by (auto simp: typed_log_def dest: in_set_butlastD)
    moreover have "typed_entries E (snd (last (rc_blocks r)))" using "1.prems"(2) True by (simp add: typed_log_def)
    ultimately show ?thesis
      using "1.hyps" [OF True] "1.prems" True typed_undo_block by (simp add: reorg_restore.simps [of h r d])
  qed (use "1.prems" in \<open>auto simp: reorg_restore.simps [of h r d] split: if_splits\<close>)
qed

text \<open>Logging.\<close>

lemma typed_update_last:
  assumes "reorg_update_last f r = Some r'" and "typed_log E r" and "\<And>b. typed_entries E b \<Longrightarrow> typed_entries E (f b)"
  shows "typed_log E r'"
  using assms
  by (fastforce simp: reorg_update_last_def typed_log_def dest: in_set_butlastD split: if_splits)

definition typed_logged :: "env \<Rightarrow> reorg_cache option \<Rightarrow> bool" where
  "typed_logged E rc \<longleftrightarrow> (case rc of None \<Rightarrow> True | Some r \<Rightarrow> typed_log E r)"

lemma typed_push_fold:
  assumes "\<And>e r r'. push e r = Some r' \<Longrightarrow> ok e \<Longrightarrow> typed_log E r \<Longrightarrow> typed_log E r'"
  shows "fold (\<lambda>e s. Option.bind s (push e)) es (Some r) = Some r' \<Longrightarrow> list_all ok es \<Longrightarrow> typed_log E r \<Longrightarrow> typed_log E r'"
proof (induction es arbitrary: r)
  case (Cons e es)
  have none: "fold (\<lambda>e s. Option.bind s (push e)) es None = None" by (induction es) simp_all
  with Cons.prems(1) obtain r1 where "push e r = Some r1" by (cases "push e r") auto
  with Cons assms show ?case by auto
qed simp

lemma typed_push_token:
  "push_token_entry e r = Some r' \<Longrightarrow> typed_token_entry E e \<Longrightarrow> typed_log E r \<Longrightarrow> typed_log E r'"
  unfolding push_token_entry_def by (erule typed_update_last) (simp_all add: typed_entries_def)

lemma typed_push_ordinals:
  "push_ordinals_entry e r = Some r' \<Longrightarrow> typed_ordinals_entry e \<Longrightarrow> typed_log E r \<Longrightarrow> typed_log E r'"
  unfolding push_ordinals_entry_def by (erule typed_update_last) (simp_all add: typed_entries_def)

lemma typed_log_tokens:
  assumes "log_tokens es rc = Some rc'" and "list_all (typed_token_entry E) es" and "typed_logged E rc"
  shows "typed_logged E rc'"
  using assms
  by (auto simp: log_tokens_def typed_logged_def split: option.splits
      intro: typed_push_fold [where ok = "typed_token_entry E", OF typed_push_token])

lemma typed_log_ordinals:
  assumes "log_ordinals es rc = Some rc'" and "list_all typed_ordinals_entry es" and "typed_logged E rc"
  shows "typed_logged E rc'"
  using assms
  by (auto simp: log_ordinals_def typed_logged_def split: option.splits
      intro: typed_push_fold [where ok = typed_ordinals_entry, OF typed_push_ordinals])

lemma typed_token_entries:
  assumes "typed_db E d"
  shows "list_all (typed_token_entry E) (token_undo_entries metas balances tw tr d)"
proof -
  have "typed_tokens E (T |` ks)" if "typed_tokens E T" for T ks
    using that by (simp add: typed_tokens_def restrict_map_def)
  then show ?thesis
    using assms by (auto simp: token_undo_entries_def Let_def typed_db_def typed_accounts_def transfer_keys_ok_def)
qed

lemma typed_prevout_before:
  assumes "prevout_before (db_prevouts d) tw ks = Some before" and "typed_db E d" and "typed_data E (PdPrevouts tw ks)"
  shows "typed_ordinals_entry (RestorePrevouts before)"
proof -
  have "wf_hash (pv_script_hash p)" if k: "before k = Some p" for k p
  proof (cases "k \<in> set ks")
    case True
    with k prevout_beforeD(1) [OF assms(1)] assms(2, 3) show ?thesis by (auto simp: typed_db_def split: option.splits)
  qed (use k prevout_beforeD(2) [OF assms(1)] in simp)
  then show ?thesis by simp
qed

lemma typed_write_log:
  assumes "write_processed p (d, rc) = Some (d', rc')" and "typed_logged E rc" and "typed_db E d" and "typed_data E p"
  shows "typed_logged E rc'"
proof (cases p)
  case (PdTokens metas balances tw tr)
  with assms typed_log_tokens [OF _ typed_token_entries [OF assms(3)], of metas balances tw tr rc rc'] show ?thesis
    by (auto simp: bind_eq_Some_conv split: if_splits)
next
  case (PdHistory height last_id history)
  with assms show ?thesis by (auto simp: Let_def bind_eq_Some_conv intro: typed_log_tokens)
next
  case (PdPrevouts tw ks)
  with assms typed_prevout_before [OF _ assms(3), of tw ks] show ?thesis
    by (auto simp: bind_eq_Some_conv split: if_splits intro: typed_log_ordinals)
qed (use assms in \<open>auto simp: bind_eq_Some_conv intro: typed_log_ordinals\<close>)

lemma typed_write_all:
  "write_all ps (d, rc) = Some (d', rc') \<Longrightarrow> typed_db E d \<Longrightarrow> typed_logged E rc \<Longrightarrow> list_all (typed_data E) ps \<Longrightarrow>
    typed_db E d' \<and> typed_logged E rc'"
proof (induction ps arbitrary: d rc)
  case (Cons p ps)
  then obtain d1 rc1 where w: "write_processed p (d, rc) = Some (d1, rc1)" "write_all ps (d1, rc1) = Some (d', rc')"
    by (auto simp: bind_eq_Some_conv)
  from write_processed_written [OF w(1)] typed_written Cons.prems have "typed_db E d1" by simp
  moreover from typed_write_log [OF w(1)] Cons.prems have "typed_logged E rc1" by simp
  ultimately show ?case using Cons.IH [OF w(2)] Cons.prems(4) by simp
qed simp

section \<open>The indexing loop\<close>

lemma typed_new_block: "typed_log E r \<Longrightarrow> typed_log E (reorg_new_block h r)"
proof -
  have "typed_entries E (snd x)"
    if "x \<in> set (bt_insert h reorg_history_block_new bs)" "\<forall>x \<in> set bs. typed_entries E (snd x)" for x bs
    using that by (induction bs) (auto simp: typed_entries_def reorg_history_block_new_def split: if_splits)
  note insert = this
  assume "typed_log E r"
  then have "\<forall>x \<in> set (if length (rc_blocks r) = rc_len r then tl (rc_blocks r) else rc_blocks r). typed_entries E (snd x)"
    by (cases "rc_blocks r") (auto simp: typed_log_def)
  from insert [OF _ this] show "typed_log E (reorg_new_block h r)"
    by (simp add: reorg_new_block_def typed_log_def Let_def)
qed

lemma typed_handle:
  assumes run: "handle X raw_open cancelled height b handle_reorgs s = Inr s'"
    and P: "typed_env (ie_parser X)" and b: "typed_block b" and s: "typed_state (pe_env (ie_parser X)) s"
  shows "typed_state (pe_env (ie_parser X)) s'"
proof -
  let ?E = "pe_env (ie_parser X)" and ?r = "if handle_reorgs then reorg_new_block height (is_cache s) else is_cache s"
  from run obtain w h d l where w: "handle_block X (is_db s) (is_holders s) height b = Inr (w, h)"
    and wr: "write_all (dw_processed w) (is_db s, if handle_reorgs then Some ?r else None) = Some (d, l)"
    and s': "is_db s' = d" "is_cache s' = (case l of Some r \<Rightarrow> r | None \<Rightarrow> ?r)"
    by (auto simp: handle_def Let_def split: sum.splits prod.splits option.splits if_splits)
  have log: "typed_log ?E ?r" using s typed_new_block by (simp add: typed_state_def)
  have "typed_db ?E d \<and> typed_logged ?E l"
    by (rule typed_write_all [OF wr _ _ typed_handle_block [OF w P b]])
      (use s log in \<open>simp_all add: typed_state_def typed_logged_def split: if_splits\<close>)
  with log s' show ?thesis by (auto simp: typed_state_def typed_logged_def split: option.splits)
qed

lemma typed_roll_back: "typed_state E s \<Longrightarrow> typed_state E (roll_back ev (drop_log ev s))"
proof -
  assume s: "typed_state E s"
  then have "typed_state E (drop_log ev s)" by (simp add: typed_state_def drop_log_def typed_log_def)
  then show ?thesis
    by (auto simp: roll_back_def typed_state_def Let_def split: prod.splits dest: typed_restore)
qed

lemma typed_loop:
  assumes P: "typed_env (ie_parser X)"
  shows "index_loop X raw_open evs s = (s', e) \<Longrightarrow> \<forall>ev \<in> set evs. typed_block (be_block ev) \<Longrightarrow>
    typed_state (pe_env (ie_parser X)) s \<Longrightarrow> typed_state (pe_env (ie_parser X)) s'"
proof (induction evs arbitrary: s)
  case (Cons ev evs)
  let ?E = "pe_env (ie_parser X)"
  have undone: "typed_state ?E (roll_back ev (drop_log ev s))" using typed_roll_back Cons.prems(3) .
  show ?case
  proof (cases "index_step X raw_open False ev s")
    case (Inr s1)
    then obtain s2 where "handle X raw_open False (ucast (be_height ev)) (be_block ev) (keeps_log ev)
        (roll_back ev (drop_log ev s)) = Inr s2" "s1 = s2\<lparr> is_prev_height := Some (be_height ev) \<rparr>"
      by (auto simp: index_step_def Let_def split: if_splits sum.splits)
    with typed_handle [OF _ P _ undone] Cons.prems(2) have "typed_state ?E s1" by (simp add: typed_state_def)
    with Inr Cons show ?thesis by simp
  qed (use Cons.prems undone in simp)
qed simp

text \<open>C8.  Whatever blocks come and whatever the chain drops, a run of the indexer that does not panic leaves
  well-typed tables behind, the rolled-back blocks at its end included: the keys of tokens, balances, open transfers
  and history have hashes of 32 bytes and ticks of eight, every token is stored under its own tick in lower case,
  and the scanned tables stay finite.  These are the conditions on the keys under which the scans of the REST
  interface are proved to see every entry.\<close>

theorem tables_stay_typed:
  assumes "index_run X raw_open evs s = (s', e)" and "e \<noteq> Some IePanic"
    and "typed_env (ie_parser X)" and "\<forall>ev \<in> set evs. typed_block (be_block ev)"
    and "typed_state (pe_env (ie_parser X)) s"
  shows "typed_state (pe_env (ie_parser X)) s' \<and> history_keys_ok (is_db s') \<and> transfer_keys_ok (is_db s')
    \<and> (e_lower (pe_env (ie_parser X)) = ascii_lower \<longrightarrow> token_keys_ok (is_db s'))"
proof -
  obtain s1 where s1: "index_loop X raw_open evs s = (s1, e)"
    using assms(1) by (auto simp: index_run_def Let_def split: prod.splits)
  have "typed_state (pe_env (ie_parser X)) s'"
    using typed_loop [OF assms(3) s1 assms(4, 5)] assms(1, 2) s1 typed_restore
    by (auto simp: index_run_def Let_def reorg_restore_all_def typed_state_def split: prod.splits)
  then show ?thesis by (auto simp: typed_state_def typed_db_def typed_tokens_def token_keys_ok_def)
qed

lemma example_typed:
  "typed_env (ie_parser example_index_env)" "typed_block (be_block (example_event 5000000 [example_cb, example_spending]))"
  "typed_state (pe_env (ie_parser example_index_env)) (example_state 4999999)"
proof -
  show "typed_env (ie_parser example_index_env)"
    by (auto simp: typed_env_def example_index_env_def example_parser_def example_script_ops_def example_json_def
        example_env_def wf_hash_def)
  have "x \<noteq> 255" if "x \<in> {20, 21 :: u8}" for x using that by auto
  then show "typed_block (be_block (example_event 5000000 [example_cb, example_spending]))"
    by (simp add: typed_block_def example_event_def example_chain_block_def example_cb_def example_spending_def wf_hash_def)
  show "typed_state (pe_env (ie_parser example_index_env)) (example_state 4999999)"
    by (auto simp: typed_state_def typed_db_def typed_log_def example_state_def db_empty_def reorg_cache_new_def
        typed_tokens_def typed_accounts_def transfer_keys_ok_def history_keys_ok_def example_prevouts_def wf_hash_def
        split: if_splits)
qed

theorem tables_stay_typed_witness:
  "typed_state (pe_env (ie_parser example_index_env))
     (fst (index_run example_index_env True [example_event 5000000 [example_cb, example_spending]] (example_state 4999999)))"
proof -
  let ?evs = "[example_event 5000000 [example_cb, example_spending]]"
  have "chain_ok example_index_env ?evs (example_state 4999999)"
    by (rule example_chain) (simp_all add: example_event_def)
  from index_loop_safe [OF example_state_ok this]
  obtain s1 where "index_loop example_index_env True ?evs (example_state 4999999) = (s1, None)" by blast
  then obtain s' where "index_run example_index_env True ?evs (example_state 4999999) = (s', None)"
    by (cases "reorg_restore_all (is_cache s1, is_db s1)") (simp add: index_run_def del: index_loop.simps)
  with tables_stay_typed [OF this _ example_typed(1) _ example_typed(3)] example_typed(2) show ?thesis by simp
qed

end
