(* ===== verification/BlkFiles.thy ===== *)
theory BlkFiles
  imports ChainStore Texts Blockchain
begin

text \<open>
  The files of the stored blocks: finding them in a directory (\<open>BlkFile::from_path\<close> of
  \<open>packages/new-blk-parser/src/blockchain/parser/blk_file.rs\<close>), opening the storage (\<open>ChainOptions\<close> of
  \<open>parser/mod.rs\<close>, \<open>ChainStorage::new\<close> of \<open>parser/chain.rs\<close>) and loading blocks from it without the node
  (\<open>LoadBlocks\<close> of \<open>blockchain/mod.rs\<close>).

  The file system is outside the program: a record of what its calls give, \<open>None\<close> where they fail.  A path is
  whatever the system takes for one; a name is its UTF-8 bytes.
\<close>

section \<open>The directory\<close>

record ('p, 'd) files =
  fs_join :: "'p \<Rightarrow> bytes \<Rightarrow> 'p"
  fs_exists :: "'p \<Rightarrow> bool"
  fs_is_file :: "'p \<Rightarrow> bool"
  fs_open :: "'p \<rightharpoonup> bytes"
  fs_len :: "'p \<rightharpoonup> u64"
  fs_file_name :: "'p \<rightharpoonup> bytes option"
  fs_read_dir :: "'p \<rightharpoonup> 'd option list"
  fs_is_symlink :: "'d \<rightharpoonup> bool"
  fs_entry_path :: "'d \<Rightarrow> 'p"
  fs_read_link :: "'p \<rightharpoonup> 'p"

datatype blk_error = BfIo | BfNoName | BfNotUnicode | BfNone | BfPanic

record 'p blk_file =
  bf_path :: 'p
  bf_xor_key :: "bytes option"

definition xor_dat :: bytes where
  "xor_dat = [120, 111, 114, 46, 100, 97, 116]"

definition blk_prefix :: bytes where
  "blk_prefix = [98, 108, 107]"

definition blk_ext :: bytes where
  "blk_ext = [46, 100, 97, 116]"

text \<open>\<open>read_exact\<close> fills a buffer of the length the metadata names.\<close>

definition read_xor_key :: "('p, 'd) files \<Rightarrow> 'p \<Rightarrow> blk_error + bytes option" where
  "read_xor_key F path =
     (if \<not> fs_exists F path then Inr None
      else (case fs_open F path of
        None \<Rightarrow> Inl BfIo
      | Some content \<Rightarrow>
          (case fs_len F path of
             None \<Rightarrow> Inl BfIo
           | Some len \<Rightarrow> if length content < unat len then Inl BfIo else Inr (Some (take (unat len) content)))))"

definition resolve_path :: "('p, 'd) files \<Rightarrow> 'd \<Rightarrow> 'p option" where
  "resolve_path F de =
     (case fs_is_symlink F de of
        None \<Rightarrow> None
      | Some True \<Rightarrow> fs_read_link F (fs_entry_path F de)
      | Some False \<Rightarrow> Some (fs_entry_path F de))"

text \<open>The outer \<open>None\<close> is the panic of a slice that begins after its end.\<close>

definition parse_blk_index :: "bytes \<Rightarrow> bytes \<Rightarrow> bytes \<Rightarrow> u64 option option" where
  "parse_blk_index file_name pre ext =
     (if take (length pre) file_name = pre \<and> drop (length file_name - length ext) file_name = ext
      then (if length file_name - length ext < length pre then None
            else Some (parse_u64 (drop (length pre) (take (length file_name - length ext) file_name))))
      else Some None)"

text \<open>The loop over the entries; what is collected is listed in the order of the insertions.\<close>

fun collect_files ::
  "('p, 'd) files \<Rightarrow> bytes option \<Rightarrow> 'd option list \<Rightarrow> blk_error + (u64 \<times> 'p blk_file) list" where
  "collect_files F xor_key [] = Inr []"
| "collect_files F xor_key (None # es) = collect_files F xor_key es"
| "collect_files F xor_key (Some de # es) =
     (case resolve_path F de of
        None \<Rightarrow> Inl BfIo
      | Some path \<Rightarrow>
          if \<not> fs_is_file F path then collect_files F xor_key es
          else (case fs_file_name F path of
            None \<Rightarrow> Inl BfNoName
          | Some None \<Rightarrow> Inl BfNotUnicode
          | Some (Some file_name) \<Rightarrow>
              (case parse_blk_index file_name blk_prefix blk_ext of
                 None \<Rightarrow> Inl BfPanic
               | Some None \<Rightarrow> collect_files F xor_key es
               | Some (Some index) \<Rightarrow>
                   (case fs_len F path of
                      None \<Rightarrow> Inl BfIo
                    | Some len \<Rightarrow>
                        Sum_Type.map_sum id ((#) (index, \<lparr> bf_path = path, bf_xor_key = xor_key \<rparr>))
                          (collect_files F xor_key es)))))"

definition blk_files_from_path :: "('p, 'd) files \<Rightarrow> 'p \<Rightarrow> blk_error + (u64 \<rightharpoonup> 'p blk_file)" where
  "blk_files_from_path F path =
     (case read_xor_key F (fs_join F path xor_dat) of
        Inl e \<Rightarrow> Inl e
      | Inr xor_key \<Rightarrow>
          (case fs_read_dir F path of
             None \<Rightarrow> Inl BfIo
           | Some es \<Rightarrow>
               (case collect_files F xor_key es of
                  Inl e \<Rightarrow> Inl e
                | Inr collected \<Rightarrow> if collected = [] then Inl BfNone else Inr (map_of (rev collected)))))"

section \<open>The storage\<close>

record 'p chain_options =
  co_blockchain_dir :: "'p option"
  co_range :: height_range
  co_coin :: coin_type
  co_index_dir_path :: "'p option"

text \<open>Making a path of a text cannot fail; \<open>path\<close> does it.\<close>

definition chain_options_new ::
  "(string \<Rightarrow> 'p) \<Rightarrow> string option \<Rightarrow> string option \<Rightarrow> coin_type \<Rightarrow> u32 \<Rightarrow> 'p chain_options option" where
  "chain_options_new path dir index_dir coin last_height =
     map_option (\<lambda>range. \<lparr> co_blockchain_dir = map_option path dir, co_range = range, co_coin = coin,
         co_index_dir_path = map_option path index_dir \<rparr>)
       (height_range_new (ucast last_height) None)"

text \<open>\<open>entries\<close> gives the entries of the index database of a directory, and \<open>walk\<close> the order of its hash map.
  A file is opened when a block is first read from it, which fails as a missing file does.  \<open>None\<close> is an error.\<close>

definition chain_storage_new ::
  "('p, 'd) files \<Rightarrow> ('p \<Rightarrow> (bytes \<times> bytes) list) \<Rightarrow> (u64 set \<Rightarrow> u64 list) \<Rightarrow> 'p chain_options \<Rightarrow>
     chain_storage option" where
  "chain_storage_new F entries walk options =
     (case chain_index_new (co_range options) (map_option entries (co_index_dir_path options)) walk of
        None \<Rightarrow> None
      | Some index \<Rightarrow>
          (case co_blockchain_dir options of
             None \<Rightarrow> Some \<lparr> cs_chain_index = index, cs_blk_files = None, cs_xor_key = None \<rparr>
           | Some dir \<Rightarrow>
               (case blk_files_from_path F dir of
                  Inl e \<Rightarrow> None
                | Inr found \<Rightarrow> Some \<lparr> cs_chain_index = index,
                    cs_blk_files = Some (\<lambda>i. Option.bind (found i) (\<lambda>f. fs_open F (bf_path f))),
                    cs_xor_key = (case read_xor_key F (fs_join F dir xor_dat) of Inl e \<Rightarrow> None | Inr k \<Rightarrow> k) \<rparr>)))"

section \<open>Loading blocks\<close>

record load_blocks =
  ld_storage :: chain_storage
  ld_from_height :: u64
  ld_reorg_len :: u64

definition load_blocks_new ::
  "('p, 'd) files \<Rightarrow> ('p \<Rightarrow> (bytes \<times> bytes) list) \<Rightarrow> (u64 set \<Rightarrow> u64 list) \<Rightarrow> (string \<Rightarrow> 'p) \<Rightarrow>
     string option \<Rightarrow> string option \<Rightarrow> u64 option \<Rightarrow> string \<Rightarrow> u64 \<Rightarrow> load_blocks option" where
  "load_blocks_new F entries walk path dir index_dir from network reorg_len =
     (let from_height = (case from of Some h \<Rightarrow> h | None \<Rightarrow> 0) in
      Option.bind (height_range_new from_height None) (\<lambda>range.
      Option.bind (coin_from_str network) (\<lambda>coin.
      map_option (\<lambda>storage. \<lparr> ld_storage = storage, ld_from_height = from_height, ld_reorg_len = reorg_len \<rparr>)
        (chain_storage_new F entries walk \<lparr> co_blockchain_dir = map_option path dir, co_range = range,
           co_coin = coin, co_index_dir_path = map_option path index_dir \<rparr>))))"

text \<open>The iterator: the blocks it yields, and whether it then panics.\<close>

fun load_each :: "(u64 \<Rightarrow> block option option) \<Rightarrow> u64 list \<Rightarrow> block list \<times> bool" where
  "load_each get [] = ([], False)"
| "load_each get (h # hs) =
     (case get h of
        Some (Some b) \<Rightarrow> (let r = load_each get hs in (b # fst r, snd r))
      | _ \<Rightarrow> ([], True))"

definition load_blocks_all :: "wire_ops \<Rightarrow> load_blocks \<Rightarrow> block list \<times> bool" where
  "load_blocks_all W L =
     (let max_height = ci_max_height (cs_chain_index (ld_storage L)) - ld_reorg_len L in
      load_each (get_block W (ld_storage L)) (heights_from (ld_from_height L) max_height))"

definition load_blocks_get :: "wire_ops \<Rightarrow> load_blocks \<Rightarrow> u64 \<Rightarrow> block option option" where
  "load_blocks_get W L height = get_block W (ld_storage L) height"

definition height_range_text :: "height_range \<Rightarrow> bytes" where
  "height_range_text r = decimal (unat (hr_start r)) @ [46, 46]
     @ (case hr_end r of Some e \<Rightarrow> decimal (unat e) | None \<Rightarrow> [72, 69, 65, 68])"

end
