(* ===== verification/BlkProps.thy ===== *)
theory BlkProps
  imports BlkFiles ChainProps
begin

text \<open>
  Which files of a directory the storage takes for blocks: the ones named \<open>blk\<close>, a number, \<open>.dat\<close>, under that
  number, however many zeros the node puts before it.  A directory entry that links elsewhere goes by the name and
  the place the link gives.
\<close>

section \<open>Names\<close>

definition blk_name :: "nat \<Rightarrow> nat \<Rightarrow> bytes" where
  "blk_name zeros n = blk_prefix @ replicate zeros 48 @ decimal n @ blk_ext"

lemma parse_zeros: "0 < m \<Longrightarrow> parse_digits m 0 (replicate k 48 @ ds) = parse_digits m 0 ds"
  by (induction k) (simp_all add: digit_def)

lemma parse_blk_index_slice:
  "parse_blk_index (pre @ s @ ext) pre ext = Some (parse_u64 s)"
  by (simp add: parse_blk_index_def)

lemma parse_padded:
  assumes "n < m"
  shows "parse_unsigned m (replicate k 48 @ decimal n) = Some n"
proof (cases k)
  case 0
  with parse_shown [OF assms, of "[]"] show ?thesis by simp
next
  case (Suc j)
  have "parse_digits m 0 (replicate k 48 @ decimal n) = parse_digits m 0 (decimal n)"
    using assms by (intro parse_zeros) simp
  also have "\<dots> = Some n" using parse_decimal_from [OF assms, of "[]"] by simp
  finally show ?thesis using Suc by (simp add: parse_unsigned_def)
qed

text \<open>The name the node gives a file is read back, whatever the padding.\<close>

lemma blk_index_read:
  assumes "n < 2 ^ 64"
  shows "parse_blk_index (blk_name zeros n) blk_prefix blk_ext = Some (Some (word_of_nat n))"
  using parse_blk_index_slice [of blk_prefix "replicate zeros 48 @ decimal n" blk_ext] parse_padded [OF assms, of zeros]
  by (simp add: blk_name_def parse_u64_def)

text \<open>The slice is in bounds for the prefix and the extension that are used: they cannot overlap.\<close>

lemma blk_index_no_panic: "parse_blk_index name blk_prefix blk_ext \<noteq> None"
proof
  assume "parse_blk_index name blk_prefix blk_ext = None"
  then have p: "take 3 name = [98, 108, 107]" and e: "drop (length name - 4) name = [46, 100, 97, 116]"
    and l: "length name - 4 < 3"
    by (auto simp: parse_blk_index_def blk_prefix_def blk_ext_def numeral_eq_Suc split: if_splits)
  from e have "4 \<le> length name" by (cases "length name < 4") (auto dest!: arg_cong [of _ _ length])
  moreover have "name ! (length name - 4) = 46"
    using arg_cong [OF e, of hd] \<open>4 \<le> length name\<close> by (simp add: hd_drop_conv_nth)
  moreover have "name ! j = [98, 108, 107] ! j" if "j < 3" for j
    using arg_cong [OF p, of "\<lambda>xs. xs ! j"] that by simp
  ultimately have "[98, 108, 107] ! (length name - 4) = (46 :: u8)" using l by metis
  moreover have "length name - 4 = 0 \<or> length name - 4 = 1 \<or> length name - 4 = 2" using l by auto
  ultimately show False by auto
qed

section \<open>Directories\<close>

text \<open>The number a directory entry stands for, and a directory of entries that are no links and whose files have
  names and lengths.\<close>

definition blk_number :: "('p, 'd) files \<Rightarrow> 'd \<Rightarrow> u64 option" where
  "blk_number F de = (case fs_file_name F (fs_entry_path F de) of
     Some (Some name) \<Rightarrow> if fs_is_file F (fs_entry_path F de)
       then Option.bind (parse_blk_index name blk_prefix blk_ext) id else None
   | _ \<Rightarrow> None)"

definition plain_entry :: "('p, 'd) files \<Rightarrow> 'd \<Rightarrow> bool" where
  "plain_entry F de \<longleftrightarrow> fs_is_symlink F de = Some False
     \<and> (fs_is_file F (fs_entry_path F de) \<longrightarrow> fs_len F (fs_entry_path F de) \<noteq> None
        \<and> (\<exists>name. fs_file_name F (fs_entry_path F de) = Some (Some name)))"

lemma collect_plain:
  assumes "\<forall>de \<in> set ds. plain_entry F de"
  shows "collect_files F key (map Some ds) = Inr (List.map_filter (\<lambda>de.
    map_option (\<lambda>i. (i, \<lparr> bf_path = fs_entry_path F de, bf_xor_key = key \<rparr>)) (blk_number F de)) ds)"
  using assms
proof (induction ds)
  case (Cons de ds)
  then have de: "plain_entry F de" by simp
  show ?case
  proof (cases "fs_is_file F (fs_entry_path F de)")
    case True
    with de obtain name len where "fs_file_name F (fs_entry_path F de) = Some (Some name)" "fs_len F (fs_entry_path F de) = Some len"
      by (auto simp: plain_entry_def)
    moreover obtain i where "parse_blk_index name blk_prefix blk_ext = Some i" using blk_index_no_panic by blast
    ultimately show ?thesis
      using True de Cons by (cases i) (auto simp: plain_entry_def resolve_path_def blk_number_def map_filter_simps)
  next
    case False
    with de Cons show ?thesis
      by (auto simp: plain_entry_def resolve_path_def blk_number_def map_filter_simps split: option.split)
  qed
qed (simp add: map_filter_simps)

lemma map_of_collected:
  "map_of (rev (List.map_filter (\<lambda>x. map_option (\<lambda>i. (i, g x)) (num x)) xs)) i
    = map_option g (List.find (\<lambda>x. num x = Some i) (rev xs))"
proof (induction xs rule: rev_induct)
  case (snoc x xs)
  then show ?case by (cases "num x") (auto simp: map_filter_simps List.map_filter_def)
qed (simp add: map_filter_simps)

lemma find_only: "x \<in> set xs \<Longrightarrow> P x \<Longrightarrow> \<forall>y \<in> set xs. P y \<longrightarrow> y = x \<Longrightarrow> List.find P (rev xs) = Some x"
proof (induction xs rule: rev_induct)
  case (snoc y ys)
  show ?case
  proof (cases "P y")
    case True
    with snoc.prems(3) show ?thesis by simp
  next
    case False
    with snoc.prems have "x \<in> set ys" "\<forall>y \<in> set ys. P y \<longrightarrow> y = x" by auto
    from snoc.IH [OF this(1) snoc.prems(2) this(2)] False show ?thesis by simp
  qed
qed simp

lemma found_in_plain:
  assumes "read_xor_key F (fs_join F dir xor_dat) = Inr key" and "fs_read_dir F dir = Some (map Some ds)"
    and "\<forall>de \<in> set ds. plain_entry F de" and "de \<in> set ds" and "blk_number F de = Some i"
  shows "\<exists>found. blk_files_from_path F dir = Inr found
    \<and> (\<forall>i. found i = map_option (\<lambda>de. \<lparr> bf_path = fs_entry_path F de, bf_xor_key = key \<rparr>)
        (List.find (\<lambda>de. blk_number F de = Some i) (rev ds)))"
proof -
  let ?g = "\<lambda>de. \<lparr> bf_path = fs_entry_path F de, bf_xor_key = key \<rparr>"
  let ?l = "List.map_filter (\<lambda>de. map_option (\<lambda>i. (i, ?g de)) (blk_number F de)) ds"
  have "map_of (rev ?l) i \<noteq> None"
    using assms(4, 5) unfolding map_of_collected by (auto simp: find_None_iff)
  then have "?l \<noteq> []" by auto
  then have "blk_files_from_path F dir = Inr (map_of (rev ?l))"
    using assms(1, 2) collect_plain [OF assms(3), of key] by (simp add: blk_files_from_path_def)
  then show ?thesis by (auto simp: map_of_collected)
qed

text \<open>C23.  From the directory of the node to the block: in a directory without links, opened with the key of its
  \<open>xor.dat\<close>, the block of a height whose index names file \<open>n\<close> is read from the entry named \<open>blk\<close>, zeros, \<open>n\<close>, \<open>.dat\<close>,
  when no other entry stands for that number; if its bytes are there at the offset of the index, after their size and
  obfuscated with the key as the whole file is, it is exactly the block the node wrote, whatever surrounds it.\<close>

theorem stored_block_found:
  assumes law: "\<And>w r. wo_witness W (wenc w @ r) = Some (w, r)" and wf: "wf_block k m h aux n ts"
    and opened: "chain_storage_new F entries walk options = Some C" "co_blockchain_dir options = Some dir"
    and key: "read_xor_key F (fs_join F dir xor_dat) = Inr key"
    and dir: "fs_read_dir F dir = Some (map Some ds)" "\<forall>de \<in> set ds. plain_entry F de"
    and de: "de \<in> set ds" "fs_is_file F (fs_entry_path F de)"
      "fs_file_name F (fs_entry_path F de) = Some (Some (blk_name zeros i))" "i < 2 ^ 64"
    and only: "\<forall>de' \<in> set ds. blk_number F de' = Some (word_of_nat i) \<longrightarrow> de' = de"
    and content: "fs_open F (fs_entry_path F de) = Some content"
      "xor_read key 0 (file_bytes pre size' (block_bytes wenc k m h aux n ts) post) = Some (content, q)"
    and small: "length pre + 4 < 2 ^ 64"
    and index: "ci_block_index (cs_chain_index C) height = Some \<lparr> bis_block_hash = name,
      bis_blk_index = word_of_nat i, bis_data_offset = word_of_nat (length pre + 4) \<rparr>"
  shows "get_block W C height = Some (Some (block_new W size' h aux n ts))"
proof -
  have number: "blk_number F de = Some (word_of_nat i)"
    using de(2, 3) blk_index_read [OF de(4), of zeros] by (simp add: blk_number_def)
  obtain found where found: "blk_files_from_path F dir = Inr found"
    "\<forall>i. found i = map_option (\<lambda>de. \<lparr> bf_path = fs_entry_path F de, bf_xor_key = key \<rparr>)
        (List.find (\<lambda>de. blk_number F de = Some i) (rev ds))"
    using found_in_plain [OF key dir de(1) number] by blast
  have "List.find (\<lambda>de. blk_number F de = Some (word_of_nat i)) (rev ds) = Some de"
    using find_only [OF _ _ only] number de(1) by simp
  then have there: "found (word_of_nat i) = Some \<lparr> bf_path = fs_entry_path F de, bf_xor_key = key \<rparr>" using found(2) by simp
  from opened key found(1) have C: "cs_xor_key C = key" "cs_blk_files C = Some (\<lambda>i. Option.bind (found i) (\<lambda>f. fs_open F (bf_path f)))"
    by (auto simp: chain_storage_new_def split: option.splits)
  show ?thesis
    by (rule stored_block_reads_back [OF law wf _ small index C(2)]) (use content C(1) there in simp_all)
qed

section \<open>Loading without the node\<close>

lemma load_each_panics: "snd (load_each get hs) \<longleftrightarrow> (\<exists>h \<in> set hs. \<forall>b. get h \<noteq> Some (Some b))"
  by (induction hs) (auto simp: Let_def split: option.splits)

text \<open>\<open>LoadBlocks\<close> keeps a distance of \<open>reorg_len\<close> from the tip with a subtraction that wraps: with fewer blocks
  stored than that distance the iterator runs past the stored blocks and panics.\<close>

lemma load_blocks_wraps:
  assumes "ci_max_height (cs_chain_index (ld_storage L)) < ld_reorg_len L"
    and "ci_block_index (cs_chain_index (ld_storage L)) h = None"
    and "ld_from_height L \<le> h" and "h \<le> ci_max_height (cs_chain_index (ld_storage L)) - ld_reorg_len L"
  shows "snd (load_blocks_all W L)"
proof -
  have "h \<in> set (heights_from (ld_from_height L) (ci_max_height (cs_chain_index (ld_storage L)) - ld_reorg_len L))"
    using assms(3, 4) unfolding heights_from_def set_map set_upt
    by (intro image_eqI [of _ _ "unat h"]) (simp_all add: word_le_nat_alt less_Suc_eq_le)
  moreover have "get_block W (ld_storage L) h = Some None" using assms(2) by (simp add: get_block_def)
  ultimately show ?thesis
    unfolding load_blocks_all_def Let_def load_each_panics by (intro bexI [of _ h]) simp_all
qed

section \<open>Witness\<close>

definition example_blk_content :: bytes where
  "example_blk_content = fst (the (xor_read (Some [1, 2]) 0 (file_bytes (replicate 9 9) 200
     (block_bytes marked_witness (var_uint_u8 0) (var_uint_u8 0) example_header None (var_uint_u8 1) [example_raw_tx]) [5])))"

text \<open>A directory with a key, the block file 0 and a file with another name.\<close>

definition example_files :: "(nat, nat) files" where
  "example_files = \<lparr> fs_join = (\<lambda>_ _. 1), fs_exists = (\<lambda>p. p = 1), fs_is_file = (\<lambda>_. True),
     fs_open = [1 \<mapsto> [1, 2], 2 \<mapsto> example_blk_content], fs_len = (\<lambda>_. Some 2),
     fs_file_name = (\<lambda>p. Some (Some (if p = 2 then blk_name 4 0 else xor_dat))),
     fs_read_dir = (\<lambda>_. Some [Some 2, Some 3]), fs_is_symlink = (\<lambda>_. Some False), fs_entry_path = id,
     fs_read_link = Map.empty \<rparr>"

definition example_options :: "nat chain_options" where
  "example_options = \<lparr> co_blockchain_dir = Some 0, co_range = \<lparr> hr_start = 0, hr_end = None \<rparr>,
     co_coin = coin_type_from CWojakcoin, co_index_dir_path = Some 0 \<rparr>"

theorem stored_block_found_witness:
  "\<exists>C. chain_storage_new example_files (\<lambda>_. example_entries) sorted_list_of_set example_options = Some C
    \<and> get_block example_wire C 5 = Some (Some (block_new example_wire 200 example_header None (var_uint_u8 1) [example_raw_tx]))"
proof -
  let ?f = "file_bytes (replicate 9 9) 200
    (block_bytes marked_witness (var_uint_u8 0) (var_uint_u8 0) example_header None (var_uint_u8 1) [example_raw_tx]) [5]"
  obtain q where c: "xor_read (Some [1, 2]) 0 ?f = Some (example_blk_content, q)"
    by (auto simp: xor_read_def example_blk_content_def)
  have key: "read_xor_key example_files (fs_join example_files 0 xor_dat) = Inr (Some [1, 2])"
    by (simp add: read_xor_key_def example_files_def)
  have zero: "blk_number example_files 2 = Some 0"
    using blk_index_read [of 0 4] by (simp add: blk_number_def example_files_def)
  have other: "blk_number example_files 3 = None"
    by (simp add: blk_number_def example_files_def parse_blk_index_def xor_dat_def blk_prefix_def)
  have plain: "\<forall>de \<in> set [2, 3]. plain_entry example_files de" by (simp add: plain_entry_def example_files_def)
  have dir: "fs_read_dir example_files 0 = Some (map Some [2, 3])" by (simp add: example_files_def)
  obtain found where found: "blk_files_from_path example_files 0 = Inr found"
    using found_in_plain [OF key dir plain _ zero] by auto
  obtain C where C: "chain_storage_new example_files (\<lambda>_. example_entries) sorted_list_of_set example_options = Some C"
    "ci_block_index (cs_chain_index C) = [6 \<mapsto> small_record (example_record 6 6 5), 5 \<mapsto> small_record (example_record 5 5 4)]"
    using found by (simp add: chain_storage_new_def chain_index_new_def example_options_def example_index_of)
  have "get_block example_wire C 5 = Some (Some (block_new example_wire 200 example_header None (var_uint_u8 1) [example_raw_tx]))"
    by (rule stored_block_found [where de = 2 and ds = "[2, 3]" and zeros = 4 and i = 0 and height = 5
        and name = "replicate 32 5", OF example_wire_witness example_block_wf C(1) _ key dir plain _ _ _ _ _ _ c])
      (use zero other C(2) in \<open>auto simp: example_options_def example_files_def small_record_def example_record_def\<close>)
  with C(1) show ?thesis by blast
qed

end
