(* ===== verification/Startup.thy ===== *)
theory Startup
  imports NodeClient Indexer
begin

text \<open>
  The start of the server: its settings (the statics of \<open>src/main.rs\<close>, \<open>src/config.rs\<close>, \<open>src/utils/redact.rs\<close>) and
  \<open>Server::new\<close> (\<open>src/server/mod.rs\<close>), which takes up the block where the last run left the database.

  The variables of the environment, after the \<open>.env\<close> file was read, are a map; a variable that is not set or
  not Unicode is not in it.  \<open>Network::from_str\<close> belongs to the crate \<open>bellscoin\<close> and is a parameter.
\<close>

section \<open>Settings\<close>

type_synonym variables = "string \<rightharpoonup> string"

text \<open>\<open>load_env!\<close>, where \<open>None\<close> is the panic, and \<open>load_opt_env!\<close>.\<close>

definition load_env :: "variables \<Rightarrow> string \<Rightarrow> string option" where
  "load_env vars name = vars name"

definition load_opt_env :: "variables \<Rightarrow> string \<Rightarrow> string option" where
  "load_opt_env vars name = vars name"

definition or_default :: "'a option \<Rightarrow> 'a \<Rightarrow> 'a" where
  "or_default x d = (case x of Some v \<Rightarrow> v | None \<Rightarrow> d)"

definition static_blockchain :: "variables \<Rightarrow> blockchain option" where
  "static_blockchain vars = Option.bind (load_env vars ''BLOCKCHAIN'') blockchain_from_str"

definition static_network :: "(string \<Rightarrow> network option) \<Rightarrow> variables \<Rightarrow> network option" where
  "static_network network_from_str vars =
     (case load_opt_env vars ''NETWORK'' of Some x \<Rightarrow> network_from_str x | None \<Rightarrow> Some NetBellscoin)"

definition static_server_url :: "variables \<Rightarrow> string" where
  "static_server_url vars = or_default (load_opt_env vars ''SERVER_BIND_URL'') ''0.0.0.0:8000''"

definition static_db_path :: "variables \<Rightarrow> string" where
  "static_db_path vars = or_default (load_opt_env vars ''DB_PATH'') ''rocksdb''"

record config =
  cf_blk_dir :: "string option"
  cf_rpc_url :: string
  cf_rpc_user :: string
  cf_rpc_pass :: string
  cf_blockchain :: blockchain
  cf_index_dir :: "string option"
  cf_network :: network
  cf_jubilee_height :: u64
  cf_start_height :: u32
  cf_server_url :: string
  cf_db_path :: string

text \<open>\<open>Config::new\<close> forces every static; \<open>None\<close> is the panic of the first one that cannot be computed.\<close>

definition config_new :: "(string \<Rightarrow> network option) \<Rightarrow> variables \<Rightarrow> config option" where
  "config_new network_from_str vars =
     Option.bind (load_env vars ''RPC_URL'') (\<lambda>url.
     Option.bind (load_env vars ''RPC_USER'') (\<lambda>user.
     Option.bind (load_env vars ''RPC_PASS'') (\<lambda>pass.
     Option.bind (static_blockchain vars) (\<lambda>chain.
     Option.bind (static_network network_from_str vars) (\<lambda>network.
     Some \<lparr> cf_blk_dir = load_opt_env vars ''BLK_DIR'', cf_rpc_url = url, cf_rpc_user = user, cf_rpc_pass = pass,
       cf_blockchain = chain, cf_index_dir = load_opt_env vars ''INDEX_DIR'', cf_network = network,
       cf_jubilee_height = jubilee_height network chain, cf_start_height = start_height network chain,
       cf_server_url = static_server_url vars, cf_db_path = static_db_path vars \<rparr>)))))"

text \<open>What the log shows of the settings.\<close>

datatype shown = ShText string | ShOption "string option" | ShChain blockchain | ShNetwork network | ShNumber u64

definition redacted_str :: "string \<Rightarrow> shown" where
  "redacted_str s = ShText (if s = '''' then '''' else ''****'')"

definition redacted :: "config \<Rightarrow> (string \<times> shown) list" where
  "redacted c =
     [(''blk_dir'', ShOption (cf_blk_dir c)), (''rpc_url'', redacted_str (cf_rpc_url c)),
      (''rpc_user'', redacted_str (cf_rpc_user c)), (''rpc_pass'', redacted_str (cf_rpc_pass c)),
      (''blockchain'', ShChain (cf_blockchain c)), (''index_dir'', ShOption (cf_index_dir c)),
      (''network'', ShNetwork (cf_network c)), (''jubilee_height'', ShNumber (cf_jubilee_height c)),
      (''start_height'', ShNumber (ucast (cf_start_height c))), (''server_url'', ShText (cf_server_url c)),
      (''db_path'', ShText (cf_db_path c))]"

section \<open>The server\<close>

text \<open>What \<open>Server::new\<close> hands to the block source, with the holders and the client.\<close>

record server =
  sv_coin :: coin_type
  sv_last_block :: block_id
  sv_path :: "string option"
  sv_index_dir_path :: "string option"
  sv_reorg_max_len :: nat
  sv_holders :: holders
  sv_client :: client

text \<open>The block the indexer goes on from.\<close>

definition last_block_id :: "db \<Rightarrow> block_id" where
  "last_block_id d =
     (let last_height = or_default (db_last_block d) 0 in
      \<lparr> bid_height = ucast last_height,
        bid_hash = bi_hash (or_default (db_block_info d last_height) block_info_default) \<rparr>)"

definition text_bytes :: "string \<Rightarrow> bytes" where
  "text_bytes s = map of_char s"

text \<open>\<open>accepts\<close> is the HTTP library, as in the client; \<open>entries\<close> are the balances in the order of the table.
  \<open>None\<close> is an \<open>unwrap\<close> that panics, or the arithmetic of the holders.\<close>

definition server_new ::
  "fixed_ops \<Rightarrow> (bytes \<Rightarrow> bytes option \<times> bytes option \<Rightarrow> bool) \<Rightarrow> config \<Rightarrow> db \<Rightarrow>
     (address_token \<times> token_balance) list \<Rightarrow> server option" where
  "server_new F accepts c d entries =
     (case coin_from_str (server_coin (cf_blockchain c) (cf_network c)) of
        None \<Rightarrow> None
      | Some coin \<Rightarrow>
          (case client_new accepts Map.empty (text_bytes (cf_rpc_url c))
              (UserPass (text_bytes (cf_rpc_user c)) (text_bytes (cf_rpc_pass c))) False of
             Inl e \<Rightarrow> None
           | Inr client \<Rightarrow>
               (case holders_init F entries of
                  Inl e \<Rightarrow> None
                | Inr h \<Rightarrow> Some \<lparr> sv_coin = coin, sv_last_block = last_block_id d, sv_path = cf_blk_dir c,
                    sv_index_dir_path = cf_index_dir c, sv_reorg_max_len = reorg_cache_max_len,
                    sv_holders = h, sv_client = client \<rparr>)))"

text \<open>The state \<open>Indexer::new\<close> and \<open>index\<close> begin with.\<close>

definition index_start :: "db \<Rightarrow> holders \<Rightarrow> index_state" where
  "index_start d h = \<lparr> is_db = d, is_holders = h, is_cache = reorg_cache_new, is_prev_height = None,
     is_events = [], is_raw_events = [] \<rparr>"

end
