(* ===== verification/StartProps.thy ===== *)
theory StartProps
  imports Startup BlkFiles IndexProps
begin

text \<open>
  The server goes on where it stopped: after a run, with its reorganisations and the undoing of the logged blocks
  at its end, the database names the block it holds last, and that is the block the next start begins with.
\<close>

section \<open>The tip and the undo log\<close>

text \<open>The logged blocks are the ones above height \<open>b\<close>, the last of them is the last block of the table, and
  the infos of all of them and of the block below are there.\<close>

definition tip_at :: "nat \<Rightarrow> nat \<Rightarrow> reorg_cache \<Rightarrow> db \<Rightarrow> bool" where
  "tip_at b k r d \<longleftrightarrow> b + k < 2 ^ 32 \<and> db_last_block d = Some (word_of_nat (b + k))
     \<and> map fst (rc_blocks r) = map word_of_nat [Suc b..<Suc (b + k)]
     \<and> (\<forall>j. b \<le> j \<and> j \<le> b + k \<longrightarrow> db_block_info d (word_of_nat j) \<noteq> None)"

definition tip_ok :: "index_state \<Rightarrow> bool" where
  "tip_ok s \<longleftrightarrow> (\<exists>b k. tip_at b k (is_cache s) (is_db s))"

text \<open>The hashes of the table are among those of \<open>known\<close>.\<close>

definition infos_known :: "(u32 \<Rightarrow> hash32 \<Rightarrow> bool) \<Rightarrow> db \<Rightarrow> bool" where
  "infos_known known d \<longleftrightarrow> (\<forall>h info. db_block_info d h = Some info \<longrightarrow> known h (bi_hash info))"

definition resumable :: "(u32 \<Rightarrow> hash32 \<Rightarrow> bool) \<Rightarrow> index_state \<Rightarrow> bool" where
  "resumable known s \<longleftrightarrow> tip_ok s \<and> infos_known known (is_db s)"

section \<open>What undoing does\<close>

lemma token_entry_tip [simp]:
  "db_last_block (token_entry_proceed e d) = db_last_block d" "db_block_info (token_entry_proceed e d) = db_block_info d"
  by (cases e; simp)+

lemma ordinals_entry_tip [simp]:
  "db_last_block (ordinals_entry_proceed e d) = db_last_block d"
  "db_block_info (ordinals_entry_proceed e d) = db_block_info d"
  by (cases e; simp)+

lemma fold_tip [simp]:
  "db_last_block (fold token_entry_proceed ts d) = db_last_block d"
  "db_block_info (fold token_entry_proceed ts d) = db_block_info d"
  "db_last_block (fold ordinals_entry_proceed os d) = db_last_block d"
  "db_block_info (fold ordinals_entry_proceed os d) = db_block_info d"
proof -
  show "db_last_block (fold token_entry_proceed ts d) = db_last_block d"
    "db_block_info (fold token_entry_proceed ts d) = db_block_info d"
    by (induction ts arbitrary: d) simp_all
  show "db_last_block (fold ordinals_entry_proceed os d) = db_last_block d"
    "db_block_info (fold ordinals_entry_proceed os d) = db_block_info d"
    by (induction os arbitrary: d) simp_all
qed

lemma undo_block_tip:
  "db_last_block (undo_block h b d) = Some (h - 1)" "db_block_info (undo_block h b d) = (db_block_info d)(h := None)"
  by (simp_all add: undo_block_def)

lemma unat_u32_of_nat: "n < 2 ^ 32 \<Longrightarrow> unat (word_of_nat n :: u32) = n"
  by (simp add: unat_of_nat take_bit_nat_eq_self)

lemma word_of_nat_eq: "i < 2 ^ 32 \<Longrightarrow> j < 2 ^ 32 \<Longrightarrow> (word_of_nat i :: u32) = word_of_nat j \<longleftrightarrow> i = j"
  by (metis unat_u32_of_nat)

lemma last_block_tip:
  assumes "tip_at b (Suc k) r d"
  shows "rc_blocks r \<noteq> []" "fst (last (rc_blocks r)) = word_of_nat (b + Suc k)"
    "map fst (butlast (rc_blocks r)) = map word_of_nat [Suc b..<Suc (b + k)]"
proof -
  have m: "map fst (rc_blocks r) = map word_of_nat [Suc b..<Suc (b + k)] @ [word_of_nat (b + Suc k)]"
    using assms by (simp add: tip_at_def)
  then show ne: "rc_blocks r \<noteq> []" by auto
  have "last (map fst (rc_blocks r)) = word_of_nat (b + Suc k)" unfolding m by simp
  then show "fst (last (rc_blocks r)) = word_of_nat (b + Suc k)" using ne by (simp add: last_map)
  have "butlast (map fst (rc_blocks r)) = map word_of_nat [Suc b..<Suc (b + k)]" unfolding m by simp
  then show "map fst (butlast (rc_blocks r)) = map word_of_nat [Suc b..<Suc (b + k)]" by (simp add: map_butlast)
qed

lemma undo_tip:
  assumes t: "tip_at b (Suc k) r d"
  shows "tip_at b k (r\<lparr> rc_blocks := butlast (rc_blocks r) \<rparr>) (undo_block (fst (last (rc_blocks r))) x d)"
proof -
  have small: "b + Suc k < 2 ^ 32" using t by (simp add: tip_at_def)
  have "(word_of_nat (b + Suc k) :: u32) - 1 = word_of_nat (b + k)" by simp
  moreover have "db_block_info d (word_of_nat j) \<noteq> None \<and> (word_of_nat j :: u32) \<noteq> word_of_nat (b + Suc k)"
    if "b \<le> j" "j \<le> b + k" for j
    using t that small word_of_nat_eq [of j "b + Suc k"] by (simp add: tip_at_def del: of_nat_add of_nat_Suc)
  ultimately show ?thesis
    using small by (simp add: tip_at_def undo_block_tip last_block_tip [OF t] del: of_nat_add of_nat_Suc)
qed

lemma restore_tip:
  "reorg_restore h (r, d) = (r', d') \<Longrightarrow> tip_at b k r d \<Longrightarrow> infos_known known d \<Longrightarrow>
    tip_at b (min k (unat h - b)) r' d' \<and> infos_known known d'"
proof (induction k arbitrary: r d)
  case 0
  then have "rc_blocks r = []" by (simp add: tip_at_def)
  with 0 show ?case by (simp add: reorg_restore.simps [of h r d])
next
  case (Suc k)
  note last = last_block_tip [OF Suc.prems(2)]
  have u: "unat (word_of_nat (b + Suc k) :: u32) = b + Suc k"
    using Suc.prems(2) unat_u32_of_nat [of "b + Suc k"] by (simp add: tip_at_def del: of_nat_add of_nat_Suc)
  show ?case
  proof (cases "unat h < b + Suc k")
    case True
    then have "h < fst (last (rc_blocks r))" unfolding last(2) word_less_nat_alt u .
    moreover have "infos_known known (undo_block (fst (last (rc_blocks r))) (snd (last (rc_blocks r))) d)"
      using Suc.prems(3) by (simp add: infos_known_def undo_block_tip)
    moreover have "min (Suc k) (unat h - b) = min k (unat h - b)" using True by simp
    ultimately show ?thesis
      using Suc.IH [OF _ undo_tip [OF Suc.prems(2)]] Suc.prems(1) last(1) by (simp add: reorg_restore.simps [of h r d])
  next
    case False
    then have "\<not> h < fst (last (rc_blocks r))" unfolding last(2) word_less_nat_alt u .
    moreover have "min (Suc k) (unat h - b) = Suc k" using False by simp
    ultimately show ?thesis using Suc.prems by (simp add: reorg_restore.simps [of h r d])
  qed
qed

section \<open>What writing does\<close>

fun no_info :: "processed_data \<Rightarrow> bool" where
  "no_info (PdInfo height info pf) = False"
| "no_info _ = True"

abbreviation log_keys :: "reorg_cache option \<Rightarrow> u32 list option" where
  "log_keys \<equiv> map_option (\<lambda>r. map fst (rc_blocks r))"

lemma update_last_keys: "reorg_update_last f r = Some r' \<Longrightarrow> map fst (rc_blocks r') = map fst (rc_blocks r)"
  by (cases "rc_blocks r" rule: rev_cases) (auto simp: reorg_update_last_def)

lemma push_fold_keys:
  assumes "\<And>e r r'. push e r = Some r' \<Longrightarrow> map fst (rc_blocks r') = map fst (rc_blocks r)"
  shows "fold (\<lambda>e s. Option.bind s (push e)) es s = Some r' \<Longrightarrow> log_keys s = Some (map fst (rc_blocks r'))"
proof (induction es arbitrary: s)
  case (Cons e es)
  then have "log_keys (Option.bind s (push e)) = Some (map fst (rc_blocks r'))" by simp
  with assms show ?case by (auto simp: bind_eq_Some_conv)
qed simp

lemma log_keys_kept [dest]:
  "log_tokens ts rc = Some rc' \<Longrightarrow> log_keys rc' = log_keys rc"
  "log_ordinals os rc = Some rc' \<Longrightarrow> log_keys rc' = log_keys rc"
proof -
  show "log_tokens ts rc = Some rc' \<Longrightarrow> log_keys rc' = log_keys rc"
    unfolding log_tokens_def
    by (auto split: option.splits) (drule push_fold_keys [rotated], auto simp: push_token_entry_def dest: update_last_keys)
  show "log_ordinals os rc = Some rc' \<Longrightarrow> log_keys rc' = log_keys rc"
    unfolding log_ordinals_def
    by (auto split: option.splits) (drule push_fold_keys [rotated], auto simp: push_ordinals_entry_def dest: update_last_keys)
qed

lemma write_processed_tip:
  assumes "write_processed p (d, rc) = Some (d', rc')"
  shows "log_keys rc' = log_keys rc"
    and "no_info p \<Longrightarrow> db_last_block d' = db_last_block d \<and> db_block_info d' = db_block_info d"
    and "p = PdInfo h info pf \<Longrightarrow> db_last_block d' = Some h \<and> db_block_info d' = (db_block_info d)(h \<mapsto> info)"
  using assms by (cases p; force simp: Let_def bind_eq_Some_conv split: if_splits)+

lemma write_all_tip:
  assumes "write_all (ps @ [PdInfo h info pf]) (d, rc) = Some (d', rc')" and "list_all no_info ps"
  shows "log_keys rc' = log_keys rc \<and> db_last_block d' = Some h \<and> db_block_info d' = (db_block_info d)(h \<mapsto> info)"
  using assms
proof (induction ps arbitrary: d rc)
  case (Cons p ps)
  then obtain d1 rc1 where w: "write_processed p (d, rc) = Some (d1, rc1)"
    "write_all (ps @ [PdInfo h info pf]) (d1, rc1) = Some (d', rc')"
    by (auto simp: bind_eq_Some_conv)
  have ps: "no_info p" "list_all no_info ps" using Cons.prems(2) by simp_all
  from Cons.IH [OF w(2) ps(2)] write_processed_tip(1) [OF w(1)] write_processed_tip(2) [OF w(1) ps(1)]
  show ?case by metis
qed (auto dest: write_processed_tip)

lemma handle_block_info:
  assumes "handle_block X d h height b = Inr (w, h')"
    and "start_height (pe_network (ie_parser X)) (e_chain (pe_env (ie_parser X))) \<le> height"
  shows "\<exists>ps info pf. dw_processed w = ps @ [PdInfo height info pf] \<and> list_all no_info ps \<and> bi_hash info = hd_hash (blk_header b)"
proof -
  let ?info = "\<lparr> bi_hash = hd_hash (blk_header b), bi_created = bh_timestamp (hd_value (blk_header b)) \<rparr>"
  have pd: "no_info pd" if "process_prevouts (ie_parser X) d b = Inr (prevouts, pd)" for prevouts pd
    using that by (cases "fill_prevouts (db_prevouts d) (block_outputs (ie_parser X) b) (the (spent_outpoints b)) Map.empty")
      (auto simp: process_prevouts_def split: option.splits)
  have parsed: "list_all no_info parsed" if "parse_block P d height b prevouts c = Some (c', parsed)" for P prevouts c c' parsed
    using that by (auto simp: parse_block_def Let_def bind_eq_Some_conv)
  from assms have "\<exists>ps pf. dw_processed w = ps @ [PdInfo height ?info pf] \<and> list_all no_info ps"
    by (auto simp: handle_block_def handle_tokens_def Let_def not_less split: sum.splits option.splits prod.splits if_splits
        dest!: pd parsed)
  then show ?thesis by fastforce
qed

section \<open>The indexing loop\<close>

lemma tip_roll_back: "resumable known s \<Longrightarrow> resumable known (roll_back ev (drop_log ev s))"
proof -
  assume "resumable known s"
  then obtain b k where t: "tip_at b k (is_cache s) (is_db s)" and i: "infos_known known (is_db s)"
    by (auto simp: resumable_def tip_ok_def)
  have "tip_at (b + k) 0 ((is_cache s)\<lparr> rc_blocks := [] \<rparr>) (is_db s)" using t by (simp add: tip_at_def)
  with t have "tip_ok (drop_log ev s)" unfolding tip_ok_def drop_log_def by (cases "keeps_log ev") auto
  with i have "resumable known (drop_log ev s)" by (simp add: resumable_def)
  then show ?thesis
    by (auto simp: roll_back_def resumable_def tip_ok_def Let_def split: prod.splits dest: restore_tip)
qed

lemma new_block_tip:
  assumes "tip_at b k r d" and "Suc (b + k) < 2 ^ 32"
  shows "\<exists>b' k'. b' + k' = b + k \<and> b \<le> b'
    \<and> map fst (rc_blocks (reorg_new_block (word_of_nat (Suc (b + k))) r)) = map word_of_nat [Suc b'..<Suc (Suc (b + k))]"
proof -
  let ?h = "word_of_nat (Suc (b + k)) :: u32"
  let ?bs = "if length (rc_blocks r) = rc_len r then tl (rc_blocks r) else rc_blocks r"
  have m: "map fst (rc_blocks r) = map word_of_nat [Suc b..<Suc (b + k)]" using assms(1) by (simp add: tip_at_def)
  obtain b' where b': "b \<le> b'" "b' \<le> b + k" "map fst ?bs = map word_of_nat [Suc b'..<Suc (b + k)]"
  proof (cases "length (rc_blocks r) = rc_len r \<and> 0 < k")
    case True
    then have "map fst (tl (rc_blocks r)) = map word_of_nat [Suc (Suc b)..<Suc (b + k)]"
      unfolding map_tl m by (simp add: upt_conv_Cons del: upt_Suc)
    with True show thesis by (intro that [of "Suc b"]) simp_all
  next
    case False
    then have "?bs = rc_blocks r" using m by (cases "rc_blocks r") auto
    with m show thesis by (intro that [of b]) simp_all
  qed
  have "x < ?h" if xv: "(x, v) \<in> set ?bs" for x v
  proof -
    from xv have "x \<in> set (map fst ?bs)" by force
    then obtain j where j: "x = word_of_nat j" "j < Suc (b + k)" unfolding b'(3) by auto
    with assms(2) show ?thesis unfolding word_less_nat_alt j(1) by (simp only: unat_u32_of_nat)
  qed
  then have "bt_insert ?h reorg_history_block_new ?bs = ?bs @ [(?h, reorg_history_block_new)]" by (rule bt_insert_last)
  then have "map fst (bt_insert ?h reorg_history_block_new ?bs) = map fst ?bs @ [?h]" by (simp only: map_append) simp
  also have "\<dots> = map word_of_nat [Suc b'..<Suc (Suc (b + k))]" using b' by simp
  finally show ?thesis
    using b'(1, 2) by (intro exI [of _ b'] exI [of _ "b + k - b'"]) (simp add: reorg_new_block_def Let_def)
qed

text \<open>What the chain follower promises: every block is one above the last block of the table, once the
  blocks it drops are taken back, and not below the first block whose tokens are indexed.\<close>

definition fits :: "index_env \<Rightarrow> block_event \<Rightarrow> index_state \<Rightarrow> bool" where
  "fits X ev s \<longleftrightarrow> unat (be_height ev) < 2 ^ 32
     \<and> start_height (pe_network (ie_parser X)) (e_chain (pe_env (ie_parser X))) \<le> ucast (be_height ev)
     \<and> (case db_last_block (is_db (roll_back ev (drop_log ev s))) of
          None \<Rightarrow> False | Some l \<Rightarrow> unat (be_height ev) = unat l + 1)"

fun follows :: "index_env \<Rightarrow> bool \<Rightarrow> block_event list \<Rightarrow> index_state \<Rightarrow> bool" where
  "follows X raw_open [] s \<longleftrightarrow> True"
| "follows X raw_open (ev # evs) s \<longleftrightarrow> fits X ev s
     \<and> (case index_step X raw_open False ev s of Inl _ \<Rightarrow> True | Inr s' \<Rightarrow> follows X raw_open evs s')"

text \<open>The blocks the indexer may know the hash of: those of the table at the start and those it was sent.\<close>

definition known_block :: "db \<Rightarrow> block_event list \<Rightarrow> u32 \<Rightarrow> hash32 \<Rightarrow> bool" where
  "known_block d evs h x \<longleftrightarrow> (\<exists>info. db_block_info d h = Some info \<and> bi_hash info = x)
     \<or> (\<exists>ev \<in> set evs. ucast (be_height ev) = h \<and> hd_hash (blk_header (be_block ev)) = x)"

lemma handle_tip:
  assumes run: "handle X raw_open c height blk lg s = Inr s'"
    and t: "tip_at b k (is_cache s) (is_db s)" and h: "height = word_of_nat (Suc (b + k))" "Suc (b + k) < 2 ^ 32"
    and start: "start_height (pe_network (ie_parser X)) (e_chain (pe_env (ie_parser X))) \<le> height"
    and log: "lg \<or> k = 0"
    and i: "infos_known known (is_db s)" "known height (hd_hash (blk_header blk))"
  shows "resumable known s'"
proof -
  let ?r = "if lg then reorg_new_block height (is_cache s) else is_cache s"
  from run obtain w hs d l where w: "handle_block X (is_db s) (is_holders s) height blk = Inr (w, hs)"
    and wr: "write_all (dw_processed w) (is_db s, if lg then Some ?r else None) = Some (d, l)"
    and s': "is_db s' = d" "is_cache s' = (case l of Some r \<Rightarrow> r | None \<Rightarrow> ?r)"
    by (auto simp: handle_def Let_def split: sum.splits prod.splits option.splits if_splits)
  obtain ps info pf where ps: "dw_processed w = ps @ [PdInfo height info pf]" "list_all no_info ps"
    "bi_hash info = hd_hash (blk_header blk)"
    using handle_block_info [OF w start] by blast
  note tip = write_all_tip [OF wr [unfolded ps(1)] ps(2)]
  have keys: "map fst (rc_blocks (is_cache s')) = map fst (rc_blocks ?r)" using tip s'(2) by (cases l) auto
  have infos: "\<forall>j. b \<le> j \<and> j \<le> Suc (b + k) \<longrightarrow> db_block_info d (word_of_nat j) \<noteq> None"
    using t tip h(1) by (auto simp: tip_at_def le_Suc_eq)
  obtain b' where b': "b \<le> b'" "b' \<le> Suc (b + k)"
    "map fst (rc_blocks (is_cache s')) = map word_of_nat [Suc b'..<Suc (Suc (b + k))]"
  proof (cases lg)
    case True
    obtain b1 k1 where "b1 + k1 = b + k" "b \<le> b1"
      "map fst (rc_blocks (reorg_new_block height (is_cache s))) = map word_of_nat [Suc b1..<Suc (Suc (b + k))]"
      using new_block_tip [OF t h(2)] unfolding h(1) by blast
    with True keys show thesis by (intro that [of b1]) simp_all
  next
    case False
    with log t keys show thesis by (intro that [of "Suc (b + k)"]) (simp_all add: tip_at_def)
  qed
  have "tip_at b' (Suc (b + k) - b') (is_cache s') d"
    using b' infos tip h by (auto simp: tip_at_def simp del: upt_Suc of_nat_Suc of_nat_add)
  moreover have "infos_known known d" using i tip ps(3) h(1) by (auto simp: infos_known_def)
  ultimately show ?thesis using s'(1) by (auto simp: resumable_def tip_ok_def)
qed

lemma step_tip:
  assumes run: "index_step X raw_open c ev s = Inr s'" and s: "resumable known s" and f: "fits X ev s"
    and known: "known (ucast (be_height ev)) (hd_hash (blk_header (be_block ev)))"
  shows "resumable known s'"
proof -
  let ?s = "roll_back ev (drop_log ev s)" and ?h = "ucast (be_height ev) :: u32"
  from run obtain s1 where s1: "handle X raw_open c ?h (be_block ev) (keeps_log ev) ?s = Inr s1"
    "s' = s1\<lparr> is_prev_height := Some (be_height ev) \<rparr>"
    by (auto simp: index_step_def Let_def split: if_splits sum.splits)
  from tip_roll_back [OF s, of ev] obtain b k where t: "tip_at b k (is_cache ?s) (is_db ?s)"
    and i: "infos_known known (is_db ?s)"
    unfolding resumable_def tip_ok_def by blast
  have l: "b + k < 2 ^ 32" "db_last_block (is_db ?s) = Some (word_of_nat (b + k))" using t by (simp_all add: tip_at_def)
  then have h: "unat (be_height ev) = Suc (b + k)" "Suc (b + k) < 2 ^ 32"
    using f unat_u32_of_nat [OF l(1)] by (simp_all add: fits_def)
  then have hw: "?h = word_of_nat (Suc (b + k))" 
    unfolding word_unat_eq_iff unat_u32_of_nat [OF h(2)] using ucast_u32_small [of "be_height ev"] by simp
  have "keeps_log ev \<or> k = 0"
  proof (rule disjCI)
    assume "\<not> k = 0"
    have "rc_blocks (is_cache ?s) \<noteq> []"
    proof
      assume "rc_blocks (is_cache ?s) = []"
      with t \<open>\<not> k = 0\<close> show False by (simp add: tip_at_def)
    qed
    moreover have "rc_blocks (is_cache ?s) = []" if "\<not> keeps_log ev"
      using that by (auto simp: roll_back_def Let_def reorg_restore.simps [of _ "is_cache (drop_log ev s)"] split: prod.splits)
    ultimately show "keeps_log ev" by blast
  qed
  from handle_tip [OF s1(1) t hw h(2) _ this i known] f s1(2) show ?thesis
    by (simp add: fits_def resumable_def tip_ok_def)
qed

lemma loop_tip:
  "index_loop X raw_open evs s = (s', e) \<Longrightarrow> resumable known s \<Longrightarrow> follows X raw_open evs s \<Longrightarrow>
    (\<And>ev. ev \<in> set evs \<Longrightarrow> known (ucast (be_height ev)) (hd_hash (blk_header (be_block ev)))) \<Longrightarrow> resumable known s'"
proof (induction evs arbitrary: s)
  case (Cons ev evs)
  show ?case
  proof (cases "index_step X raw_open False ev s")
    case (Inl x)
    with Cons.prems tip_roll_back show ?thesis by auto
  next
    case (Inr s1)
    with step_tip [OF Inr Cons.prems(2)] Cons.prems have "resumable known s1" by simp
    with Inr Cons show ?thesis by simp
  qed
qed simp

section \<open>Starting again\<close>

text \<open>C7.  A restart goes on from a block that was indexed: after a run that does not panic over blocks that each
  fit the table, with whatever reorganisations, the undo log is empty, the table names its last block, and the
  server started on that table begins with exactly this block, the hash being the one of a block that was sent at
  this height or that the table had before.\<close>

theorem restart_point:
  assumes "index_run X raw_open evs s = (s', e)" and "e \<noteq> Some IePanic"
    and "tip_ok s" and "follows X raw_open evs s"
    and "server_new F accepts cfg (is_db s') entries = Some v"
  shows "\<exists>h info. db_last_block (is_db s') = Some h \<and> db_block_info (is_db s') h = Some info
    \<and> sv_last_block v = \<lparr> bid_height = ucast h, bid_hash = bi_hash info \<rparr>
    \<and> known_block (is_db s) evs h (bi_hash info) \<and> rc_blocks (is_cache s') = []"
proof -
  let ?known = "known_block (is_db s) evs"
  obtain s1 where s1: "index_loop X raw_open evs s = (s1, e)"
    using assms(1) by (auto simp: index_run_def Let_def split: prod.splits)
  have "resumable ?known s" using assms(3) by (auto simp: resumable_def infos_known_def known_block_def)
  then have "resumable ?known s1" by (rule loop_tip [OF s1 _ assms(4)]) (auto simp: known_block_def)
  then obtain b k where t: "tip_at b k (is_cache s1) (is_db s1)" and i: "infos_known ?known (is_db s1)"
    unfolding resumable_def tip_ok_def by blast
  obtain r d where rd: "reorg_restore 0 (is_cache s1, is_db s1) = (r, d)" by fastforce
  with assms(1, 2) s1 have s': "is_db s' = d" "is_cache s' = r" by (auto simp: index_run_def reorg_restore_all_def)
  from restore_tip [OF rd t i] have "tip_at b 0 r d" and known: "infos_known ?known d" by simp_all
  then obtain info where d: "db_last_block d = Some (word_of_nat b)" "db_block_info d (word_of_nat b) = Some info"
    "rc_blocks r = []"
    by (auto simp: tip_at_def)
  moreover have "sv_last_block v = last_block_id d"
    using assms(5) s' by (auto simp: server_new_def split: option.splits sum.splits)
  ultimately show ?thesis
    using known s' by (auto simp: infos_known_def last_block_id_def or_default_def Let_def)
qed

section \<open>Settings\<close>

text \<open>The log of the settings tells of the address, the user and the password of the node only whether they are
  empty.\<close>

lemma log_hides_credentials:
  "redacted (c\<lparr> cf_rpc_url := u, cf_rpc_user := n, cf_rpc_pass := p \<rparr>) = redacted c \<longleftrightarrow>
     (u = [] \<longleftrightarrow> cf_rpc_url c = []) \<and> (n = [] \<longleftrightarrow> cf_rpc_user c = []) \<and> (p = [] \<longleftrightarrow> cf_rpc_pass c = [])"
  by (auto simp: redacted_def redacted_str_def)

text \<open>A variable that is set to nothing counts as set: with \<open>BLK_DIR=\<close> in the settings the storage is opened over the
  directory of the empty path, which does not exist, and the thread of the block source panics at its start.\<close>

lemma empty_blk_dir:
  assumes "config_new network_from_str vars = Some cfg" and "vars ''BLK_DIR'' = Some []"
    and "chain_options_new path (cf_blk_dir cfg) (cf_index_dir cfg) coin last_height = Some options"
    and "fs_read_dir F (path []) = None"
  shows "chain_storage_new F entries walk options = None"
proof -
  have "cf_blk_dir cfg = Some []"
    using assms(1, 2) by (auto simp: config_new_def load_opt_env_def bind_eq_Some_conv)
  with assms(3) have "co_blockchain_dir options = Some (path [])" by (auto simp: chain_options_new_def)
  with assms(4) show ?thesis
    by (auto simp: chain_storage_new_def blk_files_from_path_def split: option.splits sum.splits)
qed

section \<open>Witness\<close>

definition example_tip :: index_state where
  "example_tip = (example_state 4999999)\<lparr> is_db := (is_db (example_state 4999999))\<lparr> db_last_block := Some 4999999,
     db_block_info := [4999999 \<mapsto> \<lparr> bi_hash = replicate 32 29, bi_created = 0 \<rparr>] \<rparr> \<rparr>"

definition example_config :: config where
  "example_config = \<lparr> cf_blk_dir = None, cf_rpc_url = ''http'', cf_rpc_user = ''u'', cf_rpc_pass = ''p'',
     cf_blockchain = Dogecoin, cf_index_dir = None, cf_network = NetTestnet, cf_jubilee_height = - 1,
     cf_start_height = 4260001, cf_server_url = ''0.0.0.0:8000'', cf_db_path = ''rocksdb'' \<rparr>"

lemma example_tip_run:
  "\<exists>s1. index_loop example_index_env True [example_event 5000000 [example_cb, example_spending]] example_tip = (s1, None)"
proof -
  let ?ev = "example_event 5000000 [example_cb, example_spending]"
  have c: "chain_ok example_index_env [?ev] (example_state 4999999)"
    by (rule example_chain) (simp_all add: example_event_def)
  have ok: "state_ok example_index_env example_tip"
    using example_state_ok [of 4999999] by (simp add: state_ok_def db_ok_def log_ok_def db_ledger_def example_tip_def)
  have "next_block example_index_env ?ev example_tip"
    using c by (simp add: next_block_def next_height_def valid_block_def example_tip_def example_env_ok)
  then have "chain_ok example_index_env [?ev] example_tip" by (simp split: sum.splits)
  from index_loop_safe [OF ok this] show ?thesis by blast
qed

theorem restart_point_witness:
  "\<exists>s' v h info. index_run example_index_env True [example_event 5000000 [example_cb, example_spending]] example_tip = (s', None)
    \<and> server_new example_fx (\<lambda>_ _. True) example_config (is_db s') [] = Some v
    \<and> sv_last_block v = \<lparr> bid_height = ucast h, bid_hash = bi_hash info \<rparr>
    \<and> db_last_block (is_db s') = Some (h :: u32) \<and> db_block_info (is_db s') h = Some info"
proof -
  let ?evs = "[example_event 5000000 [example_cb, example_spending]]"
  obtain s1 where s1: "index_loop example_index_env True ?evs example_tip = (s1, None)" using example_tip_run by blast
  then obtain s' where run: "index_run example_index_env True ?evs example_tip = (s', None)"
    by (cases "reorg_restore_all (is_cache s1, is_db s1)") (simp add: index_run_def del: index_loop.simps)
  obtain v where v: "server_new example_fx (\<lambda>_ _. True) example_config (is_db s') [] = Some v"
    by (simp add: server_new_def example_config_def coin_from_str_def client_new_def get_user_pass_def holders_init_def
        holders_kept_def)
  have "tip_at 4999999 0 (is_cache example_tip) (is_db example_tip)"
    by (auto simp: tip_at_def example_tip_def example_state_def reorg_cache_new_def le_antisym)
  then have tip: "tip_ok example_tip" by (auto simp: tip_ok_def)
  have "fits example_index_env (example_event 5000000 [example_cb, example_spending]) example_tip"
    by (simp add: fits_def roll_back_def example_event_def example_index_env_def example_parser_def example_tip_def example_env_def)
  then have "follows example_index_env True ?evs example_tip" by (simp split: sum.splits)
  from restart_point [OF run _ tip this v] run v show ?thesis by blast
qed

end
