(* ===== verification/Routes.thy ===== *)
theory Routes
  imports Texts
begin

text \<open>
  The routes of the REST interface (\<open>run_rest\<close> of \<open>src/rest/mod.rs\<close> and \<open>docs_routes\<close> of \<open>src/rest/docs.rs\<close>), and
  the inscription ids of its responses (\<open>RestInscriptionId\<close> of \<open>src/rest/types.rs\<close>).  The web framework splits the
  path of a request at its slashes and decodes the parts; a part written in braces in a route takes any nonempty one.
\<close>

section \<open>Routes\<close>

datatype verb = Get | Post

datatype endpoint =
    EpAddressTokens string
  | EpAddressHistory string
  | EpAddressTokensTick string
  | EpAddressTokenBalance string string
  | EpTokens
  | EpToken
  | EpTokenSupplies
  | EpTokenTransferProof string string
  | EpHolders
  | EpHoldersStats
  | EpEventsByHeight string
  | EpTxidEvents string
  | EpTokenEvents string
  | EpStatus
  | EpProofOfHistory
  | EpDocsPage
  | EpDocsJson
  | EpAllAddresses
  | EpAllTickers
  | EpSubscribe

definition route_path :: "string list \<Rightarrow> (verb \<times> endpoint) option" where
  "route_path parts =
     (case parts of
        [a] \<Rightarrow>
          if a = ''tokens'' then Some (Get, EpTokens)
          else if a = ''token'' then Some (Get, EpToken)
          else if a = ''token-supplies'' then Some (Post, EpTokenSupplies)
          else if a = ''holders'' then Some (Get, EpHolders)
          else if a = ''holders-stats'' then Some (Get, EpHoldersStats)
          else if a = ''status'' then Some (Get, EpStatus)
          else if a = ''proof-of-history'' then Some (Get, EpProofOfHistory)
          else if a = ''docs'' then Some (Get, EpDocsPage)
          else if a = ''all-addresses'' then Some (Get, EpAllAddresses)
          else if a = ''all-tickers'' then Some (Get, EpAllTickers)
          else if a = ''events'' then Some (Post, EpSubscribe)
          else None
      | [a, b] \<Rightarrow>
          if b = [] then None
          else if a = ''address'' then Some (Get, EpAddressTokens b)
          else if a = ''events'' then Some (Get, EpEventsByHeight b)
          else if a = ''txid'' then Some (Get, EpTxidEvents b)
          else if a = ''token-events'' then Some (Get, EpTokenEvents b)
          else None
      | [a, b, c] \<Rightarrow>
          if a = ''address'' \<and> b \<noteq> [] \<and> c = ''tokens'' then Some (Get, EpAddressTokens b)
          else if a = ''address'' \<and> b \<noteq> [] \<and> c = ''history'' then Some (Get, EpAddressHistory b)
          else if a = ''address'' \<and> b \<noteq> [] \<and> c = ''tokens-tick'' then Some (Get, EpAddressTokensTick b)
          else if a = ''docs'' \<and> b = ''private'' \<and> c = ''api.json'' then Some (Get, EpDocsJson)
          else None
      | [a, b, c, d] \<Rightarrow>
          if a = ''address'' \<and> b \<noteq> [] \<and> c \<noteq> [] \<and> d = ''balance'' then Some (Get, EpAddressTokenBalance b c)
          else if a = ''token'' \<and> b = ''proof'' \<and> c \<noteq> [] \<and> d \<noteq> [] then Some (Get, EpTokenTransferProof c d)
          else None
      | _ \<Rightarrow> None)"

datatype routed = Found endpoint | MethodNotAllowed | NotFound

definition rest_route :: "verb \<Rightarrow> string list \<Rightarrow> routed" where
  "rest_route v parts =
     (case route_path parts of
        None \<Rightarrow> NotFound
      | Some (w, e) \<Rightarrow> if v = w then Found e else MethodNotAllowed)"

section \<open>Inscription ids\<close>

record rest_inscription_id =
  ri_txid :: hash32
  ri_index :: u32

definition rest_inscription_id_from :: "inscription_id \<Rightarrow> rest_inscription_id" where
  "rest_inscription_id_from i = \<lparr> ri_txid = iid_txid i, ri_index = iid_index i \<rparr>"

definition show_rest_inscription_id :: "txid_text \<Rightarrow> rest_inscription_id \<Rightarrow> bytes" where
  "show_rest_inscription_id X i = tt_show X (ri_txid i) @ [105] @ show_u32 (ri_index i)"

definition parse_rest_inscription_id :: "txid_text \<Rightarrow> bytes \<Rightarrow> parse_error + rest_inscription_id" where
  "parse_rest_inscription_id X s =
     (if \<exists>b \<in> set s. 128 \<le> b then Inl PeCharacter
      else if length s < 64 + 2 then Inl (PeLength (length s))
      else (let txid = take 64 s; separator = s ! 64 in
        if separator \<noteq> 105 then Inl (PeSeparator separator)
        else (let vout = drop (64 + 1) s in
          case tt_parse X txid of
            None \<Rightarrow> Inl PeTxid
          | Some txid \<Rightarrow>
              (case parse_u32 vout of
                 None \<Rightarrow> Inl PeIndex
               | Some index \<Rightarrow> Inr \<lparr> ri_txid = txid, ri_index = index \<rparr>))))"

text \<open>The two parsers and the two printers are the same.\<close>

lemma rest_inscription_id_same:
  "parse_rest_inscription_id X s = Sum_Type.map_sum id rest_inscription_id_from (parse_inscription_id X s)"
  "show_rest_inscription_id X (rest_inscription_id_from i) = show_inscription_id X i"
  by (auto simp: parse_rest_inscription_id_def parse_inscription_id_def rest_inscription_id_from_def Let_def
      show_rest_inscription_id_def show_inscription_id_def split: option.splits)

section \<open>Reaching every handler\<close>

text \<open>The address that clients use for an endpoint, with nonempty arguments.\<close>

fun path_of :: "endpoint \<Rightarrow> verb \<times> string list" where
  "path_of (EpAddressTokens a) = (Get, [''address'', a])"
| "path_of (EpAddressHistory a) = (Get, [''address'', a, ''history''])"
| "path_of (EpAddressTokensTick a) = (Get, [''address'', a, ''tokens-tick''])"
| "path_of (EpAddressTokenBalance a t) = (Get, [''address'', a, t, ''balance''])"
| "path_of EpTokens = (Get, [''tokens''])"
| "path_of EpToken = (Get, [''token''])"
| "path_of EpTokenSupplies = (Post, [''token-supplies''])"
| "path_of (EpTokenTransferProof a p) = (Get, [''token'', ''proof'', a, p])"
| "path_of EpHolders = (Get, [''holders''])"
| "path_of EpHoldersStats = (Get, [''holders-stats''])"
| "path_of (EpEventsByHeight h) = (Get, [''events'', h])"
| "path_of (EpTxidEvents t) = (Get, [''txid'', t])"
| "path_of (EpTokenEvents t) = (Get, [''token-events'', t])"
| "path_of EpStatus = (Get, [''status''])"
| "path_of EpProofOfHistory = (Get, [''proof-of-history''])"
| "path_of EpDocsPage = (Get, [''docs''])"
| "path_of EpDocsJson = (Get, [''docs'', ''private'', ''api.json''])"
| "path_of EpAllAddresses = (Get, [''all-addresses''])"
| "path_of EpAllTickers = (Get, [''all-tickers''])"
| "path_of EpSubscribe = (Post, [''events''])"

lemmas route_defs = rest_route_def route_path_def

lemma route_reaches: "[] \<notin> set (snd (path_of e)) \<Longrightarrow> rest_route (fst (path_of e)) (snd (path_of e)) = Found e"
  by (cases e) (auto simp: route_defs)

text \<open>A request leads to an endpoint by its own path, or to the balances of an address by the longer one.\<close>

lemma route_unique:
  assumes "rest_route v parts = Found e"
  shows "(v, parts) = path_of e \<or> (\<exists>a. e = EpAddressTokens a \<and> (v, parts) = (Get, [''address'', a, ''tokens'']))"
  using assms
  by (auto simp: route_defs split: list.splits if_splits)

end
