(* ===== verification/Tables.thy ===== *)
theory Tables
  imports Storage Blockchain
begin

text \<open>
  Opening the database (\<open>packages/rocksdb-wrapper/src/utils.rs\<close>, \<open>definition.rs\<close>, \<open>internal.rs\<close> and \<open>RocksDB\<close> of
  \<open>storage.rs\<close>): the tables of \<open>generate_db_code!\<close> with the column families they are kept in, and the definition of
  tables with a version.

  RocksDB is outside the program.  A store is its column families by name, without the default one, which is always there and is not used; \<open>open_cf\<close> opens a store with the listed
  families, and \<open>None\<close> is the \<open>unwrap\<close> that panics.
\<close>

type_synonym store = "string \<rightharpoonup> (bytes \<rightharpoonup> bytes)"

section \<open>The tables of the indexer\<close>

definition ascii_upper_char :: "char \<Rightarrow> char" where
  "ascii_upper_char c =
     (if 97 \<le> (of_char c :: nat) \<and> (of_char c :: nat) \<le> 122 then char_of (of_char c - 32 :: nat) else c)"

text \<open>\<open>to_uppercase\<close> of the names, which are ASCII.\<close>

definition family_name :: "string \<Rightarrow> string" where
  "family_name = map ascii_upper_char"

definition db_tables :: "string list" where
  "db_tables = [''token_to_meta'', ''address_location_to_transfer'', ''address_token_to_balance'',
     ''address_token_to_history'', ''block_info'', ''prevouts'', ''outpoint_to_partials'',
     ''outpoint_to_inscription_offsets'', ''last_block'', ''last_history_id'', ''proof_of_history'', ''block_events'',
     ''fullhash_to_address'', ''outpoint_to_event'', ''token_id_to_event'']"

definition open_db :: "(string list \<Rightarrow> store \<Rightarrow> store option) \<Rightarrow> string list \<Rightarrow> store \<Rightarrow> store option" where
  "open_db open_cf tables s = open_cf tables s"

text \<open>\<open>DB::open\<close>: the store and the family of every field.\<close>

definition db_open ::
  "(string list \<Rightarrow> store \<Rightarrow> store option) \<Rightarrow> store \<Rightarrow> (store \<times> (string \<times> string) list) option" where
  "db_open open_cf s =
     map_option (\<lambda>s. (s, map (\<lambda>name. (name, family_name name)) db_tables))
       (open_db open_cf (map family_name db_tables) s)"

section \<open>Tables with a version\<close>

definition table_info_cf :: string where
  "table_info_cf = ''__TABLE_INFO_CF''"

definition db_info_cf :: string where
  "db_info_cf = ''__DB_INFO_CF''"

record db_info =
  di_version :: nat

datatype open_error = OeUnsupported nat | OeMigration nat

record tables_def =
  td_tables :: "string list"
  td_version :: nat
  td_migrate :: "nat \<Rightarrow> store \<Rightarrow> open_error + store"

text \<open>The migration a definition has that gives none.\<close>

definition migrate_default :: "nat \<Rightarrow> store \<Rightarrow> open_error + store" where
  "migrate_default version s = Inl (OeMigration version)"

text \<open>The record of the version is kept under the empty key, in the encoding of the serde library.\<close>

record info_codec =
  ic_enc :: "db_info \<Rightarrow> bytes"
  ic_dec :: "bytes \<Rightarrow> db_info option"

definition set_version :: "info_codec \<Rightarrow> tables_def \<Rightarrow> store \<Rightarrow> store option" where
  "set_version C td s =
     map_option (\<lambda>info. s(db_info_cf \<mapsto> info([] \<mapsto> ic_enc C \<lparr> di_version = td_version td \<rparr>))) (s db_info_cf)"

definition tables_open ::
  "(string list \<Rightarrow> store \<Rightarrow> store option) \<Rightarrow> info_codec \<Rightarrow> tables_def \<Rightarrow> store \<Rightarrow> (open_error + store) option"
where
  "tables_open open_cf C td s =
     Option.bind (open_db open_cf ([table_info_cf, db_info_cf] @ td_tables td) s) (\<lambda>s.
     Option.bind (s db_info_cf) (\<lambda>info.
     case info [] of
       None \<Rightarrow> map_option Inr (set_version C td s)
     | Some v \<Rightarrow>
         Option.bind (ic_dec C v) (\<lambda>found.
           if td_version td < di_version found then Some (Inl (OeUnsupported (di_version found)))
           else if di_version found < td_version td
           then (case td_migrate td (di_version found) s of
             Inl e \<Rightarrow> Some (Inl e)
           | Inr s \<Rightarrow> map_option Inr (set_version C td s))
           else map_option Inr (set_version C td s))))"

section \<open>What opening gives\<close>

text \<open>What RocksDB does: with the options of the code an opened store has exactly the listed families, the old ones
  with their content and the new ones empty.\<close>

definition opens_families :: "(string list \<Rightarrow> store \<Rightarrow> store option) \<Rightarrow> bool" where
  "opens_families open_cf \<longleftrightarrow> (\<forall>names s s'. open_cf names s = Some s' \<longrightarrow>
     s' = (\<lambda>n. if n \<in> set names then (case s n of Some t \<Rightarrow> Some t | None \<Rightarrow> Some Map.empty) else None))
     \<and> (\<forall>names s. dom s \<subseteq> set names \<longrightarrow> open_cf names s \<noteq> None)"

text \<open>No two tables share a family, so a write to one of them is no write to another.\<close>

lemma families_distinct: "distinct (map family_name db_tables)" "distinct db_tables" "length db_tables = 15"
  by (simp_all add: db_tables_def family_name_def ascii_upper_char_def of_char_def char_of_def)

text \<open>Every successful opening writes the version of the program.\<close>

lemma opened_sets_version:
  assumes "tables_open open_cf C td s = Some (Inr s')"
  shows "\<exists>s1. set_version C td s1 = Some s'"
proof -
  obtain s1 info where s1: "open_db open_cf ([table_info_cf, db_info_cf] @ td_tables td) s = Some s1" "s1 db_info_cf = Some info"
    using assms by (auto simp: tables_open_def bind_eq_Some_conv)
  show ?thesis
  proof (cases "info []")
    case None
    with assms s1 show ?thesis by (auto simp: tables_open_def)
  next
    case (Some v)
    with assms s1 obtain found where found: "ic_dec C v = Some found"
      by (auto simp: tables_open_def bind_eq_Some_conv)
    show ?thesis using assms s1 Some found
      by (cases "td_migrate td (di_version found) s1") (auto simp: tables_open_def split: if_splits)
  qed
qed

text \<open>Opening again with the same version finds everything as it was left; an older program refuses.\<close>

lemma tables_open_again:
  assumes law: "opens_families open_cf" and codec: "\<And>i. ic_dec C (ic_enc C i) = Some i"
    and first: "tables_open open_cf C td s = Some (Inr s')" and whole: "dom s' = set ([table_info_cf, db_info_cf] @ td_tables td)"
  shows "tables_open open_cf C td s' = Some (Inr s')"
    and "td_version td' < td_version td \<Longrightarrow> td_tables td' = td_tables td \<Longrightarrow>
      tables_open open_cf C td' s' = Some (Inl (OeUnsupported (td_version td)))"
proof -
  let ?names = "[table_info_cf, db_info_cf] @ td_tables td"
  obtain s1 where "set_version C td s1 = Some s'"
    using first opened_sets_version by blast
  then obtain info where info: "s' db_info_cf = Some info" "info [] = Some (ic_enc C \<lparr> di_version = td_version td \<rparr>)"
    by (auto simp: set_version_def)
  obtain s2 where s2: "open_cf ?names s' = Some s2" using law whole unfolding opens_families_def by blast
  have "s2 = (\<lambda>n. if n \<in> set ?names then (case s' n of Some t \<Rightarrow> Some t | None \<Rightarrow> Some Map.empty) else None)"
    using law s2 unfolding opens_families_def by blast
  also have "\<dots> = s'" using whole by (auto simp: fun_eq_iff split: option.splits)
  finally have again: "open_cf ?names s' = Some s'" using s2 by simp
  have "set_version C td s' = Some s'"
    using info by (simp add: set_version_def fun_upd_idem)
  with again info codec show "tables_open open_cf C td s' = Some (Inr s')"
    by (simp add: tables_open_def open_db_def)
  show "td_version td' < td_version td \<Longrightarrow> td_tables td' = td_tables td \<Longrightarrow>
      tables_open open_cf C td' s' = Some (Inl (OeUnsupported (td_version td)))"
    using again info codec by (simp add: tables_open_def open_db_def)
qed

end
