(* ===== verification/Spec2Isabelle.thy ===== *)
theory Spec2Isabelle
  imports Blockchain DataProps TokenProps SharedProps ReorgProps HistoryProps SafetyProps ScriptProps ChainProps ScanProps PageProps AddressProps NodeProps TypeProps BlkProps StartProps Routes Tables
begin

text \<open>
  A verification development of the WJK-20 token indexer, a Rust server that reads the blocks of a Bitcoin-like
  chain, follows the token inscriptions in them and answers questions about balances over a REST interface.

  \<^bold>\<open>The program and its parts.\<close>  A thread of \<open>packages/new-blk-parser\<close> reads the blocks: first those stored in
  the files of the node, then those the node gives over its JSON-RPC interface, going back when the chain of the
  node leaves the one that was sent.  It sends block events over a channel to the indexing loop of
  \<open>src/inscriptions/mod.rs\<close>.  For every block the loop resolves the spent outputs, finds the inscriptions in the
  input scripts, moves the inscriptions of earlier blocks along with their satoshis, and hands deploys, mints,
  transfer inscriptions and their spends to the token cache of \<open>src/tokens/parser.rs\<close>, which executes them on the
  ledger.  The results are written to the tables of a RocksDB database through \<open>packages/rocksdb-wrapper\<close>; for the
  blocks near the tip an undo log is kept in memory, which takes blocks back when the chain is reorganised and when
  the server stops.  A third thread publishes the new history to subscribers, and the REST handlers of \<open>src/rest\<close>
  read the database and the holder ranking, which is kept in memory.

  \<^bold>\<open>Theories and sources.\<close>  Each theory has one group of definitions for each part of the code it models, under
  the names of the source; the theories ending in \<open>Props\<close>, \<open>Inv\<close>, \<open>Safe\<close> and the like hold only proofs.

  \<^item> \<open>Prelude\<close>, \<open>Fixed\<close>: machine words, endianness, maps, runs of panicking steps; the token amounts.
  \<^item> \<open>Blockchain\<close>: chains, activation heights, coins (\<open>src/blockchain.rs\<close>, \<open>src/main.rs\<close>, \<open>coins.rs\<close>).
  \<^item> \<open>Ticks\<close>, \<open>Proto\<close>: ticks and the JSON messages (\<open>src/tokens/structs.rs\<close>, \<open>proto.rs\<close>).
  \<^item> \<open>DbTypes\<close>, \<open>Codec\<close>, \<open>Storage\<close>, \<open>Scan\<close>, \<open>DataProps\<close>, \<open>ScanProps\<close>: the records of the database and their
    bytes (\<open>src/db/structs.rs\<close>, \<open>item.rs\<close>), the storage wrapper over them (\<open>storage.rs\<close>) and its ordered scans; \<open>Tables\<close>: opening them
    (\<open>utils.rs\<close>, \<open>definition.rs\<close>).
  \<^item> \<open>Holders\<close>: the ranking of the holders (\<open>src/tokens/holders.rs\<close>).
  \<^item> \<open>TokenCache\<close> with \<open>TokenInv\<close>, \<open>TokenSafe\<close>, \<open>TokenAccount\<close>, \<open>TokenSim\<close>, \<open>TokenCollect\<close>, \<open>TokenProps\<close>,
    \<open>SharedProps\<close>: the ledger and the execution of a block's actions (\<open>src/tokens/parser.rs\<close>).
  \<^item> \<open>Database\<close>, \<open>Reorg\<close>, \<open>ReorgProps\<close>: the tables, the writes of a block and the undo log (\<open>src/db/mod.rs\<close>,
    \<open>src/inscriptions/process_data.rs\<close>, \<open>src/reorg.rs\<close>).
  \<^item> \<open>Scripts\<close>, \<open>ScriptProps\<close>: inscriptions in scripts (\<open>src/inscriptions/structs.rs\<close>, \<open>envelope.rs\<close>, \<open>tag.rs\<close>).
  \<^item> \<open>Searcher\<close>, \<open>BlockParser\<close> with \<open>ParserInv\<close>, \<open>ParserOnce\<close>, \<open>ParserCalls\<close>, \<open>TrackProps\<close>: where inscriptions go
    (\<open>searcher.rs\<close>, \<open>leaked.rs\<close>, \<open>parser.rs\<close> of \<open>src/inscriptions\<close>).
  \<^item> \<open>Events\<close>, \<open>Indexer\<close> with \<open>IndexInv\<close>, \<open>IndexSafe\<close>, \<open>IndexLoop\<close>, \<open>IndexProps\<close>, \<open>TokenBlock\<close>,
    \<open>SafetyProps\<close>, \<open>HistoryProps\<close>, \<open>TypeProps\<close>: one block, a block with a token as the witness of the others, the indexing loop, the history hash and the event sender (\<open>src/inscriptions/indexer.rs\<close>, \<open>mod.rs\<close>, \<open>src/server\<close>).
  \<^item> \<open>Wire\<close>, \<open>WireProps\<close>, \<open>Address\<close>, \<open>AddressProps\<close>: blocks, transactions and addresses (\<open>blockchain/proto\<close>).
  \<^item> \<open>Checkpoints\<close>, \<open>Follow\<close>, \<open>FollowInv\<close>, \<open>FollowProps\<close>: the chain of the node followed over an ideal node
    (\<open>checkpoint.rs\<close>, \<open>lib.rs\<close>); \<open>NodeClient\<close>, \<open>NodeProps\<close>: the same over the client with its retries (\<open>client.rs\<close>).
  \<^item> \<open>ChainStore\<close>, \<open>ChainProps\<close>, \<open>BlkFiles\<close>, \<open>BlkProps\<close>: the stored blocks, their index and their files
    (\<open>index.rs\<close>, \<open>chain.rs\<close>, \<open>blk_file.rs\<close>).
  \<^item> \<open>Startup\<close>, \<open>StartProps\<close>: the settings and the start of the server (\<open>src/main.rs\<close>, \<open>src/config.rs\<close>,
    \<open>src/server/mod.rs\<close>).
  \<^item> \<open>Texts\<close>, \<open>Rest\<close>, \<open>RestProps\<close>, \<open>PageProps\<close>, \<open>Routes\<close>: the REST interface (\<open>src/rest\<close>).

  \<^bold>\<open>How the code is modelled.\<close>  Structs are records, enums datatypes, \<open>u8\<close> to \<open>u64\<close> words with the wrap-around of
  a release build; a byte string or a text is a list of bytes.  A table is a map from its typed keys, and the
  theorems of \<open>ScanProps\<close> relate that to the byte level store.  A vector collected from a hash map is a map or a set.
  A function that can fail returns a sum or an option; a panic of the indexing thread is the value \<open>IePanic\<close> or
  \<open>None\<close>, one of a handler \<open>HandlerPanic\<close>.  The indexing loop works on a record of the database, the holders, the undo
  log, the previous height and the published events.

  \<^bold>\<open>Parameters.\<close>  What is outside the repository is an argument: the fixed point type (\<open>fixed_ops\<close>), SHA-256, the
  script and address library (\<open>script_ops\<close>, \<open>wire_ops\<close>), JSON (\<open>json_ops\<close>), the order in which a hash map is walked,
  the entries of LevelDB, the iterator of RocksDB, the node (\<open>node\<close> as a view for each request, \<open>daemon\<close> as the reply
  to each request), the file system (\<open>files\<close>), the environment variables and the text of a transaction id.  What a
  theorem needs of them is a hypothesis that its witness discharges for concrete functions.

  \<^bold>\<open>What is shown.\<close>
  \<^item> The ledger: executing the actions of a block on a sound ledger never panics and leaves a sound one (amounts fit,
    the escrow of an account equals its open transfers, no token is minted beyond its supply, the ranking agrees
    with the accounts), as long as its transfer inscriptions lie at distinct locations; what happens when two share one
    is stated apart, panic included.  The books balance, and loading only the part of the tables a block names
    changes nothing.
  \<^item> The block: inscriptions stay on their satoshis, spent outputs are resolved exactly, parsing does not panic on
    blocks a node accepts, every record keeps its type, and the proof of history is the hash of what the tables have
    for the block, the sender's entry of a send before the recipient's.
  \<^item> The loop: a growing chain is indexed without an error, on Dogecoin always and on the other chains until a block has
    two transfer inscriptions at one location, which only there the parser lets pass; an orphaned branch is taken
    back exactly, whatever its length, as far as the undo log reaches, but for the outputs its blocks created,
    which stay; and the next start goes on from a block that was indexed.  The sender of events publishes all it
    receives before it stops.
  \<^item> The block source: blocks are sent in order and linked, a node that stands still is caught up with in one pass;
    a pass ends after so many calls with blocks of consecutive heights, whatever the node answers; a pass over the
    client is the pass over the node that gives each call the client's answer at that time; the index of the stored
    blocks is the chain of records below the greatest height that has one only, and stored blocks are found and
    read back exactly.
  \<^item> Bytes: blocks, envelopes, scripts and seven kinds of records read back what was written, two kinds do not; scans see
    every entry in order.
  \<^item> The interface: what pages of histories and holders contain, and which requests panic.
  Several theorems state where the code does not do what it means to; the findings of the manifest name them.

  \<^bold>\<open>Interfaces.\<close>  \<open>safe_steps\<close>, \<open>accounted_steps\<close> and \<open>typed_steps\<close> are contracts of a step that may panic, with what a
  run of them keeps; the execution of token actions is interpreted for each.  \<open>parser_calls\<close> is what the block
  parser asks of the cache it fills.  \<open>pebble\<close>, \<open>rocks_table\<close> and \<open>consensus_codec\<close> are the codecs and tables, each
  interpreted for the record types of the database.

  \<^bold>\<open>Loops and bounds.\<close>  Every function is total.  Recursions that are not structural have a measure: the checkpoints
  or blocks left, the height still to reach, the entries left.  The endless loops take the list of what they are
  given: \<open>index_loop\<close> the events, \<open>event_sender_run\<close> the polls, \<open>follow\<close> and \<open>client_follow\<close> a number of passes, each of
  which ends (\<open>pass_bounded\<close>).  Heights are below \<open>2 ^ 32\<close> where they pass between \<open>u64\<close> and \<open>u32\<close>; the undo log has
  thirty blocks and a call of the node ten tries, as in the code.

  \<^bold>\<open>Not modelled.\<close>  Logging, progress display and the debug printers; the web framework, compression, cross-origin
  headers and the generated documentation; flushing RocksDB, its record of type names and sizes and the macro that
  derives tables; the JSON-RPC and HTTP libraries; the wrappers of \<open>src/rest/wrappers\<close>, which pass every call to the library
  type; spawning and joining the threads and the signal handler of \<open>main\<close>; the iterative \<open>Drop\<close> of a checkpoint, which
  has no effect but on the stack; and how long anything takes.
\<close>

end
